(* ===== verification/Prelude.thy ===== *)
theory Prelude
  imports Main "HOL-Library.Word"
begin

text \<open>
  Shared vocabulary of the gateway model: the width of Go's integers, the shape of an API
  error, and the little language in which the store and the handlers are written, state
  passing with an error result and an all-or-nothing transaction.
\<close>

named_theorems prog_simps \<open>unfolding the state-and-error combinators\<close>

section \<open>Go integers\<close>

text \<open>
  Go's int and int64 are 64-bit two's complement. Values are kept as integers and every
  addition whose overflow the code does not exclude goes through \<open>wrap64\<close>; the lemma
  \<open>wrap64_sint\<close> ties it to the 64-bit word.
\<close>

definition wrap64 :: "int \<Rightarrow> int" where
  "wrap64 x = (x + 2 ^ 63) mod 2 ^ 64 - 2 ^ 63"

definition int64_ok :: "int \<Rightarrow> bool" where
  "int64_ok x \<longleftrightarrow> - (2 ^ 63) \<le> x \<and> x < 2 ^ 63"

lemma wrap64_id [simp]: "int64_ok x \<Longrightarrow> wrap64 x = x"
  by (simp add: wrap64_def int64_ok_def)

lemma wrap64_ok [simp]: "int64_ok (wrap64 x)"
  by (simp add: wrap64_def int64_ok_def)

lemma wrap64_sint: "wrap64 x = sint (word_of_int x :: 64 word)"
  by (simp add: wrap64_def int_word_sint)

text \<open>Go's integer division truncates towards zero.\<close>

definition go_div :: "int \<Rightarrow> int \<Rightarrow> int" where
  "go_div a b = sgn a * sgn b * (\<bar>a\<bar> div \<bar>b\<bar>)"

lemma go_div_nonneg: "0 \<le> a \<Longrightarrow> 0 < b \<Longrightarrow> go_div a b = a div b"
  by (cases "a = 0") (simp_all add: go_div_def)

section \<open>API errors\<close>

text \<open>
  The OpenAI-style error envelope of internal/apierror: HTTP status, machine-readable code,
  error type and the Retry-After header where one is set. The prose message is not part of
  the model.
\<close>

record api_error =
  ae_status :: nat
  ae_code :: string
  ae_type :: string
  ae_retry :: "int option"

definition api_err :: "nat \<Rightarrow> string \<Rightarrow> string \<Rightarrow> api_error" where
  "api_err st c t = \<lparr>ae_status = st, ae_code = c, ae_type = t, ae_retry = None\<rparr>"

definition api_err_retry :: "nat \<Rightarrow> string \<Rightarrow> string \<Rightarrow> int \<Rightarrow> api_error" where
  "api_err_retry st c t n = \<lparr>ae_status = st, ae_code = c, ae_type = t, ae_retry = Some n\<rparr>"

lemma api_err_sel [simp]:
  "ae_status (api_err st c t) = st" "ae_code (api_err st c t) = c"
  "ae_type (api_err st c t) = t" "ae_retry (api_err st c t) = None"
  "ae_status (api_err_retry st c t n) = st" "ae_code (api_err_retry st c t n) = c"
  "ae_type (api_err_retry st c t n) = t" "ae_retry (api_err_retry st c t n) = Some n"
  by (simp_all add: api_err_def api_err_retry_def)

section \<open>State passing with errors\<close>

type_synonym ('s, 'e, 'a) prog = "'s \<Rightarrow> ('e + 'a) \<times> 's"

definition retp :: "'a \<Rightarrow> ('s, 'e, 'a) prog" where
  [prog_simps]: "retp a = (\<lambda>s. (Inr a, s))"

definition failp :: "'e \<Rightarrow> ('s, 'e, 'a) prog" where
  [prog_simps]: "failp e = (\<lambda>s. (Inl e, s))"

definition bindp :: "('s, 'e, 'a) prog \<Rightarrow> ('a \<Rightarrow> ('s, 'e, 'b) prog) \<Rightarrow> ('s, 'e, 'b) prog" where
  [prog_simps]: "bindp m k = (\<lambda>s. case m s of (Inl e, s') \<Rightarrow> (Inl e, s') | (Inr a, s') \<Rightarrow> k a s')"

definition getp :: "('s \<Rightarrow> 'a) \<Rightarrow> ('s, 'e, 'a) prog" where
  [prog_simps]: "getp g = (\<lambda>s. (Inr (g s), s))"

definition modp :: "('s \<Rightarrow> 's) \<Rightarrow> ('s, 'e, unit) prog" where
  [prog_simps]: "modp g = (\<lambda>s. (Inr (), g s))"

text \<open>
  A statement sent to the database may fail for reasons outside the program (connection,
  timeout). \<open>stmt f k e m\<close> is statement number k: it fails with e, changing nothing, when
  the fault plan f says so. \<open>transact\<close> is Begin ... Commit with the deferred Rollback: an
  error discards every change made inside.
\<close>

definition stmt :: "(nat \<Rightarrow> bool) \<Rightarrow> nat \<Rightarrow> 'e \<Rightarrow> ('s, 'e, 'a) prog \<Rightarrow> ('s, 'e, 'a) prog" where
  [prog_simps]: "stmt f k e m = (\<lambda>s. if f k then (Inl e, s) else m s)"

definition transact :: "('s, 'e, 'a) prog \<Rightarrow> ('s, 'e, 'a) prog" where
  "transact m = (\<lambda>s. case m s of (Inl e, _) \<Rightarrow> (Inl e, s) | (Inr a, s') \<Rightarrow> (Inr a, s'))"

definition no_faults :: "nat \<Rightarrow> bool" where
  [simp]: "no_faults k = False"

lemma transact_Inl: "transact m s = (Inl e, s') \<Longrightarrow> s' = s"
  by (auto simp: transact_def split: prod.splits sum.splits)

lemma transact_Inr: "transact m s = (Inr a, s') \<longleftrightarrow> m s = (Inr a, s')"
  by (auto simp: transact_def split: prod.splits sum.splits)

lemma transact_invariant:
  assumes "\<And>a s'. m s = (Inr a, s') \<Longrightarrow> P s'" and "P s"
  shows "P (snd (transact m s))"
  using assms by (auto simp: transact_def split: prod.splits sum.splits)

lemma transact_atomic: "isl (fst (transact m s)) \<Longrightarrow> snd (transact m s) = s"
  by (auto simp: transact_def split: prod.splits sum.splits)

lemma bindp_Inr: "bindp m k s = (Inr b, s'') \<longleftrightarrow> (\<exists>a s'. m s = (Inr a, s') \<and> k a s' = (Inr b, s''))"
  by (auto simp: bindp_def split: prod.splits sum.splits)

lemma stmt_Inr: "stmt f k e m s = (Inr b, s') \<longleftrightarrow> \<not> f k \<and> m s = (Inr b, s')"
  by (auto simp: stmt_def)

lemma prog_Inr [simp]:
  "retp a s = (Inr b, s') \<longleftrightarrow> b = a \<and> s' = s"
  "failp e s = (Inr b, s') \<longleftrightarrow> False"
  "getp g s = (Inr c, s') \<longleftrightarrow> c = g s \<and> s' = s"
  "modp h s = (Inr u, s') \<longleftrightarrow> s' = h s"
  by (auto simp: retp_def failp_def getp_def modp_def)

lemmas prog_run = bindp_Inr stmt_Inr transact_Inr

section \<open>Lists and tables\<close>

text \<open>A table with a key column: the first row with the key, and the update of every such row.\<close>

definition row_of :: "('r \<Rightarrow> 'k) \<Rightarrow> 'k \<Rightarrow> 'r list \<Rightarrow> 'r option" where
  "row_of key k rs = find (\<lambda>r. key r = k) rs"

definition upd_where :: "('r \<Rightarrow> bool) \<Rightarrow> ('r \<Rightarrow> 'r) \<Rightarrow> 'r list \<Rightarrow> 'r list" where
  "upd_where p g rs = map (\<lambda>r. if p r then g r else r) rs"

lemma row_of_Some: "row_of key k rs = Some r \<Longrightarrow> r \<in> set rs \<and> key r = k"
  by (auto simp: row_of_def find_Some_iff)

lemma row_of_None: "row_of key k rs = None \<longleftrightarrow> (\<forall>r \<in> set rs. key r \<noteq> k)"
  by (auto simp: row_of_def find_None_iff)

lemma row_of_distinct:
  "distinct (map key rs) \<Longrightarrow> r \<in> set rs \<Longrightarrow> row_of key (key r) rs = Some r"
proof (induction rs)
  case (Cons a rs)
  then show ?case by (cases "a = r") (auto simp: row_of_def image_iff)
qed simp

lemma map_key_upd_where [simp]:
  "(\<And>r. key (g r) = key r) \<Longrightarrow> map key (upd_where p g rs) = map key rs"
  by (simp add: upd_where_def)

lemma length_upd_where [simp]: "length (upd_where p g rs) = length rs"
  by (simp add: upd_where_def)

lemma set_upd_where: "set (upd_where p g rs) = (\<lambda>r. if p r then g r else r) ` set rs"
  by (simp add: upd_where_def)

lemma upd_where_none: "(\<And>r. r \<in> set rs \<Longrightarrow> \<not> p r) \<Longrightarrow> upd_where p g rs = rs"
  by (induction rs) (auto simp: upd_where_def)

lemma sum_list_upd_where:
  fixes w :: "'r \<Rightarrow> 'v::ab_group_add"
  assumes "distinct (map key rs)" and "r \<in> set rs"
  shows "(\<Sum>x\<leftarrow>upd_where (\<lambda>x. key x = key r \<and> q x) g rs. w x) =
         (\<Sum>x\<leftarrow>rs. w x) + (if q r then w (g r) - w r else 0)"
  using assms
proof (induction rs)
  case (Cons a rs)
  show ?case
  proof (cases "a = r")
    case True
    then have "upd_where (\<lambda>x. key x = key r \<and> q x) g rs = rs"
      using Cons.prems by (intro upd_where_none) (auto simp: image_iff)
    then show ?thesis using True by (simp add: upd_where_def)
  next
    case False
    then have "r \<in> set rs" "key a \<noteq> key r" using Cons.prems by (auto simp: image_iff)
    then show ?thesis using Cons by (simp add: upd_where_def)
  qed
qed simp

end
