(* ===== verification/Float64.thy ===== *)
theory Float64
  imports Complex_Main Prelude "HOL-Library.Log_Nat"
begin

text \<open>
  Go's float64 on its finite values: a value is the rational it denotes, and every
  arithmetic operation is the exact rational result rounded by \<open>rnd64\<close>, to nearest with
  ties to even, 53 significant bits, smallest exponent -1074 (IEEE 754 binary64 as the Go
  specification prescribes, without fused multiply-add). Magnitudes of \<open>2 powi 1024\<close> and
  more do not occur in the modelled code, so the only infinite or undefined result is that
  of a division by zero, which \<open>fdiv\<close> returns as a value of \<open>f64\<close>.
\<close>

section \<open>The binary exponent of a rational\<close>

definition ilog2 :: "rat \<Rightarrow> int" where
  "ilog2 x = (if 1 \<le> x then bitlen \<lfloor>x\<rfloor> - 1 else - bitlen (\<lceil>1 / x\<rceil> - 1))"

lemma two_powi_pos [simp]: "0 < (2::rat) powi k"
  by (simp add: zero_less_power_int)

lemma two_powi_mono: "j \<le> k \<Longrightarrow> (2::rat) powi j \<le> 2 powi k"
  by (rule power_int_increasing) auto

lemma two_powi_less_iff: "(2::rat) powi j < 2 powi k \<longleftrightarrow> j < k"
proof
  assume "(2::rat) powi j < 2 powi k"
  then show "j < k" using two_powi_mono [of k j] by (meson not_le)
next
  assume "j < k"
  then show "(2::rat) powi j < 2 powi k" by (intro power_int_strict_increasing) auto
qed

lemma bitlen_powi:
  assumes "0 < n"
  shows "(2::rat) powi (bitlen n - 1) \<le> of_int n" "of_int n + 1 \<le> (2::rat) powi bitlen n"
proof -
  have b: "2 ^ nat (bitlen n - 1) \<le> n" "n < 2 ^ nat (bitlen n)" "1 \<le> bitlen n"
    using bitlen_bounds [OF assms] bitlen_ge_iff_power [of 1 n] assms by auto
  have "(2::rat) powi (bitlen n - 1) = of_int (2 ^ nat (bitlen n - 1))"
    using b(3) by (simp add: power_int_def)
  then show "(2::rat) powi (bitlen n - 1) \<le> of_int n"
    using b(1) by (simp only: of_int_le_iff)
  have "(2::rat) powi bitlen n = of_int (2 ^ nat (bitlen n))"
    using b(3) by (simp add: power_int_def)
  moreover have "of_int (n + 1) \<le> (of_int (2 ^ nat (bitlen n)) :: rat)"
    using b(2) by (simp only: of_int_le_iff)
  ultimately show "of_int n + 1 \<le> (2::rat) powi bitlen n" by simp
qed

lemma ilog2_bounds:
  assumes "0 < x"
  shows "2 powi ilog2 x \<le> x" "x < 2 powi (ilog2 x + 1)"
proof -
  have "2 powi ilog2 x \<le> x \<and> x < 2 powi (ilog2 x + 1)"
  proof (cases "1 \<le> x")
    case True
    then have n: "0 < \<lfloor>x\<rfloor>" by linarith
    have "(2::rat) powi (bitlen \<lfloor>x\<rfloor> - 1) \<le> of_int \<lfloor>x\<rfloor>" by (rule bitlen_powi(1) [OF n])
    also have "\<dots> \<le> x" by simp
    finally have l: "(2::rat) powi (bitlen \<lfloor>x\<rfloor> - 1) \<le> x" .
    have "x < of_int \<lfloor>x\<rfloor> + 1" by linarith
    also have "\<dots> \<le> 2 powi bitlen \<lfloor>x\<rfloor>" by (rule bitlen_powi(2) [OF n])
    finally show ?thesis using l True by (simp add: ilog2_def)
  next
    case False
    define n where "n = \<lceil>1 / x\<rceil> - 1"
    have gt: "1 < 1 / x" using False assms by (simp add: field_simps)
    then have n: "0 < n" unfolding n_def by linarith
    have e: "ilog2 x = - bitlen n" using False by (simp add: ilog2_def n_def)
    have "of_int n < 1 / x" unfolding n_def by linarith
    then have "(2::rat) powi (bitlen n - 1) < 1 / x" using bitlen_powi(1) [OF n] by linarith
    then have u: "x < 1 / 2 powi (bitlen n - 1)" using assms by (simp add: field_simps)
    have "1 / x \<le> of_int n + 1" unfolding n_def by linarith
    then have "1 / x \<le> (2::rat) powi bitlen n" using bitlen_powi(2) [OF n] by linarith
    then have l: "1 / 2 powi bitlen n \<le> x" using assms by (simp add: field_simps)
    have "- bitlen n + 1 = - (bitlen n - 1)" by simp
    then show ?thesis using l u unfolding e by (simp only: power_int_minus_divide)
  qed
  then show "2 powi ilog2 x \<le> x" "x < 2 powi (ilog2 x + 1)" by auto
qed

lemma ilog2_mono:
  assumes "0 < x" "x \<le> y" shows "ilog2 x \<le> ilog2 y"
proof -
  have "(2::rat) powi ilog2 x < 2 powi (ilog2 y + 1)"
    using ilog2_bounds(1) [of x] ilog2_bounds(2) [of y] assms by linarith
  then show ?thesis by (simp only: two_powi_less_iff)
qed

section \<open>Rounding to nearest, ties to even\<close>

definition rhe :: "rat \<Rightarrow> int" where
  "rhe q = (let f = \<lfloor>q\<rfloor>; r = q - of_int f in
     if r < 1 / 2 then f else if 1 / 2 < r then f + 1 else if even f then f else f + 1)"

lemma rhe_int [simp]: "rhe (of_int n) = n"
  by (simp add: rhe_def)

lemma rhe_error: "\<bar>of_int (rhe q) - q\<bar> \<le> 1 / 2"
proof -
  have "of_int \<lfloor>q\<rfloor> \<le> q" "q < of_int \<lfloor>q\<rfloor> + 1" by linarith+
  then show ?thesis by (auto simp: rhe_def Let_def abs_le_iff)
qed

lemma rhe_mono: assumes "p \<le> q" shows "rhe p \<le> rhe q"
proof (cases "\<lfloor>p\<rfloor> = \<lfloor>q\<rfloor>")
  case True
  then show ?thesis using assms by (auto simp: rhe_def Let_def)
next
  case False
  then have lt: "\<lfloor>p\<rfloor> + 1 \<le> \<lfloor>q\<rfloor>" using floor_mono [OF assms] by linarith
  have "rhe p \<le> \<lfloor>p\<rfloor> + 1" "\<lfloor>q\<rfloor> \<le> rhe q" by (auto simp: rhe_def Let_def)
  then show ?thesis using lt by linarith
qed

lemma rhe_between: "of_int a \<le> q \<Longrightarrow> q \<le> of_int b \<Longrightarrow> a \<le> rhe q \<and> rhe q \<le> b"
  using rhe_mono [of "of_int a" q] rhe_mono [of q "of_int b"] by simp

definition ulp_exp :: "rat \<Rightarrow> int" where
  "ulp_exp x = max (- 1074) (ilog2 x - 52)"

definition rnd_pos :: "rat \<Rightarrow> rat" where
  "rnd_pos x = of_int (rhe (x / 2 powi ulp_exp x)) * 2 powi ulp_exp x"

definition rnd64 :: "rat \<Rightarrow> rat" where
  "rnd64 x = (if x = 0 then 0 else if 0 < x then rnd_pos x else - rnd_pos (- x))"

lemma rnd_pos_nonneg: "0 < x \<Longrightarrow> 0 \<le> rnd_pos x"
  using rhe_mono [of 0 "x / 2 powi ulp_exp x"] rhe_int [of 0]
  by (simp add: rnd_pos_def less_imp_le)

lemma ulp_exp_bound: "0 < x \<Longrightarrow> x < 2 powi (ulp_exp x + 53)"
proof -
  assume x: "0 < x"
  have "(2::rat) powi (ilog2 x + 1) \<le> 2 powi (ulp_exp x + 53)"
    by (rule two_powi_mono) (auto simp: ulp_exp_def)
  then show ?thesis using ilog2_bounds(2) [OF x] by linarith
qed

lemma powi_add_53: "(2::rat) powi (e + 53) = 2 ^ 53 * 2 powi e"
  by (simp add: power_int_add)

lemma rnd_pos_le_pow: "0 < x \<Longrightarrow> rnd_pos x \<le> 2 powi (ulp_exp x + 53)"
proof -
  assume x: "0 < x"
  define e where "e = ulp_exp x"
  have "x / 2 powi e \<le> of_int (2 ^ 53)"
    using ulp_exp_bound [OF x] by (simp add: e_def powi_add_53 field_simps)
  then have "rhe (x / 2 powi e) \<le> 2 ^ 53" using rhe_mono rhe_int by metis
  then have "(of_int (rhe (x / 2 powi e)) :: rat) \<le> of_int (2 ^ 53)"
    by (simp only: of_int_le_iff)
  then have "of_int (rhe (x / 2 powi e)) * (2::rat) powi e \<le> of_int (2 ^ 53) * 2 powi e"
    by (rule mult_right_mono) (simp add: less_imp_le)
  then show ?thesis by (simp add: rnd_pos_def e_def powi_add_53)
qed

lemma rnd_pos_mono: assumes "0 < x" "x \<le> y" shows "rnd_pos x \<le> rnd_pos y"
proof (cases "ulp_exp x = ulp_exp y")
  case True
  have "x / 2 powi ulp_exp y \<le> y / 2 powi ulp_exp y"
    using assms(2) by (simp add: divide_right_mono less_imp_le)
  then have "rhe (x / 2 powi ulp_exp y) \<le> rhe (y / 2 powi ulp_exp y)" by (rule rhe_mono)
  then show ?thesis by (simp add: rnd_pos_def True mult_right_mono less_imp_le)
next
  case False
  define e where "e = ulp_exp y"
  have le: "ulp_exp x \<le> e" using ilog2_mono [OF assms] by (simp add: ulp_exp_def e_def)
  then have lt: "ulp_exp x + 1 \<le> e" using False by (simp add: e_def)
  then have "ilog2 y = e + 52" by (auto simp: e_def ulp_exp_def max_def split: if_splits)
  then have y: "(2::rat) powi (e + 52) \<le> y" using ilog2_bounds(1) [of y] assms by simp
  have "rnd_pos x \<le> 2 powi (ulp_exp x + 53)" by (rule rnd_pos_le_pow [OF assms(1)])
  also have "\<dots> \<le> 2 powi (e + 52)" using lt by (intro two_powi_mono) simp
  also have "\<dots> = of_int (2 ^ 52) * 2 powi e" by (simp add: power_int_add)
  also have "\<dots> \<le> of_int (rhe (y / 2 powi e)) * 2 powi e"
  proof (rule mult_right_mono)
    have "of_int (2 ^ 52) \<le> y / 2 powi e" using y by (simp add: power_int_add field_simps)
    then have "2 ^ 52 \<le> rhe (y / 2 powi e)" using rhe_mono rhe_int by metis
    then show "(of_int (2 ^ 52) :: rat) \<le> of_int (rhe (y / 2 powi e))"
      by (simp only: of_int_le_iff)
  qed (simp add: less_imp_le)
  finally show ?thesis by (simp add: rnd_pos_def e_def)
qed

lemma rnd64_0 [simp]: "rnd64 0 = 0"
  by (simp add: rnd64_def)

lemma rnd64_minus: "rnd64 (- x) = - rnd64 x"
  by (auto simp: rnd64_def)

lemma rnd64_mono: assumes "x \<le> y" shows "rnd64 x \<le> rnd64 y"
proof -
  consider "0 < x" | "x \<le> 0" "0 \<le> y" | "y < 0" using assms by linarith
  then show ?thesis
  proof cases
    case 1
    then show ?thesis using assms by (simp add: rnd64_def rnd_pos_mono)
  next
    case 2
    then have "rnd64 x \<le> 0" "0 \<le> rnd64 y"
      using rnd_pos_nonneg [of "- x"] rnd_pos_nonneg [of y] by (auto simp: rnd64_def)
    then show ?thesis by linarith
  next
    case 3
    then show ?thesis using assms rnd_pos_mono [of "- y" "- x"] by (simp add: rnd64_def)
  qed
qed

lemma rnd_pos_int:
  assumes "0 < n" "n \<le> 2 ^ 53" shows "rnd_pos (of_int n) = of_int n"
proof (cases "ulp_exp (of_int n) \<le> 0")
  case True
  define k where "k = nat (- ulp_exp (of_int n))"
  have e: "ulp_exp (of_int n) = - int k" using True by (simp add: k_def)
  have q: "(of_int n :: rat) / 2 powi (- int k) = of_int (n * 2 ^ k)"
    by (simp add: power_int_minus divide_inverse)
  show ?thesis unfolding rnd_pos_def e q rhe_int by (simp add: power_int_minus)
next
  case False
  then have "52 < ilog2 (of_int n)" by (auto simp: ulp_exp_def max_def split: if_splits)
  then have "(2::rat) powi 53 \<le> 2 powi ilog2 (of_int n)" by (intro two_powi_mono) simp
  also have "\<dots> \<le> of_int n" using assms by (intro ilog2_bounds) simp
  finally have "(of_int (2 ^ 53) :: rat) \<le> of_int n" by (simp add: power_int_def)
  then have "2 ^ 53 \<le> n" by (simp only: of_int_le_iff)
  then have n: "n = 2 ^ 53" using assms by simp
  have "bitlen (2 ^ 53 :: int) = 54" by code_simp
  then have "ulp_exp (of_int n) = 1" by (simp add: n ulp_exp_def ilog2_def)
  then show ?thesis by (simp add: n rnd_pos_def flip: of_int_power) (metis rhe_int of_int_numeral)
qed

lemma rnd64_int: "\<bar>n\<bar> \<le> 2 ^ 53 \<Longrightarrow> rnd64 (of_int n) = of_int n"
  using rnd_pos_int [of n] rnd_pos_int [of "- n"] by (auto simp: rnd64_def)

lemma rnd_pos_error: assumes "0 < x" shows "\<bar>rnd_pos x - x\<bar> \<le> x / 2 ^ 53 + 2 powi (- 1075)"
proof -
  define e where "e = ulp_exp x"
  have "rnd_pos x - x = (of_int (rhe (x / 2 powi e)) - x / 2 powi e) * 2 powi e"
    by (simp add: rnd_pos_def e_def left_diff_distrib)
  then have "\<bar>rnd_pos x - x\<bar> = \<bar>of_int (rhe (x / 2 powi e)) - x / 2 powi e\<bar> * 2 powi e"
    by (simp add: abs_mult less_imp_le)
  also have "\<dots> \<le> 1 / 2 * 2 powi e"
    by (rule mult_right_mono [OF rhe_error]) (simp add: less_imp_le)
  also have "\<dots> \<le> x / 2 ^ 53 + 2 powi (- 1075)"
  proof (cases "ulp_exp x = - 1074")
    case True
    have "(2::rat) powi (- 1074) = 2 * 2 powi (- 1075)"
      using power_int_add [of "2::rat" 1 "- 1075"] by simp
    then show ?thesis using assms True by (simp add: e_def)
  next
    case False
    then have i: "ilog2 x = e + 52" by (auto simp: e_def ulp_exp_def max_def split: if_splits)
    have "(2::rat) powi (e + 52) \<le> x" using ilog2_bounds(1) [OF assms] by (simp add: i)
    then have "2 ^ 52 * 2 powi e \<le> x" by (simp add: power_int_add)
    then have "1 / 2 * 2 powi e \<le> x / 2 ^ 53" by (simp add: field_simps)
    then show ?thesis using two_powi_pos [of "- 1075"] by linarith
  qed
  finally show ?thesis .
qed

lemma rnd64_error: "\<bar>rnd64 x - x\<bar> \<le> \<bar>x\<bar> / 2 ^ 53 + 2 powi (- 1075)"
proof -
  consider "x = 0" | "0 < x" | "x < 0" by linarith
  then show ?thesis
  proof cases
    case 1
    then show ?thesis using two_powi_pos [of "- 1075"] by simp
  next
    case 2
    then show ?thesis using rnd_pos_error [of x] by (simp add: rnd64_def)
  next
    case 3
    have "\<bar>rnd_pos (- x) - (- x)\<bar> \<le> - x / 2 ^ 53 + 2 powi (- 1075)"
      using 3 by (intro rnd_pos_error) simp
    moreover have "rnd64 x - x = - (rnd_pos (- x) - (- x))" using 3 by (simp add: rnd64_def)
    ultimately show ?thesis using 3 by (simp only: abs_minus_cancel)
  qed
qed

lemma tiny_powi: "(2::rat) powi (- 1075) \<le> 1 / 10 ^ 30"
proof -
  have "(2::rat) powi (- 1075) \<le> 2 powi (- 100)" by (rule two_powi_mono) simp
  also have "\<dots> \<le> 1 / 10 ^ 30" by (simp add: power_int_minus_divide)
  finally show ?thesis .
qed

section \<open>The interface of a rounded arithmetic\<close>

text \<open>
  What the arithmetic of the limiters and of the credit code relies on: rounding is
  monotone, odd and exact on the integers of the mantissa. Every lemma below follows from
  these laws alone.
\<close>

locale rounding =
  fixes rd :: "rat \<Rightarrow> rat"
  assumes rd_mono: "x \<le> y \<Longrightarrow> rd x \<le> rd y"
    and rd_minus: "rd (- x) = - rd x"
    and rd_int: "\<bar>n\<bar> \<le> 2 ^ 53 \<Longrightarrow> rd (of_int n) = of_int n"
begin

lemma rd_zero: "rd 0 = 0"
  using rd_int [of 0] by simp

lemma rd_nonneg: "0 \<le> x \<Longrightarrow> 0 \<le> rd x"
  using rd_mono [of 0 x] rd_zero by simp

lemma rd_nonpos: "x \<le> 0 \<Longrightarrow> rd x \<le> 0"
  using rd_mono [of x 0] rd_zero by simp

lemma rd_le_int: "x \<le> of_int n \<Longrightarrow> \<bar>n\<bar> \<le> 2 ^ 53 \<Longrightarrow> rd x \<le> of_int n"
  using rd_mono [of x "of_int n"] rd_int [of n] by simp

lemma rd_ge_int: "of_int n \<le> x \<Longrightarrow> \<bar>n\<bar> \<le> 2 ^ 53 \<Longrightarrow> of_int n \<le> rd x"
  using rd_mono [of "of_int n" x] rd_int [of n] by simp

end

interpretation f64: rounding rnd64
  by unfold_locales (auto simp: rnd64_mono rnd64_minus rnd64_int)

lemma rnd64_numeral [simp]: "numeral n \<le> (2::int) ^ 53 \<Longrightarrow> rnd64 (numeral n) = numeral n"
  using rnd64_int [of "numeral n"] by simp

lemma rnd64_1 [simp]: "rnd64 1 = 1"
  using rnd64_int [of 1] by simp

section \<open>Operations\<close>

definition fadd :: "rat \<Rightarrow> rat \<Rightarrow> rat" where "fadd a b = rnd64 (a + b)"
definition fsub :: "rat \<Rightarrow> rat \<Rightarrow> rat" where "fsub a b = rnd64 (a - b)"
definition fmul :: "rat \<Rightarrow> rat \<Rightarrow> rat" where "fmul a b = rnd64 (a * b)"

text \<open>Conversion of an int, and division by a non-zero constant.\<close>

definition f_of_int :: "int \<Rightarrow> rat" where "f_of_int n = rnd64 (of_int n)"
definition fdivc :: "rat \<Rightarrow> rat \<Rightarrow> rat" where "fdivc a b = rnd64 (a / b)"

text \<open>Division by a value that may be zero.\<close>

datatype f64 = Fin rat | PosInf | NegInf | NaN

definition fdiv :: "rat \<Rightarrow> rat \<Rightarrow> f64" where
  "fdiv a b = (if b \<noteq> 0 then Fin (rnd64 (a / b))
     else if 0 < a then PosInf else if a < 0 then NegInf else NaN)"

lemma f_of_int_small [simp]: "\<bar>n\<bar> \<le> 2 ^ 53 \<Longrightarrow> f_of_int n = of_int n"
  by (simp add: f_of_int_def rnd64_int)

end
