(* ===== verification/GoTime.thy ===== *)
theory GoTime
  imports Float64
begin

text \<open>
  The part of Go's time package the gateway uses. A time.Time is the number of nanoseconds
  since the Unix epoch (UTC), a time.Duration a number of nanoseconds; Sub saturates at the
  ends of int64 as the library does; the calendar is the proleptic Gregorian one.
\<close>

type_synonym gotime = int
type_synonym duration = int

definition nanosecond :: duration where "nanosecond = 1"
definition millisecond :: duration where "millisecond = 1000000"
definition second :: duration where "second = 1000000000"
definition minute :: duration where "minute = 60000000000"
definition hour :: duration where "hour = 3600000000000"

lemmas duration_defs = nanosecond_def millisecond_def second_def minute_def hour_def

text \<open>The zero time.Time, January 1 of year 1, which the code uses for never.\<close>

definition zero_time :: gotime where "zero_time = - 62135596800000000000"

definition sat64 :: "int \<Rightarrow> int" where
  "sat64 d = (if d < - (2 ^ 63) then - (2 ^ 63) else if 2 ^ 63 \<le> d then 2 ^ 63 - 1 else d)"

definition time_sub :: "gotime \<Rightarrow> gotime \<Rightarrow> duration" where
  "time_sub t u = sat64 (t - u)"

lemma time_sub_nonneg: "u \<le> t \<Longrightarrow> 0 \<le> time_sub t u"
  by (simp add: time_sub_def sat64_def)

lemma time_sub_le: "u \<le> t \<Longrightarrow> time_sub t u \<le> t - u"
  by (simp add: time_sub_def sat64_def)

text \<open>Duration.Seconds: float64(d / Second) + float64(d % Second) / 1e9.\<close>

definition go_rem :: "int \<Rightarrow> int \<Rightarrow> int" where
  "go_rem a b = a - b * go_div a b"

definition duration_seconds :: "duration \<Rightarrow> rat" where
  "duration_seconds d =
     fadd (f_of_int (go_div d second)) (fdivc (f_of_int (go_rem d second)) 1000000000)"

lemma duration_seconds_nonneg: "0 \<le> d \<Longrightarrow> 0 \<le> duration_seconds d"
proof -
  assume d: "0 \<le> d"
  have "go_rem d second = d mod second"
    using d by (simp add: go_rem_def go_div_nonneg second_def minus_mult_div_eq_mod)
  moreover have "0 \<le> d mod second" by (simp add: second_def)
  ultimately show ?thesis
    using d unfolding duration_seconds_def fadd_def fdivc_def f_of_int_def
    by (intro f64.rd_nonneg add_nonneg_nonneg divide_nonneg_nonneg)
       (simp_all add: go_div_nonneg second_def pos_imp_zdiv_nonneg_iff)
qed

lemma duration_seconds_0 [simp]: "duration_seconds 0 = 0"
  by (simp add: duration_seconds_def go_div_def go_rem_def fadd_def fdivc_def)

section \<open>The civil calendar\<close>

text \<open>Days are counted from January 1 of year 1; the Unix epoch is day 719162.\<close>

type_synonym day = int

definition leap_year :: "int \<Rightarrow> bool" where
  "leap_year y \<longleftrightarrow> 4 dvd y \<and> (\<not> 100 dvd y \<or> 400 dvd y)"

definition days_before_year :: "int \<Rightarrow> day" where
  "days_before_year y = 365 * (y - 1) + (y - 1) div 4 - (y - 1) div 100 + (y - 1) div 400"

definition year_of_day :: "day \<Rightarrow> int" where
  "year_of_day d = (let y = (400 * d) div 146097 + 1 in
     if days_before_year (y + 1) \<le> d then y + 1 else y)"

definition month_table :: "bool \<Rightarrow> int list" where
  "month_table lp = (let l = of_bool lp in
     [0, 31, 59 + l, 90 + l, 120 + l, 151 + l, 181 + l, 212 + l, 243 + l, 273 + l, 304 + l, 334 + l])"

text \<open>The last entry of an ascending table that is not above n.\<close>

definition last_le :: "int \<Rightarrow> int list \<Rightarrow> int" where
  "last_le n xs = foldr max (filter (\<lambda>x. x \<le> n) xs) 0"

text \<open>time.Date(t.Year(), t.Month(), 1, 0, 0, 0, 0, time.UTC), as a day.\<close>

definition month_start_day :: "day \<Rightarrow> day" where
  "month_start_day d = (let y = year_of_day d; b = days_before_year y in
     b + last_le (d - b) (month_table (leap_year y)))"

definition day_of_time :: "gotime \<Rightarrow> day" where
  "day_of_time t = t div (24 * hour) + 719162"

definition month_start :: "gotime \<Rightarrow> day" where
  "month_start t = month_start_day (day_of_time t)"

lemma div_pos_bounds: "0 < (k::int) \<Longrightarrow> k * (x div k) \<le> x \<and> x \<le> k * (x div k) + k - 1"
  using pos_mod_bound [of k x] pos_mod_sign [of k x] by (simp add: minus_mod_eq_mult_div [symmetric])

lemma days_before_year_bounds:
  "400 * days_before_year (q + 1) \<le> 146097 * q + 396 \<and> 146097 * q - 699 \<le> 400 * days_before_year (q + 1)"
  using div_pos_bounds [of 4 q] div_pos_bounds [of 100 q] div_pos_bounds [of 400 q]
  by (simp add: days_before_year_def)

lemma year_of_day_correct:
  "days_before_year (year_of_day d) \<le> d \<and> d < days_before_year (year_of_day d + 1)"
proof -
  define q where "q = (400 * d) div 146097"
  have q: "146097 * q \<le> 400 * d" "400 * d < 146097 * q + 146097"
    unfolding q_def by linarith+
  have lo: "days_before_year (q + 1) \<le> d"
    using q days_before_year_bounds [of q] by linarith
  have hi: "d < days_before_year (q + 3)"
    using q days_before_year_bounds [of "q + 2"] by (simp add: add.commute)
  show ?thesis
    using lo hi by (simp add: year_of_day_def Let_def q_def [symmetric] add.commute)
qed

lemma days_before_year_mono: "y \<le> z \<Longrightarrow> days_before_year y \<le> days_before_year z"
proof -
  assume yz: "y \<le> z"
  have m: "(y - 1) div 4 \<le> (z - 1) div 4" "(y - 1) div 400 \<le> (z - 1) div 400"
    using yz by (simp_all add: zdiv_mono1)
  have "(z - 1) div 100 \<le> (y - 1) div 100 + (z - y)"
    using yz div_pos_bounds [of 100 "z - 1"] div_pos_bounds [of 100 "y - 1"] by linarith
  then show ?thesis using m yz by (simp add: days_before_year_def)
qed

lemma days_before_year_strict: "d < days_before_year y \<Longrightarrow> days_before_year z \<le> d \<Longrightarrow> z < y"
  using days_before_year_mono [of y z] by linarith

lemma year_of_day_mono: "d \<le> e \<Longrightarrow> year_of_day d \<le> year_of_day e"
proof -
  assume "d \<le> e"
  then have "days_before_year (year_of_day d) \<le> e" using year_of_day_correct [of d] by linarith
  then have "year_of_day d < year_of_day e + 1"
    using days_before_year_strict year_of_day_correct [of e] by blast
  then show ?thesis by simp
qed

lemma last_le_bounds: "0 \<le> n \<Longrightarrow> 0 \<le> last_le n xs \<and> last_le n xs \<le> n"
  by (induction xs) (auto simp: last_le_def)

lemma last_le_mono: "m \<le> n \<Longrightarrow> last_le m xs \<le> last_le n xs"
  by (induction xs) (auto simp: last_le_def)

lemma month_start_day_le: "month_start_day d \<le> d"
  using year_of_day_correct [of d] last_le_bounds [of "d - days_before_year (year_of_day d)"
      "month_table (leap_year (year_of_day d))"]
  by (simp add: month_start_day_def Let_def)

lemma month_start_day_ge: "days_before_year (year_of_day d) \<le> month_start_day d"
  using year_of_day_correct [of d] last_le_bounds [of "d - days_before_year (year_of_day d)"]
  by (simp add: month_start_day_def Let_def)

lemma month_start_day_mono:
  assumes "d \<le> e" shows "month_start_day d \<le> month_start_day e"
proof (cases "year_of_day d = year_of_day e")
  case True
  then show ?thesis using assms by (simp add: month_start_day_def Let_def last_le_mono)
next
  case False
  then have "year_of_day d + 1 \<le> year_of_day e" using year_of_day_mono [OF assms] by simp
  then have "days_before_year (year_of_day d + 1) \<le> days_before_year (year_of_day e)"
    by (rule days_before_year_mono)
  then show ?thesis
    using year_of_day_correct [of d] month_start_day_le [of d] month_start_day_ge [of e] by linarith
qed

lemma month_start_mono: "t \<le> u \<Longrightarrow> month_start t \<le> month_start u"
  by (simp add: month_start_def day_of_time_def hour_def zdiv_mono1 month_start_day_mono)

end
