(* ===== verification/Schema.thy ===== *)
theory Schema
  imports GoTime
begin

text \<open>
  The database the gateway keeps (internal/store/schema.sql, store.go): one record per row
  type and the record \<open>db\<close> of all tables. A DECIMAL(15,6) column holds an integer number
  of millionths (\<open>micros\<close>); assigning a value to it rounds half away from zero and fails
  when the result needs more than 15 digits. A table is the list of its rows in insertion
  order with the next value of its id sequence; the balances and usage statistics, read and
  written by primary key only, are maps.
\<close>

section \<open>DECIMAL(15,6)\<close>

type_synonym micros = int

definition round_half_away :: "rat \<Rightarrow> int" where
  "round_half_away q = (if 0 \<le> q then \<lfloor>q + 1 / 2\<rfloor> else - \<lfloor>- q + 1 / 2\<rfloor>)"

definition dec6 :: "rat \<Rightarrow> micros" where
  "dec6 x = round_half_away (x * 1000000)"

definition dec_ok :: "micros \<Rightarrow> bool" where
  "dec_ok m \<longleftrightarrow> \<bar>m\<bar> < 10 ^ 15"

text \<open>The value of a column, and the float64 the driver scans it into.\<close>

definition micros_val :: "micros \<Rightarrow> rat" where
  "micros_val m = of_int m / 1000000"

definition f_of_micros :: "micros \<Rightarrow> rat" where
  "f_of_micros m = rnd64 (micros_val m)"

lemma floor_half [simp]: "\<lfloor>1 / 2 :: rat\<rfloor> = 0"
  by linarith

lemma round_half_away_minus: "round_half_away (- q) = - round_half_away q"
  by (cases "q = 0") (auto simp: round_half_away_def)

lemma round_half_away_int [simp]: "round_half_away (of_int n) = n"
proof -
  have f: "\<lfloor>of_int m + 1 / 2 :: rat\<rfloor> = m" for m :: int by linarith
  show ?thesis using f [of n] f [of "- n"] by (auto simp: round_half_away_def)
qed

lemma round_half_away_add:
  "0 \<le> n \<Longrightarrow> 0 \<le> q \<Longrightarrow> round_half_away (of_int n + q) = n + round_half_away q"
proof -
  assume a: "0 \<le> n" "0 \<le> q"
  have "(of_int n + q) + 1 / 2 = (q + 1 / 2) + of_int n" by simp
  then have "\<lfloor>of_int n + q + 1 / 2\<rfloor> = n + \<lfloor>q + 1 / 2\<rfloor>" by (simp only: floor_add_int [symmetric])
  then show ?thesis using a by (simp add: round_half_away_def)
qed

lemma round_half_away_error: "\<bar>of_int (round_half_away q) - q\<bar> \<le> 1 / 2"
proof -
  have f: "of_int \<lfloor>p + 1 / 2\<rfloor> \<le> p + 1 / 2" "p - 1 / 2 < of_int \<lfloor>p + 1 / 2\<rfloor>" for p :: rat
    by linarith+
  show ?thesis
  proof (cases "0 \<le> q")
    case True
    then have "round_half_away q = \<lfloor>q + 1 / 2\<rfloor>" by (simp only: round_half_away_def if_True)
    then show ?thesis using f [of q] by linarith
  next
    case False
    then have "round_half_away q = - \<lfloor>- q + 1 / 2\<rfloor>" by (simp only: round_half_away_def if_False)
    then show ?thesis using f [of "- q"] by linarith
  qed
qed

lemma round_half_away_mono: "p \<le> q \<Longrightarrow> round_half_away p \<le> round_half_away q"
proof -
  assume pq: "p \<le> q"
  consider "0 \<le> p" | "p < 0" "0 \<le> q" | "q < 0" using pq by linarith
  then show ?thesis
  proof cases
    case 1
    then show ?thesis using pq by (simp add: round_half_away_def floor_mono)
  next
    case 2
    have "0 \<le> \<lfloor>- p + 1 / 2\<rfloor>" "0 \<le> \<lfloor>q + 1 / 2\<rfloor>" using 2 by linarith+
    moreover have "round_half_away p = - \<lfloor>- p + 1 / 2\<rfloor>" "round_half_away q = \<lfloor>q + 1 / 2\<rfloor>"
      using 2 by (auto simp only: round_half_away_def not_le [symmetric] if_True if_False)
    ultimately show ?thesis by linarith
  next
    case 3
    then have "\<lfloor>- q + 1 / 2\<rfloor> \<le> \<lfloor>- p + 1 / 2\<rfloor>" using pq by (intro floor_mono) simp
    then show ?thesis using 3 pq by (simp add: round_half_away_def)
  qed
qed

lemma dec6_nonneg: "0 \<le> x \<Longrightarrow> 0 \<le> dec6 x"
  using round_half_away_mono [of 0 "x * 1000000"] round_half_away_int [of 0] by (simp add: dec6_def)

lemma dec6_minus: "dec6 (- x) = - dec6 x"
  using round_half_away_minus [of "x * 1000000"] by (simp add: dec6_def)

lemma dec6_micros [simp]: "dec6 (micros_val m) = m"
  by (simp add: dec6_def micros_val_def)

lemma dec6_mono: "x \<le> y \<Longrightarrow> dec6 x \<le> dec6 y"
  by (simp add: dec6_def round_half_away_mono)

text \<open>On amounts of one sign, rounding a sum is adding the rounded amount.\<close>

lemma dec6_add: "0 \<le> m \<Longrightarrow> 0 \<le> x \<Longrightarrow> dec6 (micros_val m + x) = m + dec6 x"
  using round_half_away_add [of m "x * 1000000"]
  by (simp add: dec6_def micros_val_def distrib_right)

lemma micros_val_simps [simp]:
  "micros_val 0 = 0" "micros_val (a + b) = micros_val a + micros_val b"
  "micros_val (a - b) = micros_val a - micros_val b" "micros_val (- a) = - micros_val a"
  by (simp_all add: micros_val_def add_divide_distrib diff_divide_distrib)

lemma dec6_diff_micros [simp]: "dec6 (micros_val a - micros_val b) = a - b"
  using dec6_micros [of "a - b"] by simp

lemma micros_val_le_iff [simp]: "micros_val a \<le> micros_val b \<longleftrightarrow> a \<le> b"
  by (simp add: micros_val_def divide_le_cancel)

text \<open>A value within half a millionth of a column value is stored as that value.\<close>

lemma dec6_close:
  assumes "\<bar>x - micros_val m\<bar> < 1 / 2000000" shows "dec6 x = m"
proof -
  define q where "q = x * 1000000"
  have q: "of_int m - 1 / 2 < q" "q < of_int m + 1 / 2"
    using assms by (simp_all only: q_def micros_val_def abs_less_iff) (simp_all add: field_simps)
  have "\<bar>of_int (round_half_away q) - q\<bar> \<le> 1 / 2" by (rule round_half_away_error)
  then have "of_int (round_half_away q) < (of_int m :: rat) + 1"
    "(of_int m :: rat) - 1 < of_int (round_half_away q)"
    using q by linarith+
  then have "(of_int (round_half_away q) :: rat) < of_int (m + 1)"
    "(of_int (m - 1) :: rat) < of_int (round_half_away q)" by simp_all
  then have "round_half_away q < m + 1" "m - 1 < round_half_away q"
    by (simp_all only: of_int_less_iff)
  then show ?thesis by (simp add: dec6_def q_def)
qed

lemma f_of_micros_error:
  assumes "dec_ok m" shows "\<bar>f_of_micros m - micros_val m\<bar> \<le> 12 / 10 ^ 8"
proof -
  have "\<bar>m\<bar> \<le> 10 ^ 15" using assms by (simp add: dec_ok_def)
  then have "(of_int \<bar>m\<bar> :: rat) \<le> of_int (10 ^ 15)" by (simp only: of_int_le_iff)
  then have "\<bar>micros_val m\<bar> \<le> 10 ^ 9" by (simp add: micros_val_def abs_divide)
  moreover have "\<bar>f_of_micros m - micros_val m\<bar> \<le> \<bar>micros_val m\<bar> / 2 ^ 53 + 1 / 10 ^ 30"
    using rnd64_error [of "micros_val m"] tiny_powi by (simp add: f_of_micros_def)
  ultimately show ?thesis by simp
qed

lemma dec6_f_of_micros [simp]: "dec_ok m \<Longrightarrow> dec6 (f_of_micros m) = m"
  using f_of_micros_error [of m] by (intro dec6_close) simp

lemma dec6_sub_f_of_micros: "dec_ok h \<Longrightarrow> dec6 (micros_val r - f_of_micros h) = r - h"
  using f_of_micros_error [of h] by (intro dec6_close) (simp add: abs_minus_commute)

section \<open>Rows\<close>

record api_key =
  ak_id :: int
  ak_name :: string
  ak_hash :: string
  ak_prefix :: string
  ak_rate_limit :: int
  ak_created :: gotime
  ak_revoked :: bool
  ak_user :: "int option"
  ak_account :: "int option"
  ak_session_limit :: "int option"
  ak_trust_headers :: bool

text \<open>An accounts row; the Account struct of store.go is its first five columns.\<close>

record account =
  ac_id :: int
  ac_name :: string
  ac_type :: string
  ac_active :: bool
  ac_created :: gotime
  ac_managed :: bool
  ac_monthly_grant :: "micros option"
  ac_rate_per_min :: "int option"

record usage_entry =
  ue_key :: int
  ue_model :: string
  ue_prompt :: int
  ue_completion :: int
  ue_total :: int
  ue_duration_ms :: int
  ue_status :: string
  ue_charged :: rat
  ue_node :: "int option"
  ue_account :: "int option"

record user =
  us_id :: int
  us_email :: string
  us_password :: string
  us_name :: string
  us_role :: string
  us_active :: bool
  us_account :: "int option"

record credit_balance =
  cb_balance :: micros
  cb_reserved :: micros
  cb_period :: "day option"

record credit_transaction =
  ct_account :: int
  ct_amount :: micros
  ct_after :: micros
  ct_type :: string
  ct_ref :: "int option"

datatype hold_status = Pending | Settled | Released

record credit_hold =
  ch_id :: int
  ch_account :: int
  ch_amount :: micros
  ch_status :: hold_status
  ch_created :: gotime
  ch_settled :: "gotime option"

text \<open>
  A pricing row holds the deprecated per-token rates, DECIMAL(15,10), as a number of
  ten-billionths, and the per-million rates, NULL until backfilled.
\<close>

record pricing_row =
  cp_id :: int
  cp_model :: string
  cp_prompt_old :: int
  cp_completion_old :: int
  cp_prompt_mtok :: "micros option"
  cp_completion_mtok :: "micros option"
  cp_typical :: int
  cp_active :: bool

text \<open>The CreditPricing struct: rates as float64, in credits per million tokens.\<close>

record credit_pricing =
  pr_id :: int
  pr_model :: string
  pr_prompt_rate :: rat
  pr_completion_rate :: rat
  pr_typical :: int
  pr_active :: bool

record usage_stats =
  st_avg :: int
  st_count :: int

record registration_token =
  rt_id :: int
  rt_hash :: string
  rt_grant :: micros
  rt_max_uses :: int
  rt_uses :: int
  rt_expires :: "gotime option"
  rt_revoked :: bool

record session =
  se_user :: int
  se_hash :: string
  se_expires :: gotime

record registration_event =
  re_kind :: string
  re_account :: "int option"
  re_user :: "int option"
  re_token :: "int option"
  re_source :: string

record federated_row =
  fi_source :: string
  fi_external :: string
  fi_account :: int
  fi_email :: string
  fi_display :: string

record credit_request =
  cr_id :: int
  cr_account :: int
  cr_period :: day
  cr_status :: string
  cr_created :: gotime
  cr_resolved :: "gotime option"
  cr_note :: "string option"

section \<open>The database\<close>

record db =
  accounts :: "account list"
  next_account :: int
  balances :: "int \<rightharpoonup> credit_balance"
  transactions :: "credit_transaction list"
  holds :: "credit_hold list"
  next_hold :: int
  pricing :: "pricing_row list"
  next_pricing :: int
  stats :: "(int \<times> string) \<rightharpoonup> usage_stats"
  tokens :: "registration_token list"
  next_token :: int
  users :: "user list"
  next_user :: int
  sessions :: "session list"
  api_keys :: "api_key list"
  next_key :: int
  reg_events :: "registration_event list"
  identities :: "federated_row list"
  requests :: "credit_request list"
  next_request :: int
  usage_logs :: "(gotime \<times> usage_entry) list"

definition empty_db :: db where
  "empty_db = \<lparr>accounts = [], next_account = 1, balances = Map.empty, transactions = [],
     holds = [], next_hold = 1, pricing = [], next_pricing = 1, stats = Map.empty,
     tokens = [], next_token = 1, users = [], next_user = 1, sessions = [],
     api_keys = [], next_key = 1, reg_events = [], identities = [],
     requests = [], next_request = 1, usage_logs = []\<rparr>"

text \<open>The errors the store returns; a failed statement is \<open>SqlFault\<close>.\<close>

datatype store_error =
    SqlFault
  | NoBalanceRow
  | InsufficientCredits
  | NumericOverflow
  | AccountNotFound
  | UserNotFound
  | KeyNotFound
  | HoldMissing
  | PricingNotFound
  | TokenNotFound
  | BadToken
  | EmailExists
  | LastActiveAdmin
  | InvalidRole
  | UniqueViolation
  | ForeignKey
  | IdentityVanished
  | RequestNotFound
  | RequestResolved
  | RequestExpired
  | IntegerOverflow
  | BadArgument

type_synonym 'a store_prog = "(db, store_error, 'a) prog"

text \<open>A value computed by a statement may fail to fit its column.\<close>

definition dec_col :: "rat \<Rightarrow> micros store_prog" where
  [prog_simps]: "dec_col x = (if dec_ok (dec6 x) then retp (dec6 x) else failp NumericOverflow)"

lemma dec_col_Inr [simp]: "dec_col x s = (Inr m, s') \<longleftrightarrow> dec_ok (dec6 x) \<and> m = dec6 x \<and> s' = s"
  by (auto simp: dec_col_def retp_def failp_def)

end
