(* ===== verification/Ledger.thy ===== *)
theory Ledger
  imports Schema
begin

text \<open>
  The reserve / settle / release ledger of internal/store/credits.go. Every operation is the
  transaction of its SQL statements, in order, over \<open>db\<close>; a fault plan says which statement
  fails. Row locks and transactions serialise the operations, so each one is a single step.
\<close>

section \<open>Operations\<close>

type_synonym faults = "nat \<Rightarrow> bool"

definition sql :: "faults \<Rightarrow> nat \<Rightarrow> 'a store_prog \<Rightarrow> 'a store_prog" where
  [prog_simps]: "sql f k m = stmt f k SqlFault m"

definition sql_begin :: "faults \<Rightarrow> nat \<Rightarrow> unit store_prog" where
  [prog_simps]: "sql_begin f k = sql f k (retp ())"

definition set_balance :: "int \<Rightarrow> credit_balance \<Rightarrow> db \<Rightarrow> db" where
  "set_balance a cb s = s\<lparr>balances := (balances s)(a \<mapsto> cb)\<rparr>"

definition add_transaction :: "credit_transaction \<Rightarrow> db \<Rightarrow> db" where
  "add_transaction t s = s\<lparr>transactions := transactions s @ [t]\<rparr>"

text \<open>GetAccountCreditStatus: is_active, balance and reserved of an account that has both rows.\<close>

definition get_account_credit_status ::
  "faults \<Rightarrow> int \<Rightarrow> db \<Rightarrow> store_error + (bool \<times> rat \<times> rat)" where
  "get_account_credit_status f a s = (if f 0 then Inl SqlFault else
     (case (row_of ac_id a (accounts s), balances s a) of
        (Some ac, Some cb) \<Rightarrow> Inr (ac_active ac, f_of_micros (cb_balance cb), f_of_micros (cb_reserved cb))
      | _ \<Rightarrow> Inl NoBalanceRow))"

definition get_credit_balance :: "faults \<Rightarrow> int \<Rightarrow> db \<Rightarrow> store_error + (rat \<times> rat) option" where
  "get_credit_balance f a s = (if f 0 then Inl SqlFault else
     Inr (map_option (\<lambda>cb. (f_of_micros (cb_balance cb), f_of_micros (cb_reserved cb))) (balances s a)))"

definition zero_balance :: credit_balance where
  "zero_balance = \<lparr>cb_balance = 0, cb_reserved = 0, cb_period = None\<rparr>"

text \<open>InitCreditBalance: ON CONFLICT DO NOTHING; the account must exist (foreign key).\<close>

definition init_credit_balance :: "faults \<Rightarrow> int \<Rightarrow> unit store_prog" where
  "init_credit_balance f a = sql f 0 (\<lambda>s.
     if row_of ac_id a (accounts s) = None then (Inl ForeignKey, s)
     else if balances s a \<noteq> None then (Inr (), s) else (Inr (), set_balance a zero_balance s))"

definition backfill_credit_balances :: "faults \<Rightarrow> unit store_prog" where
  "backfill_credit_balances f = sql f 0 (modp (\<lambda>s.
     fold (\<lambda>a s. if balances s a = None then set_balance a zero_balance s else s)
       (map ac_id (accounts s)) s))"

text \<open>AddCredits. The balance returned by the UPDATE is scanned and sent back with the INSERT.\<close>

definition add_credits :: "faults \<Rightarrow> int \<Rightarrow> rat \<Rightarrow> unit store_prog" where
  "add_credits f a amount = transact (
     bindp (sql_begin f 0) (\<lambda>_.
     bindp (sql f 1 (getp (\<lambda>s. balances s a))) (\<lambda>row.
     case row of None \<Rightarrow> failp NoBalanceRow | Some cb \<Rightarrow>
     bindp (dec_col (micros_val (cb_balance cb) + amount)) (\<lambda>bal.
     bindp (modp (set_balance a (cb\<lparr>cb_balance := bal\<rparr>))) (\<lambda>_.
     bindp (sql f 2 (dec_col amount)) (\<lambda>amt.
     bindp (dec_col (f_of_micros bal)) (\<lambda>after.
     bindp (modp (add_transaction \<lparr>ct_account = a, ct_amount = amt, ct_after = after,
              ct_type = ''grant'', ct_ref = None\<rparr>)) (\<lambda>_.
     sql_begin f 3))))))))"

definition add_hold :: "int \<Rightarrow> micros \<Rightarrow> gotime \<Rightarrow> int store_prog" where
  "add_hold a amt now = (\<lambda>s. (Inr (next_hold s),
     s\<lparr>holds := holds s @ [\<lparr>ch_id = next_hold s, ch_account = a, ch_amount = amt,
          ch_status = Pending, ch_created = now, ch_settled = None\<rparr>],
       next_hold := next_hold s + 1\<rparr>))"

text \<open>ReserveCredits: the availability check is on the scanned float64 values.\<close>

definition reserve_credits :: "faults \<Rightarrow> gotime \<Rightarrow> int \<Rightarrow> rat \<Rightarrow> int store_prog" where
  "reserve_credits f now a amount = transact (
     bindp (sql_begin f 0) (\<lambda>_.
     bindp (sql f 1 (getp (\<lambda>s. balances s a))) (\<lambda>row.
     case row of None \<Rightarrow> failp NoBalanceRow | Some cb \<Rightarrow>
     if fsub (f_of_micros (cb_balance cb)) (f_of_micros (cb_reserved cb)) < amount
     then failp InsufficientCredits else
     bindp (sql f 2 (dec_col amount)) (\<lambda>amt.
     bindp (add_hold a amt now) (\<lambda>hid.
     bindp (sql f 3 (dec_col (micros_val (cb_reserved cb) + amount))) (\<lambda>res.
     bindp (modp (set_balance a (cb\<lparr>cb_reserved := res\<rparr>))) (\<lambda>_.
     bindp (sql_begin f 4) (\<lambda>_. retp hid))))))))"

text \<open>
  UPDATE credit_holds SET status, settled_at WHERE id AND status = 'pending' RETURNING the
  account and the amount: the row, if there was a pending one.
\<close>

definition close_hold :: "int \<Rightarrow> hold_status \<Rightarrow> gotime \<Rightarrow> (credit_hold option) store_prog" where
  "close_hold hid st now = (\<lambda>s.
     case find (\<lambda>h. ch_id h = hid \<and> ch_status h = Pending) (holds s) of
       None \<Rightarrow> (Inr None, s)
     | Some h \<Rightarrow> (Inr (Some h), s\<lparr>holds :=
         upd_where (\<lambda>h. ch_id h = hid \<and> ch_status h = Pending)
           (\<lambda>h. h\<lparr>ch_status := st, ch_settled := Some now\<rparr>) (holds s)\<rparr>))"

definition settle_hold :: "faults \<Rightarrow> gotime \<Rightarrow> int \<Rightarrow> rat \<Rightarrow> rat store_prog" where
  "settle_hold f now hid actual = transact (
     bindp (sql_begin f 0) (\<lambda>_.
     bindp (sql f 1 (close_hold hid Settled now)) (\<lambda>h.
     case h of None \<Rightarrow> retp 0 | Some h \<Rightarrow>
     bindp (sql f 2 (getp (\<lambda>s. balances s (ch_account h)))) (\<lambda>row.
     case row of None \<Rightarrow> failp NoBalanceRow | Some cb \<Rightarrow>
     bindp (dec_col (micros_val (cb_balance cb) - actual)) (\<lambda>bal.
     bindp (dec_col (micros_val (cb_reserved cb) - f_of_micros (ch_amount h))) (\<lambda>res.
     bindp (modp (set_balance (ch_account h) (cb\<lparr>cb_balance := bal, cb_reserved := res\<rparr>))) (\<lambda>_.
     bindp (sql f 3 (dec_col (- actual))) (\<lambda>amt.
     bindp (dec_col (f_of_micros bal)) (\<lambda>after.
     bindp (modp (add_transaction \<lparr>ct_account = ch_account h, ct_amount = amt, ct_after = after,
              ct_type = ''usage'', ct_ref = Some hid\<rparr>)) (\<lambda>_.
     bindp (sql_begin f 4) (\<lambda>_. retp actual)))))))))))"

definition release_hold :: "faults \<Rightarrow> gotime \<Rightarrow> int \<Rightarrow> unit store_prog" where
  "release_hold f now hid = transact (
     bindp (sql_begin f 0) (\<lambda>_.
     bindp (sql f 1 (close_hold hid Released now)) (\<lambda>h.
     case h of None \<Rightarrow> retp () | Some h \<Rightarrow>
     bindp (sql f 2 (getp (\<lambda>s. balances s (ch_account h)))) (\<lambda>row.
     bindp (case row of None \<Rightarrow> retp () | Some cb \<Rightarrow>
       bindp (dec_col (micros_val (cb_reserved cb) - f_of_micros (ch_amount h))) (\<lambda>res.
       modp (set_balance (ch_account h) (cb\<lparr>cb_reserved := res\<rparr>)))) (\<lambda>_.
     sql_begin f 3)))))"

text \<open>
  SweepStaleHolds: one query for the ids, then one release per id; the first failure stops
  the loop and is returned with the number released so far. Release i runs under fault plan
  \<open>fs i\<close>.
\<close>

fun release_all :: "(nat \<Rightarrow> faults) \<Rightarrow> gotime \<Rightarrow> int list \<Rightarrow> nat \<Rightarrow> db \<Rightarrow> (nat \<times> store_error option) \<times> db" where
  "release_all fs now [] n s = ((n, None), s)"
| "release_all fs now (hid # ids) n s = (case release_hold (fs n) now hid s of
     (Inl e, s') \<Rightarrow> ((n, Some e), s')
   | (Inr _, s') \<Rightarrow> release_all fs now ids (n + 1) s')"

definition stale_holds :: "gotime \<Rightarrow> db \<Rightarrow> int list" where
  "stale_holds cutoff s =
     map ch_id (filter (\<lambda>h. ch_status h = Pending \<and> ch_created h < cutoff) (holds s))"

definition sweep_stale_holds ::
  "faults \<Rightarrow> (nat \<Rightarrow> faults) \<Rightarrow> gotime \<Rightarrow> duration \<Rightarrow> db \<Rightarrow> (nat \<times> store_error option) \<times> db" where
  "sweep_stale_holds f fs now older_than s =
     (if f 0 then ((0, Some SqlFault), s)
      else release_all fs now (stale_holds (now - older_than) s) 0 s)"

definition cleanup_settled_holds :: "faults \<Rightarrow> gotime \<Rightarrow> duration \<Rightarrow> nat store_prog" where
  "cleanup_settled_holds f now older_than = sql f 0 (\<lambda>s.
     let old = (\<lambda>h. ch_status h \<noteq> Pending \<and>
                 (case ch_settled h of None \<Rightarrow> False | Some t \<Rightarrow> t < now - older_than))
     in (Inr (length (filter old (holds s))), s\<lparr>holds := filter (\<lambda>h. \<not> old h) (holds s)\<rparr>))"

section \<open>The ledger invariant\<close>

definition pending_amount :: "int \<Rightarrow> credit_hold \<Rightarrow> micros" where
  "pending_amount a h = (if ch_status h = Pending \<and> ch_account h = a then ch_amount h else 0)"

definition pending_sum :: "int \<Rightarrow> credit_hold list \<Rightarrow> micros" where
  "pending_sum a hs = (\<Sum>h\<leftarrow>hs. pending_amount a h)"

text \<open>
  The reserved column of an account is the sum of its pending holds, to the millionth;
  hold ids are unique and below the sequence; all amounts fit their columns and no pending
  hold is negative.
\<close>

definition holds_wf :: "db \<Rightarrow> bool" where
  "holds_wf s \<longleftrightarrow> distinct (map ch_id (holds s)) \<and>
     (\<forall>h \<in> set (holds s). ch_id h < next_hold s \<and> 0 \<le> ch_amount h \<and> dec_ok (ch_amount h) \<and>
        balances s (ch_account h) \<noteq> None)"

definition ledger_inv :: "db \<Rightarrow> bool" where
  "ledger_inv s \<longleftrightarrow> holds_wf s \<and>
     (\<forall>a cb. balances s a = Some cb \<longrightarrow>
        cb_reserved cb = pending_sum a (holds s) \<and> dec_ok (cb_balance cb) \<and>
        dec_ok (pending_sum a (holds s)))"

lemma ledger_invI:
  assumes "holds_wf s"
    and "\<And>a cb. balances s a = Some cb \<Longrightarrow>
      cb_reserved cb = pending_sum a (holds s) \<and> dec_ok (cb_balance cb) \<and> dec_ok (cb_reserved cb)"
  shows "ledger_inv s"
  using assms unfolding ledger_inv_def by metis

lemma ledger_invD:
  assumes "ledger_inv s" "balances s a = Some cb"
  shows "cb_reserved cb = pending_sum a (holds s)" "dec_ok (cb_balance cb)"
    "dec_ok (pending_sum a (holds s))"
  using assms unfolding ledger_inv_def by metis+

lemma pending_sum_nonneg: "(\<forall>h \<in> set hs. 0 \<le> ch_amount h) \<Longrightarrow> 0 \<le> pending_sum a hs"
  by (induction hs) (auto simp: pending_sum_def pending_amount_def)

lemma pending_sum_append [simp]: "pending_sum a (xs @ ys) = pending_sum a xs + pending_sum a ys"
  by (simp add: pending_sum_def)

lemma pending_sum_simps [simp]:
  "pending_sum a [] = 0" "pending_sum a (h # hs) = pending_amount a h + pending_sum a hs"
  by (simp_all add: pending_sum_def)

lemma reserved_nonneg: "ledger_inv s \<Longrightarrow> balances s a = Some cb \<Longrightarrow> 0 \<le> cb_reserved cb"
  by (auto simp: ledger_inv_def holds_wf_def intro!: pending_sum_nonneg)

lemma set_balance_simps [simp]:
  "balances (set_balance a cb s) = (balances s)(a \<mapsto> cb)" "holds (set_balance a cb s) = holds s"
  "next_hold (set_balance a cb s) = next_hold s" "transactions (set_balance a cb s) = transactions s"
  "accounts (set_balance a cb s) = accounts s"
  by (simp_all add: set_balance_def)

lemma add_transaction_simps [simp]:
  "balances (add_transaction t s) = balances s" "holds (add_transaction t s) = holds s"
  "next_hold (add_transaction t s) = next_hold s"
  "transactions (add_transaction t s) = transactions s @ [t]"
  "accounts (add_transaction t s) = accounts s"
  by (simp_all add: add_transaction_def)

lemma sql_Inr: "sql f k m s = (Inr b, s') \<longleftrightarrow> \<not> f k \<and> m s = (Inr b, s')"
  by (simp add: sql_def stmt_Inr)

lemma sql_begin_Inr [simp]: "sql_begin f k s = (Inr u, s') \<longleftrightarrow> \<not> f k \<and> s' = s"
  by (simp add: sql_begin_def sql_Inr)

lemmas ledger_run = bindp_Inr sql_Inr transact_Inr

text \<open>Which row a closing statement picks, and what it does to the sums.\<close>

lemma close_hold_Some:
  assumes "close_hold hid st now s = (Inr (Some h), s')"
  shows "h \<in> set (holds s)" "ch_id h = hid" "ch_status h = Pending"
    "s' = s\<lparr>holds := upd_where (\<lambda>x. ch_id x = ch_id h \<and> ch_status x = Pending)
           (\<lambda>x. x\<lparr>ch_status := st, ch_settled := Some now\<rparr>) (holds s)\<rparr>"
  using assms by (auto simp: close_hold_def find_Some_iff split: option.splits)

lemma close_hold_None:
  "close_hold hid st now s = (Inr None, s') \<Longrightarrow> s' = s"
  by (auto simp: close_hold_def split: option.splits)

lemma close_hold_total: "\<exists>oh s1. close_hold hid st now s = (Inr oh, s1)"
  by (cases "find (\<lambda>h. ch_id h = hid \<and> ch_status h = Pending) (holds s)") (auto simp: close_hold_def)

lemma pending_sum_close:
  assumes "distinct (map ch_id hs)" "h \<in> set hs" "ch_status h = Pending" "st \<noteq> Pending"
  shows "pending_sum a (upd_where (\<lambda>x. ch_id x = ch_id h \<and> ch_status x = Pending)
           (\<lambda>x. x\<lparr>ch_status := st, ch_settled := Some now\<rparr>) hs) =
         pending_sum a hs - pending_amount a h"
  unfolding pending_sum_def using assms
  by (subst sum_list_upd_where) (auto simp: pending_amount_def)

lemma holds_wf_close:
  assumes "holds_wf s"
  shows "holds_wf (s\<lparr>holds := upd_where p (\<lambda>x. x\<lparr>ch_status := st, ch_settled := t\<rparr>) (holds s)\<rparr>)"
  using assms by (auto simp: holds_wf_def set_upd_where)

lemma holds_wf_frame:
  "holds s' = holds s \<Longrightarrow> next_hold s' = next_hold s \<Longrightarrow> dom (balances s) \<subseteq> dom (balances s') \<Longrightarrow>
   holds_wf s \<Longrightarrow> holds_wf s'"
  unfolding holds_wf_def dom_def by fastforce

text \<open>
  Closing hold h and writing balance row cb, with the reserved amount reduced by that of the
  hold, keeps the invariant.
\<close>

lemma close_and_credit:
  assumes inv: "ledger_inv s" and close: "close_hold hid st now s = (Inr (Some h), s1)"
    and st: "st \<noteq> Pending" and row: "balances s (ch_account h) = Some cb"
    and cb': "cb_reserved cb' = cb_reserved cb - ch_amount h" "dec_ok (cb_balance cb')" "dec_ok (cb_reserved cb')"
    and s': "holds s' = holds s1" "next_hold s' = next_hold s1" "balances s' = (balances s1)(ch_account h \<mapsto> cb')"
  shows "ledger_inv s'"
proof -
  note c = close_hold_Some [OF close]
  have wf: "holds_wf s" using inv by (simp add: ledger_inv_def)
  have b: "balances s1 = balances s" using c(4) by simp
  have "holds_wf s1" unfolding c(4) by (rule holds_wf_close [OF wf])
  then have wf': "holds_wf s'" using s' by (intro holds_wf_frame [of s' s1]) auto
  have sum: "pending_sum a (holds s') = pending_sum a (holds s) - pending_amount a h" for a
  proof -
    have d: "distinct (map ch_id (holds s))" using wf by (simp add: holds_wf_def)
    show ?thesis unfolding s'(1) c(4) using pending_sum_close [OF d c(1) c(3) st] by simp
  qed
  show ?thesis
  proof (rule ledger_invI [OF wf'], intro conjI)
    fix a r assume r: "balances s' a = Some r"
    note d = ledger_invD [OF inv]
    show "cb_reserved r = pending_sum a (holds s')"
      using r s'(3) b row cb' c(3) sum d(1) by (auto simp: pending_amount_def split: if_splits)
    show "dec_ok (cb_balance r)"
      using r s'(3) b cb' d(2) by (auto split: if_splits)
    show "dec_ok (cb_reserved r)"
      using r s'(3) b cb' d(1,3) by (auto split: if_splits)
  qed
qed

section \<open>The operations, branch by branch\<close>

lemma add_credits_Inr:
  assumes "add_credits f a amt s = (Inr u, s')"
  obtains cb where "balances s a = Some cb" "dec_ok (dec6 (micros_val (cb_balance cb) + amt))"
    "dec_ok (dec6 amt)"
    "s' = add_transaction \<lparr>ct_account = a, ct_amount = dec6 amt,
            ct_after = dec6 (micros_val (cb_balance cb) + amt), ct_type = ''grant'', ct_ref = None\<rparr>
          (set_balance a (cb\<lparr>cb_balance := dec6 (micros_val (cb_balance cb) + amt)\<rparr>) s)"
  using assms by (auto simp: add_credits_def ledger_run split: option.splits)

lemma reserve_credits_Inr:
  assumes "reserve_credits f now a amt s = (Inr hid, s')"
  obtains cb where "balances s a = Some cb"
    "amt \<le> fsub (f_of_micros (cb_balance cb)) (f_of_micros (cb_reserved cb))"
    "dec_ok (dec6 amt)" "dec_ok (dec6 (micros_val (cb_reserved cb) + amt))" "hid = next_hold s"
    "s' = set_balance a (cb\<lparr>cb_reserved := dec6 (micros_val (cb_reserved cb) + amt)\<rparr>)
       (s\<lparr>holds := holds s @ [\<lparr>ch_id = next_hold s, ch_account = a, ch_amount = dec6 amt,
          ch_status = Pending, ch_created = now, ch_settled = None\<rparr>], next_hold := next_hold s + 1\<rparr>)"
  using assms by (auto simp: reserve_credits_def ledger_run add_hold_def split: option.splits if_splits)

lemma settle_hold_Inr:
  assumes "settle_hold f now hid amt s = (Inr r, s')"
  obtains "r = 0" "s' = s" "\<forall>h \<in> set (holds s). ch_id h = hid \<longrightarrow> ch_status h \<noteq> Pending"
  | h s1 cb where "r = amt" "close_hold hid Settled now s = (Inr (Some h), s1)"
      "balances s (ch_account h) = Some cb"
      "dec_ok (dec6 (micros_val (cb_balance cb) - amt))" "dec_ok (dec6 (- amt))"
      "dec_ok (dec6 (micros_val (cb_reserved cb) - f_of_micros (ch_amount h)))"
      "s' = add_transaction \<lparr>ct_account = ch_account h, ct_amount = dec6 (- amt),
              ct_after = dec6 (micros_val (cb_balance cb) - amt), ct_type = ''usage'', ct_ref = Some hid\<rparr>
            (set_balance (ch_account h) (cb\<lparr>cb_balance := dec6 (micros_val (cb_balance cb) - amt),
               cb_reserved := dec6 (micros_val (cb_reserved cb) - f_of_micros (ch_amount h))\<rparr>) s1)"
proof -
  obtain oh s1 where c: "close_hold hid Settled now s = (Inr oh, s1)"
    using close_hold_total by blast
  show thesis
  proof (cases oh)
    case None
    then have "find (\<lambda>h. ch_id h = hid \<and> ch_status h = Pending) (holds s) = None" "s1 = s"
      using c by (auto simp: close_hold_def split: option.splits)
    then show thesis using that(1) assms c None
      by (auto simp: settle_hold_def ledger_run find_None_iff)
  next
    case (Some h)
    have "balances s1 = balances s" using close_hold_Some(4) [OF c [unfolded Some]] by simp
    then show thesis using that(2) [of h s1] assms c Some
      by (auto simp: settle_hold_def ledger_run split: option.splits)
  qed
qed

lemma release_hold_Inr:
  assumes "release_hold f now hid s = (Inr u, s')"
  obtains "s' = s" "\<forall>h \<in> set (holds s). ch_id h = hid \<longrightarrow> ch_status h \<noteq> Pending"
  | h s1 where "close_hold hid Released now s = (Inr (Some h), s1)"
      "balances s (ch_account h) = None" "s' = s1"
  | h s1 cb where "close_hold hid Released now s = (Inr (Some h), s1)"
      "balances s (ch_account h) = Some cb"
      "dec_ok (dec6 (micros_val (cb_reserved cb) - f_of_micros (ch_amount h)))"
      "s' = set_balance (ch_account h)
         (cb\<lparr>cb_reserved := dec6 (micros_val (cb_reserved cb) - f_of_micros (ch_amount h))\<rparr>) s1"
proof -
  obtain oh s1 where c: "close_hold hid Released now s = (Inr oh, s1)"
    using close_hold_total by blast
  show thesis
  proof (cases oh)
    case None
    then have "find (\<lambda>h. ch_id h = hid \<and> ch_status h = Pending) (holds s) = None" "s1 = s"
      using c by (auto simp: close_hold_def split: option.splits)
    then show thesis using that(1) assms c None
      by (auto simp: release_hold_def ledger_run find_None_iff)
  next
    case (Some h)
    have "balances s1 = balances s" using close_hold_Some(4) [OF c [unfolded Some]] by simp
    then show thesis using that(2,3) [of h s1] assms c Some
      by (auto simp: release_hold_def ledger_run split: option.splits)
  qed
qed

section \<open>Every operation keeps the invariant\<close>

lemma ledger_inv_balance_only:
  assumes "ledger_inv s" "balances s a = Some cb" "dec_ok m"
    and "holds s' = holds s" "next_hold s' = next_hold s"
    and "balances s' = (balances s)(a \<mapsto> cb\<lparr>cb_balance := m\<rparr>)"
  shows "ledger_inv s'"
  using assms holds_wf_frame [of s' s] by (fastforce simp: ledger_inv_def)

lemma add_credits_inv:
  assumes "ledger_inv s" shows "ledger_inv (snd (add_credits f a amt s))"
proof (cases "add_credits f a amt s")
  case (Pair r s')
  show ?thesis
  proof (cases r)
    case (Inl e)
    then show ?thesis using Pair assms by (auto simp: add_credits_def dest: transact_Inl)
  next
    case (Inr u)
    then obtain cb where "balances s a = Some cb" "dec_ok (dec6 (micros_val (cb_balance cb) + amt))"
      "s' = add_transaction \<lparr>ct_account = a, ct_amount = dec6 amt,
            ct_after = dec6 (micros_val (cb_balance cb) + amt), ct_type = ''grant'', ct_ref = None\<rparr>
          (set_balance a (cb\<lparr>cb_balance := dec6 (micros_val (cb_balance cb) + amt)\<rparr>) s)"
      using Pair by (auto elim: add_credits_Inr)
    then show ?thesis using Pair assms by (auto intro: ledger_inv_balance_only)
  qed
qed

lemma reserve_credits_inv:
  assumes inv: "ledger_inv s" and amt: "0 \<le> amt"
  shows "ledger_inv (snd (reserve_credits f now a amt s))"
proof (cases "reserve_credits f now a amt s")
  case (Pair r s')
  show ?thesis
  proof (cases r)
    case (Inl e)
    then show ?thesis using Pair inv by (auto simp: reserve_credits_def dest: transact_Inl)
  next
    case (Inr hid)
    let ?h = "\<lparr>ch_id = next_hold s, ch_account = a, ch_amount = dec6 amt, ch_status = Pending,
                ch_created = now, ch_settled = None\<rparr>"
    obtain cb where cb: "balances s a = Some cb" "dec_ok (dec6 amt)"
        "dec_ok (dec6 (micros_val (cb_reserved cb) + amt))"
      and s': "s' = set_balance a (cb\<lparr>cb_reserved := dec6 (micros_val (cb_reserved cb) + amt)\<rparr>)
         (s\<lparr>holds := holds s @ [?h], next_hold := next_hold s + 1\<rparr>)"
      using Pair Inr by (auto elim: reserve_credits_Inr)
    have res: "dec6 (micros_val (cb_reserved cb) + amt) = cb_reserved cb + dec6 amt"
      using reserved_nonneg [OF inv cb(1)] amt by (rule dec6_add)
    have "holds_wf s'" using inv cb amt s'
      by (fastforce simp: ledger_inv_def holds_wf_def dec6_nonneg)
    moreover have "cb_reserved cb = pending_sum a (holds s)" "dec_ok (cb_balance cb)"
      by (rule ledger_invD [OF inv cb(1)])+
    ultimately have "ledger_inv s'"
      using cb(3) res s' by (intro ledger_invI) (auto simp: pending_amount_def ledger_invD [OF inv] split: if_splits)
    then show ?thesis using Pair by simp
  qed
qed

lemma settle_hold_inv:
  assumes inv: "ledger_inv s" shows "ledger_inv (snd (settle_hold f now hid amt s))"
proof (cases "settle_hold f now hid amt s")
  case (Pair r s')
  show ?thesis
  proof (cases r)
    case (Inl e)
    then show ?thesis using Pair inv by (auto simp: settle_hold_def dest: transact_Inl)
  next
    case (Inr v)
    with Pair have "settle_hold f now hid amt s = (Inr v, s')" by simp
    then show ?thesis
    proof (cases rule: settle_hold_Inr)
      case 1
      then show ?thesis using Pair inv by simp
    next
      case (2 h s1 cb)
      have "dec_ok (ch_amount h)" using inv close_hold_Some(1) [OF 2(2)]
        by (auto simp: ledger_inv_def holds_wf_def)
      then show ?thesis using Pair 2 inv
        by (auto simp: dec6_sub_f_of_micros close_hold_Some(4) intro!: close_and_credit [OF inv 2(2) _ 2(3)])
    qed
  qed
qed

lemma release_hold_inv:
  assumes inv: "ledger_inv s" shows "ledger_inv (snd (release_hold f now hid s))"
proof (cases "release_hold f now hid s")
  case (Pair r s')
  show ?thesis
  proof (cases r)
    case (Inl e)
    then show ?thesis using Pair inv by (auto simp: release_hold_def dest: transact_Inl)
  next
    case (Inr v)
    with Pair have "release_hold f now hid s = (Inr v, s')" by simp
    then show ?thesis
    proof (cases rule: release_hold_Inr)
      case 1
      then show ?thesis using Pair inv by simp
    next
      case (2 h s1)
      then show ?thesis using inv close_hold_Some(1) [OF 2(1)] by (auto simp: ledger_inv_def holds_wf_def)
    next
      case (3 h s1 cb)
      have "dec_ok (ch_amount h)" using inv close_hold_Some(1) [OF 3(1)]
        by (auto simp: ledger_inv_def holds_wf_def)
      moreover have "dec_ok (cb_balance cb)" using inv 3(2) by (auto simp: ledger_inv_def)
      ultimately have "ledger_inv s'" using 3
        by (intro close_and_credit [OF inv 3(1) _ 3(2),
              where cb' = "cb\<lparr>cb_reserved := cb_reserved cb - ch_amount h\<rparr>"])
           (auto simp: dec6_sub_f_of_micros close_hold_Some(4))
      then show ?thesis using Pair by simp
    qed
  qed
qed

lemma release_all_inv: "ledger_inv s \<Longrightarrow> ledger_inv (snd (release_all fs now ids n s))"
proof (induction ids arbitrary: n s)
  case (Cons i ids)
  have "ledger_inv (snd (release_hold (fs n) now i s))" by (rule release_hold_inv [OF Cons.prems])
  then show ?case using Cons.IH by (auto split: prod.splits sum.splits)
qed simp

lemma sweep_stale_holds_inv: "ledger_inv s \<Longrightarrow> ledger_inv (snd (sweep_stale_holds f fs now d s))"
  by (simp add: sweep_stale_holds_def release_all_inv)

lemma pending_sum_filter:
  "(\<And>h. ch_status h = Pending \<Longrightarrow> p h) \<Longrightarrow> pending_sum a (filter p hs) = pending_sum a hs"
  by (induction hs) (auto simp: pending_amount_def)

lemma cleanup_settled_holds_inv:
  assumes "ledger_inv s" shows "ledger_inv (snd (cleanup_settled_holds f now d s))"
proof -
  have "distinct (map ch_id (filter p (holds s)))" for p
    using assms by (simp add: ledger_inv_def holds_wf_def distinct_map_filter)
  then show ?thesis using assms
    by (auto simp: cleanup_settled_holds_def sql_def stmt_def Let_def ledger_inv_def holds_wf_def
        pending_sum_filter)
qed

lemma ledger_inv_new_row:
  assumes "ledger_inv s" "balances s a = None" "dec_ok (cb_balance cb)" "cb_reserved cb = 0"
    and "holds s' = holds s" "next_hold s' = next_hold s" "balances s' = (balances s)(a \<mapsto> cb)"
  shows "ledger_inv s'"
proof -
  have "pending_amount a h = 0" if "h \<in> set (holds s)" for h
    using that assms(1,2) by (auto simp: ledger_inv_def holds_wf_def pending_amount_def)
  then have "pending_sum a (holds s) = 0"
    unfolding pending_sum_def by (induction "holds s") (auto intro!: sum_list_0 simp: map_idI cong: map_cong)
  then show ?thesis using assms holds_wf_frame [of s' s]
    by (auto simp: ledger_inv_def) (simp add: dec_ok_def)
qed

lemma init_credit_balance_inv: "ledger_inv s \<Longrightarrow> ledger_inv (snd (init_credit_balance f a s))"
  by (auto simp: init_credit_balance_def sql_def stmt_def zero_balance_def dec_ok_def
      intro!: ledger_inv_new_row [of s a zero_balance])

lemma backfill_credit_balances_inv:
  assumes "ledger_inv s" shows "ledger_inv (snd (backfill_credit_balances f s))"
proof -
  have "ledger_inv (fold (\<lambda>a s. if balances s a = None then set_balance a zero_balance s else s) as s)" for as
    using assms
  proof (induction as arbitrary: s)
    case (Cons a as)
    then show ?case
      by (auto simp: zero_balance_def dec_ok_def intro!: Cons.IH ledger_inv_new_row [of s a zero_balance])
  qed simp
  then show ?thesis using assms
    by (simp add: backfill_credit_balances_def sql_def stmt_def modp_def)
qed

section \<open>Reservation never overdraws\<close>

text \<open>
  The check is made in float64 and the columns are rounded, yet the two errors together stay
  below half a millionth, so they can never let a reservation past the balance.
\<close>

lemma abs_diff_near:
  fixes a b x y :: rat
  assumes "\<bar>a - x\<bar> \<le> e" "\<bar>b - y\<bar> \<le> e" "\<bar>x\<bar> \<le> n" "\<bar>y\<bar> \<le> n"
  shows "\<bar>a - b\<bar> \<le> 2 * n + 2 * e"
  using assms by linarith

lemma abs_diff_chain:
  fixes a b x y z :: rat
  assumes "\<bar>z - (a - b)\<bar> \<le> d" "\<bar>a - x\<bar> \<le> e" "\<bar>b - y\<bar> \<le> e" "d + 2 * e < k"
  shows "\<bar>z - (x - y)\<bar> < k"
  using assms by linarith

lemma fsub_micros_error:
  assumes "dec_ok b" "dec_ok r"
  shows "\<bar>fsub (f_of_micros b) (f_of_micros r) - (micros_val b - micros_val r)\<bar> < 1 / 2000000"
proof -
  define x where "x = f_of_micros b - f_of_micros r"
  have b: "\<bar>f_of_micros b - micros_val b\<bar> \<le> 12 / 10 ^ 8" by (rule f_of_micros_error [OF assms(1)])
  have r: "\<bar>f_of_micros r - micros_val r\<bar> \<le> 12 / 10 ^ 8" by (rule f_of_micros_error [OF assms(2)])
  have "\<bar>micros_val m\<bar> \<le> 10 ^ 9" if "dec_ok m" for m
  proof -
    have "(of_int \<bar>m\<bar> :: rat) \<le> of_int (10 ^ 15)"
      using that by (simp only: of_int_le_iff dec_ok_def less_imp_le)
    then show ?thesis by (simp add: micros_val_def abs_divide)
  qed
  then have "\<bar>micros_val b\<bar> \<le> 10 ^ 9" "\<bar>micros_val r\<bar> \<le> 10 ^ 9" using assms by simp_all
  then have "\<bar>x\<bar> \<le> 2 * 10 ^ 9 + 2 * (12 / 10 ^ 8)" unfolding x_def by (rule abs_diff_near [OF b r])
  moreover have "\<bar>rnd64 x - x\<bar> \<le> \<bar>x\<bar> / 2 ^ 53 + 1 / 10 ^ 30"
    using rnd64_error [of x] tiny_powi by linarith
  ultimately have "\<bar>rnd64 x - x\<bar> \<le> 24 / 10 ^ 8" by simp
  then have "\<bar>fsub (f_of_micros b) (f_of_micros r) - (f_of_micros b - f_of_micros r)\<bar> \<le> 24 / 10 ^ 8"
    by (simp add: fsub_def x_def)
  then show ?thesis by (rule abs_diff_chain [OF _ b r]) simp
qed

text \<open>C1: A reservation that succeeds leaves the account's reserved amount at or below its
  balance, in spite of the float64 availability check and the six-decimal columns.\<close>

theorem reserve_never_overdraws:
  assumes inv: "ledger_inv s" and amt: "0 \<le> amt"
    and ok: "reserve_credits f now a amt s = (Inr hid, s')" and row: "balances s' a = Some cb'"
  shows "cb_reserved cb' \<le> cb_balance cb'"
proof -
  obtain cb where cb: "balances s a = Some cb"
      "amt \<le> fsub (f_of_micros (cb_balance cb)) (f_of_micros (cb_reserved cb))"
    and cb': "cb' = cb\<lparr>cb_reserved := dec6 (micros_val (cb_reserved cb) + amt)\<rparr>"
    using ok row by (auto elim!: reserve_credits_Inr)
  have d: "dec_ok (cb_balance cb)" "dec_ok (cb_reserved cb)"
    using ledger_invD [OF inv cb(1)] by simp_all
  define x where "x = fsub (f_of_micros (cb_balance cb)) (f_of_micros (cb_reserved cb))"
  have "\<bar>x - (micros_val (cb_balance cb) - micros_val (cb_reserved cb))\<bar> < 1 / 2000000"
    unfolding x_def by (rule fsub_micros_error [OF d])
  then have "dec6 (micros_val (cb_reserved cb) + x) = cb_balance cb"
    by (intro dec6_close) (simp add: algebra_simps)
  moreover have "dec6 (micros_val (cb_reserved cb) + amt) \<le> dec6 (micros_val (cb_reserved cb) + x)"
    using cb(2) by (intro dec6_mono) (simp add: x_def)
  ultimately show ?thesis by (simp add: cb')
qed

section \<open>A hold is closed once\<close>

lemma find_pending_None:
  "(\<forall>h \<in> set hs. ch_id h = hid \<longrightarrow> ch_status h \<noteq> Pending) \<Longrightarrow>
   find (\<lambda>h. ch_id h = hid \<and> ch_status h = Pending) hs = None"
  by (auto simp: find_None_iff)

lemma closed_hold_inert:
  assumes "\<forall>h \<in> set (holds s). ch_id h = hid \<longrightarrow> ch_status h \<noteq> Pending"
  shows "settle_hold no_faults now hid amt s = (Inr 0, s)" "release_hold no_faults now hid s = (Inr (), s)"
  using find_pending_None [OF assms]
  by (simp_all add: settle_hold_def release_hold_def transact_def close_hold_def prog_simps)

lemma upd_where_closes:
  assumes "h \<in> set (upd_where p g hs)" "\<And>x. q (g x)" "\<And>x. \<not> p x \<Longrightarrow> q x"
  shows "q h"
  using assms by (auto simp: set_upd_where)

lemma close_hold_closed:
  assumes c: "close_hold hid st now s = (Inr oh, s')" and st: "st \<noteq> Pending"
    and h: "h \<in> set (holds s')" "ch_id h = hid"
  shows "ch_status h \<noteq> Pending"
proof (cases oh)
  case None
  then have "find (\<lambda>h. ch_id h = hid \<and> ch_status h = Pending) (holds s) = None" "s' = s"
    using c by (auto simp: close_hold_def split: option.splits)
  then show ?thesis using h by (auto simp: find_None_iff)
next
  case (Some h')
  note f = close_hold_Some [OF c [unfolded Some]]
  have "ch_id h = hid \<longrightarrow> ch_status h \<noteq> Pending"
    using h(1) unfolding f(4) by simp (erule upd_where_closes; use st f(2) in simp)
  then show ?thesis using h(2) by simp
qed

lemma settle_hold_closes:
  assumes "settle_hold f now hid amt s = (Inr r, s')" "h \<in> set (holds s')" "ch_id h = hid"
  shows "ch_status h \<noteq> Pending"
  using assms(1)
proof (cases rule: settle_hold_Inr)
  case 1
  then show ?thesis using assms by blast
next
  case (2 h' s1 cb)
  then have "h \<in> set (holds s1)" using assms(2) by simp
  then show ?thesis using close_hold_closed [OF 2(2) _ _ assms(3)] by simp
qed

lemma release_hold_closes:
  assumes "release_hold f now hid s = (Inr u, s')" "h \<in> set (holds s')" "ch_id h = hid"
  shows "ch_status h \<noteq> Pending"
  using assms(1)
proof (cases rule: release_hold_Inr)
  case 1
  then show ?thesis using assms by blast
next
  case (2 h' s1)
  then show ?thesis using close_hold_closed [OF 2(1) _ _ assms(3)] assms(2) by simp
next
  case (3 h' s1 cb)
  then have "h \<in> set (holds s1)" using assms(2) by simp
  then show ?thesis using close_hold_closed [OF 3(1) _ _ assms(3)] by simp
qed

text \<open>C8: Whichever of settlement and release reaches a hold first, the other finds it closed:
  after either one succeeded, a later settlement of the same hold charges 0 and a later
  release does nothing.\<close>

theorem hold_closed_once:
  assumes "settle_hold f now hid amt s = (Inr r, s') \<or> release_hold f now hid s = (Inr (), s')"
  shows "settle_hold no_faults now' hid amt' s' = (Inr 0, s') \<and>
         release_hold no_faults now' hid s' = (Inr (), s')"
proof -
  have "\<forall>h \<in> set (holds s'). ch_id h = hid \<longrightarrow> ch_status h \<noteq> Pending"
    using assms settle_hold_closes release_hold_closes by blast
  then show ?thesis by (simp add: closed_hold_inert)
qed

section \<open>Settlement and release of a pending hold\<close>

lemma pending_amount_le_sum:
  "\<forall>h \<in> set hs. 0 \<le> ch_amount h \<Longrightarrow> h \<in> set hs \<Longrightarrow> pending_amount a h \<le> pending_sum a hs"
proof (induction hs)
  case (Cons x hs)
  then have "0 \<le> pending_sum a hs" "0 \<le> pending_amount a x"
    using pending_sum_nonneg by (auto simp: pending_amount_def)
  then show ?case using Cons by fastforce
qed simp

lemma find_pending:
  assumes "distinct (map ch_id hs)" "h \<in> set hs" "ch_status h = Pending"
  shows "find (\<lambda>x. ch_id x = ch_id h \<and> ch_status x = Pending) hs = Some h"
  using assms
proof (induction hs)
  case (Cons x hs)
  then show ?case by (cases "x = h") (auto simp: image_iff)
qed simp

lemma pending_hold_facts:
  assumes inv: "ledger_inv s" and h: "h \<in> set (holds s)" "ch_status h = Pending"
  obtains cb where "balances s (ch_account h) = Some cb"
    "dec6 (micros_val (cb_reserved cb) - f_of_micros (ch_amount h)) = cb_reserved cb - ch_amount h"
    "dec_ok (cb_reserved cb - ch_amount h)"
    "find (\<lambda>x. ch_id x = ch_id h \<and> ch_status x = Pending) (holds s) = Some h"
proof -
  have wf: "holds_wf s" using inv by (simp add: ledger_inv_def)
  obtain cb where cb: "balances s (ch_account h) = Some cb" using wf h by (auto simp: holds_wf_def)
  have "dec_ok (ch_amount h)" "0 \<le> ch_amount h" using wf h by (auto simp: holds_wf_def)
  moreover have "ch_amount h \<le> cb_reserved cb"
    using pending_amount_le_sum [of "holds s" h "ch_account h"] wf h ledger_invD(1) [OF inv cb]
    by (simp add: holds_wf_def pending_amount_def)
  ultimately have "dec_ok (cb_reserved cb - ch_amount h)"
    using ledger_invD(1,3) [OF inv cb] by (simp add: dec_ok_def)
  moreover have "find (\<lambda>x. ch_id x = ch_id h \<and> ch_status x = Pending) (holds s) = Some h"
    using wf h by (intro find_pending) (simp_all add: holds_wf_def)
  ultimately show thesis using that cb \<open>dec_ok (ch_amount h)\<close> by (simp add: dec6_sub_f_of_micros)
qed

lemma settle_pending_hold:
  assumes inv: "ledger_inv s" and h: "h \<in> set (holds s)" "ch_status h = Pending"
    and cb: "balances s (ch_account h) = Some cb"
    and fits: "dec_ok (dec6 (micros_val (cb_balance cb) - cost))" "dec_ok (dec6 cost)"
  shows "\<exists>s'. settle_hold no_faults now (ch_id h) cost s = (Inr cost, s') \<and>
    balances s' (ch_account h) = Some (cb\<lparr>cb_balance := dec6 (micros_val (cb_balance cb) - cost),
       cb_reserved := cb_reserved cb - ch_amount h\<rparr>) \<and>
    transactions s' = transactions s @ [\<lparr>ct_account = ch_account h, ct_amount = - dec6 cost,
       ct_after = dec6 (micros_val (cb_balance cb) - cost), ct_type = ''usage'', ct_ref = Some (ch_id h)\<rparr>]"
proof -
  obtain cb1 where "balances s (ch_account h) = Some cb1"
    and f: "dec6 (micros_val (cb_reserved cb1) - f_of_micros (ch_amount h)) = cb_reserved cb1 - ch_amount h"
      "dec_ok (cb_reserved cb1 - ch_amount h)"
      "find (\<lambda>x. ch_id x = ch_id h \<and> ch_status x = Pending) (holds s) = Some h"
    by (rule pending_hold_facts [OF inv h])
  then have [simp]: "cb1 = cb" using cb by simp
  have "dec_ok (dec6 (- cost))" using fits(2) by (simp add: dec6_minus dec_ok_def)
  then show ?thesis using f fits cb
    by (simp add: settle_hold_def transact_def close_hold_def prog_simps dec6_minus)
qed

text \<open>Settling a pending hold charges the actual cost: the balance falls by the cost, the
  reservation by exactly the amount of the hold, and one usage row with the new balance is
  appended to the audit trail.\<close>

theorem settle_hold_charges:
  assumes inv: "ledger_inv s" and h: "h \<in> set (holds s)" "ch_status h = Pending"
    and cb: "balances s (ch_account h) = Some cb"
    and fits: "dec_ok (dec6 (micros_val (cb_balance cb) - cost))" "dec_ok (dec6 cost)"
  shows "\<exists>s'. settle_hold no_faults now (ch_id h) cost s = (Inr cost, s') \<and>
    balances s' (ch_account h) = Some (cb\<lparr>cb_balance := dec6 (micros_val (cb_balance cb) - cost),
       cb_reserved := cb_reserved cb - ch_amount h\<rparr>) \<and>
    transactions s' = transactions s @ [\<lparr>ct_account = ch_account h, ct_amount = - dec6 cost,
       ct_after = dec6 (micros_val (cb_balance cb) - cost), ct_type = ''usage'', ct_ref = Some (ch_id h)\<rparr>]"
  by (rule settle_pending_hold [OF assms])

lemma release_hold_pending:
  assumes inv: "ledger_inv s" and h: "h \<in> set (holds s)" "ch_status h = Pending"
  shows "\<exists>s'. release_hold no_faults now (ch_id h) s = (Inr (), s')"
  by (rule pending_hold_facts [OF inv h])
     (simp add: release_hold_def transact_def close_hold_def prog_simps)

lemma release_hold_total: "ledger_inv s \<Longrightarrow> \<exists>s'. release_hold no_faults now hid s = (Inr (), s')"
  using release_hold_pending [of s _ now] closed_hold_inert(2) [of s hid now] by metis


section \<open>The stale-hold sweep\<close>

definition pending_set :: "db \<Rightarrow> credit_hold set" where
  "pending_set s = {h \<in> set (holds s). ch_status h = Pending}"

lemma pending_set_close:
  assumes c: "close_hold hid st now s = (Inr (Some h), s1)" and st: "st \<noteq> Pending"
  shows "{x \<in> set (holds s1). ch_status x = Pending} = {x \<in> pending_set s. ch_id x \<noteq> hid}"
proof -
  note f = close_hold_Some [OF c]
  show ?thesis unfolding f(4) pending_set_def using f(2) st
    by (auto simp: set_upd_where image_iff split: if_splits)
qed

lemma release_hold_pending_set:
  assumes "release_hold f now hid s = (Inr u, s')"
  shows "pending_set s' = {h \<in> pending_set s. ch_id h \<noteq> hid}"
  using assms
proof (cases rule: release_hold_Inr)
  case 1
  then show ?thesis by (auto simp: pending_set_def)
next
  case (2 h s1)
  then show ?thesis using pending_set_close [OF 2(1)] by (simp add: pending_set_def)
next
  case (3 h s1 cb)
  then show ?thesis using pending_set_close [OF 3(1)] by (simp add: pending_set_def)
qed

lemma release_all_no_faults:
  assumes "ledger_inv s"
  shows "\<exists>s'. release_all (\<lambda>_. no_faults) now ids n s = ((n + length ids, None), s') \<and>
    pending_set s' = {h \<in> pending_set s. ch_id h \<notin> set ids}"
  using assms
proof (induction ids arbitrary: n s)
  case (Cons i ids)
  obtain s1 where s1: "release_hold no_faults now i s = (Inr (), s1)"
    using release_hold_total [OF Cons.prems] by blast
  have "ledger_inv s1" using release_hold_inv [OF Cons.prems, of no_faults now i] s1 by simp
  from Cons.IH [OF this, of "n + 1"] obtain s' where
    "release_all (\<lambda>_. no_faults) now ids (n + 1) s1 = ((n + 1 + length ids, None), s')"
    "pending_set s' = {h \<in> pending_set s1. ch_id h \<notin> set ids}" by blast
  then show ?case using s1 release_hold_pending_set [OF s1] by (auto simp del: no_faults_def)
qed simp

lemma stale_ids:
  assumes "ledger_inv s" "h \<in> pending_set s"
  shows "ch_id h \<in> set (stale_holds t s) \<longleftrightarrow> ch_created h < t"
proof -
  have "inj_on ch_id (set (holds s))"
    using assms(1) by (simp add: ledger_inv_def holds_wf_def distinct_map)
  then show ?thesis using assms(2) by (auto simp: stale_holds_def pending_set_def dest: inj_onD)
qed

text \<open>A sweep that meets no database failure releases exactly the pending holds older than
  its cutoff, reports their number, and leaves every younger hold pending.\<close>

theorem sweep_releases_stale:
  assumes inv: "ledger_inv s"
  shows "\<exists>s'. sweep_stale_holds no_faults (\<lambda>_. no_faults) now d s =
      ((length (stale_holds (now - d) s), None), s') \<and>
    pending_set s' = {h \<in> pending_set s. now - d \<le> ch_created h}"
proof -
  obtain s' where s': "release_all (\<lambda>_. no_faults) now (stale_holds (now - d) s) 0 s =
      ((0 + length (stale_holds (now - d) s), None), s')"
    "pending_set s' = {h \<in> pending_set s. ch_id h \<notin> set (stale_holds (now - d) s)}"
    using release_all_no_faults [OF inv] by blast
  have "pending_set s' = {h \<in> pending_set s. now - d \<le> ch_created h}"
    unfolding s'(2) using stale_ids [OF inv] by (auto simp: not_less)
  then show ?thesis using s'(1) by (auto simp: sweep_stale_holds_def)
qed

section \<open>A failed operation changes nothing\<close>

text \<open>AddCredits, ReserveCredits, SettleHold and ReleaseHold are all-or-nothing: whichever of
  their statements fails, the database is as it was.\<close>

theorem ledger_atomic:
  shows "(isl (fst (add_credits f a amt s)) \<longrightarrow> snd (add_credits f a amt s) = s) \<and>
    (isl (fst (reserve_credits f now a amt s)) \<longrightarrow> snd (reserve_credits f now a amt s) = s) \<and>
    (isl (fst (settle_hold f now hid amt s)) \<longrightarrow> snd (settle_hold f now hid amt s) = s) \<and>
    (isl (fst (release_hold f now hid s)) \<longrightarrow> snd (release_hold f now hid s) = s)"
  by (simp add: add_credits_def reserve_credits_def settle_hold_def release_hold_def transact_atomic)

section \<open>The audit trail\<close>

definition last_after :: "int \<Rightarrow> credit_transaction list \<Rightarrow> micros" where
  "last_after a ts = (case rev (filter (\<lambda>t. ct_account t = a) ts) of [] \<Rightarrow> 0 | t # _ \<Rightarrow> ct_after t)"

text \<open>
  The balance of every account is the balance_after of the last transaction of the account,
  or 0 before the first one.
\<close>

definition trail_inv :: "db \<Rightarrow> bool" where
  "trail_inv s \<longleftrightarrow> (\<forall>t \<in> set (transactions s). balances s (ct_account t) \<noteq> None) \<and>
     (\<forall>a cb. balances s a = Some cb \<longrightarrow> cb_balance cb = last_after a (transactions s))"

lemma last_after_snoc [simp]:
  "last_after a (ts @ [t]) = (if ct_account t = a then ct_after t else last_after a ts)"
  by (simp add: last_after_def)

lemma last_after_none: "a \<notin> ct_account ` set ts \<Longrightarrow> last_after a ts = 0"
proof -
  assume "a \<notin> ct_account ` set ts"
  then have "filter (\<lambda>t. ct_account t = a) ts = []" by (auto simp: filter_empty_conv)
  then show ?thesis by (simp add: last_after_def)
qed

lemma trail_inv_same:
  assumes "trail_inv s" "transactions s' = transactions s" "dom (balances s') = dom (balances s)"
    and "\<And>a cb cb'. balances s a = Some cb \<Longrightarrow> balances s' a = Some cb' \<Longrightarrow> cb_balance cb' = cb_balance cb"
  shows "trail_inv s'"
  unfolding trail_inv_def
proof (intro conjI ballI allI impI)
  fix t assume "t \<in> set (transactions s')"
  then show "balances s' (ct_account t) \<noteq> None" using assms(1-3) by (auto simp: trail_inv_def dom_def)
next
  fix a cb' assume b: "balances s' a = Some cb'"
  then obtain cb where "balances s a = Some cb" using assms(3) by (auto simp: dom_def)
  then show "cb_balance cb' = last_after a (transactions s')"
    using assms(1,2) assms(4) [OF _ b] by (auto simp: trail_inv_def)
qed

lemma trail_inv_step:
  assumes "trail_inv s" "transactions s' = transactions s @ [t]" "balances s' = (balances s)(ct_account t \<mapsto> cb)"
    and "cb_balance cb = ct_after t"
  shows "trail_inv s'"
  using assms by (auto simp: trail_inv_def)

lemma add_credits_trail:
  assumes "trail_inv s" shows "trail_inv (snd (add_credits f a amt s))"
proof (cases "add_credits f a amt s")
  case (Pair r s')
  show ?thesis
  proof (cases r)
    case (Inl e)
    then show ?thesis using Pair assms by (auto simp: add_credits_def dest: transact_Inl)
  next
    case (Inr u)
    then have "add_credits f a amt s = (Inr u, s')" using Pair by simp
    then show ?thesis using Pair
      by (elim add_credits_Inr) (auto intro!: trail_inv_step [OF assms])
  qed
qed

lemma settle_hold_trail:
  assumes "trail_inv s" shows "trail_inv (snd (settle_hold f now hid amt s))"
proof (cases "settle_hold f now hid amt s")
  case (Pair r s')
  show ?thesis
  proof (cases r)
    case (Inl e)
    then show ?thesis using Pair assms by (auto simp: settle_hold_def dest: transact_Inl)
  next
    case (Inr u)
    then have "settle_hold f now hid amt s = (Inr u, s')" using Pair by simp
    then show ?thesis
    proof (cases rule: settle_hold_Inr)
      case 1
      then show ?thesis using Pair assms by simp
    next
      case (2 h s1 cb)
      have "transactions s1 = transactions s" "balances s1 = balances s"
        using close_hold_Some(4) [OF 2(2)] by simp_all
      then show ?thesis using Pair 2(7) by (auto intro!: trail_inv_step [OF assms])
    qed
  qed
qed


section \<open>Concrete ledgers\<close>

text \<open>One account with a balance of 10 credits and a pending hold of 2.5 taken at time 100.\<close>

definition one_hold_db :: db where
  "one_hold_db = empty_db\<lparr>
     accounts := [\<lparr>ac_id = 1, ac_name = ''a'', ac_type = ''personal'', ac_active = True, ac_created = 0,
       ac_managed = False, ac_monthly_grant = None, ac_rate_per_min = None\<rparr>],
     next_account := 2,
     balances := [1 \<mapsto> \<lparr>cb_balance = 10000000, cb_reserved = 2500000, cb_period = None\<rparr>],
     transactions := [\<lparr>ct_account = 1, ct_amount = 10000000, ct_after = 10000000,
       ct_type = ''grant'', ct_ref = None\<rparr>],
     holds := [\<lparr>ch_id = 1, ch_account = 1, ch_amount = 2500000, ch_status = Pending,
       ch_created = 100, ch_settled = None\<rparr>],
     next_hold := 2\<rparr>"

lemma one_hold_inv [simp]: "ledger_inv one_hold_db" "trail_inv one_hold_db"
  by (simp_all add: ledger_inv_def holds_wf_def trail_inv_def one_hold_db_def empty_db_def dec_ok_def
      pending_amount_def last_after_def)

lemma reserve_never_overdraws_witness:
  "fst (reserve_credits no_faults 0 1 (15/2) one_hold_db) = Inr 2 \<and>
   (\<exists>cb. balances (snd (reserve_credits no_faults 0 1 (15/2) one_hold_db)) 1 = Some cb \<and>
      cb_reserved cb = 10000000 \<and> cb_reserved cb \<le> cb_balance cb)"
proof -
  have "(\<lambda>r. (fst r, balances (snd r) 1)) (reserve_credits no_faults 0 1 (15/2) one_hold_db) =
      (Inr 2, Some \<lparr>cb_balance = 10000000, cb_reserved = 10000000, cb_period = None\<rparr>)" by code_simp
  then have f: "fst (reserve_credits no_faults 0 1 (15/2) one_hold_db) = Inr 2"
    and b: "balances (snd (reserve_credits no_faults 0 1 (15/2) one_hold_db)) 1 =
      Some \<lparr>cb_balance = 10000000, cb_reserved = 10000000, cb_period = None\<rparr>" by simp_all
  have r: "reserve_credits no_faults 0 1 (15/2) one_hold_db =
      (Inr 2, snd (reserve_credits no_faults 0 1 (15/2) one_hold_db))"
    using f by (simp add: prod_eq_iff)
  show ?thesis using reserve_never_overdraws [OF one_hold_inv(1) _ r b] f b by simp
qed

lemma hold_closed_once_witness:
  "fst (settle_hold no_faults 200 1 2 one_hold_db) = Inr 2 \<and>
   (let s = snd (settle_hold no_faults 200 1 2 one_hold_db) in
      settle_hold no_faults 300 1 5 s = (Inr 0, s) \<and> release_hold no_faults 300 1 s = (Inr (), s))"
proof -
  have f: "fst (settle_hold no_faults 200 1 2 one_hold_db) = Inr 2" by code_simp
  then have "settle_hold no_faults 200 1 2 one_hold_db =
      (Inr 2, snd (settle_hold no_faults 200 1 2 one_hold_db))" by (simp add: prod_eq_iff)
  from hold_closed_once [OF disjI1 [OF this]] show ?thesis using f by (simp add: Let_def)
qed

lemma settle_hold_charges_witness:
  "\<exists>s'. settle_hold no_faults 200 1 2 one_hold_db = (Inr 2, s') \<and>
     balances s' 1 = Some \<lparr>cb_balance = 8000000, cb_reserved = 0, cb_period = None\<rparr>"
proof -
  let ?h = "\<lparr>ch_id = 1, ch_account = 1, ch_amount = 2500000, ch_status = Pending,
       ch_created = 100, ch_settled = None\<rparr>"
  let ?cb = "\<lparr>cb_balance = 10000000, cb_reserved = 2500000, cb_period = None\<rparr>"
  have "?h \<in> set (holds one_hold_db)" "balances one_hold_db 1 = Some ?cb"
    by (simp_all add: one_hold_db_def)
  moreover have "dec6 (micros_val (cb_balance ?cb) - 2) = 8000000" by code_simp
  moreover have "dec_ok 8000000" "dec_ok (dec6 2)" by code_simp+
  ultimately show ?thesis
    using settle_hold_charges [OF one_hold_inv(1), of ?h ?cb 2 200] by auto
qed

lemma sweep_releases_stale_witness:
  "\<exists>s'. sweep_stale_holds no_faults (\<lambda>_. no_faults) 1000 500 one_hold_db = ((1, None), s') \<and>
     pending_set s' = {}"
proof -
  have "length (stale_holds (1000 - 500) one_hold_db) = 1" by code_simp
  moreover have "{h \<in> pending_set one_hold_db. 1000 - 500 \<le> ch_created h} = {}"
    by (auto simp: pending_set_def one_hold_db_def)
  ultimately show ?thesis
    using sweep_releases_stale [OF one_hold_inv(1), of 1000 500] by metis
qed

lemma ledger_atomic_witness:
  "isl (fst (reserve_credits no_faults 0 1 8 one_hold_db)) \<and>
   snd (reserve_credits no_faults 0 1 8 one_hold_db) = one_hold_db"
proof -
  have "isl (fst (reserve_credits no_faults 0 1 8 one_hold_db))" by code_simp
  then show ?thesis using ledger_atomic [of no_faults 1 8 one_hold_db 0 1] by blast
qed

text \<open>
  The amount of a usage row is rounded on its own. Charging 1/128 credit (7812.5 millionths)
  to a balance of 10 takes 7812 millionths from the balance and logs 7813.
\<close>

text \<open>The audit trail does not add up to the balance: there is a settlement, of a cost that
  float64 represents exactly, after which the balance differs from the old balance plus the
  logged amount by one millionth.\<close>

theorem settle_drift:
  "balances (snd (settle_hold no_faults 200 1 (1/128) one_hold_db)) 1 =
     Some \<lparr>cb_balance = 9992188, cb_reserved = 0, cb_period = None\<rparr> \<and>
   map ct_amount (transactions (snd (settle_hold no_faults 200 1 (1/128) one_hold_db))) = [10000000, - 7813] \<and>
   10000000 + (- 7813) \<noteq> (9992188 :: micros)"
proof -
  have "(\<lambda>s. (balances s 1, map ct_amount (transactions s))) (snd (settle_hold no_faults 200 1 (1/128) one_hold_db)) =
     (Some \<lparr>cb_balance = 9992188, cb_reserved = 0, cb_period = None\<rparr>, [10000000, - 7813])" by code_simp
  then show ?thesis by simp
qed

end
