(* ===== verification/GoStrings.thy ===== *)
theory GoStrings
  imports Main
begin

text \<open>
  The functions of Go's strings package the gateway uses. A string is the list of its bytes;
  ToLower and TrimSpace are modelled on ASCII.
\<close>

definition lower_char :: "char \<Rightarrow> char" where
  "lower_char c = (if 65 \<le> (of_char c :: nat) \<and> (of_char c :: nat) \<le> 90 then char_of (of_char c + 32 :: nat) else c)"

definition to_lower :: "string \<Rightarrow> string" where
  "to_lower = map lower_char"

definition is_space :: "char \<Rightarrow> bool" where
  "is_space c \<longleftrightarrow> (of_char c :: nat) \<in> {9, 10, 11, 12, 13, 32}"

definition trim_space :: "string \<Rightarrow> string" where
  "trim_space s = rev (dropWhile is_space (rev (dropWhile is_space s)))"

lemma lower_char_idem [simp]: "lower_char (lower_char c) = lower_char c"
proof -
  have "(of_char (char_of n :: char) :: nat) = n mod 256" for n :: nat by simp
  then show ?thesis by (auto simp: lower_char_def)
qed

lemma to_lower_idem [simp]: "to_lower (to_lower s) = to_lower s"
  by (simp add: to_lower_def)

definition has_prefix :: "string \<Rightarrow> string \<Rightarrow> bool" where
  "has_prefix p s \<longleftrightarrow> take (length p) s = p"

definition has_suffix :: "string \<Rightarrow> string \<Rightarrow> bool" where
  "has_suffix p s \<longleftrightarrow> has_prefix (rev p) (rev s)"

definition trim_suffix :: "string \<Rightarrow> string \<Rightarrow> string" where
  "trim_suffix p s = (if has_suffix p s then take (length s - length p) s else s)"

definition trim_right_char :: "char \<Rightarrow> string \<Rightarrow> string" where
  "trim_right_char c s = rev (dropWhile (\<lambda>x. x = c) (rev s))"

fun join_with :: "string \<Rightarrow> string list \<Rightarrow> string" where
  "join_with sep [] = []"
| "join_with sep [x] = x"
| "join_with sep (x # y # zs) = x @ sep @ join_with sep (y # zs)"

definition byte :: "char \<Rightarrow> nat" where
  "byte c = of_char c"

definition printable :: "char \<Rightarrow> bool" where
  "printable c \<longleftrightarrow> 32 \<le> byte c \<and> byte c \<le> 126"

lemma has_prefix_append [simp]: "has_prefix p (p @ s)"
  by (simp add: has_prefix_def)

lemma has_prefix_Nil [simp]: "has_prefix [] s"
  by (simp add: has_prefix_def)

lemma has_prefix_Cons [simp]: "has_prefix (a # p) s \<longleftrightarrow> (\<exists>t. s = a # t \<and> has_prefix p t)"
  by (cases s) (auto simp: has_prefix_def)

lemma has_prefix_iff: "has_prefix p s \<longleftrightarrow> (\<exists>t. s = p @ t)"
  by (metis has_prefix_def append_eq_conv_conj)

lemma trim_right_char_last: "trim_right_char c s = [] \<or> last (trim_right_char c s) \<noteq> c"
  using hd_dropWhile [of "\<lambda>x. x = c" "rev s"] by (auto simp: trim_right_char_def last_rev)

lemma trim_right_char_idem [simp]: "trim_right_char c (trim_right_char c s) = trim_right_char c s"
  by (simp add: trim_right_char_def)

lemma trim_space_idem [simp]: "trim_space (trim_space s) = trim_space s"
proof -
  define t where "t = dropWhile is_space s"
  have t: "dropWhile is_space t = t" by (simp add: t_def)
  have "dropWhile is_space (rev (dropWhile is_space (rev t))) = rev (dropWhile is_space (rev t))"
  proof (cases "rev (dropWhile is_space (rev t))")
    case (Cons x xs)
    then obtain ys where "rev t = ys @ dropWhile is_space (rev t)"
      by (metis takeWhile_dropWhile_id)
    then have "t = rev (dropWhile is_space (rev t)) @ rev ys" by (metis rev_append rev_rev_ident)
    then have "hd t = x" "t \<noteq> []" using Cons by auto
    then have "\<not> is_space x" using t by (metis hd_dropWhile)
    then show ?thesis using Cons by simp
  next
    case Nil
    show ?thesis unfolding Nil by simp
  qed
  then show ?thesis by (simp add: trim_space_def t_def)
qed

end
