(* ===== verification/Users.thy ===== *)
theory Users
  imports Ledger GoStrings
begin

text \<open>
  The keys, users, sessions and accounts of internal/store/store.go, the session middleware of
  internal/user/middleware.go and the bearer-token check of internal/auth/auth.go. Every store
  method is one statement or one transaction; the advisory lock of the admin mutations makes
  each guarded transaction a single step. NOW() and time.Now() are arguments.
\<close>

section \<open>Single-row updates\<close>

text \<open>UPDATE ... WHERE id: fails with e when no row has the id.\<close>

definition update_keys :: "faults \<Rightarrow> int \<Rightarrow> store_error \<Rightarrow> (api_key \<Rightarrow> api_key) \<Rightarrow> unit store_prog" where
  "update_keys f i e g = sql f 0 (\<lambda>s. if row_of ak_id i (api_keys s) = None then (Inl e, s)
     else (Inr (), s\<lparr>api_keys := upd_where (\<lambda>k. ak_id k = i) g (api_keys s)\<rparr>))"

definition update_users :: "faults \<Rightarrow> nat \<Rightarrow> int \<Rightarrow> store_error \<Rightarrow> (user \<Rightarrow> user) \<Rightarrow> unit store_prog" where
  "update_users f k i e g = sql f k (\<lambda>s. if row_of us_id i (users s) = None then (Inl e, s)
     else (Inr (), s\<lparr>users := upd_where (\<lambda>u. us_id u = i) g (users s)\<rparr>))"

definition update_accounts :: "faults \<Rightarrow> int \<Rightarrow> (account \<Rightarrow> account) \<Rightarrow> unit store_prog" where
  "update_accounts f i g = sql f 0 (\<lambda>s. if row_of ac_id i (accounts s) = None then (Inl AccountNotFound, s)
     else (Inr (), s\<lparr>accounts := upd_where (\<lambda>a. ac_id a = i) g (accounts s)\<rparr>))"

section \<open>API keys\<close>

definition fk_missing :: "('r \<Rightarrow> int) \<Rightarrow> int option \<Rightarrow> 'r list \<Rightarrow> bool" where
  "fk_missing key i rows = (case i of None \<Rightarrow> False | Some k \<Rightarrow> row_of key k rows = None)"

text \<open>
  INSERT INTO api_keys: the hash is unique, the user and the account exist. The columns not
  named default to no session limit and no trust.
\<close>

definition insert_key :: "gotime \<Rightarrow> string \<Rightarrow> string \<Rightarrow> string \<Rightarrow> int \<Rightarrow> int option \<Rightarrow> int option \<Rightarrow> int store_prog" where
  "insert_key now name hash prefix rate_limit uid acc = (\<lambda>s.
     if fk_missing us_id uid (users s) \<or> fk_missing ac_id acc (accounts s) then (Inl ForeignKey, s)
     else if row_of ak_hash hash (api_keys s) \<noteq> None then (Inl UniqueViolation, s)
     else (Inr (next_key s), s\<lparr>api_keys := api_keys s @ [\<lparr>ak_id = next_key s, ak_name = name, ak_hash = hash,
         ak_prefix = prefix, ak_rate_limit = rate_limit, ak_created = now, ak_revoked = False, ak_user = uid,
         ak_account = acc, ak_session_limit = None, ak_trust_headers = False\<rparr>],
       next_key := next_key s + 1\<rparr>))"

definition create_key :: "faults \<Rightarrow> gotime \<Rightarrow> string \<Rightarrow> string \<Rightarrow> string \<Rightarrow> int \<Rightarrow> int store_prog" where
  "create_key f now name hash prefix rl = sql f 0 (insert_key now name hash prefix rl None None)"

definition create_key_for_user :: "faults \<Rightarrow> gotime \<Rightarrow> int \<Rightarrow> string \<Rightarrow> string \<Rightarrow> string \<Rightarrow> int \<Rightarrow> int store_prog" where
  "create_key_for_user f now uid name hash prefix rl = sql f 0 (insert_key now name hash prefix rl (Some uid) None)"

definition create_key_for_account :: "faults \<Rightarrow> gotime \<Rightarrow> int \<Rightarrow> int \<Rightarrow> string \<Rightarrow> string \<Rightarrow> string \<Rightarrow> int \<Rightarrow> int store_prog" where
  "create_key_for_account f now uid acc name hash prefix rl =
     sql f 0 (insert_key now name hash prefix rl (Some uid) (Some acc))"

definition create_key_for_account_only :: "faults \<Rightarrow> gotime \<Rightarrow> int \<Rightarrow> string \<Rightarrow> string \<Rightarrow> string \<Rightarrow> int \<Rightarrow> int store_prog" where
  "create_key_for_account_only f now acc name hash prefix rl =
     sql f 0 (insert_key now name hash prefix rl None (Some acc))"

text \<open>The key with the rate override and the class of its account.\<close>

record auth_key =
  au_key :: api_key
  au_rate :: "int option"
  au_managed :: bool

definition get_key_by_hash :: "faults \<Rightarrow> string \<Rightarrow> db \<Rightarrow> store_error + auth_key option" where
  "get_key_by_hash f hash s = (if f 0 then Inl SqlFault else
     Inr (case find (\<lambda>k. ak_hash k = hash \<and> \<not> ak_revoked k) (api_keys s) of None \<Rightarrow> None
        | Some k \<Rightarrow> (case (case ak_account k of None \<Rightarrow> None | Some a \<Rightarrow> row_of ac_id a (accounts s)) of
             None \<Rightarrow> Some \<lparr>au_key = k, au_rate = None, au_managed = False\<rparr>
           | Some ac \<Rightarrow> Some \<lparr>au_key = k, au_rate = ac_rate_per_min ac, au_managed = ac_managed ac\<rparr>)))"

text \<open>MAX(created_at) over the usage rows of a key.\<close>

definition last_used :: "int \<Rightarrow> db \<Rightarrow> gotime option" where
  "last_used i s = fold (\<lambda>(t, ue) m. if ue_key ue = i then (case m of None \<Rightarrow> Some t | Some t' \<Rightarrow> Some (max t t')) else m)
     (usage_logs s) None"

definition list_keys :: "faults \<Rightarrow> db \<Rightarrow> store_error + (api_key \<times> gotime option) list" where
  "list_keys f s = (if f 0 then Inl SqlFault else
     Inr (map (\<lambda>k. (k, last_used (ak_id k) s)) (sort_key ak_id (api_keys s))))"

definition get_key_by_id :: "faults \<Rightarrow> int \<Rightarrow> db \<Rightarrow> store_error + (api_key \<times> gotime option) option" where
  "get_key_by_id f i s = (if f 0 then Inl SqlFault else
     Inr (map_option (\<lambda>k. (k, last_used i s)) (row_of ak_id i (api_keys s))))"

definition list_keys_by_user :: "faults \<Rightarrow> int \<Rightarrow> db \<Rightarrow> store_error + api_key list" where
  "list_keys_by_user f uid s = (if f 0 then Inl SqlFault else
     Inr (filter (\<lambda>k. ak_user k = Some uid) (sort_key ak_id (api_keys s))))"

definition update_key_rate_limit :: "faults \<Rightarrow> int \<Rightarrow> int \<Rightarrow> unit store_prog" where
  "update_key_rate_limit f i rl = update_keys f i KeyNotFound (\<lambda>k. k\<lparr>ak_rate_limit := rl\<rparr>)"

definition revoke_key :: "faults \<Rightarrow> int \<Rightarrow> unit store_prog" where
  "revoke_key f i = update_keys f i KeyNotFound (\<lambda>k. k\<lparr>ak_revoked := True\<rparr>)"

text \<open>An INTEGER column refuses a value beyond 32 bits.\<close>

definition int32_ok :: "int \<Rightarrow> bool" where
  "int32_ok x \<longleftrightarrow> - (2 ^ 31) \<le> x \<and> x < 2 ^ 31"

definition fits_integer :: "int option \<Rightarrow> bool" where
  "fits_integer x = (case x of None \<Rightarrow> True | Some n \<Rightarrow> int32_ok n)"

definition set_session_token_limit :: "faults \<Rightarrow> int \<Rightarrow> int option \<Rightarrow> unit store_prog" where
  "set_session_token_limit f i l = (if \<not> fits_integer l then failp IntegerOverflow
     else update_keys f i KeyNotFound (\<lambda>k. k\<lparr>ak_session_limit := l\<rparr>))"

definition set_trust_user_headers :: "faults \<Rightarrow> int \<Rightarrow> bool \<Rightarrow> unit store_prog" where
  "set_trust_user_headers f i trust = update_keys f i KeyNotFound (\<lambda>k. k\<lparr>ak_trust_headers := trust\<rparr>)"

text \<open>LogUsage: the token columns are INTEGER, credits_charged is DECIMAL(15,6).\<close>

definition log_usage :: "faults \<Rightarrow> gotime \<Rightarrow> usage_entry \<Rightarrow> unit store_prog" where
  "log_usage f now e = sql f 0 (\<lambda>s.
     if row_of ak_id (ue_key e) (api_keys s) = None then (Inl ForeignKey, s)
     else if \<not> (int32_ok (ue_prompt e) \<and> int32_ok (ue_completion e) \<and> int32_ok (ue_total e)) then (Inl IntegerOverflow, s)
     else if \<not> dec_ok (dec6 (ue_charged e)) then (Inl NumericOverflow, s)
     else (Inr (), s\<lparr>usage_logs := usage_logs s @ [(now, e\<lparr>ue_charged := micros_val (dec6 (ue_charged e))\<rparr>)]\<rparr>))"

text \<open>GetSessionTokenUsage: the tokens of a key in the window, and the oldest row of it.\<close>

definition get_session_token_usage :: "faults \<Rightarrow> gotime \<Rightarrow> int \<Rightarrow> duration \<Rightarrow> db \<Rightarrow> store_error + (int \<times> gotime option)" where
  "get_session_token_usage f now i window s = (if f 0 then Inl SqlFault else
     let rows = filter (\<lambda>(t, e). ue_key e = i \<and> now - window < t) (usage_logs s) in
     Inr (\<Sum>(t, e)\<leftarrow>rows. ue_total e,
          fold (\<lambda>(t, e) m. case m of None \<Rightarrow> Some t | Some t' \<Rightarrow> Some (min t t')) rows None))"

section \<open>Users\<close>

definition insert_user :: "string \<Rightarrow> string \<Rightarrow> string \<Rightarrow> string \<Rightarrow> int option \<Rightarrow> int store_prog" where
  "insert_user email pw name role acc = (\<lambda>s.
     if row_of us_email email (users s) \<noteq> None then (Inl UniqueViolation, s)
     else (Inr (next_user s), s\<lparr>users := users s @ [\<lparr>us_id = next_user s, us_email = email, us_password = pw,
         us_name = name, us_role = role, us_active = True, us_account = acc\<rparr>], next_user := next_user s + 1\<rparr>))"

definition create_user :: "faults \<Rightarrow> string \<Rightarrow> string \<Rightarrow> string \<Rightarrow> int store_prog" where
  "create_user f email pw name = sql f 0 (insert_user email pw name ''user'' None)"

definition get_user_by_email :: "faults \<Rightarrow> string \<Rightarrow> db \<Rightarrow> store_error + user option" where
  "get_user_by_email f email s = (if f 0 then Inl SqlFault else Inr (row_of us_email email (users s)))"

definition get_user_by_id :: "faults \<Rightarrow> int \<Rightarrow> db \<Rightarrow> store_error + user option" where
  "get_user_by_id f i s = (if f 0 then Inl SqlFault else Inr (row_of us_id i (users s)))"

definition update_user_profile :: "faults \<Rightarrow> int \<Rightarrow> string \<Rightarrow> string \<Rightarrow> unit store_prog" where
  "update_user_profile f i name email = (\<lambda>s.
     if (\<exists>u \<in> set (users s). us_id u \<noteq> i \<and> us_email u = email) \<and> row_of us_id i (users s) \<noteq> None
     then (Inl (if f 0 then SqlFault else UniqueViolation), s)
     else update_users f 0 i UserNotFound (\<lambda>u. u\<lparr>us_name := name, us_email := email\<rparr>) s)"

definition update_user_password :: "faults \<Rightarrow> int \<Rightarrow> string \<Rightarrow> unit store_prog" where
  "update_user_password f i pw = update_users f 0 i UserNotFound (\<lambda>u. u\<lparr>us_password := pw\<rparr>)"

definition list_users :: "faults \<Rightarrow> db \<Rightarrow> store_error + user list" where
  "list_users f s = (if f 0 then Inl SqlFault else Inr (sort_key us_id (users s)))"

definition set_user_active :: "faults \<Rightarrow> int \<Rightarrow> bool \<Rightarrow> unit store_prog" where
  "set_user_active f i a = update_users f 0 i UserNotFound (\<lambda>u. u\<lparr>us_active := a\<rparr>)"

definition delete_sessions_of :: "int \<Rightarrow> db \<Rightarrow> db" where
  "delete_sessions_of i s = s\<lparr>sessions := filter (\<lambda>x. se_user x \<noteq> i) (sessions s)\<rparr>"

definition active_admins :: "db \<Rightarrow> user list" where
  "active_admins s = filter (\<lambda>u. us_role u = ''admin'' \<and> us_active u) (users s)"

definition deactivate_user_guarded :: "faults \<Rightarrow> int \<Rightarrow> unit store_prog" where
  "deactivate_user_guarded f i = transact (
     bindp (sql_begin f 0) (\<lambda>_.
     bindp (sql_begin f 1) (\<lambda>_.
     bindp (sql f 2 (getp (\<lambda>s. row_of us_id i (users s)))) (\<lambda>row.
     case row of None \<Rightarrow> failp UserNotFound | Some u \<Rightarrow>
     bindp (if us_role u = ''admin'' \<and> us_active u
            then bindp (sql f 3 (getp (\<lambda>s. length (active_admins s)))) (\<lambda>n.
                 if n \<le> 1 then failp LastActiveAdmin else retp ())
            else retp ()) (\<lambda>_.
     bindp (sql f 4 (modp (\<lambda>s. s\<lparr>users := upd_where (\<lambda>u. us_id u = i) (\<lambda>u. u\<lparr>us_active := False\<rparr>) (users s)\<rparr>))) (\<lambda>_.
     bindp (if us_active u then sql f 5 (modp (delete_sessions_of i)) else retp ()) (\<lambda>_.
     sql_begin f 6)))))))"

definition update_user_role_guarded :: "faults \<Rightarrow> int \<Rightarrow> string \<Rightarrow> unit store_prog" where
  "update_user_role_guarded f i role =
     (if role \<noteq> ''admin'' \<and> role \<noteq> ''user'' then failp InvalidRole else transact (
     bindp (sql_begin f 0) (\<lambda>_.
     bindp (sql_begin f 1) (\<lambda>_.
     bindp (sql f 2 (getp (\<lambda>s. row_of us_id i (users s)))) (\<lambda>row.
     case row of None \<Rightarrow> failp UserNotFound | Some u \<Rightarrow>
     if us_role u = role then sql_begin f 7 else
     bindp (if us_role u = ''admin'' \<and> us_active u \<and> role \<noteq> ''admin''
            then bindp (sql f 3 (getp (\<lambda>s. length (active_admins s)))) (\<lambda>n.
                 if n \<le> 1 then failp LastActiveAdmin else retp ())
            else retp ()) (\<lambda>_.
     bindp (sql f 4 (modp (\<lambda>s. s\<lparr>users := upd_where (\<lambda>u. us_id u = i) (\<lambda>u. u\<lparr>us_role := role\<rparr>) (users s)\<rparr>))) (\<lambda>_.
     bindp (sql f 5 (modp (delete_sessions_of i))) (\<lambda>_.
     sql_begin f 6))))))))"

section \<open>Sessions\<close>

definition create_session :: "faults \<Rightarrow> int \<Rightarrow> string \<Rightarrow> gotime \<Rightarrow> unit store_prog" where
  "create_session f uid hash expires = sql f 0 (\<lambda>s.
     if row_of us_id uid (users s) = None then (Inl ForeignKey, s)
     else if row_of se_hash hash (sessions s) \<noteq> None then (Inl UniqueViolation, s)
     else (Inr (), s\<lparr>sessions := sessions s @ [\<lparr>se_user = uid, se_hash = hash, se_expires = expires\<rparr>]\<rparr>))"

definition get_session_by_token_hash :: "faults \<Rightarrow> string \<Rightarrow> db \<Rightarrow> store_error + session option" where
  "get_session_by_token_hash f hash s = (if f 0 then Inl SqlFault else Inr (row_of se_hash hash (sessions s)))"

definition delete_session :: "faults \<Rightarrow> string \<Rightarrow> unit store_prog" where
  "delete_session f hash = sql f 0 (modp (\<lambda>s. s\<lparr>sessions := filter (\<lambda>x. se_hash x \<noteq> hash) (sessions s)\<rparr>))"

definition delete_user_sessions :: "faults \<Rightarrow> int \<Rightarrow> unit store_prog" where
  "delete_user_sessions f uid = sql f 0 (modp (delete_sessions_of uid))"

definition delete_sessions_except :: "int \<Rightarrow> string \<Rightarrow> db \<Rightarrow> db" where
  "delete_sessions_except uid keep s =
     s\<lparr>sessions := filter (\<lambda>x. \<not> (se_user x = uid \<and> se_hash x \<noteq> keep)) (sessions s)\<rparr>"

definition delete_user_sessions_except :: "faults \<Rightarrow> int \<Rightarrow> string \<Rightarrow> unit store_prog" where
  "delete_user_sessions_except f uid keep = sql f 0 (modp (delete_sessions_except uid keep))"

definition update_user_password_and_revoke_sessions :: "faults \<Rightarrow> int \<Rightarrow> string \<Rightarrow> string \<Rightarrow> unit store_prog" where
  "update_user_password_and_revoke_sessions f i pw keep = transact (
     bindp (sql_begin f 0) (\<lambda>_.
     bindp (update_users f 1 i UserNotFound (\<lambda>u. u\<lparr>us_password := pw\<rparr>)) (\<lambda>_.
     bindp (sql f 2 (modp (delete_sessions_except i keep))) (\<lambda>_.
     sql_begin f 3))))"

section \<open>Accounts\<close>

definition new_account :: "string \<Rightarrow> string \<Rightarrow> gotime \<Rightarrow> bool \<Rightarrow> int store_prog" where
  "new_account name ty now managed = (\<lambda>s. (Inr (next_account s),
     s\<lparr>accounts := accounts s @ [\<lparr>ac_id = next_account s, ac_name = name, ac_type = ty, ac_active = True,
         ac_created = now, ac_managed = managed, ac_monthly_grant = None, ac_rate_per_min = None\<rparr>],
       next_account := next_account s + 1\<rparr>))"

definition create_account :: "faults \<Rightarrow> gotime \<Rightarrow> string \<Rightarrow> string \<Rightarrow> int store_prog" where
  "create_account f now name ty = sql f 0 (new_account name ty now False)"

definition get_account_by_id :: "faults \<Rightarrow> int \<Rightarrow> db \<Rightarrow> store_error + account option" where
  "get_account_by_id f i s = (if f 0 then Inl SqlFault else Inr (row_of ac_id i (accounts s)))"

definition list_accounts :: "faults \<Rightarrow> db \<Rightarrow> store_error + account list" where
  "list_accounts f s = (if f 0 then Inl SqlFault else Inr (sort_key ac_id (accounts s)))"

definition set_account_active :: "faults \<Rightarrow> int \<Rightarrow> bool \<Rightarrow> unit store_prog" where
  "set_account_active f i a = update_accounts f i (\<lambda>ac. ac\<lparr>ac_active := a\<rparr>)"

definition set_account_rate_limit :: "faults \<Rightarrow> int \<Rightarrow> int option \<Rightarrow> unit store_prog" where
  "set_account_rate_limit f i r = (if \<not> fits_integer r then failp IntegerOverflow
     else update_accounts f i (\<lambda>ac. ac\<lparr>ac_rate_per_min := r\<rparr>))"

definition set_monthly_grant :: "faults \<Rightarrow> int \<Rightarrow> rat option \<Rightarrow> unit store_prog" where
  "set_monthly_grant f i g = (case g of None \<Rightarrow> update_accounts f i (\<lambda>ac. ac\<lparr>ac_monthly_grant := None\<rparr>)
     | Some x \<Rightarrow> bindp (sql f 0 (dec_col x)) (\<lambda>m. update_accounts f i (\<lambda>ac. ac\<lparr>ac_monthly_grant := Some m\<rparr>)))"

section \<open>Authentication\<close>

definition bearer_prefix :: string where "bearer_prefix = ''Bearer ''"

definition extract_bearer :: "string \<Rightarrow> string" where
  "extract_bearer h = (if has_prefix bearer_prefix h then drop (length bearer_prefix) h else [])"

definition extract_session_token :: "string \<Rightarrow> string \<Rightarrow> string" where
  "extract_session_token auth_header session_header =
     (if has_prefix bearer_prefix auth_header then drop (length bearer_prefix) auth_header else session_header)"

text \<open>The API-key middleware: the authenticated key, or 401.\<close>

definition auth_error :: api_error where
  "auth_error = api_err 401 ''invalid_api_key'' ''invalid_api_key''"

definition authenticate_key :: "(string \<Rightarrow> string) \<Rightarrow> faults \<Rightarrow> string \<Rightarrow> db \<Rightarrow> api_error + auth_key" where
  "authenticate_key hash f header s = (let token = extract_bearer header in
     if token = [] then Inl auth_error else
     case get_key_by_hash f (hash token) s of
       Inl e \<Rightarrow> Inl auth_error
     | Inr None \<Rightarrow> Inl auth_error
     | Inr (Some k) \<Rightarrow> Inr k)"

definition session_duration_for :: "string \<Rightarrow> duration" where
  "session_duration_for role = (if role = ''admin'' then 6 * hour else 7 * 24 * hour)"

definition session_expiry_for :: "gotime \<Rightarrow> string \<Rightarrow> gotime" where
  "session_expiry_for now role = now + session_duration_for role"

text \<open>SessionMiddleware; \<open>g i\<close> is the fault plan of its i-th query.\<close>

definition session_middleware :: "(string \<Rightarrow> string) \<Rightarrow> (nat \<Rightarrow> faults) \<Rightarrow> gotime \<Rightarrow> string \<Rightarrow> string \<Rightarrow>
    db \<Rightarrow> (api_error + user \<times> session) \<times> db" where
  "session_middleware hash g now auth_header session_header s =
     (let token = extract_session_token auth_header session_header in
      if token = [] then (Inl (api_err 401 ''missing_session'' ''invalid_request_error''), s) else
      case get_session_by_token_hash (g 0) (hash token) s of
        Inl e \<Rightarrow> (Inl (api_err 500 ''internal_error'' ''server_error''), s)
      | Inr None \<Rightarrow> (Inl (api_err 401 ''invalid_session'' ''invalid_request_error''), s)
      | Inr (Some x) \<Rightarrow>
          if se_expires x < now
          then (Inl (api_err 401 ''session_expired'' ''invalid_request_error''), snd (delete_session (g 1) (hash token) s))
          else (case get_user_by_id (g 2) (se_user x) s of
              Inr (Some u) \<Rightarrow> if us_active u then (Inr (u, x), s)
                else (Inl (api_err 403 ''account_disabled'' ''invalid_request_error''), s)
            | _ \<Rightarrow> (Inl (api_err 401 ''user_not_found'' ''invalid_request_error''), s)))"


section \<open>The last active admin\<close>

text \<open>
  An UPDATE keyed by the primary key touches one row. The two guarded operations reduce to
  \<open>set_user\<close> when they succeed.
\<close>

definition users_ok :: "db \<Rightarrow> bool" where
  "users_ok s \<longleftrightarrow> distinct (map us_id (users s)) \<and> distinct (map us_email (users s)) \<and>
     (\<forall>u \<in> set (users s). us_id u < next_user s)"

definition is_active_admin :: "user \<Rightarrow> bool" where
  "is_active_admin u \<longleftrightarrow> us_role u = ''admin'' \<and> us_active u"

lemma active_admins_set: "set (active_admins s) = {u \<in> set (users s). is_active_admin u}"
  by (auto simp: active_admins_def is_active_admin_def)

lemma active_admins_upd:
  assumes a: "u \<in> set (active_admins s)" "us_id u \<noteq> i"
  shows "u \<in> set (active_admins (s\<lparr>users := upd_where (\<lambda>u. us_id u = i) g (users s)\<rparr>))"
  using a by (auto simp: active_admins_set set_upd_where intro: rev_image_eqI)

lemma two_admins:
  assumes "distinct (map us_id (users s))" "1 < length (active_admins s)"
  shows "\<exists>u \<in> set (active_admins s). us_id u \<noteq> i"
proof (rule ccontr)
  assume "\<not> ?thesis"
  then have "set (map us_id (active_admins s)) \<subseteq> {i}" by auto
  moreover have "distinct (map us_id (active_admins s))"
    using assms(1) by (simp add: active_admins_def distinct_map_filter)
  ultimately have "length (map us_id (active_admins s)) \<le> card {i}"
    by (metis card_mono distinct_card finite.emptyI finite.insertI)
  then show False using assms(2) by simp
qed

definition has_admin :: "db \<Rightarrow> bool" where
  "has_admin s \<longleftrightarrow> active_admins s \<noteq> []"

lemma has_admin_set: "has_admin s \<longleftrightarrow> (\<exists>u. u \<in> set (active_admins s))"
  by (cases "active_admins s") (auto simp: has_admin_def)

lemma deactivate_Inr:
  "deactivate_user_guarded f i s = (Inr (), s') \<longleftrightarrow> (\<exists>u. row_of us_id i (users s) = Some u \<and>
     (is_active_admin u \<longrightarrow> 1 < length (active_admins s) \<and> \<not> f 3) \<and>
     \<not> f 0 \<and> \<not> f 1 \<and> \<not> f 2 \<and> \<not> f 4 \<and> (us_active u \<longrightarrow> \<not> f 5) \<and> \<not> f 6 \<and>
     s' = (if us_active u then delete_sessions_of i else id)
            (s\<lparr>users := upd_where (\<lambda>u. us_id u = i) (\<lambda>u. u\<lparr>us_active := False\<rparr>) (users s)\<rparr>))"
  by (auto simp: deactivate_user_guarded_def prog_run sql_def sql_begin_def is_active_admin_def
      split: option.splits if_splits)

lemma set_role_Inr:
  "update_user_role_guarded f i r s = (Inr (), s') \<longleftrightarrow> r \<in> {''admin'', ''user''} \<and>
     \<not> f 0 \<and> \<not> f 1 \<and> \<not> f 2 \<and> (\<exists>u. row_of us_id i (users s) = Some u \<and>
       (if us_role u = r then \<not> f 7 \<and> s' = s else
        (is_active_admin u \<and> r \<noteq> ''admin'' \<longrightarrow> 1 < length (active_admins s) \<and> \<not> f 3) \<and>
        \<not> f 4 \<and> \<not> f 5 \<and> \<not> f 6 \<and> s' = delete_sessions_of i
            (s\<lparr>users := upd_where (\<lambda>u. us_id u = i) (\<lambda>u. u\<lparr>us_role := r\<rparr>) (users s)\<rparr>)))"
  by (auto simp: update_user_role_guarded_def prog_run sql_def sql_begin_def is_active_admin_def
      split: option.splits if_splits)

lemma if_transact_atomic:
  "isl (fst ((if c then failp e else transact m) s)) \<Longrightarrow> snd ((if c then failp e else transact m) s) = s"
  by (cases c) (simp_all add: failp_def transact_atomic)

lemma guarded_fail:
  "isl (fst (deactivate_user_guarded f i s)) \<Longrightarrow> snd (deactivate_user_guarded f i s) = s"
  "isl (fst (update_user_role_guarded f i r s)) \<Longrightarrow> snd (update_user_role_guarded f i r s) = s"
  unfolding deactivate_user_guarded_def update_user_role_guarded_def
  by (erule transact_atomic, erule if_transact_atomic)

lemma delete_sessions_of_simps [simp]:
  "users (delete_sessions_of i s) = users s" "next_user (delete_sessions_of i s) = next_user s"
  "active_admins (delete_sessions_of i s) = active_admins s"
  by (simp_all add: delete_sessions_of_def active_admins_def)

lemma prog_cases:
  fixes m :: "('s, 'e, unit) prog"
  obtains (err) "isl (fst (m s))" | (ok) s' where "m s = (Inr (), s')"
  by (metis (full_types) old.unit.exhaust prod.exhaust_sel sum.collapse(2))

lemma keeps_admin:
  assumes d: "distinct (map us_id (users s))" and h: "has_admin s"
    and g: "\<And>u. row_of us_id i (users s) = Some u \<Longrightarrow> is_active_admin u \<Longrightarrow>
             is_active_admin (g u) \<or> 1 < length (active_admins s)"
  shows "has_admin (s\<lparr>users := upd_where (\<lambda>u. us_id u = i) g (users s)\<rparr>)"
proof -
  obtain a where a: "a \<in> set (active_admins s)" using h by (auto simp: has_admin_set)
  show ?thesis
  proof (cases "us_id a = i")
    case False
    then show ?thesis using active_admins_upd [OF a] has_admin_set by blast
  next
    case True
    have m: "a \<in> set (users s)" "is_active_admin a" using a by (auto simp: active_admins_set)
    then have "row_of us_id i (users s) = Some a" using row_of_distinct [OF d] True by metis
    from g [OF this m(2)] show ?thesis
    proof
      assume "is_active_admin (g a)"
      then have "g a \<in> set (active_admins (s\<lparr>users := upd_where (\<lambda>u. us_id u = i) g (users s)\<rparr>))"
        using m True by (auto simp: active_admins_set set_upd_where intro: rev_image_eqI)
      then show ?thesis using has_admin_set by blast
    next
      assume "1 < length (active_admins s)"
      then show ?thesis using two_admins [OF d] active_admins_upd has_admin_set by metis
    qed
  qed
qed

lemma deactivate_keeps_admin:
  assumes "distinct (map us_id (users s))" "has_admin s"
  shows "has_admin (snd (deactivate_user_guarded f i s))"
proof (cases rule: prog_cases [of "deactivate_user_guarded f i" s])
  case err then show ?thesis using assms guarded_fail by simp
next
  case (ok s')
  have "has_admin (s\<lparr>users := upd_where (\<lambda>u. us_id u = i) (\<lambda>u. u\<lparr>us_active := False\<rparr>) (users s)\<rparr>)"
    using assms ok by (intro keeps_admin) (auto simp: deactivate_Inr)
  moreover have "active_admins s' = active_admins (s\<lparr>users := upd_where (\<lambda>u. us_id u = i) (\<lambda>u. u\<lparr>us_active := False\<rparr>) (users s)\<rparr>)"
    using ok by (auto simp: deactivate_Inr)
  ultimately show ?thesis by (simp add: ok has_admin_def)
qed

lemma set_role_keeps_admin:
  assumes "distinct (map us_id (users s))" "has_admin s"
  shows "has_admin (snd (update_user_role_guarded f i r s))"
proof (cases rule: prog_cases [of "update_user_role_guarded f i r" s])
  case err then show ?thesis using assms guarded_fail by simp
next
  case (ok s')
  show ?thesis
  proof (cases "s' = s")
    case False
    then have "has_admin (s\<lparr>users := upd_where (\<lambda>u. us_id u = i) (\<lambda>u. u\<lparr>us_role := r\<rparr>) (users s)\<rparr>)"
      using assms ok
      by (intro keeps_admin) (auto simp: set_role_Inr is_active_admin_def split: if_splits)
    moreover have "active_admins s' = active_admins (s\<lparr>users := upd_where (\<lambda>u. us_id u = i) (\<lambda>u. u\<lparr>us_role := r\<rparr>) (users s)\<rparr>)"
      using ok False by (auto simp: set_role_Inr split: if_splits)
    ultimately show ?thesis by (simp add: ok has_admin_def)
  qed (use ok assms in simp)
qed


text \<open>A sequence of guarded mutations, each with its own fault plan.\<close>

datatype admin_op = Deactivate int | SetRole int string

fun run_admin_op :: "faults \<times> admin_op \<Rightarrow> db \<Rightarrow> db" where
  "run_admin_op (f, Deactivate i) s = snd (deactivate_user_guarded f i s)"
| "run_admin_op (f, SetRole i r) s = snd (update_user_role_guarded f i r s)"

lemma guarded_ids:
  "map us_id (users (snd (deactivate_user_guarded f i s))) = map us_id (users s)"
  "map us_id (users (snd (update_user_role_guarded f i r s))) = map us_id (users s)"
proof -
  have d: "map us_id (users s') = map us_id (users s)" if "deactivate_user_guarded f i s = (Inr (), s')" for s'
    using that by (auto simp: deactivate_Inr)
  show "map us_id (users (snd (deactivate_user_guarded f i s))) = map us_id (users s)"
    by (cases rule: prog_cases [of "deactivate_user_guarded f i" s]) (simp_all add: guarded_fail d)
  have r: "map us_id (users s') = map us_id (users s)" if "update_user_role_guarded f i r s = (Inr (), s')" for s'
    using that by (auto simp: set_role_Inr split: if_splits)
  show "map us_id (users (snd (update_user_role_guarded f i r s))) = map us_id (users s)"
    by (cases rule: prog_cases [of "update_user_role_guarded f i r" s]) (simp_all add: guarded_fail r)
qed

lemma run_admin_op_ids: "map us_id (users (run_admin_op op s)) = map us_id (users s)"
  by (cases op; cases "snd op") (auto simp: guarded_ids)

lemma run_admin_op_keeps:
  "distinct (map us_id (users s)) \<Longrightarrow> has_admin s \<Longrightarrow> has_admin (run_admin_op op s)"
  by (cases op; cases "snd op") (auto simp: deactivate_keeps_admin set_role_keeps_admin)

lemma fold_admin_ops:
  "distinct (map us_id (users s)) \<Longrightarrow> has_admin s \<Longrightarrow> has_admin (fold run_admin_op ops s)"
  by (induction ops arbitrary: s) (simp_all add: run_admin_op_keeps run_admin_op_ids)

lemma sole_admin_refused:
  assumes u: "row_of us_id i (users s) = Some u" "is_active_admin u"
  shows "fst (deactivate_user_guarded no_faults i s) = Inl LastActiveAdmin \<longleftrightarrow> length (active_admins s) \<le> 1"
    "fst (update_user_role_guarded no_faults i ''user'' s) = Inl LastActiveAdmin \<longleftrightarrow> length (active_admins s) \<le> 1"
  using u unfolding is_active_admin_def deactivate_user_guarded_def update_user_role_guarded_def
  by (simp_all add: prog_simps transact_def)

text \<open>
  C33: The platform is never left without an active administrator. Whatever sequence of guarded
  deactivations and role changes runs, and whichever of their statements fail, a database with
  an active admin still has one; and deactivating or demoting an active admin is refused with
  LastActiveAdmin exactly when no other active admin exists.
\<close>
theorem last_admin_kept:
  assumes "distinct (map us_id (users s))" and "has_admin s"
  shows "has_admin (fold run_admin_op ops s) \<and>
    (\<forall>i u. row_of us_id i (users s) = Some u \<and> is_active_admin u \<longrightarrow>
      (fst (deactivate_user_guarded no_faults i s) = Inl LastActiveAdmin \<longleftrightarrow> length (active_admins s) \<le> 1) \<and>
      (fst (update_user_role_guarded no_faults i ''user'' s) = Inl LastActiveAdmin \<longleftrightarrow> length (active_admins s) \<le> 1))"
  using fold_admin_ops [OF assms] sole_admin_refused by blast

definition demo_user :: "int \<Rightarrow> string \<Rightarrow> string \<Rightarrow> user" where
  "demo_user i email role = \<lparr>us_id = i, us_email = email, us_password = ''h'', us_name = ''n'',
     us_role = role, us_active = True, us_account = None\<rparr>"

definition two_admin_db :: db where
  "two_admin_db = empty_db\<lparr>users := [demo_user 1 ''a'' ''admin'', demo_user 2 ''b'' ''admin'', demo_user 3 ''c'' ''user''],
     next_user := 4, sessions := [\<lparr>se_user = 1, se_hash = ''s1'', se_expires = 100\<rparr>, \<lparr>se_user = 2, se_hash = ''s2'', se_expires = 100\<rparr>,
       \<lparr>se_user = 1, se_hash = ''s3'', se_expires = 100\<rparr>]\<rparr>"

theorem last_admin_kept_witness:
  "has_admin (fold run_admin_op [(no_faults, Deactivate 1), (no_faults, SetRole 2 ''user'')] two_admin_db) \<and>
   fst (update_user_role_guarded no_faults 2 ''user'' (run_admin_op (no_faults, Deactivate 1) two_admin_db)) = Inl LastActiveAdmin"
proof
  have "distinct (map us_id (users two_admin_db))" "has_admin two_admin_db" by code_simp+
  from last_admin_kept [OF this, of "[(no_faults, Deactivate 1), (no_faults, SetRole 2 ''user'')]"]
  show "has_admin (fold run_admin_op [(no_faults, Deactivate 1), (no_faults, SetRole 2 ''user'')] two_admin_db)" by blast
  show "fst (update_user_role_guarded no_faults 2 ''user'' (run_admin_op (no_faults, Deactivate 1) two_admin_db)) = Inl LastActiveAdmin"
    by code_simp
qed


section \<open>Who a session authenticates\<close>

lemma session_middleware_Inr:
  "session_middleware hash g now ah sh s = (Inr (u, x), s') \<longleftrightarrow> s' = s \<and>
     extract_session_token ah sh \<noteq> [] \<and> \<not> g 0 0 \<and> \<not> g 2 0 \<and>
     row_of se_hash (hash (extract_session_token ah sh)) (sessions s) = Some x \<and> now \<le> se_expires x \<and>
     row_of us_id (se_user x) (users s) = Some u \<and> us_active u"
  by (auto simp: session_middleware_def Let_def get_session_by_token_hash_def get_user_by_id_def
      split: option.splits sum.splits if_splits)

lemma session_middleware_frame:
  "users (snd (session_middleware hash g now ah sh s)) = users s"
  "set (sessions (snd (session_middleware hash g now ah sh s))) \<subseteq> set (sessions s)"
  by (auto simp: session_middleware_def Let_def delete_session_def sql_def stmt_def modp_def
      split: option.splits sum.splits if_splits)

lemma password_change_Inr:
  "update_user_password_and_revoke_sessions f i pw keep s = (Inr (), s') \<longleftrightarrow>
     \<not> f 0 \<and> \<not> f 1 \<and> \<not> f 2 \<and> \<not> f 3 \<and> row_of us_id i (users s) \<noteq> None \<and>
     s' = delete_sessions_except i keep
       (s\<lparr>users := upd_where (\<lambda>u. us_id u = i) (\<lambda>u. u\<lparr>us_password := pw\<rparr>) (users s)\<rparr>)"
  by (auto simp: update_user_password_and_revoke_sessions_def update_users_def prog_run sql_def
      sql_begin_def split: if_splits)

lemma password_change_fail:
  "isl (fst (update_user_password_and_revoke_sessions f i pw keep s)) \<Longrightarrow>
     snd (update_user_password_and_revoke_sessions f i pw keep s) = s"
  unfolding update_user_password_and_revoke_sessions_def by (erule transact_atomic)

lemma row_of_upd_id:
  assumes "\<And>r. key (g r) = key r"
  shows "row_of key k (upd_where (\<lambda>r. key r = i) g rs) = map_option (\<lambda>r. if key r = i then g r else r) (row_of key k rs)"
  by (induction rs) (auto simp: row_of_def upd_where_def assms)

lemma deactivated_row:
  assumes "deactivate_user_guarded f i s = (Inr (), s')" "row_of us_id i (users s') = Some u"
  shows "\<not> us_active u"
proof -
  obtain v where "row_of us_id i (users s) = Some v"
    and "users s' = upd_where (\<lambda>u. us_id u = i) (\<lambda>u. u\<lparr>us_active := False\<rparr>) (users s)"
    using assms(1) by (auto simp: deactivate_Inr)
  then show ?thesis using assms(2) by (auto simp: row_of_upd_id dest: row_of_Some split: if_splits)
qed

lemma upd_where_memI: "r \<in> set rs \<Longrightarrow> (if p r then g r else r) \<in> set (upd_where p g rs)"
  by (simp add: upd_where_def)

lemma deactivate_sessions:
  assumes "deactivate_user_guarded f i s = (Inr (), s')" "row_of us_id i (users s) = Some u" "us_active u"
  shows "sessions s' = filter (\<lambda>x. se_user x \<noteq> i) (sessions s)"
  using assms by (auto simp: deactivate_Inr delete_sessions_of_def)

text \<open>
  Deactivating a user locks the user out at once. When it succeeds, the sessions of that
  user are gone and everybody else's are kept; and no token, at any time and against any later
  state with the same users table (a login that raced the change may have inserted a session),
  passes the session middleware as that user.
\<close>
theorem deactivation_locks_out:
  assumes "deactivate_user_guarded f i s = (Inr (), s')"
    and "row_of us_id i (users s) = Some v" and "us_active v"
  shows "sessions s' = filter (\<lambda>x. se_user x \<noteq> i) (sessions s) \<and>
    (\<forall>t hash g now ah sh u x t'. users t = users s' \<longrightarrow>
       session_middleware hash g now ah sh t = (Inr (u, x), t') \<longrightarrow> us_id u \<noteq> i)"
proof (intro conjI allI impI)
  show "sessions s' = filter (\<lambda>x. se_user x \<noteq> i) (sessions s)" using deactivate_sessions [OF assms] .
  fix t hash g now ah sh u x t'
  assume "users t = users s'" and "session_middleware hash g now ah sh t = (Inr (u, x), t')"
  then have u: "row_of us_id (se_user x) (users s') = Some u" "us_active u" by (simp_all add: session_middleware_Inr)
  show "us_id u \<noteq> i"
  proof
    assume "us_id u = i"
    then have "row_of us_id i (users s') = Some u" using u(1) row_of_Some [OF u(1)] by simp
    then show False using deactivated_row [OF assms(1)] u(2) by blast
  qed
qed

theorem deactivation_locks_out_witness:
  "sessions (snd (deactivate_user_guarded no_faults 1 two_admin_db)) = filter (\<lambda>x. se_user x \<noteq> 1) (sessions two_admin_db) \<and>
   fst (session_middleware id (\<lambda>i. no_faults) 50 ''Bearer s1'' [] two_admin_db) =
     Inr (demo_user 1 ''a'' ''admin'', \<lparr>se_user = 1, se_hash = ''s1'', se_expires = 100\<rparr>)"
proof
  define s' where "s' = snd (deactivate_user_guarded no_faults 1 two_admin_db)"
  have "fst (deactivate_user_guarded no_faults 1 two_admin_db) = Inr ()" by code_simp
  then have "deactivate_user_guarded no_faults 1 two_admin_db = (Inr (), s')"
    unfolding s'_def by (rule prod_eqI [OF trans]) simp_all
  moreover have "row_of us_id 1 (users two_admin_db) = Some (demo_user 1 ''a'' ''admin'')"
    "us_active (demo_user 1 ''a'' ''admin'')" by code_simp+
  ultimately have "sessions s' = filter (\<lambda>x. se_user x \<noteq> 1) (sessions two_admin_db)"
    using deactivation_locks_out by blast
  then show "sessions (snd (deactivate_user_guarded no_faults 1 two_admin_db)) = filter (\<lambda>x. se_user x \<noteq> 1) (sessions two_admin_db)"
    by (simp only: s'_def)
  show "fst (session_middleware id (\<lambda>i. no_faults) 50 ''Bearer s1'' [] two_admin_db) =
     Inr (demo_user 1 ''a'' ''admin'', \<lparr>se_user = 1, se_hash = ''s1'', se_expires = 100\<rparr>)"
    by code_simp
qed

text \<open>A role change that changes something ends every session of the user.\<close>

theorem role_change_ends_sessions:
  assumes "update_user_role_guarded f i r s = (Inr (), s')"
    and "row_of us_id i (users s) = Some v" and "us_role v \<noteq> r"
  shows "sessions s' = filter (\<lambda>x. se_user x \<noteq> i) (sessions s)"
  using assms by (auto simp: set_role_Inr delete_sessions_of_def)

text \<open>
  A password change never reports success while another session of the user stays usable,
  and a failed one changes nothing: on success the new hash is stored, of the user's sessions
  exactly the one that made the change is left, and every other user's rows and sessions are as
  before; on any failure the database is as before.
\<close>
theorem password_change_revokes:
  shows "case update_user_password_and_revoke_sessions f i pw keep s of
    (Inl e, s') \<Rightarrow> s' = s
  | (Inr _, s') \<Rightarrow>
      sessions s' = filter (\<lambda>x. se_user x = i \<longrightarrow> se_hash x = keep) (sessions s) \<and>
      map_option us_password (row_of us_id i (users s')) = Some pw \<and>
      (\<forall>j. j \<noteq> i \<longrightarrow> row_of us_id j (users s') = row_of us_id j (users s))"
proof (cases rule: prog_cases [of "update_user_password_and_revoke_sessions f i pw keep" s])
  case err
  then show ?thesis using password_change_fail [OF err]
    by (cases "update_user_password_and_revoke_sessions f i pw keep s") (auto split: sum.splits)
next
  case (ok s')
  then obtain u where u: "row_of us_id i (users s) = Some u"
    and s': "s' = delete_sessions_except i keep
       (s\<lparr>users := upd_where (\<lambda>u. us_id u = i) (\<lambda>u. u\<lparr>us_password := pw\<rparr>) (users s)\<rparr>)"
    by (auto simp: password_change_Inr)
  have j: "row_of us_id j (users s') = row_of us_id j (users s)" if "j \<noteq> i" for j
    using that by (cases "row_of us_id j (users s)") (auto simp: delete_sessions_except_def row_of_upd_id s' dest: row_of_Some)
  have "filter (\<lambda>x. \<not> (se_user x = i \<and> se_hash x \<noteq> keep)) (sessions s) =
        filter (\<lambda>x. se_user x = i \<longrightarrow> se_hash x = keep) (sessions s)"
    by (rule filter_cong) auto
  then have "sessions s' = filter (\<lambda>x. se_user x = i \<longrightarrow> se_hash x = keep) (sessions s)"
    by (simp add: s' delete_sessions_except_def)
  moreover have "map_option us_password (row_of us_id i (users s')) = Some pw"
    using row_of_Some [OF u] by (simp add: s' delete_sessions_except_def row_of_upd_id u)
  ultimately show ?thesis using j by (simp add: ok)
qed

section \<open>Key authentication\<close>

lemma find_unique_key:
  assumes "distinct (map ak_hash ks)"
  shows "find (\<lambda>k. ak_hash k = h \<and> \<not> ak_revoked k) ks = Some k \<longleftrightarrow> k \<in> set ks \<and> ak_hash k = h \<and> \<not> ak_revoked k"
  using assms by (induction ks) (auto simp: image_iff)

text \<open>
  What the bearer check accepts: the key whose stored hash is the hash of the presented token,
  not revoked, joined with its account.
\<close>

lemma authenticate_key_iff:
  assumes "distinct (map ak_hash (api_keys s))"
  shows "(\<exists>a. authenticate_key hash f header s = Inr a \<and> au_key a = k) \<longleftrightarrow>
     \<not> f 0 \<and> extract_bearer header \<noteq> [] \<and> k \<in> set (api_keys s) \<and>
     ak_hash k = hash (extract_bearer header) \<and> \<not> ak_revoked k"
  using find_unique_key [OF assms, of "hash (extract_bearer header)" k]
  by (auto simp: authenticate_key_def Let_def get_key_by_hash_def split: option.splits)

datatype key_op = NewKey gotime string string string int "int option" "int option" | SetKeyRate int int
  | Revoke int | SetSessionLimit int "int option" | SetTrust int bool

fun run_key_op :: "faults \<times> key_op \<Rightarrow> db \<Rightarrow> db" where
  "run_key_op (f, NewKey now name h prefix r u a) s = snd (sql f 0 (insert_key now name h prefix r u a) s)"
| "run_key_op (f, SetKeyRate i r) s = snd (update_key_rate_limit f i r s)"
| "run_key_op (f, Revoke i) s = snd (revoke_key f i s)"
| "run_key_op (f, SetSessionLimit i l) s = snd (set_session_token_limit f i l s)"
| "run_key_op (f, SetTrust i b) s = snd (set_trust_user_headers f i b s)"

definition key_dead :: "string \<Rightarrow> db \<Rightarrow> bool" where
  "key_dead h s \<longleftrightarrow> distinct (map ak_hash (api_keys s)) \<and> (\<exists>k \<in> set (api_keys s). ak_hash k = h \<and> ak_revoked k)"

lemma update_keys_dead:
  assumes g: "\<And>k. ak_hash (g k) = ak_hash k" "\<And>k. ak_revoked k \<Longrightarrow> ak_revoked (g k)" and d: "key_dead h s"
  shows "key_dead h (snd (update_keys f i e g s))"
proof -
  obtain k where k: "k \<in> set (api_keys s)" "ak_hash k = h" "ak_revoked k" using d by (auto simp: key_dead_def)
  have "\<exists>k \<in> set (upd_where (\<lambda>k. ak_id k = i) g (api_keys s)). ak_hash k = h \<and> ak_revoked k"
    using upd_where_memI [OF k(1), of "\<lambda>k. ak_id k = i" g] k(2,3) g by (cases "ak_id k = i") auto
  then show ?thesis using d g by (auto simp: key_dead_def update_keys_def sql_def stmt_def)
qed

lemma insert_key_dead: "key_dead h s \<Longrightarrow> key_dead h (snd (sql f 0 (insert_key now name h' prefix r u a) s))"
  by (auto simp: key_dead_def sql_def stmt_def insert_key_def row_of_None)

lemma run_key_op_dead: "key_dead h s \<Longrightarrow> key_dead h (run_key_op op s)"
  by (cases "(op, s)" rule: run_key_op.cases)
    (simp_all add: insert_key_dead update_key_rate_limit_def revoke_key_def set_session_token_limit_def
      set_trust_user_headers_def update_keys_dead failp_def)

lemma key_dead_rejected:
  assumes "key_dead (hash (extract_bearer header)) s"
  shows "\<exists>e. authenticate_key hash f header s = Inl e"
proof (cases "authenticate_key hash f header s")
  case (Inr a)
  have d: "distinct (map ak_hash (api_keys s))" using assms by (simp add: key_dead_def)
  then have "au_key a \<in> set (api_keys s)" "ak_hash (au_key a) = hash (extract_bearer header)" "\<not> ak_revoked (au_key a)"
    using authenticate_key_iff [OF d, of hash f header "au_key a"] Inr by auto
  then show ?thesis using assms d by (auto simp: key_dead_def distinct_map inj_on_def)
qed simp

lemma revoke_key_dead:
  assumes "distinct (map ak_hash (api_keys s))" "k \<in> set (api_keys s)" "revoke_key f (ak_id k) s = (Inr (), s')"
  shows "key_dead (ak_hash k) s'"
proof -
  have "\<exists>k' \<in> set (upd_where (\<lambda>k'. ak_id k' = ak_id k) (\<lambda>k. k\<lparr>ak_revoked := True\<rparr>) (api_keys s)).
      ak_hash k' = ak_hash k \<and> ak_revoked k'"
    using upd_where_memI [OF assms(2), of "\<lambda>k'. ak_id k' = ak_id k" "\<lambda>k. k\<lparr>ak_revoked := True\<rparr>"]
    by (intro bexI) auto
  then show ?thesis
    using assms by (auto simp: revoke_key_def update_keys_def sql_def stmt_def key_dead_def split: if_splits)
qed

text \<open>
  Revocation of an API key is final. The bearer check accepts exactly the unrevoked key
  whose hash is that of the token; and once a key has been revoked, its token is refused in
  every later state, whatever sequence of key operations (creation, rate and session limits,
  header trust, further revocations) follows and whichever of their statements fail.
\<close>
theorem revocation_is_final:
  assumes "distinct (map ak_hash (api_keys s))" and "k \<in> set (api_keys s)"
    and "revoke_key f (ak_id k) s = (Inr (), s')"
  shows "(\<forall>hash header g. hash (extract_bearer header) = ak_hash k \<longrightarrow>
            (\<exists>e. authenticate_key hash g header (fold run_key_op ops s') = Inl e)) \<and>
         (\<forall>hash header g. (\<exists>a. authenticate_key hash g header s = Inr a \<and> au_key a = k) \<longleftrightarrow>
            \<not> g 0 \<and> extract_bearer header \<noteq> [] \<and> ak_hash k = hash (extract_bearer header) \<and> \<not> ak_revoked k)"
proof -
  have "key_dead (ak_hash k) (fold run_key_op ops t)" if "key_dead (ak_hash k) t" for t
    using that by (induction ops arbitrary: t) (simp_all add: run_key_op_dead)
  then have "key_dead (ak_hash k) (fold run_key_op ops s')" using revoke_key_dead [OF assms] by blast
  then show ?thesis using key_dead_rejected authenticate_key_iff [OF assms(1)] assms(2) by metis
qed

definition demo_key :: "int \<Rightarrow> string \<Rightarrow> api_key" where
  "demo_key i h = \<lparr>ak_id = i, ak_name = ''k'', ak_hash = h, ak_prefix = ''sk-'', ak_rate_limit = 60, ak_created = 0,
     ak_revoked = False, ak_user = None, ak_account = None, ak_session_limit = None, ak_trust_headers = False\<rparr>"

definition key_db :: db where
  "key_db = empty_db\<lparr>api_keys := [demo_key 1 ''h1'', demo_key 2 ''h2''], next_key := 3\<rparr>"

theorem revocation_is_final_witness:
  "(\<exists>e. authenticate_key id no_faults ''Bearer h1''
      (fold run_key_op [(no_faults, SetKeyRate 1 90)] (snd (revoke_key no_faults 1 key_db))) = Inl e) \<and>
   authenticate_key id no_faults ''Bearer h1'' key_db = Inr \<lparr>au_key = demo_key 1 ''h1'', au_rate = None, au_managed = False\<rparr>"
proof
  have k: "distinct (map ak_hash (api_keys key_db))" "demo_key 1 ''h1'' \<in> set (api_keys key_db)"
    "fst (revoke_key no_faults 1 key_db) = Inr ()" "ak_id (demo_key 1 ''h1'') = 1"
    "id (extract_bearer ''Bearer h1'') = ak_hash (demo_key 1 ''h1'')" by code_simp+
  have "revoke_key no_faults (ak_id (demo_key 1 ''h1'')) key_db = (Inr (), snd (revoke_key no_faults 1 key_db))"
    using k(3,4) by (metis prod.collapse)
  from revocation_is_final [OF k(1,2) this, of "[(no_faults, SetKeyRate 1 90)]"] k(5)
  show "\<exists>e. authenticate_key id no_faults ''Bearer h1''
      (fold run_key_op [(no_faults, SetKeyRate 1 90)] (snd (revoke_key no_faults 1 key_db))) = Inl e" by blast
  show "authenticate_key id no_faults ''Bearer h1'' key_db = Inr \<lparr>au_key = demo_key 1 ''h1'', au_rate = None, au_managed = False\<rparr>"
    by code_simp
qed

end
