(* ===== verification/Accounts.thy ===== *)
theory Accounts
  imports Users
begin

text \<open>
  Where accounts come from: self-serve registration, the admin bootstrap, service accounts
  bought with a registration token, the admin service account, and the start-up backfills
  (internal/store/store.go, credits.go, admin_service_account.go). Each creation is one
  transaction over the accounts, balances, users, keys and registration_events tables.
\<close>

section \<open>Rows created together\<close>

text \<open>
  INSERT INTO credit_balances; with ON CONFLICT DO NOTHING an existing row is left alone.
  INSERT INTO registration_events names rows the same transaction has just written.
\<close>

definition insert_balance :: "bool \<Rightarrow> int \<Rightarrow> rat \<Rightarrow> unit store_prog" where
  "insert_balance conflict_ok a x = bindp (dec_col x) (\<lambda>b s.
     if row_of ac_id a (accounts s) = None then (Inl ForeignKey, s)
     else if balances s a \<noteq> None then (if conflict_ok then Inr () else Inl UniqueViolation, s)
     else (Inr (), set_balance a (zero_balance\<lparr>cb_balance := b\<rparr>) s))"

definition add_reg_event :: "string \<Rightarrow> int option \<Rightarrow> int option \<Rightarrow> int option \<Rightarrow> string \<Rightarrow> db \<Rightarrow> db" where
  "add_reg_event kind acc uid tok source s = s\<lparr>reg_events := reg_events s @
     [\<lparr>re_kind = kind, re_account = acc, re_user = uid, re_token = tok, re_source = source\<rparr>]\<rparr>"

definition register_user :: "faults \<Rightarrow> gotime \<Rightarrow> string \<Rightarrow> string \<Rightarrow> string \<Rightarrow> (int \<times> int) store_prog" where
  "register_user f now email pw name = transact (
     bindp (sql_begin f 0) (\<lambda>_.
     bindp (sql f 1 (new_account name ''personal'' now False)) (\<lambda>acc.
     bindp (sql f 2 (insert_user email pw name ''user'' (Some acc))) (\<lambda>uid.
     bindp (sql f 3 (insert_balance True acc 0)) (\<lambda>_.
     bindp (sql f 4 (modp (add_reg_event ''user'' (Some acc) (Some uid) None ''public_signup''))) (\<lambda>_.
     bindp (sql_begin f 5) (\<lambda>_. retp (acc, uid))))))))"

text \<open>isUniqueViolation: only the INSERT INTO users is mapped to ErrEmailExists.\<close>

definition map_unique :: "store_error \<Rightarrow> 'a store_prog \<Rightarrow> 'a store_prog" where
  "map_unique e m = (\<lambda>s. case m s of (Inl e', s') \<Rightarrow> (Inl (if e' = UniqueViolation then e else e'), s') | r \<Rightarrow> r)"

definition create_admin_bootstrap :: "faults \<Rightarrow> gotime \<Rightarrow> string \<Rightarrow> string \<Rightarrow> string \<Rightarrow> int store_prog" where
  "create_admin_bootstrap f now email pw name = transact (
     bindp (sql_begin f 0) (\<lambda>_.
     bindp (sql f 1 (new_account name ''personal'' now False)) (\<lambda>acc.
     bindp (map_unique EmailExists (sql f 2 (insert_user email pw name ''admin'' (Some acc)))) (\<lambda>uid.
     bindp (sql f 3 (insert_balance True acc 0)) (\<lambda>_.
     bindp (sql f 4 (modp (add_reg_event ''user'' (Some acc) (Some uid) None ''admin_bootstrap''))) (\<lambda>_.
     bindp (sql_begin f 5) (\<lambda>_. retp uid)))))))"

section \<open>Registration tokens\<close>

definition create_registration_token :: "faults \<Rightarrow> string \<Rightarrow> rat \<Rightarrow> int \<Rightarrow> gotime option \<Rightarrow> int store_prog" where
  "create_registration_token f hash grant max_uses expires = sql f 0 (bindp (dec_col grant) (\<lambda>g s.
     if \<not> int32_ok max_uses then (Inl IntegerOverflow, s)
     else if row_of rt_hash hash (tokens s) \<noteq> None then (Inl UniqueViolation, s)
     else (Inr (next_token s), s\<lparr>tokens := tokens s @ [\<lparr>rt_id = next_token s, rt_hash = hash, rt_grant = g,
         rt_max_uses = max_uses, rt_uses = 0, rt_expires = expires, rt_revoked = False\<rparr>],
       next_token := next_token s + 1\<rparr>)))"

definition list_registration_tokens :: "faults \<Rightarrow> db \<Rightarrow> store_error + registration_token list" where
  "list_registration_tokens f s = (if f 0 then Inl SqlFault else Inr (sort_key rt_id (tokens s)))"

definition revoke_registration_token :: "faults \<Rightarrow> int \<Rightarrow> unit store_prog" where
  "revoke_registration_token f i = sql f 0 (\<lambda>s. if row_of rt_id i (tokens s) = None then (Inl TokenNotFound, s)
     else (Inr (), s\<lparr>tokens := upd_where (\<lambda>t. rt_id t = i) (\<lambda>t. t\<lparr>rt_revoked := True\<rparr>) (tokens s)\<rparr>))"

definition token_usable :: "gotime \<Rightarrow> registration_token \<Rightarrow> bool" where
  "token_usable now t \<longleftrightarrow> \<not> rt_revoked t \<and> rt_uses t < rt_max_uses t \<and>
     (case rt_expires t of None \<Rightarrow> True | Some e \<Rightarrow> now < e)"

text \<open>The UPDATE ... RETURNING that validates and consumes a token.\<close>

definition consume_token :: "gotime \<Rightarrow> string \<Rightarrow> registration_token store_prog" where
  "consume_token now hash = (\<lambda>s. case find (\<lambda>t. rt_hash t = hash \<and> token_usable now t) (tokens s) of
       None \<Rightarrow> (Inl BadToken, s)
     | Some t \<Rightarrow> (Inr t, s\<lparr>tokens := upd_where (\<lambda>x. rt_hash x = hash \<and> token_usable now x)
         (\<lambda>x. x\<lparr>rt_uses := rt_uses x + 1\<rparr>) (tokens s)\<rparr>))"

definition grant_new :: "faults \<Rightarrow> int \<Rightarrow> rat \<Rightarrow> unit store_prog" where
  "grant_new f acc grant = (if 0 < grant then
     bindp (sql f 4 (dec_col grant)) (\<lambda>b.
     bindp (modp (\<lambda>s. case balances s acc of None \<Rightarrow> s | Some cb \<Rightarrow> set_balance acc (cb\<lparr>cb_balance := b\<rparr>) s)) (\<lambda>_.
     bindp (sql f 5 (dec_col grant)) (\<lambda>amt.
     modp (add_transaction \<lparr>ct_account = acc, ct_amount = amt, ct_after = amt, ct_type = ''grant'', ct_ref = None\<rparr>))))
   else retp ())"

definition register_service_account ::
  "faults \<Rightarrow> gotime \<Rightarrow> string \<Rightarrow> string \<Rightarrow> string \<Rightarrow> string \<Rightarrow> int \<Rightarrow> (int \<times> int \<times> rat) store_prog" where
  "register_service_account f now token_hash name key_hash key_prefix rate_limit = transact (
     bindp (sql_begin f 0) (\<lambda>_.
     bindp (sql f 1 (consume_token now token_hash)) (\<lambda>t.
     bindp (sql f 2 (new_account name ''service'' now False)) (\<lambda>acc.
     bindp (sql f 3 (insert_balance False acc 0)) (\<lambda>_.
     bindp (grant_new f acc (f_of_micros (rt_grant t))) (\<lambda>_.
     bindp (sql f 6 (insert_key now name key_hash key_prefix rate_limit None (Some acc))) (\<lambda>kid.
     bindp (sql f 7 (modp (add_reg_event ''service'' (Some acc) None (Some (rt_id t)) ''registration_token''))) (\<lambda>_.
     bindp (sql_begin f 8) (\<lambda>_. retp (acc, kid, f_of_micros (rt_grant t)))))))))))"

section \<open>The admin service account\<close>

definition admin_service_name :: string where "admin_service_name = ''admin-service''"

text \<open>SELECT id ... ORDER BY id LIMIT 1.\<close>

definition find_admin_service :: "db \<Rightarrow> int option" where
  "find_admin_service s = (case sort_key ac_id (filter (\<lambda>a. ac_name a = admin_service_name \<and> ac_type a = ''service'') (accounts s)) of
     [] \<Rightarrow> None | a # _ \<Rightarrow> Some (ac_id a))"

text \<open>
  The fast path reads before the transaction; \<open>between\<close> is what other processes commit
  between it and the advisory lock.
\<close>

definition ensure_admin_service_account :: "faults \<Rightarrow> gotime \<Rightarrow> (db \<Rightarrow> db) \<Rightarrow> rat \<Rightarrow> int store_prog" where
  "ensure_admin_service_account f now between grant =
     bindp (sql f 0 (getp find_admin_service)) (\<lambda>found.
     case found of Some i \<Rightarrow> retp i | None \<Rightarrow>
     bindp (modp between) (\<lambda>_. transact (
     bindp (sql_begin f 1) (\<lambda>_.
     bindp (sql_begin f 2) (\<lambda>_.
     bindp (sql f 3 (getp find_admin_service)) (\<lambda>again.
     case again of Some i \<Rightarrow> bindp (sql_begin f 4) (\<lambda>_. retp i) | None \<Rightarrow>
     bindp (sql f 5 (new_account admin_service_name ''service'' now False)) (\<lambda>acc.
     bindp (sql f 6 (insert_balance False acc grant)) (\<lambda>_.
     bindp (if 0 < grant
            then bindp (sql f 7 (dec_col grant)) (\<lambda>amt. modp (add_transaction \<lparr>ct_account = acc, ct_amount = amt,
                   ct_after = amt, ct_type = ''grant'', ct_ref = None\<rparr>))
            else retp ()) (\<lambda>_.
     bindp (sql f 8 (modp (add_reg_event ''service'' (Some acc) None None ''admin_service''))) (\<lambda>_.
     bindp (sql_begin f 9) (\<lambda>_. retp acc)))))))))))"

section \<open>Start-up backfills\<close>

text \<open>BackfillAccounts: the users are listed first, then one transaction per user.\<close>

definition backfill_user :: "faults \<Rightarrow> gotime \<Rightarrow> user \<Rightarrow> unit store_prog" where
  "backfill_user f now u = transact (
     bindp (sql_begin f 0) (\<lambda>_.
     bindp (sql f 1 (new_account (us_name u) ''personal'' now False)) (\<lambda>acc.
     bindp (sql f 2 (modp (\<lambda>s. s\<lparr>users := upd_where (\<lambda>x. us_id x = us_id u) (\<lambda>x. x\<lparr>us_account := Some acc\<rparr>) (users s)\<rparr>))) (\<lambda>_.
     bindp (sql f 3 (modp (\<lambda>s. s\<lparr>api_keys := upd_where (\<lambda>k. ak_user k = Some (us_id u) \<and> ak_account k = None)
              (\<lambda>k. k\<lparr>ak_account := Some acc\<rparr>) (api_keys s)\<rparr>))) (\<lambda>_.
     sql_begin f 4)))))"

fun backfill_users :: "(nat \<Rightarrow> faults) \<Rightarrow> gotime \<Rightarrow> user list \<Rightarrow> nat \<Rightarrow> unit store_prog" where
  "backfill_users fs now [] n = retp ()"
| "backfill_users fs now (u # us) n = bindp (backfill_user (fs n) now u) (\<lambda>_. backfill_users fs now us (n + 1))"

definition backfill_accounts :: "faults \<Rightarrow> (nat \<Rightarrow> faults) \<Rightarrow> gotime \<Rightarrow> unit store_prog" where
  "backfill_accounts f fs now =
     bindp (sql f 0 (getp (\<lambda>s. filter (\<lambda>u. us_account u = None) (users s)))) (\<lambda>us. backfill_users fs now us 0)"

definition owner_account :: "db \<Rightarrow> api_key \<Rightarrow> int option" where
  "owner_account s k = (case ak_user k of None \<Rightarrow> None
     | Some uid \<Rightarrow> (case row_of us_id uid (users s) of None \<Rightarrow> None | Some u \<Rightarrow> us_account u))"

definition backfill_admin_key_accounts :: "faults \<Rightarrow> int \<Rightarrow> nat store_prog" where
  "backfill_admin_key_accounts f admin = transact (
     bindp (sql_begin f 0) (\<lambda>_.
     bindp (sql f 1 (\<lambda>s. let owned = (\<lambda>k. ak_account k = None \<and> owner_account s k \<noteq> None) in
        (Inr (length (filter owned (api_keys s))),
         s\<lparr>api_keys := upd_where owned (\<lambda>k. k\<lparr>ak_account := owner_account s k\<rparr>) (api_keys s)\<rparr>))) (\<lambda>n.
     bindp (sql f 2 (\<lambda>s. let rest = (\<lambda>k. ak_account k = None) in
        if (\<exists>k \<in> set (api_keys s). rest k) \<and> row_of ac_id admin (accounts s) = None then (Inl ForeignKey, s)
        else (Inr (length (filter rest (api_keys s))),
          s\<lparr>api_keys := upd_where rest (\<lambda>k. k\<lparr>ak_account := Some admin\<rparr>) (api_keys s)\<rparr>))) (\<lambda>m.
     bindp (sql_begin f 3) (\<lambda>_. retp (n + m))))))"


section \<open>The platform invariant\<close>

text \<open>Account ids are unique and below the sequence; a balance row belongs to an account.\<close>

definition accounts_wf :: "db \<Rightarrow> bool" where
  "accounts_wf s \<longleftrightarrow> distinct (map ac_id (accounts s)) \<and> (\<forall>a \<in> set (accounts s). ac_id a < next_account s) \<and>
     dom (balances s) \<subseteq> ac_id ` set (accounts s)"

definition platform_inv :: "db \<Rightarrow> bool" where
  "platform_inv s \<longleftrightarrow> ledger_inv s \<and> trail_inv s \<and> accounts_wf s"

lemma no_next_balance: "accounts_wf s \<Longrightarrow> balances s (next_account s) = None"
  by (fastforce simp: accounts_wf_def)

lemma no_next_account: "accounts_wf s \<Longrightarrow> row_of ac_id (next_account s) (accounts s) = None"
  by (fastforce simp: accounts_wf_def row_of_None)

text \<open>What a step may touch without touching the money.\<close>

definition same_money :: "db \<Rightarrow> db \<Rightarrow> bool" where
  "same_money s s' \<longleftrightarrow> balances s' = balances s \<and> holds s' = holds s \<and> next_hold s' = next_hold s \<and>
     transactions s' = transactions s"

lemma same_money_ledger: "same_money s s' \<Longrightarrow> ledger_inv s' = ledger_inv s"
  by (simp add: same_money_def ledger_inv_def holds_wf_def)

lemma same_money_trail: "same_money s s' \<Longrightarrow> trail_inv s' = trail_inv s"
  by (simp add: same_money_def trail_inv_def)

lemma accounts_wf_cong:
  assumes "map ac_id (accounts s') = map ac_id (accounts s)" "next_account s' = next_account s" "balances s' = balances s"
  shows "accounts_wf s' = accounts_wf s"
proof -
  have e: "accounts_wf u \<longleftrightarrow> distinct (map ac_id (accounts u)) \<and> (\<forall>i \<in> set (map ac_id (accounts u)). i < next_account u) \<and>
      dom (balances u) \<subseteq> set (map ac_id (accounts u))" for u
    by (simp add: accounts_wf_def)
  show ?thesis unfolding e assms ..
qed

lemma platform_same:
  assumes "platform_inv s" "same_money s s'" "map ac_id (accounts s') = map ac_id (accounts s)" "next_account s' = next_account s"
  shows "platform_inv s'"
proof -
  have "balances s' = balances s" using assms(2) by (simp only: same_money_def)
  then show ?thesis using assms(1)
    unfolding platform_inv_def same_money_ledger [OF assms(2)] same_money_trail [OF assms(2)]
    by (simp only: accounts_wf_cong [OF assms(3,4)])
qed

text \<open>A new account with its balance row, granted or empty.\<close>

lemma platform_new:
  assumes p: "platform_inv s"
    and a: "accounts s' = accounts s @ [ac]" "ac_id ac = next_account s" "next_account s' = next_account s + 1"
    and b: "balances s' = (balances s)(next_account s \<mapsto> cb)" "cb_reserved cb = 0" "dec_ok (cb_balance cb)"
    and h: "holds s' = holds s" "next_hold s' = next_hold s"
    and t: "transactions s' = transactions s \<and> cb_balance cb = 0 \<or>
      (\<exists>t. transactions s' = transactions s @ [t] \<and> ct_account t = next_account s \<and> ct_after t = cb_balance cb)"
  shows "platform_inv s'"
proof -
  have w: "accounts_wf s" using p by (simp add: platform_inv_def)
  have n: "balances s (next_account s) = None" by (rule no_next_balance [OF w])
  have tr: "trail_inv s" and l: "ledger_inv s" using p by (simp_all add: platform_inv_def)
  have "ledger_inv s'" by (rule ledger_inv_new_row [OF l n b(3) b(2) h b(1)])
  moreover have "trail_inv s'"
    using t
  proof
    assume z: "transactions s' = transactions s \<and> cb_balance cb = 0"
    have "next_account s \<notin> ct_account ` set (transactions s)" using tr n by (auto simp: trail_inv_def)
    then have "last_after (next_account s) (transactions s) = 0" by (rule last_after_none)
    then show ?thesis using tr z b(1) by (auto simp: trail_inv_def)
  next
    assume "\<exists>t. transactions s' = transactions s @ [t] \<and> ct_account t = next_account s \<and> ct_after t = cb_balance cb"
    then show ?thesis using b(1) by (auto intro: trail_inv_step [OF tr])
  qed
  moreover have "accounts_wf s'" using w a b(1) by (fastforce simp: accounts_wf_def)
  ultimately show ?thesis by (simp add: platform_inv_def)
qed

section \<open>Creating accounts\<close>

lemma dec6_0 [simp]: "dec6 0 = 0" "dec_ok 0"
  using dec6_micros [of 0] by (simp_all add: dec_ok_def)

lemma new_account_run: "new_account name ty now m s = (Inr a, s') \<longleftrightarrow> a = next_account s \<and> s' =
   s\<lparr>accounts := accounts s @ [\<lparr>ac_id = next_account s, ac_name = name, ac_type = ty, ac_active = True,
         ac_created = now, ac_managed = m, ac_monthly_grant = None, ac_rate_per_min = None\<rparr>],
       next_account := next_account s + 1\<rparr>"
  by (auto simp: new_account_def)

lemma insert_user_run: "insert_user email pw name role acc s = (Inr u, s') \<longleftrightarrow>
   row_of us_email email (users s) = None \<and> u = next_user s \<and>
   s' = s\<lparr>users := users s @ [\<lparr>us_id = next_user s, us_email = email, us_password = pw,
         us_name = name, us_role = role, us_active = True, us_account = acc\<rparr>], next_user := next_user s + 1\<rparr>"
  by (auto simp: insert_user_def)

lemma insert_balance_run: "insert_balance c a x s = (Inr u, s') \<longleftrightarrow>
   dec_ok (dec6 x) \<and> row_of ac_id a (accounts s) \<noteq> None \<and>
   (if balances s a \<noteq> None then c \<and> s' = s else s' = set_balance a (zero_balance\<lparr>cb_balance := dec6 x\<rparr>) s)"
  by (auto simp: insert_balance_def bindp_Inr)

lemma insert_key_run: "insert_key now name h p r u a s = (Inr k, s') \<longleftrightarrow> k = next_key s \<and>
   (\<forall>x. u = Some x \<longrightarrow> row_of us_id x (users s) \<noteq> None) \<and> (\<forall>x. a = Some x \<longrightarrow> row_of ac_id x (accounts s) \<noteq> None) \<and>
   row_of ak_hash h (api_keys s) = None \<and>
   s' = s\<lparr>api_keys := api_keys s @ [\<lparr>ak_id = next_key s, ak_name = name, ak_hash = h,
         ak_prefix = p, ak_rate_limit = r, ak_created = now, ak_revoked = False, ak_user = u,
         ak_account = a, ak_session_limit = None, ak_trust_headers = False\<rparr>], next_key := next_key s + 1\<rparr>"
  by (auto simp: insert_key_def fk_missing_def split: option.splits if_splits)

lemma map_unique_Inr: "map_unique e m s = (Inr a, s') \<longleftrightarrow> m s = (Inr a, s')"
  by (auto simp: map_unique_def split: prod.splits sum.splits)

lemma row_of_snoc: "row_of key k (rs @ [r]) = (case row_of key k rs of None \<Rightarrow> if key r = k then Some r else None | x \<Rightarrow> x)"
  by (induction rs) (auto simp: row_of_def)

lemmas account_run = bindp_Inr sql_Inr transact_Inr new_account_run insert_user_run insert_balance_run
  insert_key_run map_unique_Inr row_of_snoc

definition fresh_account :: "db \<Rightarrow> string \<Rightarrow> string \<Rightarrow> gotime \<Rightarrow> account" where
  "fresh_account s name ty now = \<lparr>ac_id = next_account s, ac_name = name, ac_type = ty, ac_active = True,
     ac_created = now, ac_managed = False, ac_monthly_grant = None, ac_rate_per_min = None\<rparr>"

definition fresh_user :: "db \<Rightarrow> string \<Rightarrow> string \<Rightarrow> string \<Rightarrow> string \<Rightarrow> user" where
  "fresh_user s email pw name role = \<lparr>us_id = next_user s, us_email = email, us_password = pw, us_name = name,
     us_role = role, us_active = True, us_account = Some (next_account s)\<rparr>"

text \<open>The state after a successful registration of a user with a personal account.\<close>

definition registered :: "db \<Rightarrow> gotime \<Rightarrow> string \<Rightarrow> string \<Rightarrow> string \<Rightarrow> string \<Rightarrow> string \<Rightarrow> db" where
  "registered s now email pw name role source = add_reg_event ''user'' (Some (next_account s)) (Some (next_user s)) None source
     (set_balance (next_account s) zero_balance
       (s\<lparr>accounts := accounts s @ [fresh_account s name ''personal'' now], next_account := next_account s + 1,
          users := users s @ [fresh_user s email pw name role], next_user := next_user s + 1\<rparr>))"

lemma register_user_Inr:
  assumes w: "accounts_wf s" and r: "register_user f now email pw name s = (Inr r, s')"
  shows "row_of us_email email (users s) = None \<and> r = (next_account s, next_user s) \<and>
    s' = registered s now email pw name ''user'' ''public_signup''"
  using r no_next_balance [OF w] no_next_account [OF w] unfolding register_user_def
  by (clarsimp simp: account_run registered_def fresh_account_def fresh_user_def zero_balance_def)

lemma create_admin_bootstrap_Inr:
  assumes w: "accounts_wf s" and r: "create_admin_bootstrap f now email pw name s = (Inr r, s')"
  shows "row_of us_email email (users s) = None \<and> r = next_user s \<and>
    s' = registered s now email pw name ''admin'' ''admin_bootstrap''"
  using r no_next_balance [OF w] no_next_account [OF w] unfolding create_admin_bootstrap_def
  by (clarsimp simp: account_run registered_def fresh_account_def fresh_user_def zero_balance_def)

lemma add_reg_event_simps [simp]:
  "balances (add_reg_event k a u t src s) = balances s" "holds (add_reg_event k a u t src s) = holds s"
  "next_hold (add_reg_event k a u t src s) = next_hold s" "transactions (add_reg_event k a u t src s) = transactions s"
  "accounts (add_reg_event k a u t src s) = accounts s" "next_account (add_reg_event k a u t src s) = next_account s"
  "tokens (add_reg_event k a u t src s) = tokens s" "next_token (add_reg_event k a u t src s) = next_token s"
  "users (add_reg_event k a u t src s) = users s" "api_keys (add_reg_event k a u t src s) = api_keys s"
  by (simp_all add: add_reg_event_def)

lemma set_balance_frame [simp]:
  "next_account (set_balance a cb s) = next_account s" "tokens (set_balance a cb s) = tokens s"
  "next_token (set_balance a cb s) = next_token s" "reg_events (set_balance a cb s) = reg_events s"
  "users (set_balance a cb s) = users s" "api_keys (set_balance a cb s) = api_keys s"
  by (simp_all add: set_balance_def)

lemma add_transaction_frame [simp]:
  "next_account (add_transaction x s) = next_account s" "tokens (add_transaction x s) = tokens s"
  "next_token (add_transaction x s) = next_token s" "reg_events (add_transaction x s) = reg_events s"
  "users (add_transaction x s) = users s" "api_keys (add_transaction x s) = api_keys s"
  by (simp_all add: add_transaction_def)

lemma fresh_account_id: "ac_id (fresh_account s name ty now) = next_account s"
  by (simp add: fresh_account_def)

lemma registered_inv: "platform_inv s \<Longrightarrow> platform_inv (registered s now email pw name role source)"
  by (erule platform_new [where cb = zero_balance and ac = "fresh_account s name ''personal'' now"])
    (simp_all add: registered_def zero_balance_def fresh_account_id)


section \<open>Service accounts bought with a token\<close>

text \<open>
  Each token's use counter is the number of accounts registered through it, and it never
  passes max_uses.
\<close>

definition registrations :: "int \<Rightarrow> db \<Rightarrow> int" where
  "registrations i s = int (length (filter (\<lambda>e. re_token e = Some i) (reg_events s)))"

definition tokens_inv :: "db \<Rightarrow> bool" where
  "tokens_inv s \<longleftrightarrow> distinct (map rt_id (tokens s)) \<and> distinct (map rt_hash (tokens s)) \<and>
     (\<forall>t \<in> set (tokens s). rt_id t < next_token s \<and> dec_ok (rt_grant t) \<and>
        registrations (rt_id t) s = rt_uses t \<and> rt_uses t \<le> max 0 (rt_max_uses t)) \<and>
     (\<forall>e \<in> set (reg_events s). \<forall>i. re_token e = Some i \<longrightarrow> i < next_token s)"

text \<open>The state after a successful registration with token row t.\<close>

definition service_registered :: "db \<Rightarrow> gotime \<Rightarrow> registration_token \<Rightarrow> string \<Rightarrow> string \<Rightarrow> string \<Rightarrow> int \<Rightarrow> db" where
  "service_registered s now t name key_hash key_prefix rl =
     (let acc = next_account s;
          s1 = s\<lparr>tokens := upd_where (\<lambda>x. rt_id x = rt_id t) (\<lambda>x. x\<lparr>rt_uses := rt_uses x + 1\<rparr>) (tokens s),
                 accounts := accounts s @ [fresh_account s name ''service'' now], next_account := acc + 1\<rparr>;
          s2 = set_balance acc (zero_balance\<lparr>cb_balance := max 0 (rt_grant t)\<rparr>) s1;
          s3 = (if 0 < rt_grant t then add_transaction \<lparr>ct_account = acc, ct_amount = rt_grant t, ct_after = rt_grant t,
                  ct_type = ''grant'', ct_ref = None\<rparr> s2 else s2);
          s4 = s3\<lparr>api_keys := api_keys s3 @ [\<lparr>ak_id = next_key s, ak_name = name, ak_hash = key_hash,
                  ak_prefix = key_prefix, ak_rate_limit = rl, ak_created = now, ak_revoked = False, ak_user = None,
                  ak_account = Some acc, ak_session_limit = None, ak_trust_headers = False\<rparr>], next_key := next_key s + 1\<rparr>
      in add_reg_event ''service'' (Some acc) None (Some (rt_id t)) ''registration_token'' s4)"

lemma f_of_micros_pos [simp]: "dec_ok m \<Longrightarrow> 0 < f_of_micros m \<longleftrightarrow> 0 < m"
proof -
  assume m: "dec_ok m"
  have d: "dec6 (f_of_micros m) = m" using m by simp
  have "0 < f_of_micros m" if "0 < m"
  proof (rule ccontr)
    assume "\<not> ?thesis"
    then have "dec6 (f_of_micros m) \<le> dec6 0" by (intro dec6_mono) simp
    then show False using d that by simp
  qed
  moreover have "\<not> 0 < f_of_micros m" if "m \<le> 0"
    using rnd64_mono [of "micros_val m" 0] that by (simp add: f_of_micros_def micros_val_def not_less divide_le_0_iff)
  ultimately show ?thesis by linarith
qed

lemma consume_token_Inr:
  assumes "tokens_inv s" "consume_token now hash s = (Inr t, s')"
  shows "t \<in> set (tokens s) \<and> rt_hash t = hash \<and> token_usable now t \<and>
    s' = s\<lparr>tokens := upd_where (\<lambda>x. rt_id x = rt_id t) (\<lambda>x. x\<lparr>rt_uses := rt_uses x + 1\<rparr>) (tokens s)\<rparr>"
proof -
  have t: "t \<in> set (tokens s)" "rt_hash t = hash" "token_usable now t"
    and s': "s' = s\<lparr>tokens := upd_where (\<lambda>x. rt_hash x = hash \<and> token_usable now x) (\<lambda>x. x\<lparr>rt_uses := rt_uses x + 1\<rparr>) (tokens s)\<rparr>"
    using assms(2) by (auto simp: consume_token_def find_Some_iff split: option.splits)
  have d: "distinct (map rt_id (tokens s))" "distinct (map rt_hash (tokens s))" using assms(1) by (simp_all add: tokens_inv_def)
  have "upd_where (\<lambda>x. rt_hash x = hash \<and> token_usable now x) g (tokens s) = upd_where (\<lambda>x. rt_id x = rt_id t) g (tokens s)" for g
    unfolding upd_where_def
  proof (rule map_cong [OF refl])
    fix x assume x: "x \<in> set (tokens s)"
    have "rt_hash x = hash \<longleftrightarrow> x = t" "rt_id x = rt_id t \<longleftrightarrow> x = t"
      using d x t(1,2) by (auto simp: distinct_map inj_on_def)
    then show "(if rt_hash x = hash \<and> token_usable now x then g x else x) = (if rt_id x = rt_id t then g x else x)"
      using t(3) by auto
  qed
  then show ?thesis using t s' by simp
qed


lemma grant_new_Inr:
  assumes "grant_new f acc (f_of_micros m) s = (Inr u, s')" "dec_ok m" "balances s acc = Some cb"
  shows "s' = (if 0 < m then add_transaction \<lparr>ct_account = acc, ct_amount = m, ct_after = m, ct_type = ''grant'', ct_ref = None\<rparr>
                (set_balance acc (cb\<lparr>cb_balance := m\<rparr>) s) else s)"
  using assms by (auto simp: grant_new_def bindp_Inr sql_Inr split: if_splits)

lemma set_balance_twice [simp]: "set_balance a x (set_balance a y s) = set_balance a x s"
  by (simp add: set_balance_def)

lemma register_service_account_Inr:
  assumes w: "accounts_wf s" and ti: "tokens_inv s"
    and r: "register_service_account f now hash name kh kp rl s = (Inr (acc, kid, grant), s')"
  shows "\<exists>t \<in> set (tokens s). rt_hash t = hash \<and> token_usable now t \<and> acc = next_account s \<and> kid = next_key s \<and>
    grant = f_of_micros (rt_grant t) \<and> row_of ak_hash kh (api_keys s) = None \<and>
    s' = service_registered s now t name kh kp rl"
proof -
  from r obtain t s1 s3 s4 s5 where
    c: "consume_token now hash s = (Inr t, s1)"
    and b: "insert_balance False (next_account s1) 0 (s1\<lparr>accounts := accounts s1 @ [fresh_account s1 name ''service'' now],
         next_account := next_account s1 + 1\<rparr>) = (Inr (), s3)"
    and g: "grant_new f (next_account s1) (f_of_micros (rt_grant t)) s3 = (Inr (), s4)"
    and k: "insert_key now name kh kp rl None (Some (next_account s1)) s4 = (Inr kid, s5)"
    and e: "acc = next_account s1" "grant = f_of_micros (rt_grant t)"
      "s' = add_reg_event ''service'' (Some (next_account s1)) None (Some (rt_id t)) ''registration_token'' s5"
    by (auto simp: register_service_account_def ledger_run new_account_run fresh_account_def)
  note c' = consume_token_Inr [OF ti c]
  have n: "balances s (next_account s) = None" "row_of ac_id (next_account s) (accounts s) = None"
    by (rule no_next_balance [OF w], rule no_next_account [OF w])
  have ok: "dec_ok (rt_grant t)" using c' ti by (auto simp: tokens_inv_def)
  have s1: "next_account s1 = next_account s" "accounts s1 = accounts s" "balances s1 = balances s" "api_keys s1 = api_keys s"
    "next_key s1 = next_key s" "fresh_account s1 name ''service'' now = fresh_account s name ''service'' now"
    using c' by (auto simp: fresh_account_def)
  have s3: "s3 = set_balance (next_account s) zero_balance (s1\<lparr>accounts := accounts s @ [fresh_account s name ''service'' now],
         next_account := next_account s + 1\<rparr>)"
    using b by (simp add: insert_balance_run s1 n zero_balance_def)
  have "balances s3 (next_account s) = Some zero_balance" by (simp add: s3)
  note s4 = grant_new_Inr [OF g ok this [folded s1(1)], unfolded s1]
  have z: "zero_balance\<lparr>cb_balance := max 0 (rt_grant t)\<rparr> = (if 0 < rt_grant t then zero_balance\<lparr>cb_balance := rt_grant t\<rparr> else zero_balance)"
    by (simp add: zero_balance_def)
  have k4: "api_keys s4 = api_keys s" "next_key s4 = next_key s"
    by (simp_all add: s4 s3 s1 set_balance_def add_transaction_def)
  have "row_of ak_hash kh (api_keys s) = None" "kid = next_key s"
    using k by (simp_all add: insert_key_run k4)
  moreover have "s' = service_registered s now t name kh kp rl"
    using k c' by (simp add: service_registered_def Let_def e s1 insert_key_run k4 z) (simp add: s4 s3 s1)
  ultimately show ?thesis using c' e(1,2) s1(1) by blast
qed

lemma service_registered_platform:
  assumes "platform_inv s" "dec_ok (rt_grant t)"
  shows "platform_inv (service_registered s now t name kh kp rl)"
  by (rule platform_new [OF assms(1), where cb = "zero_balance\<lparr>cb_balance := max 0 (rt_grant t)\<rparr>" and ac = "fresh_account s name ''service'' now"])
    (use assms(2) in \<open>simp_all add: service_registered_def Let_def fresh_account_id zero_balance_def max_def\<close>)

lemma service_registered_tokens:
  assumes "tokens_inv s" and t: "t \<in> set (tokens s)" "token_usable now t"
  shows "tokens_inv (service_registered s now t name kh kp rl)"
proof -
  let ?s' = "service_registered s now t name kh kp rl"
  have tk: "tokens ?s' = upd_where (\<lambda>x. rt_id x = rt_id t) (\<lambda>x. x\<lparr>rt_uses := rt_uses x + 1\<rparr>) (tokens s)"
    and nt: "next_token ?s' = next_token s"
    and ev: "\<exists>e. reg_events ?s' = reg_events s @ [e] \<and> re_token e = Some (rt_id t)"
    by (simp_all add: service_registered_def Let_def add_reg_event_def add_transaction_def set_balance_def)
  have reg: "registrations i ?s' = registrations i s + (if i = rt_id t then 1 else 0)" for i
    using ev by (auto simp: registrations_def)
  have d: "distinct (map rt_id (tokens s))" using assms(1) by (simp add: tokens_inv_def)
  have u: "rt_uses x + 1 \<le> max 0 (rt_max_uses x)" if "x \<in> set (tokens s)" "rt_id x = rt_id t" for x
  proof -
    have "x = t" using that t(1) d by (auto simp: distinct_map inj_on_def)
    moreover have "rt_uses t < rt_max_uses t" using t(2) by (simp add: token_usable_def)
    ultimately show ?thesis by simp
  qed
  have f: "x \<in> set (tokens s) \<Longrightarrow> rt_id x < next_token s \<and> dec_ok (rt_grant x) \<and>
        registrations (rt_id x) s = rt_uses x \<and> rt_uses x \<le> max 0 (rt_max_uses x)" for x
    using assms(1) by (simp add: tokens_inv_def)
  show ?thesis
    unfolding tokens_inv_def tk nt
  proof (intro conjI ballI)
    show "distinct (map rt_id (upd_where (\<lambda>x. rt_id x = rt_id t) (\<lambda>x. x\<lparr>rt_uses := rt_uses x + 1\<rparr>) (tokens s)))"
      "distinct (map rt_hash (upd_where (\<lambda>x. rt_id x = rt_id t) (\<lambda>x. x\<lparr>rt_uses := rt_uses x + 1\<rparr>) (tokens s)))"
      using assms(1) by (simp_all add: tokens_inv_def)
  next
    fix y assume "y \<in> set (upd_where (\<lambda>x. rt_id x = rt_id t) (\<lambda>x. x\<lparr>rt_uses := rt_uses x + 1\<rparr>) (tokens s))"
    then obtain x where x: "x \<in> set (tokens s)" "y = (if rt_id x = rt_id t then x\<lparr>rt_uses := rt_uses x + 1\<rparr> else x)"
      by (auto simp: upd_where_def)
    show "rt_id y < next_token s" "dec_ok (rt_grant y)" "registrations (rt_id y) ?s' = rt_uses y"
      "rt_uses y \<le> max 0 (rt_max_uses y)"
      using f [OF x(1)] u [OF x(1)] x(2) by (auto simp: reg)
  next
    fix e assume "e \<in> set (reg_events ?s')"
    then show "\<forall>i. re_token e = Some i \<longrightarrow> i < next_token s"
      using ev assms(1) f [OF t(1)] by (auto simp: tokens_inv_def)
  qed
qed


lemma service_registered_effect:
  "balances (service_registered s now t name kh kp rl) =
     (balances s)(next_account s \<mapsto> zero_balance\<lparr>cb_balance := max 0 (rt_grant t)\<rparr>)"
  "map ac_id (accounts (service_registered s now t name kh kp rl)) = map ac_id (accounts s) @ [next_account s]"
  "\<exists>k. api_keys (service_registered s now t name kh kp rl) = api_keys s @ [k] \<and> ak_id k = next_key s \<and>
     ak_hash k = kh \<and> ak_account k = Some (next_account s) \<and> \<not> ak_revoked k"
  "registrations (rt_id t) (service_registered s now t name kh kp rl) = registrations (rt_id t) s + 1"
  by (simp_all add: service_registered_def Let_def fresh_account_id registrations_def add_reg_event_def)

datatype token_op = Register string string string string int | NewToken string rat int "gotime option" | RevokeToken int

fun run_token_op :: "faults \<times> gotime \<times> token_op \<Rightarrow> db \<Rightarrow> db" where
  "run_token_op (f, now, Register hash name kh kp rl) s = snd (register_service_account f now hash name kh kp rl s)"
| "run_token_op (f, now, NewToken hash g m e) s = snd (create_registration_token f hash g m e s)"
| "run_token_op (f, now, RevokeToken i) s = snd (revoke_registration_token f i s)"

lemma run_fail:
  assumes "isl (fst (transact m s))" shows "P s \<Longrightarrow> P (snd (transact m s))"
  using assms by (simp add: transact_atomic)

lemma register_service_account_fail:
  "isl (fst (register_service_account f now hash name kh kp rl s)) \<Longrightarrow>
   snd (register_service_account f now hash name kh kp rl s) = s"
  unfolding register_service_account_def by (rule transact_atomic)

lemma register_service_account_cases:
  assumes w: "accounts_wf s" "tokens_inv s"
  obtains (err) "snd (register_service_account f now hash name kh kp rl s) = s"
  | (ok) t where "t \<in> set (tokens s)" "rt_hash t = hash" "token_usable now t"
      "snd (register_service_account f now hash name kh kp rl s) = service_registered s now t name kh kp rl"
proof (cases "register_service_account f now hash name kh kp rl s")
  case (Pair r s')
  show thesis
  proof (cases r)
    case (Inl e)
    then show thesis using err register_service_account_fail [of f now hash name kh kp rl s] Pair by simp
  next
    case (Inr x)
    obtain acc kid g where "x = (acc, kid, g)" by (cases x)
    then show thesis using register_service_account_Inr [OF w, of f now hash name kh kp rl] ok Pair Inr by fastforce
  qed
qed

lemma create_registration_token_inv:
  assumes "tokens_inv s" shows "tokens_inv (snd (create_registration_token f hash g m e s))"
proof -
  have "registrations (next_token s) s = 0"
    using assms unfolding tokens_inv_def registrations_def
    by (auto simp: filter_empty_conv)
  moreover have "next_token s \<notin> rt_id ` set (tokens s)" using assms by (auto simp: tokens_inv_def)
  moreover have "registrations i (s\<lparr>tokens := x, next_token := n\<rparr>) = registrations i s" for i x n
    by (simp add: registrations_def)
  ultimately show ?thesis using assms unfolding create_registration_token_def sql_def stmt_def bindp_def dec_col_def retp_def failp_def
    by (fastforce simp: tokens_inv_def row_of_None)
qed

lemma revoke_registration_token_inv:
  assumes "tokens_inv s" shows "tokens_inv (snd (revoke_registration_token f i s))"
proof -
  have "registrations i (s\<lparr>tokens := x\<rparr>) = registrations i s" for i x by (simp add: registrations_def)
  then show ?thesis using assms
    by (auto simp: revoke_registration_token_def sql_def stmt_def tokens_inv_def set_upd_where)
qed

definition grants_ok :: "db \<Rightarrow> bool" where
  "grants_ok s \<longleftrightarrow> platform_inv s \<and> tokens_inv s"

lemma run_token_op_inv: assumes "grants_ok s" shows "grants_ok (run_token_op op s)"
proof -
  have p: "platform_inv s" "tokens_inv s" "accounts_wf s" using assms by (simp_all add: grants_ok_def platform_inv_def)
  obtain f now a where op: "op = (f, now, a)" by (cases op)
  show ?thesis
  proof (cases a)
    case (Register hash name kh kp rl)
    show ?thesis unfolding op Register run_token_op.simps
    proof (cases rule: register_service_account_cases [OF p(3,2), of f now hash name kh kp rl])
      case 1 then show "grants_ok (snd (register_service_account f now hash name kh kp rl s))" using assms by simp
    next
      case (2 t)
      then show "grants_ok (snd (register_service_account f now hash name kh kp rl s))"
        using p service_registered_platform service_registered_tokens [OF p(2)] by (auto simp: grants_ok_def tokens_inv_def)
    qed
  next
    case (NewToken hash g m e)
    have "same_money s (snd (create_registration_token f hash g m e s))"
      "accounts (snd (create_registration_token f hash g m e s)) = accounts s"
      "next_account (snd (create_registration_token f hash g m e s)) = next_account s"
      by (auto simp: same_money_def create_registration_token_def prog_simps)
    then show ?thesis unfolding op NewToken
      using p create_registration_token_inv by (auto simp: grants_ok_def intro: platform_same)
  next
    case (RevokeToken i)
    have "same_money s (snd (revoke_registration_token f i s))"
      "accounts (snd (revoke_registration_token f i s)) = accounts s"
      "next_account (snd (revoke_registration_token f i s)) = next_account s"
      by (auto simp: same_money_def revoke_registration_token_def prog_simps)
    then show ?thesis unfolding op RevokeToken
      using p revoke_registration_token_inv by (auto simp: grants_ok_def intro: platform_same)
  qed
qed

lemma fold_token_ops: "grants_ok s \<Longrightarrow> grants_ok (fold run_token_op ops s)"
  by (induction ops arbitrary: s) (simp_all add: run_token_op_inv)

text \<open>
  C34: A registration token is worth its number of uses and no more. Over any sequence of token
  creations, revocations and service-account registrations, with any statements failing, the
  number of accounts registered through a token equals its use counter and never exceeds
  max_uses; and every state on the way keeps the ledger and its audit trail consistent, so a
  granted balance is always backed by a grant transaction.
\<close>
theorem registration_token_bounded:
  assumes "platform_inv s" and "tokens_inv s" and "t \<in> set (tokens (fold run_token_op ops s))"
  shows "registrations (rt_id t) (fold run_token_op ops s) = rt_uses t \<and>
         rt_uses t \<le> max 0 (rt_max_uses t) \<and> platform_inv (fold run_token_op ops s)"
proof -
  have g: "grants_ok (fold run_token_op ops s)" by (rule fold_token_ops) (simp add: grants_ok_def assms)
  then have "platform_inv (fold run_token_op ops s)" "tokens_inv (fold run_token_op ops s)" by (simp_all only: grants_ok_def)
  then show ?thesis using assms(3) unfolding tokens_inv_def by blast
qed

text \<open>
  RegisterServiceAccount is all or nothing. It either leaves the database as it was, or
  consumed one use of a token that was not revoked, not expired and not exhausted, and created
  exactly one new account holding the token's grant, with one unrevoked API key on it.
\<close>
theorem service_account_registration:
  assumes "platform_inv s" and "tokens_inv s"
  shows "case register_service_account f now hash name kh kp rl s of
    (Inl e, s') \<Rightarrow> s' = s
  | (Inr (acc, kid, grant), s') \<Rightarrow> \<exists>t \<in> set (tokens s). rt_hash t = hash \<and> token_usable now t \<and>
      grant = f_of_micros (rt_grant t) \<and> balances s acc = None \<and>
      balances s' = (balances s)(acc \<mapsto> zero_balance\<lparr>cb_balance := max 0 (rt_grant t)\<rparr>) \<and>
      map ac_id (accounts s') = map ac_id (accounts s) @ [acc] \<and>
      (\<exists>k. api_keys s' = api_keys s @ [k] \<and> ak_id k = kid \<and> ak_hash k = kh \<and> ak_account k = Some acc \<and> \<not> ak_revoked k) \<and>
      registrations (rt_id t) s' = registrations (rt_id t) s + 1"
proof (cases "register_service_account f now hash name kh kp rl s")
  case (Pair r s')
  have w: "accounts_wf s" using assms(1) by (simp add: platform_inv_def)
  show ?thesis
  proof (cases r)
    case (Inl e)
    then show ?thesis using register_service_account_fail [of f now hash name kh kp rl s] Pair by simp
  next
    case (Inr x)
    obtain acc kid g where x: "x = (acc, kid, g)" by (cases x)
    then obtain t where t: "t \<in> set (tokens s)" "rt_hash t = hash" "token_usable now t" "acc = next_account s"
      "kid = next_key s" "g = f_of_micros (rt_grant t)" "s' = service_registered s now t name kh kp rl"
      using register_service_account_Inr [OF w assms(2), of f now hash name kh kp rl acc kid g s'] Pair Inr by blast
    note e = service_registered_effect [where s = s and now = now and t = t and name = name and kh = kh and kp = kp and rl = rl, folded t(4,5,7)]
    have n: "balances s acc = None" using no_next_balance [OF w] t(4) by simp
    show ?thesis unfolding Pair Inr x prod.case sum.case using t(1-3,6) n e by blast
  qed
qed


section \<open>The admin service account is created once\<close>

lemma find_admin_service_None:
  "find_admin_service s = None \<longleftrightarrow> (\<forall>a \<in> set (accounts s). \<not> (ac_name a = admin_service_name \<and> ac_type a = ''service''))"
proof -
  have "find_admin_service s = None \<longleftrightarrow> sort_key ac_id (filter (\<lambda>a. ac_name a = admin_service_name \<and> ac_type a = ''service'') (accounts s)) = []"
    by (simp add: find_admin_service_def split: list.splits)
  also have "\<dots> \<longleftrightarrow> filter (\<lambda>a. ac_name a = admin_service_name \<and> ac_type a = ''service'') (accounts s) = []"
    by (simp only: set_empty [symmetric] set_sort)
  finally show ?thesis by (simp add: filter_empty_conv)
qed

lemma find_admin_service_new:
  assumes "find_admin_service s = None" "accounts s' = accounts s @ [a]" "ac_name a = admin_service_name" "ac_type a = ''service''"
  shows "find_admin_service s' = Some (ac_id a)"
proof -
  have "filter (\<lambda>a. ac_name a = admin_service_name \<and> ac_type a = ''service'') (accounts s) = []"
    using assms(1) by (auto simp: find_admin_service_None filter_empty_conv)
  then show ?thesis using assms(2-4) by (simp add: find_admin_service_def)
qed

definition admin_service_created :: "db \<Rightarrow> gotime \<Rightarrow> rat \<Rightarrow> db" where
  "admin_service_created s now grant = (let acc = next_account s;
      s1 = set_balance acc (zero_balance\<lparr>cb_balance := dec6 grant\<rparr>)
         (s\<lparr>accounts := accounts s @ [fresh_account s admin_service_name ''service'' now], next_account := acc + 1\<rparr>);
      s2 = (if 0 < grant then add_transaction \<lparr>ct_account = acc, ct_amount = dec6 grant, ct_after = dec6 grant,
              ct_type = ''grant'', ct_ref = None\<rparr> s1 else s1)
    in add_reg_event ''service'' (Some acc) None None ''admin_service'' s2)"

lemma ensure_admin_Inr:
  assumes r: "ensure_admin_service_account f now between grant s = (Inr i, s')" and w: "accounts_wf (between s)"
  shows "(find_admin_service s = Some i \<and> s' = s) \<or>
     (find_admin_service s = None \<and> find_admin_service (between s) = Some i \<and> s' = between s) \<or>
     (find_admin_service s = None \<and> find_admin_service (between s) = None \<and> i = next_account (between s) \<and>
      dec_ok (dec6 grant) \<and> s' = admin_service_created (between s) now grant)"
proof (cases "find_admin_service s")
  case (Some j)
  then show ?thesis using r by (simp add: ensure_admin_service_account_def ledger_run)
next
  case None
  show ?thesis
  proof (cases "find_admin_service (between s)")
    case (Some j)
    then show ?thesis using r None by (simp add: ensure_admin_service_account_def ledger_run)
  next
    case b: None
    have n: "balances (between s) (next_account (between s)) = None"
      "row_of ac_id (next_account (between s)) (accounts (between s)) = None"
      by (rule no_next_balance [OF w], rule no_next_account [OF w])
    from r None b have "i = next_account (between s)" "dec_ok (dec6 grant)" "s' = admin_service_created (between s) now grant"
      by (auto simp: ensure_admin_service_account_def account_run admin_service_created_def Let_def fresh_account_def n
          split: if_splits)
    then show ?thesis using None b by blast
  qed
qed

lemma admin_service_created_platform:
  assumes "platform_inv s" "dec_ok (dec6 grant)" "0 \<le> grant"
  shows "platform_inv (admin_service_created s now grant)"
  by (rule platform_new [OF assms(1), where cb = "zero_balance\<lparr>cb_balance := dec6 grant\<rparr>"
        and ac = "fresh_account s admin_service_name ''service'' now"])
    (use assms(2,3) in \<open>auto simp: admin_service_created_def Let_def fresh_account_id zero_balance_def\<close>)

lemma admin_service_created_find:
  "find_admin_service s = None \<Longrightarrow> find_admin_service (admin_service_created s now grant) = Some (next_account s)"
  by (rule find_admin_service_new [where a = "fresh_account s admin_service_name ''service'' now", unfolded fresh_account_id])
    (simp_all add: admin_service_created_def Let_def fresh_account_def)

lemma ensure_admin_found:
  "find_admin_service s = Some i \<Longrightarrow>
   ensure_admin_service_account f now between grant s = (if f 0 then Inl SqlFault else Inr i, s)"
  by (simp add: ensure_admin_service_account_def prog_simps)

text \<open>
  The admin service account is granted once. When EnsureAdminServiceAccount succeeds, even
  with another process committing between its first look-up and its lock, the account it
  returns is the one every later call returns, and no later call changes the database, whatever
  grant it is given; the ledger and its audit trail stay consistent.
\<close>
theorem admin_service_account_once:
  assumes "ensure_admin_service_account f now between grant s = (Inr i, s')"
    and "platform_inv s" and "platform_inv (between s)" and "0 \<le> grant"
  shows "find_admin_service s' = Some i \<and> platform_inv s' \<and>
    (\<forall>f' now' between' grant'. ensure_admin_service_account f' now' between' grant' s' = (if f' 0 then Inl SqlFault else Inr i, s'))"
proof -
  have w: "accounts_wf (between s)" using assms(3) by (simp add: platform_inv_def)
  have "find_admin_service s' = Some i \<and> platform_inv s'"
    using ensure_admin_Inr [OF assms(1) w] assms(2-4) admin_service_created_platform admin_service_created_find by blast
  then show ?thesis using ensure_admin_found by blast
qed

section \<open>After the backfills every key has an account\<close>

lemma backfill_user_Inr:
  assumes "backfill_user f now u s = (Inr x, s')"
  shows "users s' = upd_where (\<lambda>x. us_id x = us_id u) (\<lambda>x. x\<lparr>us_account := Some (next_account s)\<rparr>) (users s)"
    "api_keys s' = upd_where (\<lambda>k. ak_user k = Some (us_id u) \<and> ak_account k = None)
        (\<lambda>k. k\<lparr>ak_account := Some (next_account s)\<rparr>) (api_keys s)"
  using assms by (auto simp: backfill_user_def ledger_run new_account_run)

lemma backfill_users_all:
  assumes "backfill_users fs now us n s = (Inr (), s')"
    and "\<And>u. u \<in> set (users s) \<Longrightarrow> us_account u = None \<Longrightarrow> us_id u \<in> us_id ` set us"
  shows "\<forall>u \<in> set (users s'). us_account u \<noteq> None"
  using assms
proof (induction us arbitrary: n s)
  case Nil
  then show ?case by (force simp: retp_def)
next
  case (Cons v us)
  obtain s1 where s1: "backfill_user (fs n) now v s = (Inr (), s1)" "backfill_users fs now us (n + 1) s1 = (Inr (), s')"
    using Cons.prems(1) by (auto simp: bindp_Inr)
  show ?case
  proof (rule Cons.IH [OF s1(2)])
    fix u assume u: "u \<in> set (users s1)" "us_account u = None"
    then have "u \<in> set (users s)" "us_id u \<noteq> us_id v"
      using backfill_user_Inr(1) [OF s1(1)] by (auto simp: set_upd_where split: if_splits)
    then show "us_id u \<in> us_id ` set us" using Cons.prems(2) u(2) by auto
  qed
qed

lemma backfill_admin_keys_Inr:
  assumes "backfill_admin_key_accounts f admin s = (Inr n, s')"
  shows "api_keys s' = map (\<lambda>k. if ak_account k \<noteq> None then k else
      k\<lparr>ak_account := (case owner_account s k of None \<Rightarrow> Some admin | a \<Rightarrow> a)\<rparr>) (api_keys s)"
proof -
  define g where "g = (\<lambda>k. if ak_account k = None \<and> owner_account s k \<noteq> None then k\<lparr>ak_account := owner_account s k\<rparr> else k)"
  define h where "h = (\<lambda>k::api_key. if ak_account k = None then k\<lparr>ak_account := Some admin\<rparr> else k)"
  have "api_keys s' = map h (map g (api_keys s))"
    using assms unfolding backfill_admin_key_accounts_def ledger_run Let_def upd_where_def g_def h_def
    by (clarsimp split: if_splits)
  moreover have "h (g k) = (if ak_account k \<noteq> None then k else
      k\<lparr>ak_account := (case owner_account s k of None \<Rightarrow> Some admin | a \<Rightarrow> a)\<rparr>)" for k
    by (cases "ak_account k"; cases "owner_account s k") (simp_all add: g_def h_def)
  ultimately show ?thesis by simp
qed

lemma backfill_users_keep_keys:
  assumes "backfill_users fs now us n s = (Inr (), s')" "k \<in> set (api_keys s)" "ak_account k \<noteq> None"
  shows "k \<in> set (api_keys s')"
  using assms
proof (induction us arbitrary: n s)
  case (Cons v us)
  obtain s1 where s1: "backfill_user (fs n) now v s = (Inr (), s1)" "backfill_users fs now us (n + 1) s1 = (Inr (), s')"
    using Cons.prems(1) by (auto simp: bindp_Inr)
  have "k \<in> set (api_keys s1)" using backfill_user_Inr(2) [OF s1(1)] Cons.prems(2,3)
    upd_where_memI [of k "api_keys s" "\<lambda>k. ak_user k = Some (us_id v) \<and> ak_account k = None"] by auto
  then show ?case by (rule Cons.IH [OF s1(2) _ Cons.prems(3)])
qed (simp add: retp_def)

text \<open>
  After a successful start-up no API key escapes metering. The three start-up steps, user
  accounts, the admin service account, then the keys, leave every user and every key with an
  account; a key that had one keeps it, and a key without one goes to its owner's account, or
  to the admin service account when it has no owner.
\<close>
theorem startup_backfill_complete:
  assumes "backfill_accounts f fs now s = (Inr (), s1)"
    and "backfill_admin_key_accounts g admin s1 = (Inr n, s2)"
  shows "(\<forall>u \<in> set (users s1). us_account u \<noteq> None) \<and>
    (\<forall>k \<in> set (api_keys s2). ak_account k \<noteq> None) \<and>
    (\<forall>k \<in> set (api_keys s). ak_account k \<noteq> None \<longrightarrow> k \<in> set (api_keys s2)) \<and>
    (\<forall>k \<in> set (api_keys s1). ak_account k = None \<longrightarrow>
       k\<lparr>ak_account := (case owner_account s1 k of None \<Rightarrow> Some admin | a \<Rightarrow> a)\<rparr> \<in> set (api_keys s2))"
proof -
  have b: "backfill_users fs now (filter (\<lambda>u. us_account u = None) (users s)) 0 s = (Inr (), s1)"
    using assms(1) by (simp add: backfill_accounts_def ledger_run)
  have "\<forall>u \<in> set (users s1). us_account u \<noteq> None" by (rule backfill_users_all [OF b]) auto
  moreover have "k \<in> set (api_keys s2)" if "k \<in> set (api_keys s1)" "ak_account k \<noteq> None" for k
    using that backfill_admin_keys_Inr [OF assms(2)] by (auto intro!: image_eqI [of _ _ k])
  moreover have "ak_account k \<noteq> None" if k: "k \<in> set (api_keys s2)" for k
  proof -
    obtain k0 where "k = (if ak_account k0 \<noteq> None then k0 else
      k0\<lparr>ak_account := (case owner_account s1 k0 of None \<Rightarrow> Some admin | a \<Rightarrow> a)\<rparr>)"
      using k backfill_admin_keys_Inr [OF assms(2)] by (simp only: set_map) blast
    then show ?thesis by (cases "ak_account k0"; cases "owner_account s1 k0") simp_all
  qed
  moreover have "k\<lparr>ak_account := (case owner_account s1 k of None \<Rightarrow> Some admin | a \<Rightarrow> a)\<rparr> \<in> set (api_keys s2)"
    if "k \<in> set (api_keys s1)" "ak_account k = None" for k
    using that backfill_admin_keys_Inr [OF assms(2)] by (auto intro!: image_eqI [of _ _ k])
  ultimately show ?thesis using backfill_users_keep_keys [OF b] by blast
qed


section \<open>Concrete runs\<close>

text \<open>A token worth 5 credits and two uses; a user and a key from before accounts existed.\<close>

definition token_db :: db where
  "token_db = empty_db\<lparr>tokens := [\<lparr>rt_id = 1, rt_hash = ''t'', rt_grant = 5000000, rt_max_uses = 2, rt_uses = 0,
     rt_expires = None, rt_revoked = False\<rparr>], next_token := 2\<rparr>"

lemma platform_inv_empty: "balances s = Map.empty \<Longrightarrow> holds s = [] \<Longrightarrow> transactions s = [] \<Longrightarrow> accounts s = [] \<Longrightarrow> platform_inv s"
  by (simp add: platform_inv_def ledger_inv_def holds_wf_def trail_inv_def accounts_wf_def)

lemma token_db_ok: "platform_inv token_db" "tokens_inv token_db"
  by (simp_all add: platform_inv_empty tokens_inv_def token_db_def empty_db_def registrations_def dec_ok_def)

theorem registration_token_bounded_witness:
  "registrations 1 (fold run_token_op [(no_faults, 7, Register ''t'' ''svc'' ''h1'' ''p'' 60), (no_faults, 8, Register ''t'' ''svc'' ''h2'' ''p'' 60),
     (no_faults, 9, Register ''t'' ''svc'' ''h3'' ''p'' 60)] token_db) = 2"
proof -
  define ops :: "(faults \<times> gotime \<times> token_op) list" where "ops = [(no_faults, 7, Register ''t'' ''svc'' ''h1'' ''p'' 60), (no_faults, 8, Register ''t'' ''svc'' ''h2'' ''p'' 60),
     (no_faults, 9, Register ''t'' ''svc'' ''h3'' ''p'' 60)]"
  define t where "t = \<lparr>rt_id = 1, rt_hash = ''t'', rt_grant = 5000000, rt_max_uses = 2, rt_uses = 2,
     rt_expires = None, rt_revoked = False\<rparr>"
  have "tokens (fold run_token_op ops token_db) = [t]" unfolding ops_def t_def by code_simp
  then show ?thesis using registration_token_bounded [OF token_db_ok, of t ops] by (simp add: t_def ops_def)
qed

theorem service_account_registration_witness:
  "fst (register_service_account no_faults 7 ''t'' ''svc'' ''h1'' ''p'' 60 token_db) = Inr (1, 1, 5) \<and>
   balances (snd (register_service_account no_faults 7 ''t'' ''svc'' ''h1'' ''p'' 60 token_db)) 1 =
     Some \<lparr>cb_balance = 5000000, cb_reserved = 0, cb_period = None\<rparr>"
proof
  define r where "r = register_service_account no_faults 7 ''t'' ''svc'' ''h1'' ''p'' 60 token_db"
  have f: "fst r = Inr (1, 1, 5)" unfolding r_def by code_simp
  then show "fst (register_service_account no_faults 7 ''t'' ''svc'' ''h1'' ''p'' 60 token_db) = Inr (1, 1, 5)"
    by (simp add: r_def)
  obtain s' where s': "r = (Inr (1, 1, 5), s')" using f by (metis prod.collapse)
  have "balances s' 1 = Some \<lparr>cb_balance = 5000000, cb_reserved = 0, cb_period = None\<rparr>"
    using service_account_registration [OF token_db_ok, where f = no_faults and now = 7 and hash = "''t''" and name = "''svc''" and
        kh = "''h1''" and kp = "''p''" and rl = 60, folded r_def, unfolded s']
    by (auto simp: token_db_def zero_balance_def)
  then show "balances (snd (register_service_account no_faults 7 ''t'' ''svc'' ''h1'' ''p'' 60 token_db)) 1 =
     Some \<lparr>cb_balance = 5000000, cb_reserved = 0, cb_period = None\<rparr>"
    by (simp add: r_def [symmetric] s')
qed

theorem admin_service_account_once_witness:
  "find_admin_service (snd (ensure_admin_service_account no_faults 7 (\<lambda>s. s) 100 token_db)) = Some 1"
proof -
  define r where "r = ensure_admin_service_account no_faults 7 (\<lambda>s. s) 100 token_db"
  have "fst r = Inr 1" unfolding r_def by code_simp
  then obtain s' where s': "r = (Inr 1, s')" by (metis prod.collapse)
  show ?thesis using admin_service_account_once [OF s' [unfolded r_def]] token_db_ok(1) s' by (simp add: r_def)
qed

definition legacy_db :: db where
  "legacy_db = empty_db\<lparr>users := [demo_user 1 ''a'' ''user''], next_user := 2,
     api_keys := [demo_key 1 ''h1'', (demo_key 2 ''h2'')\<lparr>ak_user := Some 1\<rparr>], next_key := 3\<rparr>"

theorem startup_backfill_complete_witness:
  "map ak_account (api_keys (snd (backfill_admin_key_accounts no_faults 2
     (snd (ensure_admin_service_account no_faults 7 (\<lambda>s. s) 100 (snd (backfill_accounts no_faults (\<lambda>n. no_faults) 7 legacy_db))))))) =
     [Some 2, Some 1] \<and>
   (\<forall>k \<in> set (api_keys (snd (backfill_admin_key_accounts no_faults 1 (snd (backfill_accounts no_faults (\<lambda>n. no_faults) 7 legacy_db))))). ak_account k \<noteq> None)"
proof
  show "map ak_account (api_keys (snd (backfill_admin_key_accounts no_faults 2
     (snd (ensure_admin_service_account no_faults 7 (\<lambda>s. s) 100 (snd (backfill_accounts no_faults (\<lambda>n. no_faults) 7 legacy_db))))))) =
     [Some 2, Some 1]" by code_simp
  define r where "r = backfill_accounts no_faults (\<lambda>n. no_faults) 7 legacy_db"
  define q where "q = backfill_admin_key_accounts no_faults 1 (snd r)"
  have "fst r = Inr ()" unfolding r_def by code_simp
  then have r: "r = (Inr (), snd r)" by (metis prod.collapse)
  have "fst q = Inr 1" unfolding q_def r_def by code_simp
  then have q: "q = (Inr 1, snd q)" by (metis prod.collapse)
  from startup_backfill_complete [OF r [unfolded r_def] q [unfolded q_def r_def]]
  show "\<forall>k \<in> set (api_keys (snd (backfill_admin_key_accounts no_faults 1 (snd (backfill_accounts no_faults (\<lambda>n. no_faults) 7 legacy_db))))). ak_account k \<noteq> None"
    by blast
qed

end
