(* ===== verification/Federated.thy ===== *)
theory Federated
  imports Accounts
begin

text \<open>
  End-user accounts (internal/store/federated.go): the mapping from a forwarded identity to its
  account, with first-sight provisioning and the monthly allowance. The calls of one request
  are separate transactions, so other processes may commit between them: \<open>env i\<close> is what they
  do in the i-th gap, and \<open>f i\<close> the fault plan of the i-th call.
\<close>

section \<open>Operations\<close>

record federated_identity =
  fid_source :: string
  fid_external :: string
  fid_email :: string
  fid_display :: string

definition account_name :: "federated_identity \<Rightarrow> string" where
  "account_name i = (if fid_email i \<noteq> [] then fid_email i else if fid_display i \<noteq> [] then fid_display i
     else fid_source i @ '':'' @ fid_external i)"

definition same_identity :: "federated_identity \<Rightarrow> federated_row \<Rightarrow> bool" where
  "same_identity i r \<longleftrightarrow> fi_source r = fid_source i \<and> fi_external r = fid_external i"

text \<open>lookupFederatedAccount: 0 when the identity is unknown, as the code has it.\<close>

definition lookup_federated_account :: "faults \<Rightarrow> federated_identity \<Rightarrow> int store_prog" where
  "lookup_federated_account f i = sql f 0 (\<lambda>s. case find (same_identity i) (identities s) of
       None \<Rightarrow> (Inr 0, s)
     | Some r \<Rightarrow> (Inr (fi_account r), s\<lparr>identities := upd_where (same_identity i)
         (\<lambda>r. r\<lparr>fi_email := fid_email i, fi_display := fid_display i\<rparr>) (identities s)\<rparr>))"

text \<open>The provisioning transaction; None when the identity INSERT met a conflict.\<close>

definition provision_tx :: "faults \<Rightarrow> gotime \<Rightarrow> federated_identity \<Rightarrow> int option store_prog" where
  "provision_tx f now i =
     bindp (sql_begin f 0) (\<lambda>_.
     bindp (sql f 1 (new_account (account_name i) ''end_user'' now True)) (\<lambda>acc.
     bindp (sql f 2 (insert_balance False acc 0)) (\<lambda>_.
     bindp (sql f 3 (\<lambda>s. if find (same_identity i) (identities s) \<noteq> None then (Inr False, s)
       else (Inr True, s\<lparr>identities := identities s @ [\<lparr>fi_source = fid_source i, fi_external = fid_external i,
         fi_account = acc, fi_email = fid_email i, fi_display = fid_display i\<rparr>]\<rparr>))) (\<lambda>won.
     if \<not> won then retp None else
     bindp (sql f 4 (modp (add_reg_event ''user'' (Some acc) None None ''trusted_header''))) (\<lambda>_.
     bindp (sql_begin f 5) (\<lambda>_. retp (Some acc)))))))"

definition provision_federated_account ::
  "faults \<Rightarrow> gotime \<Rightarrow> (db \<Rightarrow> db) \<Rightarrow> federated_identity \<Rightarrow> (int \<times> bool) store_prog" where
  "provision_federated_account f now env i = (\<lambda>s. case provision_tx f now i s of
       (Inl e, s') \<Rightarrow> (Inl e, s)
     | (Inr (Some acc), s') \<Rightarrow> (Inr (acc, True), s')
     | (Inr None, s') \<Rightarrow>
         if f 6 then (Inl SqlFault, s) else
         bindp (lookup_federated_account (\<lambda>k. f (k + 7)) i)
           (\<lambda>winner. if winner = 0 then failp IdentityVanished else retp (winner, False)) (env s))"

definition effective_grant :: "rat \<Rightarrow> account \<Rightarrow> rat" where
  "effective_grant dflt ac = (case ac_monthly_grant ac of None \<Rightarrow> dflt | Some m \<Rightarrow> f_of_micros m)"

definition allowance_due :: "day \<Rightarrow> credit_balance \<Rightarrow> bool" where
  "allowance_due month cb \<longleftrightarrow> (case cb_period cb of None \<Rightarrow> True | Some p \<Rightarrow> p < month)"

text \<open>The guarded UPDATE and its audit row; False when no row was due.\<close>

definition allowance_tx :: "faults \<Rightarrow> int \<Rightarrow> rat \<Rightarrow> day \<Rightarrow> bool store_prog" where
  "allowance_tx f acc grant month = transact (
     bindp (sql_begin f 1) (\<lambda>_.
     bindp (sql f 2 (getp (\<lambda>s. balances s acc))) (\<lambda>row.
     case row of None \<Rightarrow> retp False | Some cb \<Rightarrow>
     if \<not> allowance_due month cb then retp False else
     bindp (dec_col grant) (\<lambda>b.
     bindp (modp (set_balance acc (cb\<lparr>cb_balance := b, cb_period := Some month\<rparr>))) (\<lambda>_.
     bindp (sql f 3 (modp (add_transaction \<lparr>ct_account = acc, ct_amount = b, ct_after = b,
              ct_type = ''monthly_allowance'', ct_ref = None\<rparr>))) (\<lambda>_.
     bindp (sql_begin f 4) (\<lambda>_. retp True)))))))"

definition apply_monthly_allowance ::
  "faults \<Rightarrow> (db \<Rightarrow> db) \<Rightarrow> int \<Rightarrow> rat \<Rightarrow> gotime \<Rightarrow> (bool \<times> int option) store_prog" where
  "apply_monthly_allowance f env acc dflt now =
     bindp (sql f 0 (getp (\<lambda>s. row_of ac_id acc (accounts s)))) (\<lambda>row.
     case row of None \<Rightarrow> failp AccountNotFound | Some ac \<Rightarrow>
     if \<not> ac_managed ac then retp (False, ac_rate_per_min ac) else
     bindp (modp env) (\<lambda>_.
     bindp (allowance_tx f acc (effective_grant dflt ac) (month_start now)) (\<lambda>granted.
     retp (granted, ac_rate_per_min ac))))"

record end_user_resolution =
  eu_account :: int
  eu_provisioned :: bool
  eu_granted :: bool
  eu_rate :: "int option"

definition resolve_end_user_account ::
  "(nat \<Rightarrow> faults) \<Rightarrow> (nat \<Rightarrow> db \<Rightarrow> db) \<Rightarrow> federated_identity \<Rightarrow> rat \<Rightarrow> gotime \<Rightarrow> end_user_resolution store_prog" where
  "resolve_end_user_account f env i dflt now =
     bindp (lookup_federated_account (f 0) i) (\<lambda>found.
     bindp (modp (env 0)) (\<lambda>_.
     bindp (if found = 0 then provision_federated_account (f 1) now (env 1) i else retp (found, False)) (\<lambda>(acc, prov).
     bindp (modp (env 2)) (\<lambda>_.
     bindp (apply_monthly_allowance (f 2) (env 3) acc dflt now) (\<lambda>(granted, rate).
     retp \<lparr>eu_account = acc, eu_provisioned = prov, eu_granted = granted, eu_rate = rate\<rparr>)))))"

section \<open>The monthly allowance\<close>

lemma allowance_tx_Inr:
  assumes "allowance_tx f acc grant month s = (Inr g, s')"
  shows "(if g then \<exists>cb. balances s acc = Some cb \<and> allowance_due month cb \<and> dec_ok (dec6 grant) \<and>
            s' = add_transaction \<lparr>ct_account = acc, ct_amount = dec6 grant, ct_after = dec6 grant,
                   ct_type = ''monthly_allowance'', ct_ref = None\<rparr>
                 (set_balance acc (cb\<lparr>cb_balance := dec6 grant, cb_period := Some month\<rparr>) s)
          else s' = s \<and> (\<forall>cb. balances s acc = Some cb \<longrightarrow> \<not> allowance_due month cb))"
  using assms by (auto simp: allowance_tx_def ledger_run split: option.splits if_splits)

lemma allowance_tx_Inl: "allowance_tx f acc grant month s = (Inl e, s') \<Longrightarrow> s' = s"
  by (simp add: allowance_tx_def transact_Inl)

lemma allowance_tx_cases:
  obtains (same) "snd (allowance_tx f acc grant month s) = s" "\<forall>s'. allowance_tx f acc grant month s \<noteq> (Inr True, s')"
  | (granted) cb where "balances s acc = Some cb" "allowance_due month cb" "dec_ok (dec6 grant)"
      "allowance_tx f acc grant month s = (Inr True, add_transaction \<lparr>ct_account = acc, ct_amount = dec6 grant,
          ct_after = dec6 grant, ct_type = ''monthly_allowance'', ct_ref = None\<rparr>
        (set_balance acc (cb\<lparr>cb_balance := dec6 grant, cb_period := Some month\<rparr>) s))"
proof (cases "allowance_tx f acc grant month s")
  case (Pair r s')
  show thesis
  proof (cases r)
    case (Inl e)
    then show thesis using same allowance_tx_Inl Pair by simp
  next
    case (Inr g)
    then show thesis using same granted allowance_tx_Inr [of f acc grant month s g s'] Pair by (cases g) auto
  qed
qed

lemma ledger_inv_row:
  assumes "ledger_inv s" "balances s a = Some cb" "cb_reserved cb' = cb_reserved cb" "dec_ok (cb_balance cb')"
    and "holds s' = holds s" "next_hold s' = next_hold s" "balances s' = (balances s)(a \<mapsto> cb')"
  shows "ledger_inv s'"
  using assms holds_wf_frame [of s' s] by (fastforce simp: ledger_inv_def)

lemma allowance_tx_platform:
  assumes "platform_inv s" shows "platform_inv (snd (allowance_tx f acc grant month s))"
proof (cases rule: allowance_tx_cases [of f acc grant month s])
  case same then show ?thesis using assms by simp
next
  case (granted cb)
  let ?s' = "snd (allowance_tx f acc grant month s)"
  have l: "ledger_inv s" "trail_inv s" "accounts_wf s" using assms by (simp_all add: platform_inv_def)
  have "ledger_inv ?s'" by (rule ledger_inv_row [OF l(1) granted(1), where cb' = "cb\<lparr>cb_balance := dec6 grant, cb_period := Some month\<rparr>"])
      (simp_all add: granted(3,4))
  moreover have "trail_inv ?s'" unfolding granted(4) by (rule trail_inv_step [OF l(2)]) auto
  moreover have "accounts_wf ?s'" using l(3) granted(1) unfolding granted(4) accounts_wf_def by auto
  ultimately show ?thesis by (simp add: platform_inv_def)
qed

text \<open>
  The allowance is a monthly cap, not a top-up. When the guarded update goes through, the
  account's balance is exactly the grant, whatever was left over or overspent before, its open
  holds and reserved amount are untouched, one monthly_allowance transaction with that balance
  is appended, and no other account changes; otherwise the database is as it was. From then on
  nothing is granted for that month or an earlier one.
\<close>
theorem allowance_resets_balance:
  assumes "allowance_tx f acc grant month s = (r, s')"
  shows "if r = Inr True
    then (\<exists>cb. balances s acc = Some cb \<and> (\<forall>p. cb_period cb = Some p \<longrightarrow> p < month) \<and>
            balances s' = (balances s)(acc \<mapsto> cb\<lparr>cb_balance := dec6 grant, cb_period := Some month\<rparr>)) \<and>
         holds s' = holds s \<and>
         (\<exists>t. transactions s' = transactions s @ [t] \<and> ct_account t = acc \<and> ct_type t = ''monthly_allowance'' \<and>
            ct_amount t = dec6 grant \<and> ct_after t = dec6 grant) \<and>
         (\<forall>f' g' m. m \<le> month \<longrightarrow> snd (allowance_tx f' acc g' m s') = s')
    else s' = s"
proof (cases rule: allowance_tx_cases [of f acc grant month s])
  case same
  then show ?thesis using assms by auto
next
  case (granted cb)
  then have r: "r = Inr True" and s': "s' = add_transaction \<lparr>ct_account = acc, ct_amount = dec6 grant,
          ct_after = dec6 grant, ct_type = ''monthly_allowance'', ct_ref = None\<rparr>
        (set_balance acc (cb\<lparr>cb_balance := dec6 grant, cb_period := Some month\<rparr>) s)"
    using assms by simp_all
  have "snd (allowance_tx f' acc g' m s') = s'" if "m \<le> month" for f' g' m
    using that by (cases rule: allowance_tx_cases [of f' acc g' m s']) (auto simp: s' allowance_due_def)
  then show ?thesis using granted(1,2) r by (auto simp: s' allowance_due_def split: option.splits)
qed


section \<open>At most one grant a month\<close>

definition month_grants :: "int \<Rightarrow> db \<Rightarrow> nat" where
  "month_grants a s = length (filter (\<lambda>t. ct_account t = a \<and> ct_type t = ''monthly_allowance'') (transactions s))"

text \<open>What any other step of the system does to the allowance of an account: nothing.\<close>

definition allowance_frame :: "int \<Rightarrow> db \<Rightarrow> db \<Rightarrow> bool" where
  "allowance_frame a s s' \<longleftrightarrow> month_grants a s' = month_grants a s \<and>
     map_option cb_period (balances s' a) = map_option cb_period (balances s a)"

text \<open>
  A run of the system as account a sees it: allowance transactions, at the given months and
  with any grants, between arbitrary other steps. The months are collected.
\<close>

inductive allowance_run :: "int \<Rightarrow> db \<Rightarrow> day list \<Rightarrow> db \<Rightarrow> bool" for a where
  run_nil: "allowance_run a s [] s"
| run_allowance: "allowance_run a s ms s' \<Longrightarrow> allowance_run a s (ms @ [m]) (snd (allowance_tx f a grant m s'))"
| run_other: "allowance_run a s ms s' \<Longrightarrow> allowance_frame a s' s'' \<Longrightarrow> allowance_run a s ms s''"

definition period_of :: "int \<Rightarrow> db \<Rightarrow> day option" where
  "period_of a s = (case balances s a of None \<Rightarrow> None | Some cb \<Rightarrow> cb_period cb)"

definition later_than :: "day option \<Rightarrow> day \<Rightarrow> bool" where
  "later_than p m \<longleftrightarrow> (case p of None \<Rightarrow> True | Some q \<Rightarrow> q < m)"

text \<open>
  The grants so far went to different months of the run, each later than the starting period
  and none later than the current one.
\<close>

lemma allowance_run_months:
  assumes "allowance_run a s ms s'"
  shows "\<exists>gs. distinct gs \<and> set gs \<subseteq> {m \<in> set ms. later_than (period_of a s) m} \<and>
    month_grants a s' = month_grants a s + length gs \<and>
    (\<forall>m \<in> set gs. \<exists>p. period_of a s' = Some p \<and> m \<le> p) \<and>
    (\<forall>m. later_than (period_of a s') m \<longrightarrow> later_than (period_of a s) m)"
  using assms
proof induction
  case run_nil
  then show ?case by (intro exI [of _ "[]"]) simp
next
  case (run_allowance s ms s' m f grant)
  then obtain gs where gs: "distinct gs" "set gs \<subseteq> {m \<in> set ms. later_than (period_of a s) m}"
    "month_grants a s' = month_grants a s + length gs" "\<forall>m \<in> set gs. \<exists>p. period_of a s' = Some p \<and> m \<le> p"
    "\<forall>m. later_than (period_of a s') m \<longrightarrow> later_than (period_of a s) m" by blast
  show ?case
  proof (cases rule: allowance_tx_cases [of f a grant m s'])
    case same
    then show ?thesis using gs by (intro exI [of _ gs]) auto
  next
    case (granted cb)
    have due: "later_than (period_of a s') m" using granted(1,2) by (simp add: allowance_due_def later_than_def period_of_def)
    have fresh: "m \<notin> set gs" using gs(4) due by (auto simp: later_than_def)
    have le: "\<forall>x \<in> set gs. x \<le> m" using gs(4) due by (auto simp: later_than_def)
    let ?t = "snd (allowance_tx f a grant m s')"
    have p: "period_of a ?t = Some m" by (simp add: granted(4) period_of_def)
    have g: "month_grants a ?t = month_grants a s' + 1" by (simp add: granted(4) month_grants_def)
    have later: "\<forall>x. later_than (Some m) x \<longrightarrow> later_than (period_of a s') x"
      using due by (auto simp: later_than_def split: option.splits)
    show ?thesis using gs fresh le due later by (intro exI [of _ "gs @ [m]"]) (auto simp: p g)
  qed
next
  case (run_other s ms s' s'')
  have "period_of a s'' = period_of a s'" "month_grants a s'' = month_grants a s'"
    using run_other.hyps(2) by (auto simp: allowance_frame_def period_of_def split: option.splits)
  then show ?case using run_other.IH by simp
qed

lemma allowance_run_bound:
  assumes "allowance_run a s ms s'"
  shows "month_grants a s' \<le> month_grants a s + card {m \<in> set ms. later_than (period_of a s) m}"
proof -
  obtain gs where "distinct gs" "set gs \<subseteq> {m \<in> set ms. later_than (period_of a s) m}"
    "month_grants a s' = month_grants a s + length gs"
    using allowance_run_months [OF assms] by blast
  moreover have "length gs = card (set gs)" using calculation(1) by (simp add: distinct_card)
  ultimately show ?thesis by (simp add: card_mono)
qed

text \<open>The ledger operations are such other steps.\<close>

lemma frame_refl: "allowance_frame a s s"
  by (simp add: allowance_frame_def)

lemma frame_transact:
  assumes "\<And>x s'. transact m s = (Inr x, s') \<Longrightarrow> allowance_frame a s s'"
  shows "allowance_frame a s (snd (transact m s))"
proof (cases "transact m s")
  case (Pair r s')
  then show ?thesis using assms transact_Inl [of m s] by (cases r) (auto simp: frame_refl)
qed

lemma frame_row:
  assumes "balances s c = Some cb" "cb_period cb' = cb_period cb" "balances s' = (balances s)(c \<mapsto> cb')"
    and "transactions s' = transactions s \<or> (\<exists>t. transactions s' = transactions s @ [t] \<and> ct_type t \<noteq> ''monthly_allowance'')"
  shows "allowance_frame a s s'"
  using assms by (auto simp: allowance_frame_def month_grants_def)

lemma close_hold_frame:
  "close_hold h st now s = (Inr (Some x), s') \<Longrightarrow> balances s' = balances s \<and> transactions s' = transactions s"
  using close_hold_Some(4) by fastforce

lemma ledger_frames:
  "allowance_frame a s (snd (add_credits f b x s))"
  "allowance_frame a s (snd (reserve_credits f now b x s))"
  "allowance_frame a s (snd (settle_hold f now h x s))"
  "allowance_frame a s (snd (release_hold f now h s))"
proof -
  show "allowance_frame a s (snd (add_credits f b x s))"
    unfolding add_credits_def
    by (rule frame_transact, fold add_credits_def, erule add_credits_Inr) (erule frame_row, auto)
  show "allowance_frame a s (snd (reserve_credits f now b x s))"
    unfolding reserve_credits_def
    by (rule frame_transact, fold reserve_credits_def, erule reserve_credits_Inr) (erule frame_row, auto)
  show "allowance_frame a s (snd (settle_hold f now h x s))"
    unfolding settle_hold_def
  proof (rule frame_transact, fold settle_hold_def)
    fix r s' assume "settle_hold f now h x s = (Inr r, s')"
    then show "allowance_frame a s s'"
    proof (cases rule: settle_hold_Inr)
      case (2 hd s1 cb)
      then show ?thesis using close_hold_frame [OF 2(2)] by (intro frame_row [OF 2(3)]) auto
    qed (simp add: frame_refl)
  qed
  show "allowance_frame a s (snd (release_hold f now h s))"
    unfolding release_hold_def
  proof (rule frame_transact, fold release_hold_def)
    fix r s' assume "release_hold f now h s = (Inr r, s')"
    then show "allowance_frame a s s'"
    proof (cases rule: release_hold_Inr)
      case (2 hd s1)
      then show ?thesis using close_hold_frame [OF 2(1)] by (simp add: allowance_frame_def month_grants_def)
    next
      case (3 hd s1 cb)
      then show ?thesis using close_hold_frame [OF 3(1)] by (intro frame_row [OF 3(2)]) auto
    qed (simp add: frame_refl)
  qed
qed

text \<open>
  C18: Each account is granted at most once per UTC month. In any run that interleaves allowance
  transactions of an account, at whatever times and however many requests race, with other
  steps that leave its allowance period alone (the ledger operations all do), the number of
  monthly_allowance transactions grows by at most the number of distinct months seen that are
  later than the period the account started with.
\<close>
theorem allowance_once_per_month:
  assumes "allowance_run a s (map month_start ts) s'"
  shows "month_grants a s' \<le> month_grants a s + card {m \<in> month_start ` set ts. later_than (period_of a s) m} \<and>
    allowance_frame a s (snd (add_credits f b x s)) \<and> allowance_frame a s (snd (reserve_credits f now b x s)) \<and>
    allowance_frame a s (snd (settle_hold f now h x s)) \<and> allowance_frame a s (snd (release_hold f now h s))"
  using allowance_run_bound [OF assms] ledger_frames by simp


section \<open>One account per identity\<close>

definition identity_account :: "federated_identity \<Rightarrow> db \<Rightarrow> int option" where
  "identity_account i s = map_option fi_account (find (same_identity i) (identities s))"

definition end_user_accounts :: "db \<Rightarrow> int list" where
  "end_user_accounts s = map ac_id (filter (\<lambda>a. ac_type a = ''end_user'') (accounts s))"

text \<open>
  Identities are unique, and the end-user accounts are exactly theirs, one each, in the order
  they were created: no orphan account is left by a lost race.
\<close>

definition federated_inv :: "db \<Rightarrow> bool" where
  "federated_inv s \<longleftrightarrow> platform_inv s \<and> 0 < next_account s \<and>
     distinct (map (\<lambda>r. (fi_source r, fi_external r)) (identities s)) \<and>
     end_user_accounts s = map fi_account (identities s) \<and>
     (\<forall>r \<in> set (identities s). 0 < fi_account r)"

text \<open>What a concurrent step may do: keep the invariant and every mapping already made.\<close>

definition identity_step :: "(db \<Rightarrow> db) \<Rightarrow> bool" where
  "identity_step e \<longleftrightarrow> (\<forall>s. federated_inv s \<longrightarrow> federated_inv (e s) \<and>
     (\<forall>i a. identity_account i s = Some a \<longrightarrow> identity_account i (e s) = Some a))"

definition identity_le :: "db \<Rightarrow> db \<Rightarrow> bool" where
  "identity_le s s' \<longleftrightarrow> (federated_inv s \<longrightarrow> federated_inv s' \<and>
     (\<forall>i a. identity_account i s = Some a \<longrightarrow> identity_account i s' = Some a))"

lemma identity_le_refl [simp]: "identity_le s s"
  by (simp add: identity_le_def)

lemma identity_le_trans: "identity_le s t \<Longrightarrow> identity_le t u \<Longrightarrow> identity_le s u"
  by (auto simp: identity_le_def)

lemma identity_stepD: "identity_step e \<Longrightarrow> identity_le s (e s)"
  by (simp add: identity_step_def identity_le_def)

lemma identity_stepI: "(\<And>s. identity_le s (e s)) \<Longrightarrow> identity_step e"
  by (simp add: identity_step_def identity_le_def)

lemma find_upd_where:
  assumes "\<And>r. q (g r) = q r" "\<And>r. h (g r) = h r"
  shows "map_option h (find q (upd_where p g rs)) = map_option h (find q rs)"
  by (induction rs) (auto simp: upd_where_def assms)

lemma lookup_le: "identity_le s (snd (lookup_federated_account f i s))"
proof (cases "f 0 \<or> find (same_identity i) (identities s) = None")
  case False
  let ?g = "\<lambda>r. r\<lparr>fi_email := fid_email i, fi_display := fid_display i\<rparr>"
  let ?s' = "s\<lparr>identities := upd_where (same_identity i) ?g (identities s)\<rparr>"
  have e: "snd (lookup_federated_account f i s) = ?s'"
    using False by (auto simp: lookup_federated_account_def sql_def stmt_def)
  have a: "identity_account j ?s' = identity_account j s" for j
    by (simp add: identity_account_def find_upd_where same_identity_def)
  have "map (\<lambda>r. (fi_source r, fi_external r)) (identities ?s') = map (\<lambda>r. (fi_source r, fi_external r)) (identities s)"
    "map fi_account (identities ?s') = map fi_account (identities s)"
    by simp_all
  moreover have "\<forall>r \<in> set (identities ?s'). 0 < fi_account r" if "\<forall>r \<in> set (identities s). 0 < fi_account r"
    using that by (auto simp: set_upd_where)
  moreover have "platform_inv ?s'" if "platform_inv s"
    by (rule platform_same [OF that]) (simp_all add: same_money_def)
  ultimately have "federated_inv ?s'" if "federated_inv s"
    using that by (simp add: federated_inv_def end_user_accounts_def)
  then show ?thesis unfolding e identity_le_def a by blast
qed (auto simp: lookup_federated_account_def sql_def stmt_def)

lemma lookup_result:
  assumes "lookup_federated_account f i s = (Inr a, s')" "federated_inv s"
  shows "(if a = 0 then identity_account i s = None else identity_account i s = Some a) \<and> identity_account i s' = identity_account i s"
proof (cases "find (same_identity i) (identities s)")
  case None
  then show ?thesis using assms(1) by (simp add: lookup_federated_account_def sql_def stmt_def identity_account_def split: if_splits)
next
  case (Some r)
  then have "0 < fi_account r" using assms(2) by (auto simp: federated_inv_def find_Some_iff)
  moreover have "s' = s\<lparr>identities := upd_where (same_identity i)
      (\<lambda>r. r\<lparr>fi_email := fid_email i, fi_display := fid_display i\<rparr>) (identities s)\<rparr>" "a = fi_account r"
    using Some assms(1) by (simp_all add: lookup_federated_account_def sql_def stmt_def split: if_splits)
  ultimately show ?thesis using Some
    by (auto simp: identity_account_def find_upd_where same_identity_def)
qed

definition fresh_identity :: "db \<Rightarrow> federated_identity \<Rightarrow> gotime \<Rightarrow> db" where
  "fresh_identity s i now = add_reg_event ''user'' (Some (next_account s)) None None ''trusted_header''
     ((set_balance (next_account s) zero_balance (s\<lparr>accounts := accounts s @ [(fresh_account s (account_name i) ''end_user'' now)\<lparr>ac_managed := True\<rparr>],
         next_account := next_account s + 1\<rparr>))
      \<lparr>identities := identities s @ [\<lparr>fi_source = fid_source i, fi_external = fid_external i,
         fi_account = next_account s, fi_email = fid_email i, fi_display = fid_display i\<rparr>]\<rparr>)"

lemma provision_tx_Inr:
  assumes "accounts_wf s" "provision_tx f now i s = (Inr r, s')"
  shows "case r of None \<Rightarrow> find (same_identity i) (identities s) \<noteq> None
     | Some a \<Rightarrow> find (same_identity i) (identities s) = None \<and> a = next_account s \<and> s' = fresh_identity s i now"
  using assms(2) no_next_balance [OF assms(1)] no_next_account [OF assms(1)]
  by (auto simp: provision_tx_def account_run fresh_identity_def fresh_account_def zero_balance_def set_balance_def split: if_splits)

lemma fresh_identity_le:
  assumes n: "find (same_identity i) (identities s) = None"
  shows "identity_le s (fresh_identity s i now)" "identity_account i (fresh_identity s i now) = Some (next_account s)"
proof -
  let ?s' = "fresh_identity s i now"
  have ids: "identities ?s' = identities s @ [\<lparr>fi_source = fid_source i, fi_external = fid_external i,
         fi_account = next_account s, fi_email = fid_email i, fi_display = fid_display i\<rparr>]"
    by (simp add: fresh_identity_def add_reg_event_def)
  have fs: "find p (xs @ ys) = (case find p xs of None \<Rightarrow> find p ys | x \<Rightarrow> x)" for p and xs ys :: "federated_row list"
    by (induction xs) auto
  show "identity_account i ?s' = Some (next_account s)"
    using n by (simp add: identity_account_def ids fs same_identity_def)
  have "platform_inv ?s'" if "platform_inv s"
    by (rule platform_new [OF that, where cb = zero_balance and ac = "(fresh_account s (account_name i) ''end_user'' now)\<lparr>ac_managed := True\<rparr>"])
      (simp_all add: fresh_identity_def fresh_account_def zero_balance_def)
  moreover have "(fid_source i, fid_external i) \<notin> (\<lambda>r. (fi_source r, fi_external r)) ` set (identities s)"
    using n by (auto simp: find_None_iff same_identity_def)
  moreover have "end_user_accounts ?s' = end_user_accounts s @ [next_account s]" "next_account ?s' = next_account s + 1"
    by (simp_all add: end_user_accounts_def fresh_identity_def fresh_account_def)
  ultimately have "federated_inv ?s'" if "federated_inv s"
    using that unfolding federated_inv_def ids by auto
  moreover have "identity_account j ?s' = Some a" if "identity_account j s = Some a" for j a
    using that by (auto simp: identity_account_def ids fs)
  ultimately show "identity_le s ?s'" by (simp add: identity_le_def)
qed


lemma provision_le:
  assumes e: "identity_step env"
  shows "identity_le s (snd (provision_federated_account f now env i s))"
    and "federated_inv s \<Longrightarrow> provision_federated_account f now env i s = (Inr (a, b), s') \<Longrightarrow> identity_account i s' = Some a"
proof -
  obtain r s1 where tx: "provision_tx f now i s = (r, s1)" by (cases "provision_tx f now i s")
  have w: "federated_inv s \<Longrightarrow> accounts_wf s" by (simp add: federated_inv_def platform_inv_def)
  let ?l = "lookup_federated_account (\<lambda>k. f (k + 7)) i (env s)"
  have lost: "provision_federated_account f now env i s = (if f 6 then (Inl SqlFault, s) else
      (case ?l of (Inl e, u) \<Rightarrow> (Inl e, u) | (Inr a, u) \<Rightarrow> (if a = 0 then Inl IdentityVanished else Inr (a, False), u)))"
    if "r = Inr None"
    using that by (auto simp: provision_federated_account_def tx bindp_def failp_def retp_def split: prod.splits sum.splits)
  have le_l: "identity_le s (snd ?l)" using identity_le_trans [OF identity_stepD [OF e] lookup_le] .
  have le_fresh: "identity_le s (fresh_identity s i now)" if "r = Inr (Some a)" "federated_inv s" for a
    using provision_tx_Inr [OF w] that tx fresh_identity_le(1) by fastforce
  show "identity_le s (snd (provision_federated_account f now env i s))"
  proof (cases "federated_inv s")
    case fi: True
    consider (err) e where "r = Inl e" | (lost) "r = Inr None" | (won) a where "r = Inr (Some a)"
      by (metis option.exhaust sum.exhaust)
    then show ?thesis
    proof cases
      case err
      then show ?thesis by (simp add: provision_federated_account_def tx)
    next
      case l: lost
      then show ?thesis using le_l by (auto simp: lost split: prod.splits sum.splits)
    next
      case (won a)
      then have "s1 = fresh_identity s i now" using provision_tx_Inr [OF w [OF fi]] tx by fastforce
      then show ?thesis using le_fresh [OF won fi] by (simp add: provision_federated_account_def tx won)
    qed
  qed (simp add: identity_le_def)
  assume fi: "federated_inv s" and p: "provision_federated_account f now env i s = (Inr (a, b), s')"
  show "identity_account i s' = Some a"
  proof (cases "r = Inr None")
    case True
    then have "?l = (Inr a, s')" "a \<noteq> 0" using p lost by (auto split: prod.splits sum.splits if_splits)
    moreover have "federated_inv (env s)" using e fi by (simp add: identity_step_def)
    ultimately show ?thesis using lookup_result [of "\<lambda>k. f (k + 7)" i "env s" a s'] by simp
  next
    case False
    then obtain c where c: "r = Inr (Some c)" "a = c" "s' = s1"
      using p by (auto simp: provision_federated_account_def tx split: sum.splits option.splits)
    then show ?thesis using provision_tx_Inr [OF w [OF fi]] tx fresh_identity_le(2) by fastforce
  qed
qed

lemma allowance_le:
  assumes e: "identity_step env" shows "identity_le s (snd (apply_monthly_allowance f env a dflt now s))"
proof -
  have tx: "identity_le u (snd (allowance_tx f a g m u))" for u g m
  proof -
    let ?u = "snd (allowance_tx f a g m u)"
    have "accounts ?u = accounts u \<and> next_account ?u = next_account u \<and> identities ?u = identities u"
      by (cases rule: allowance_tx_cases [of f a g m u]) (simp_all add: set_balance_def add_transaction_def)
    then show ?thesis using allowance_tx_platform [of u f a g m]
      by (simp add: identity_le_def federated_inv_def identity_account_def end_user_accounts_def)
  qed
  have "snd (apply_monthly_allowance f env a dflt now s) = s \<or>
      (\<exists>g m. snd (apply_monthly_allowance f env a dflt now s) = snd (allowance_tx f a g m (env s)))"
    by (auto simp: apply_monthly_allowance_def bindp_def sql_def stmt_def getp_def failp_def retp_def modp_def
        split: option.splits prod.splits sum.splits) (metis snd_conv)+
  then show ?thesis using identity_le_trans [OF identity_stepD [OF e] tx] by (metis identity_le_refl)
qed

lemma apply_monthly_allowance_state:
  "apply_monthly_allowance f env a dflt now s = (r, s') \<Longrightarrow> identity_step env \<Longrightarrow> identity_le s s'"
  using allowance_le [of env s f a dflt now] by simp


lemma bindp_state:
  "bindp m k s = (r, s') \<Longrightarrow> (\<And>e t. m s = (Inl e, t) \<Longrightarrow> r = Inl e \<Longrightarrow> s' = t \<Longrightarrow> P) \<Longrightarrow>
   (\<And>a t. m s = (Inr a, t) \<Longrightarrow> k a t = (r, s') \<Longrightarrow> P) \<Longrightarrow> P"
  by (auto simp: bindp_def split: prod.splits sum.splits)

lemma resolve_state:
  assumes e: "\<And>n. identity_step (env n)"
    and r: "resolve_end_user_account f env i dflt now s = (r, s')"
  shows "identity_le s s' \<and> (\<forall>x. federated_inv s \<longrightarrow> r = Inr x \<longrightarrow> identity_account i s' = Some (eu_account x))"
proof -
  obtain r0 s0 where l: "lookup_federated_account (f 0) i s = (r0, s0)" by (cases "lookup_federated_account (f 0) i s")
  have le0: "identity_le s s0" using lookup_le [of s "f 0" i] l by simp
  show ?thesis
  proof (cases r0)
    case (Inl err)
    then show ?thesis using r l le0 by (auto simp: resolve_end_user_account_def bindp_def)
  next
    case (Inr found)
    define t where "t = env 0 s0"
    have le1: "identity_le s t" using identity_le_trans [OF le0 identity_stepD [OF e]] by (simp add: t_def)
    define m :: "(int \<times> bool) store_prog" where
      "m = (if found = 0 then provision_federated_account (f 1) now (env 1) i else retp (found, False))"
    obtain r1 s1 where m: "m t = (r1, s1)" by (cases "m t")
    have le2: "identity_le s s1"
    proof (cases "found = 0")
      case True
      then show ?thesis using identity_le_trans [OF le1 provision_le(1) [OF e]] m by (metis m_def snd_conv)
    next
      case False
      then show ?thesis using le1 m by (simp add: m_def retp_def)
    qed
    have r': "bindp m (\<lambda>(acc, prov). bindp (modp (env 2)) (\<lambda>_.
        bindp (apply_monthly_allowance (f 2) (env 3) acc dflt now) (\<lambda>(granted, rate).
        retp \<lparr>eu_account = acc, eu_provisioned = prov, eu_granted = granted, eu_rate = rate\<rparr>))) t = (r, s')"
      using r l Inr by (simp add: resolve_end_user_account_def bindp_def modp_def m_def t_def)
    show ?thesis
    proof (cases r1)
      case (Inl err)
      then show ?thesis using r' m le2 by (auto simp: bindp_def)
    next
      case r1: (Inr ap)
      obtain acc prov where ap: "ap = (acc, prov)" by (cases ap)
      have id1: "identity_account i s1 = Some acc" if fi: "federated_inv s"
      proof (cases "found = 0")
        case True
        have "federated_inv t" using le1 fi by (simp add: identity_le_def)
        then show ?thesis using provision_le(2) [OF e] m r1 ap True by (simp add: m_def)
      next
        case False
        then have "identity_account i s0 = Some found" using lookup_result [OF l [unfolded Inr] fi] by simp
        moreover have "federated_inv s0" using le0 fi by (simp add: identity_le_def)
        ultimately have "identity_account i t = Some found" using identity_stepD [OF e] by (simp add: identity_le_def t_def)
        then show ?thesis using m r1 ap False by (simp add: m_def retp_def)
      qed
      obtain r3 s3 where am: "apply_monthly_allowance (f 2) (env 3) acc dflt now (env 2 s1) = (r3, s3)"
        by (cases "apply_monthly_allowance (f 2) (env 3) acc dflt now (env 2 s1)")
      have le3: "identity_le s1 s3"
        using identity_le_trans [OF identity_stepD [OF e] apply_monthly_allowance_state [OF am e]] .
      have s': "s' = s3" "\<forall>x. r = Inr x \<longrightarrow> eu_account x = acc"
        using r' m r1 ap am by (auto simp: bindp_def modp_def retp_def split: sum.splits prod.splits)
      have "identity_account i s3 = Some acc" if fi: "federated_inv s"
        using id1 [OF fi] le2 le3 fi by (simp add: identity_le_def)
      then show ?thesis using identity_le_trans [OF le2 le3] s' by simp
    qed
  qed
qed

text \<open>
  C35: An identity has one account, whoever sees it first. Resolving a forwarded identity,
  with other processes committing between any two of its transactions and any statement
  failing, keeps the federation invariant (unique identities, exactly one end-user account
  for each, none orphaned, ledger and audit trail consistent) and every mapping already made;
  when it succeeds, the account it returns is the one the identity is mapped to. Such a call
  is itself a step another call tolerates, so two requests racing on an unknown identity
  return the same account.
\<close>
theorem first_sight_race:
  assumes "\<And>n. identity_step (env n)" and "federated_inv s"
    and "resolve_end_user_account f env i dflt now s = (r, s')"
  shows "federated_inv s' \<and> (\<forall>j a. identity_account j s = Some a \<longrightarrow> identity_account j s' = Some a) \<and>
    (\<forall>x. r = Inr x \<longrightarrow> identity_account i s' = Some (eu_account x)) \<and>
    (\<forall>f' i' dflt' now'. identity_step (\<lambda>t. snd (resolve_end_user_account f' env i' dflt' now' t)))"
proof -
  have "identity_step (\<lambda>t. snd (resolve_end_user_account f' env i' dflt' now' t))" for f' i' dflt' now'
    by (rule identity_stepI) (metis assms(1) resolve_state surjective_pairing)
  then show ?thesis using resolve_state [OF assms(1,3)] assms(2) unfolding identity_le_def by blast
qed

section \<open>Concrete runs\<close>

definition demo_identity :: federated_identity where
  "demo_identity = \<lparr>fid_source = ''owui'', fid_external = ''u1'', fid_email = [], fid_display = ''Ann''\<rparr>"

lemma federated_inv_empty: "federated_inv empty_db"
  by (simp add: federated_inv_def platform_inv_empty end_user_accounts_def empty_db_def)

text \<open>
  The identity is unknown at the look-up; before this request's provisioning transaction, a
  second request resolves it completely. Both get account 1 and the month is granted once.
\<close>

definition rival :: "nat \<Rightarrow> db \<Rightarrow> db" where
  "rival n = (if n = 0 then (\<lambda>s. snd (resolve_end_user_account (\<lambda>_. no_faults) (\<lambda>_ t. t) demo_identity 10 0 s)) else (\<lambda>s. s))"

theorem first_sight_race_witness:
  "fst (resolve_end_user_account (\<lambda>_. no_faults) rival demo_identity 10 0 empty_db) =
     Inr \<lparr>eu_account = 1, eu_provisioned = False, eu_granted = False, eu_rate = None\<rparr> \<and>
   identity_account demo_identity (snd (resolve_end_user_account (\<lambda>_. no_faults) rival demo_identity 10 0 empty_db)) = Some 1"
proof
  define r where "r = resolve_end_user_account (\<lambda>_. no_faults) rival demo_identity 10 0 empty_db"
  have f: "fst r = Inr \<lparr>eu_account = 1, eu_provisioned = False, eu_granted = False, eu_rate = None\<rparr>"
    unfolding r_def by code_simp
  then show "fst (resolve_end_user_account (\<lambda>_. no_faults) rival demo_identity 10 0 empty_db) =
     Inr \<lparr>eu_account = 1, eu_provisioned = False, eu_granted = False, eu_rate = None\<rparr>" by (simp add: r_def)
  have id: "identity_step (\<lambda>t. t)" by (rule identity_stepI) simp
  have "identity_step (rival n)" for n
    using first_sight_race [OF id federated_inv_empty prod.collapse [symmetric]] id
    by (cases "n = 0") (simp_all add: rival_def)
  from first_sight_race [OF this federated_inv_empty, where f = "\<lambda>_. no_faults" and i = demo_identity and dflt = 10
      and now = 0 and r = "fst r" and s' = "snd r"] f
  have "identity_account demo_identity (snd r) = Some 1" by (simp add: r_def)
  then show "identity_account demo_identity (snd (resolve_end_user_account (\<lambda>_. no_faults) rival demo_identity 10 0 empty_db)) = Some 1"
    by (simp only: r_def)
qed

text \<open>One hold of 2.5 credits is open; at time 0 the month is granted 20, again at once, no effect.\<close>

theorem allowance_resets_balance_witness:
  "balances (snd (allowance_tx no_faults 1 20 (month_start 0) one_hold_db)) 1 =
     Some \<lparr>cb_balance = 20000000, cb_reserved = 2500000, cb_period = Some (month_start 0)\<rparr>"
proof -
  define r where "r = allowance_tx no_faults 1 20 (month_start 0) one_hold_db"
  have "fst r = Inr True" unfolding r_def by code_simp
  then have "allowance_tx no_faults 1 20 (month_start 0) one_hold_db = (Inr True, snd r)" by (simp add: r_def prod_eq_iff)
  note a = allowance_resets_balance [OF this]
  have "dec6 20 = 20000000" by code_simp
  then have "balances (snd r) 1 = Some \<lparr>cb_balance = 20000000, cb_reserved = 2500000, cb_period = Some (month_start 0)\<rparr>"
    using a by (auto simp: one_hold_db_def)
  then show ?thesis by (simp only: r_def)
qed

theorem allowance_once_per_month_witness:
  "month_grants 1 (snd (allowance_tx no_faults 1 20 (month_start 5) (snd (allowance_tx no_faults 1 20 (month_start 0) one_hold_db)))) \<le> 1"
proof -
  have "allowance_run 1 one_hold_db ([] @ [month_start 0]) (snd (allowance_tx no_faults 1 20 (month_start 0) one_hold_db))"
    by (intro run_allowance run_nil)
  then have "allowance_run 1 one_hold_db (([] @ [month_start 0]) @ [month_start 5])
      (snd (allowance_tx no_faults 1 20 (month_start 5) (snd (allowance_tx no_faults 1 20 (month_start 0) one_hold_db))))"
    by (rule run_allowance)
  then have "allowance_run 1 one_hold_db (map month_start [0, 5])
      (snd (allowance_tx no_faults 1 20 (month_start 5) (snd (allowance_tx no_faults 1 20 (month_start 0) one_hold_db))))"
    by simp
  from allowance_once_per_month [OF this]
  have "month_grants 1 (snd (allowance_tx no_faults 1 20 (month_start 5) (snd (allowance_tx no_faults 1 20 (month_start 0) one_hold_db)))) \<le>
    month_grants 1 one_hold_db + card {m \<in> month_start ` {0, 5}. later_than (period_of 1 one_hold_db) m}" by simp
  moreover have "month_start 0 = month_start 5" by code_simp
  then have "card {m \<in> month_start ` {0, 5}. later_than (period_of 1 one_hold_db) m} \<le> card {month_start 0}"
    by (intro card_mono) auto
  moreover have "month_grants 1 one_hold_db = 0" by code_simp
  ultimately show ?thesis by simp
qed

end
