(* ===== verification/Pricing.thy ===== *)
theory Pricing
  imports Federated
begin

text \<open>
  Model prices, usage statistics and cost estimates (internal/store/credits.go,
  internal/credits/estimator.go). Rates are credits per million tokens; the deprecated
  per-token columns are kept in step with them. Token counts are Go ints: the conversions to
  float64 and the products round.
\<close>

section \<open>The pricing table\<close>

text \<open>A per-token DECIMAL(15,10) value m ten-billionths, times a million, is m / 10000.\<close>

definition old_rate_val :: "int \<Rightarrow> rat" where
  "old_rate_val m = of_int m / 10000"

definition rate_of :: "micros option \<Rightarrow> int \<Rightarrow> rat" where
  "rate_of mtok old = (case mtok of Some m \<Rightarrow> f_of_micros m | None \<Rightarrow> rnd64 (old_rate_val old))"

definition scan_pricing :: "pricing_row \<Rightarrow> credit_pricing" where
  "scan_pricing r = \<lparr>pr_id = cp_id r, pr_model = cp_model r,
     pr_prompt_rate = rate_of (cp_prompt_mtok r) (cp_prompt_old r),
     pr_completion_rate = rate_of (cp_completion_mtok r) (cp_completion_old r),
     pr_typical = cp_typical r, pr_active = cp_active r\<rparr>"

definition get_pricing_by_model :: "faults \<Rightarrow> string \<Rightarrow> db \<Rightarrow> store_error + credit_pricing option" where
  "get_pricing_by_model f m s = (if f 0 then Inl SqlFault else
     Inr (map_option scan_pricing (find (\<lambda>r. cp_model r = m \<and> cp_active r) (pricing s))))"

text \<open>ORDER BY model_id; \<open>le\<close> is the collation of the database.\<close>

fun insert_by :: "('a \<Rightarrow> 'a \<Rightarrow> bool) \<Rightarrow> 'a \<Rightarrow> 'a list \<Rightarrow> 'a list" where
  "insert_by le x [] = [x]"
| "insert_by le x (y # ys) = (if le x y then x # y # ys else y # insert_by le x ys)"

definition list_active_pricing :: "(string \<Rightarrow> string \<Rightarrow> bool) \<Rightarrow> faults \<Rightarrow> db \<Rightarrow> store_error + credit_pricing list" where
  "list_active_pricing le f s = (if f 0 then Inl SqlFault else
     Inr (map scan_pricing (foldr (insert_by (\<lambda>a b. le (cp_model a) (cp_model b))) (filter cp_active (pricing s)) [])))"

text \<open>
  UpsertPricing: a new row or the update of the row of the model; the per-token columns are
  the exact quotient rounded to ten decimals.
\<close>

definition dec10 :: "rat \<Rightarrow> int" where
  "dec10 x = round_half_away (x * 10 ^ 10)"

definition upsert_pricing :: "faults \<Rightarrow> string \<Rightarrow> rat \<Rightarrow> rat \<Rightarrow> int \<Rightarrow> unit store_prog" where
  "upsert_pricing f m pr cr typical = sql f 0 (
     bindp (dec_col pr) (\<lambda>p. bindp (dec_col cr) (\<lambda>c. \<lambda>s.
     if \<not> int32_ok typical then (Inl IntegerOverflow, s)
     else if row_of cp_model m (pricing s) = None
     then (Inr (), s\<lparr>pricing := pricing s @ [\<lparr>cp_id = next_pricing s, cp_model = m,
            cp_prompt_old = dec10 (pr / 1000000), cp_completion_old = dec10 (cr / 1000000),
            cp_prompt_mtok = Some p, cp_completion_mtok = Some c, cp_typical = typical, cp_active = True\<rparr>],
          next_pricing := next_pricing s + 1\<rparr>)
     else (Inr (), s\<lparr>pricing := upd_where (\<lambda>r. cp_model r = m)
            (\<lambda>r. r\<lparr>cp_prompt_old := dec10 (pr / 1000000), cp_completion_old := dec10 (cr / 1000000),
               cp_prompt_mtok := Some p, cp_completion_mtok := Some c, cp_typical := typical, cp_active := True\<rparr>)
            (pricing s)\<rparr>))))"

definition delete_pricing :: "faults \<Rightarrow> int \<Rightarrow> unit store_prog" where
  "delete_pricing f i = sql f 0 (\<lambda>s. if row_of cp_id i (pricing s) = None then (Inl PricingNotFound, s)
     else (Inr (), s\<lparr>pricing := upd_where (\<lambda>r. cp_id r = i) (\<lambda>r. r\<lparr>cp_active := False\<rparr>) (pricing s)\<rparr>))"

section \<open>Usage statistics\<close>

definition get_account_usage_stats :: "faults \<Rightarrow> int \<Rightarrow> string \<Rightarrow> db \<Rightarrow> store_error + usage_stats option" where
  "get_account_usage_stats f a m s = (if f 0 then Inl SqlFault else Inr (stats s (a, m)))"

text \<open>
  UpdateAccountUsageStats: INTEGER arithmetic, in which each intermediate result must fit 32
  bits, and integer division truncates towards zero.
\<close>

definition update_account_usage_stats :: "faults \<Rightarrow> int \<Rightarrow> string \<Rightarrow> int \<Rightarrow> unit store_prog" where
  "update_account_usage_stats f a m c = sql f 0 (\<lambda>s.
     if \<not> int32_ok c then (Inl IntegerOverflow, s) else
     case stats s (a, m) of
       None \<Rightarrow> (Inr (), s\<lparr>stats := (stats s)((a, m) \<mapsto> \<lparr>st_avg = c, st_count = 1\<rparr>)\<rparr>)
     | Some st \<Rightarrow>
         let p = st_avg st * st_count st; t = p + c; n = st_count st + 1 in
         if \<not> int32_ok p \<or> \<not> int32_ok t \<or> \<not> int32_ok n then (Inl IntegerOverflow, s)
         else (Inr (), s\<lparr>stats := (stats s)((a, m) \<mapsto> \<lparr>st_avg = go_div t n, st_count = n\<rparr>)\<rparr>))"

section \<open>Estimates\<close>

definition estimate_prompt_tokens :: "int \<Rightarrow> int" where
  "estimate_prompt_tokens n = (let t = go_div n 4 in if t < 1 then 1 else t)"

definition estimate_completion_tokens :: "int option \<Rightarrow> usage_stats option \<Rightarrow> credit_pricing option \<Rightarrow> int" where
  "estimate_completion_tokens max_tokens st p =
     (case max_tokens of Some n \<Rightarrow> if 0 < n then n else
          (case st of Some u \<Rightarrow> if 10 \<le> st_count u then st_avg u else
               (case p of Some q \<Rightarrow> if 0 < pr_typical q then pr_typical q else 500 | None \<Rightarrow> 500)
           | None \<Rightarrow> (case p of Some q \<Rightarrow> if 0 < pr_typical q then pr_typical q else 500 | None \<Rightarrow> 500))
      | None \<Rightarrow>
          (case st of Some u \<Rightarrow> if 10 \<le> st_count u then st_avg u else
               (case p of Some q \<Rightarrow> if 0 < pr_typical q then pr_typical q else 500 | None \<Rightarrow> 500)
           | None \<Rightarrow> (case p of Some q \<Rightarrow> if 0 < pr_typical q then pr_typical q else 500 | None \<Rightarrow> 500)))"

definition estimate_cost :: "credit_pricing option \<Rightarrow> int \<Rightarrow> int \<Rightarrow> rat" where
  "estimate_cost p prompt completion = (case p of None \<Rightarrow> 0 | Some q \<Rightarrow>
     fdivc (fadd (fmul (f_of_int prompt) (pr_prompt_rate q)) (fmul (f_of_int completion) (pr_completion_rate q))) 1000000)"

definition estimate_from_response_bytes :: "int \<Rightarrow> int" where
  "estimate_from_response_bytes n = (let t = go_div n 4 in if t < 1 \<and> 0 < n then 1 else t)"

section \<open>Cost is monotone and accurate\<close>

definition rates_ok :: "credit_pricing \<Rightarrow> bool" where
  "rates_ok q \<longleftrightarrow> 0 \<le> pr_prompt_rate q \<and> 0 \<le> pr_completion_rate q"

lemma f_of_int_mono: "m \<le> n \<Longrightarrow> f_of_int m \<le> f_of_int n"
  by (simp add: f_of_int_def rnd64_mono)

lemma estimate_cost_mono:
  assumes "rates_ok q" "p \<le> p'" "c \<le> c'"
  shows "estimate_cost (Some q) p c \<le> estimate_cost (Some q) p' c'"
  using assms unfolding rates_ok_def estimate_cost_def option.case fdivc_def fadd_def fmul_def
  by (intro rnd64_mono divide_right_mono add_mono mult_right_mono f_of_int_mono) auto

lemma estimate_cost_nonneg:
  assumes "rates_ok q" "0 \<le> p" "0 \<le> c" shows "0 \<le> estimate_cost (Some q) p c"
  using estimate_cost_mono [OF assms] by (simp add: estimate_cost_def fdivc_def fadd_def fmul_def f_of_int_def)

text \<open>The exact cost, and the relative error of four roundings.\<close>

definition exact_cost :: "credit_pricing \<Rightarrow> int \<Rightarrow> int \<Rightarrow> rat" where
  "exact_cost q p c = (of_int p * pr_prompt_rate q + of_int c * pr_completion_rate q) / 1000000"

definition near :: "rat \<Rightarrow> rat \<Rightarrow> rat \<Rightarrow> rat \<Rightarrow> bool" where
  "near r a x y \<longleftrightarrow> \<bar>x - y\<bar> \<le> r * y + a"

lemma near_rnd64:
  assumes n: "near r a x y" and y: "0 \<le> y" and x: "0 \<le> x" and r: "0 \<le> r" "r \<le> 1" and a: "0 \<le> a"
  shows "near (r + 2 / 2 ^ 53) (2 * a + 1 / 10 ^ 30) (rnd64 x) y"
proof -
  have d: "\<bar>x - y\<bar> \<le> r * y + a" using n by (simp add: near_def)
  have ry: "r * y \<le> 1 * y" using r(2) y by (rule mult_right_mono)
  then have xl: "x \<le> 2 * y + a" using d by linarith
  have "\<bar>rnd64 x - x\<bar> \<le> x / 2 ^ 53 + 1 / 10 ^ 30"
    using rnd64_error [of x] tiny_powi x by simp
  moreover have "x / 2 ^ 53 \<le> (2 * y + a) / 2 ^ 53" using xl by (simp add: divide_right_mono)
  moreover have "(2 * y + a) / 2 ^ 53 \<le> 2 / 2 ^ 53 * y + a" using a by (simp add: field_simps)
  ultimately have "\<bar>rnd64 x - y\<bar> \<le> (r * y + a) + (2 / 2 ^ 53 * y + a) + 1 / 10 ^ 30" using d by linarith
  also have "\<dots> = (r + 2 / 2 ^ 53) * y + (2 * a + 1 / 10 ^ 30)" by (simp add: algebra_simps)
  finally show ?thesis by (simp only: near_def)
qed

lemma near_scale: "near r a x y \<Longrightarrow> 0 \<le> k \<Longrightarrow> near r (k * a) (k * x) (k * y)"
proof -
  assume n: "near r a x y" and k: "0 \<le> k"
  have "\<bar>k * x - k * y\<bar> = k * \<bar>x - y\<bar>" using k by (simp add: abs_mult right_diff_distrib [symmetric])
  also have "\<dots> \<le> k * (r * y + a)" using n k by (intro mult_left_mono) (simp_all add: near_def)
  finally show ?thesis by (simp add: near_def algebra_simps)
qed

lemma near_add:
  assumes "near r a x y" "near r b x' y'" shows "near r (a + b) (x + x') (y + y')"
proof -
  have "\<bar>(x + x') - (y + y')\<bar> \<le> (r * y + a) + (r * y' + b)" using assms unfolding near_def by linarith
  then show ?thesis by (simp add: near_def algebra_simps)
qed

lemma dec6_near:
  assumes "\<bar>x - y\<bar> \<le> 1 / 1000000" "0 \<le> x" "0 \<le> y" shows "\<bar>dec6 x - dec6 y\<bar> \<le> 1"
proof -
  have a: "dec6 u \<le> dec6 v + 1" if "u \<le> v + 1 / 1000000" "0 \<le> u" "0 \<le> v" for u v
  proof -
    have "u * 1000000 + 1 / 2 \<le> (v * 1000000 + 1 / 2) + 1" using that(1) by linarith
    then have "\<lfloor>u * 1000000 + 1 / 2\<rfloor> \<le> \<lfloor>v * 1000000 + 1 / 2\<rfloor> + 1" by linarith
    then show ?thesis using that(2,3) by (simp add: dec6_def round_half_away_def)
  qed
  from a [of x y] a [of y x] assms show ?thesis by linarith
qed


lemma exact_cost_nonneg: "rates_ok q \<Longrightarrow> 0 \<le> p \<Longrightarrow> 0 \<le> c \<Longrightarrow> 0 \<le> exact_cost q p c"
  by (simp add: exact_cost_def rates_ok_def)

lemma estimate_cost_near:
  assumes q: "rates_ok q" and p: "0 \<le> p" "p \<le> 2 ^ 53" and c: "0 \<le> c" "c \<le> 2 ^ 53"
  shows "near (6 / 2 ^ 53) (1 / 10 ^ 28) (estimate_cost (Some q) p c) (exact_cost q p c)"
proof -
  let ?a = "of_int p * pr_prompt_rate q" let ?b = "of_int c * pr_completion_rate q"
  have nn: "0 \<le> ?a" "0 \<le> ?b" using q p c by (simp_all add: rates_ok_def)
  have "near (0 + 2 / 2 ^ 53) (2 * 0 + 1 / 10 ^ 30) (rnd64 ?a) ?a" "near (0 + 2 / 2 ^ 53) (2 * 0 + 1 / 10 ^ 30) (rnd64 ?b) ?b"
    using nn by (intro near_rnd64; simp add: near_def)+
  then have s: "near (2 / 2 ^ 53) (2 / 10 ^ 30) (rnd64 ?a + rnd64 ?b) (?a + ?b)"
    using near_add [of "2 / 2 ^ 53" "1 / 10 ^ 30" "rnd64 ?a" ?a "1 / 10 ^ 30" "rnd64 ?b" ?b] by simp
  have r0: "0 \<le> rnd64 ?a" "0 \<le> rnd64 ?b" using nn rnd64_mono [of 0 ?a] rnd64_mono [of 0 ?b] by simp_all
  have "near (2 / 2 ^ 53 + 2 / 2 ^ 53) (2 * (2 / 10 ^ 30) + 1 / 10 ^ 30) (rnd64 (rnd64 ?a + rnd64 ?b)) (?a + ?b)"
    using s nn r0 by (intro near_rnd64) simp_all
  from near_scale [OF this, of "1 / 1000000"]
  have d: "near (4 / 2 ^ 53) (5 / 10 ^ 36) (rnd64 (rnd64 ?a + rnd64 ?b) / 1000000) (exact_cost q p c)"
    by (simp add: exact_cost_def add_divide_distrib)
  have y: "0 \<le> exact_cost q p c" using q p c by (intro exact_cost_nonneg) auto
  have x: "0 \<le> rnd64 (rnd64 ?a + rnd64 ?b) / 1000000" using r0 rnd64_mono [of 0 "rnd64 ?a + rnd64 ?b"] by simp
  have "near (4 / 2 ^ 53 + 2 / 2 ^ 53) (2 * (5 / 10 ^ 36) + 1 / 10 ^ 30) (rnd64 (rnd64 (rnd64 ?a + rnd64 ?b) / 1000000)) (exact_cost q p c)"
    using d y x by (intro near_rnd64) simp_all
  then have "near (6 / 2 ^ 53) (2 * (5 / 10 ^ 36) + 1 / 10 ^ 30) (rnd64 (rnd64 (rnd64 ?a + rnd64 ?b) / 1000000)) (exact_cost q p c)"
    by simp
  then have "near (6 / 2 ^ 53) (1 / 10 ^ 28) (rnd64 (rnd64 (rnd64 ?a + rnd64 ?b) / 1000000)) (exact_cost q p c)"
    by (simp add: near_def)
  moreover have "estimate_cost (Some q) p c = rnd64 (rnd64 (rnd64 ?a + rnd64 ?b) / 1000000)"
    using p c by (simp add: estimate_cost_def fdivc_def fadd_def fmul_def)
  ultimately show ?thesis by simp
qed

text \<open>
  Float64 arithmetic costs at most a millionth of a credit. For non-negative rates, token
  counts up to 2^53 and a cost of at most a billion credits, the charge EstimateCost yields,
  rounded to the column, differs from the exactly computed charge by at most one millionth;
  and the estimate is monotone in both token counts, so an estimate made on at least as many
  tokens reserves at least as much.
\<close>
theorem charge_accurate:
  assumes "rates_ok q" and "0 \<le> p" "p \<le> 2 ^ 53" and "0 \<le> c" "c \<le> 2 ^ 53"
    and "exact_cost q p c \<le> 10 ^ 9"
  shows "\<bar>dec6 (estimate_cost (Some q) p c) - dec6 (exact_cost q p c)\<bar> \<le> 1 \<and>
    (\<forall>p' c'. p \<le> p' \<longrightarrow> c \<le> c' \<longrightarrow> dec6 (estimate_cost (Some q) p c) \<le> dec6 (estimate_cost (Some q) p' c'))"
proof -
  have "\<bar>estimate_cost (Some q) p c - exact_cost q p c\<bar> \<le> 6 / 2 ^ 53 * exact_cost q p c + 1 / 10 ^ 28"
    using estimate_cost_near [OF assms(1-5)] by (simp only: near_def)
  also have "\<dots> \<le> 6 / 2 ^ 53 * 10 ^ 9 + 1 / 10 ^ 28" using assms(6) by (intro add_right_mono mult_left_mono) auto
  also have "\<dots> \<le> 1 / 1000000" by simp
  finally have "\<bar>estimate_cost (Some q) p c - exact_cost q p c\<bar> \<le> 1 / 1000000" .
  then have "\<bar>dec6 (estimate_cost (Some q) p c) - dec6 (exact_cost q p c)\<bar> \<le> 1"
    using estimate_cost_nonneg [OF assms(1,2,4)] exact_cost_nonneg [OF assms(1,2,4)] by (rule dec6_near)
  then show ?thesis using estimate_cost_mono [OF assms(1)] dec6_mono by blast
qed

theorem charge_accurate_witness:
  "\<bar>dec6 (estimate_cost (Some \<lparr>pr_id = 1, pr_model = ''m'', pr_prompt_rate = 3, pr_completion_rate = 15, pr_typical = 500, pr_active = True\<rparr>) 1000 2000) - 33000\<bar> \<le> 1"
proof -
  let ?q = "\<lparr>pr_id = 1, pr_model = ''m'', pr_prompt_rate = 3, pr_completion_rate = 15, pr_typical = 500, pr_active = True\<rparr>"
  have e: "exact_cost ?q 1000 2000 = 33 / 1000" by (simp add: exact_cost_def)
  have "dec6 (33 / 1000) = 33000" by code_simp
  then show ?thesis using charge_accurate [of ?q 1000 2000] e by (simp add: rates_ok_def)
qed

section \<open>Prices read back\<close>

text \<open>The boot-time backfill of schema.sql: old * 1000000 is a whole number of millionths.\<close>

definition backfill_mtok :: "pricing_row \<Rightarrow> pricing_row" where
  "backfill_mtok r = r\<lparr>cp_prompt_mtok := Some (case cp_prompt_mtok r of Some m \<Rightarrow> m | None \<Rightarrow> cp_prompt_old r * 100),
     cp_completion_mtok := Some (case cp_completion_mtok r of Some m \<Rightarrow> m | None \<Rightarrow> cp_completion_old r * 100)\<rparr>"

lemma rate_of_backfill: "rate_of (Some (m * 100)) m = rate_of None m"
proof -
  have "micros_val (m * 100) = old_rate_val m" by (simp add: micros_val_def old_rate_val_def)
  then show ?thesis by (simp add: rate_of_def f_of_micros_def)
qed

lemma scan_backfill: "scan_pricing (backfill_mtok r) = scan_pricing r"
  by (cases "cp_prompt_mtok r"; cases "cp_completion_mtok r")
    (simp_all add: scan_pricing_def backfill_mtok_def rate_of_backfill)

definition priced_row :: "int \<Rightarrow> string \<Rightarrow> rat \<Rightarrow> rat \<Rightarrow> int \<Rightarrow> pricing_row" where
  "priced_row i m pr cr ty = \<lparr>cp_id = i, cp_model = m, cp_prompt_old = dec10 (pr / 1000000),
     cp_completion_old = dec10 (cr / 1000000), cp_prompt_mtok = Some (dec6 pr), cp_completion_mtok = Some (dec6 cr),
     cp_typical = ty, cp_active = True\<rparr>"

lemma upsert_pricing_Inr:
  assumes "upsert_pricing f m pr cr ty s = (Inr u, s')"
  shows "dec_ok (dec6 pr) \<and> dec_ok (dec6 cr) \<and> pricing s' = (case row_of cp_model m (pricing s) of
      None \<Rightarrow> pricing s @ [priced_row (next_pricing s) m pr cr ty]
    | Some r \<Rightarrow> upd_where (\<lambda>r. cp_model r = m) (\<lambda>r. priced_row (cp_id r) (cp_model r) pr cr ty) (pricing s))"
proof -
  have e: "r\<lparr>cp_prompt_old := a, cp_completion_old := b, cp_prompt_mtok := c, cp_completion_mtok := d, cp_typical := ty, cp_active := True\<rparr> =
      \<lparr>cp_id = cp_id r, cp_model = cp_model r, cp_prompt_old = a, cp_completion_old = b, cp_prompt_mtok = c, cp_completion_mtok = d,
       cp_typical = ty, cp_active = True\<rparr>" for r :: pricing_row and a b c d by simp
  from assms have d: "dec_ok (dec6 pr)" "dec_ok (dec6 cr)" and u: "int32_ok ty"
    and p: "pricing s' = (if row_of cp_model m (pricing s) = None then pricing s @ [priced_row (next_pricing s) m pr cr ty]
      else upd_where (\<lambda>r. cp_model r = m) (\<lambda>r. r\<lparr>cp_prompt_old := dec10 (pr / 1000000), cp_completion_old := dec10 (cr / 1000000),
         cp_prompt_mtok := Some (dec6 pr), cp_completion_mtok := Some (dec6 cr), cp_typical := ty, cp_active := True\<rparr>) (pricing s))"
    unfolding upsert_pricing_def priced_row_def by (clarsimp simp: ledger_run split: if_splits)+
  show ?thesis using d unfolding p e priced_row_def [symmetric] by (cases "row_of cp_model m (pricing s)") simp_all
qed

lemma upsert_pricing_row:
  assumes "upsert_pricing f m pr cr ty s = (Inr u, s')"
  shows "(\<exists>i. row_of cp_model m (pricing s') = Some (priced_row i m pr cr ty)) \<and>
    (\<forall>m'. m' \<noteq> m \<longrightarrow> row_of cp_model m' (pricing s') = row_of cp_model m' (pricing s))"
proof (cases "row_of cp_model m (pricing s)")
  case None
  then have "pricing s' = pricing s @ [priced_row (next_pricing s) m pr cr ty]" using upsert_pricing_Inr [OF assms] by simp
  moreover have "cp_model (priced_row i m pr cr ty) = m" for i by (simp add: priced_row_def)
  ultimately show ?thesis using None by (auto simp: row_of_snoc split: option.splits)
next
  case (Some r)
  have k: "cp_model (priced_row (cp_id r) (cp_model r) pr cr ty) = cp_model r" for r by (simp add: priced_row_def)
  have p: "row_of cp_model m' (pricing s') = map_option (\<lambda>r. if cp_model r = m then priced_row (cp_id r) (cp_model r) pr cr ty else r)
      (row_of cp_model m' (pricing s))" for m'
    using upsert_pricing_Inr [OF assms] Some by (simp add: row_of_upd_id k)
  have "row_of cp_model m' (pricing s') = row_of cp_model m' (pricing s)" if "m' \<noteq> m" for m'
    using that unfolding p by (cases "row_of cp_model m' (pricing s)") (auto dest: row_of_Some)
  then show ?thesis using p [of m] Some row_of_Some [OF Some] by auto
qed

lemma find_active:
  assumes "distinct (map cp_model rs)"
  shows "find (\<lambda>r. cp_model r = m \<and> cp_active r) rs =
    (case row_of cp_model m rs of None \<Rightarrow> None | Some r \<Rightarrow> if cp_active r then Some r else None)"
  using assms
proof (induction rs)
  case (Cons a rs)
  show ?case
  proof (cases "cp_model a = m")
    case True
    have "cp_model a \<notin> set (map cp_model rs)" using Cons.prems by simp
    then have "\<forall>x \<in> set rs. cp_model x \<noteq> m" using True by (metis image_eqI set_map)
    then have "find (\<lambda>r. cp_model r = m \<and> cp_active r) rs = None" by (auto simp: find_None_iff)
    then show ?thesis using True by (simp add: row_of_def)
  next
    case False
    then show ?thesis using Cons by (simp add: row_of_def)
  qed
qed (simp add: row_of_def)

lemma get_pricing_row:
  assumes "distinct (map cp_model (pricing s))"
  shows "get_pricing_by_model f m s = (if f 0 then Inl SqlFault else Inr (case row_of cp_model m (pricing s) of
     None \<Rightarrow> None | Some r \<Rightarrow> if cp_active r then Some (scan_pricing r) else None))"
  using find_active [OF assms, of m] by (simp add: get_pricing_by_model_def split: option.splits)

lemma upsert_pricing_distinct:
  assumes "distinct (map cp_model (pricing s))" "upsert_pricing f m pr cr ty s = (Inr u, s')"
  shows "distinct (map cp_model (pricing s'))"
proof (cases "row_of cp_model m (pricing s)")
  case None
  then have "pricing s' = pricing s @ [priced_row (next_pricing s) m pr cr ty]" using upsert_pricing_Inr [OF assms(2)] by simp
  moreover have "cp_model (priced_row (next_pricing s) m pr cr ty) = m" by (simp add: priced_row_def)
  ultimately show ?thesis using None assms(1) by (auto simp: row_of_None)
next
  case (Some r)
  then show ?thesis using upsert_pricing_Inr [OF assms(2)] assms(1) by (simp add: priced_row_def)
qed

text \<open>
  A price reads back as it was set. After a successful UpsertPricing the model is priced at
  exactly the column values of the two rates, as float64, active and with the given typical
  completion, and no other model's price changes; deactivating its row unprices it. A row
  whose per-million columns a rolled-back binary left NULL costs the same before and after the
  boot-time backfill.
\<close>
theorem pricing_roundtrip:
  assumes "distinct (map cp_model (pricing s))"
    and "upsert_pricing f m pr cr ty s = (Inr u, s')"
  shows "(\<exists>i. get_pricing_by_model no_faults m s' = Inr (Some \<lparr>pr_id = i, pr_model = m, pr_prompt_rate = f_of_micros (dec6 pr),
            pr_completion_rate = f_of_micros (dec6 cr), pr_typical = ty, pr_active = True\<rparr>)) \<and>
    (\<forall>g m'. m' \<noteq> m \<longrightarrow> get_pricing_by_model g m' s' = get_pricing_by_model g m' s) \<and>
    (\<forall>r. scan_pricing (backfill_mtok r) = scan_pricing r)"
proof -
  note d = upsert_pricing_distinct [OF assms]
  obtain i where i: "row_of cp_model m (pricing s') = Some (priced_row i m pr cr ty)" using upsert_pricing_row [OF assms(2)] by blast
  have "get_pricing_by_model no_faults m s' = Inr (Some \<lparr>pr_id = i, pr_model = m, pr_prompt_rate = f_of_micros (dec6 pr),
            pr_completion_rate = f_of_micros (dec6 cr), pr_typical = ty, pr_active = True\<rparr>)"
    by (simp add: get_pricing_row [OF d] i priced_row_def scan_pricing_def rate_of_def)
  moreover have "get_pricing_by_model g m' s' = get_pricing_by_model g m' s" if "m' \<noteq> m" for g m'
    using upsert_pricing_row [OF assms(2)] that by (simp add: get_pricing_row [OF d] get_pricing_row [OF assms(1)])
  ultimately show ?thesis using scan_backfill by blast
qed

theorem pricing_roundtrip_witness:
  "get_pricing_by_model no_faults ''m'' (snd (upsert_pricing no_faults ''m'' 3 15 500 empty_db)) =
     Inr (Some \<lparr>pr_id = 1, pr_model = ''m'', pr_prompt_rate = 3, pr_completion_rate = 15, pr_typical = 500, pr_active = True\<rparr>)"
proof -
  define r where "r = upsert_pricing no_faults ''m'' 3 15 500 empty_db"
  have "fst r = Inr ()" unfolding r_def by code_simp
  then have "upsert_pricing no_faults ''m'' 3 15 500 empty_db = (Inr (), snd r)" by (simp add: r_def prod_eq_iff)
  moreover have "distinct (map cp_model (pricing empty_db))" by (simp add: empty_db_def)
  ultimately obtain i where i: "get_pricing_by_model no_faults ''m'' (snd r) = Inr (Some \<lparr>pr_id = i, pr_model = ''m'',
      pr_prompt_rate = f_of_micros (dec6 3), pr_completion_rate = f_of_micros (dec6 15), pr_typical = 500, pr_active = True\<rparr>)"
    using pricing_roundtrip by blast
  have "map cp_id (pricing (snd r)) = [1]" unfolding r_def by code_simp
  moreover have "get_pricing_by_model no_faults ''m'' (snd r) = Inr (Some p) \<Longrightarrow> \<exists>x \<in> set (pricing (snd r)). cp_id x = pr_id p" for p
    by (auto simp: get_pricing_by_model_def scan_pricing_def find_Some_iff)
  ultimately have "i \<in> set (map cp_id (pricing (snd r)))" using i by (metis credit_pricing.select_convs(1) image_eqI set_map)
  then have "i = 1" using \<open>map cp_id (pricing (snd r)) = [1]\<close> by simp
  moreover have "f_of_micros (dec6 3) = 3" "f_of_micros (dec6 15) = 15" by code_simp+
  ultimately show ?thesis using i by (simp add: r_def)
qed

section \<open>The running average\<close>

definition stats_ok :: "int \<Rightarrow> db \<Rightarrow> bool" where
  "stats_ok B s \<longleftrightarrow> (\<forall>k st. stats s k = Some st \<longrightarrow> 0 \<le> st_avg st \<and> st_avg st \<le> B \<and> 1 \<le> st_count st)"

lemma update_stats_ok:
  assumes ok: "stats_ok B s" and c: "0 \<le> c" "c \<le> B"
  shows "stats_ok B (snd (update_account_usage_stats f a m c s))"
proof (cases "stats s (a, m)")
  case None
  then show ?thesis using assms by (auto simp: update_account_usage_stats_def sql_def stmt_def stats_ok_def)
next
  case (Some st)
  have st: "0 \<le> st_avg st" "st_avg st \<le> B" "1 \<le> st_count st" using ok Some by (auto simp: stats_ok_def)
  let ?t = "st_avg st * st_count st + c" let ?n = "st_count st + 1"
  have "0 \<le> ?t" using st c by simp
  moreover have "?t \<le> B * ?n"
  proof -
    have "st_avg st * st_count st \<le> B * st_count st" using st by (intro mult_right_mono) auto
    then show ?thesis using c by (simp add: algebra_simps)
  qed
  moreover have "(B * ?n) div ?n = B" using st(3) by simp
  ultimately have "0 \<le> go_div ?t ?n" "go_div ?t ?n \<le> B"
    using st(3) zdiv_mono1 [of ?t "B * ?n" ?n] by (simp_all add: go_div_nonneg pos_imp_zdiv_nonneg_iff)
  then have g: "0 \<le> go_div ?t ?n \<and> go_div ?t ?n \<le> B \<and> 1 \<le> ?n" using st(3) by simp
  define s' where "s' = s\<lparr>stats := (stats s)((a, m) \<mapsto> \<lparr>st_avg = go_div ?t ?n, st_count = ?n\<rparr>)\<rparr>"
  have "snd (update_account_usage_stats f a m c s) \<in> {s, s'}"
    by (simp add: update_account_usage_stats_def sql_def stmt_def Let_def Some s'_def)
  moreover have "stats_ok B s'" using ok g unfolding stats_ok_def s'_def by simp
  ultimately show ?thesis using ok by auto
qed


text \<open>A completion count in the column's range, seen by a row whose running sum is at its edge.\<close>

lemma stats_frozen_step:
  assumes "stats s (a, m) = Some st" "2 ^ 31 \<le> st_avg st * st_count st"
  shows "update_account_usage_stats f a m c s = (if f 0 then Inl SqlFault else Inl IntegerOverflow, s)"
  using assms by (simp add: update_account_usage_stats_def sql_def stmt_def int32_ok_def Let_def)

text \<open>
  The running average stays between the extremes of what was recorded, as long as it is
  updated: with completion counts between 0 and B, every stored average is between 0 and B and
  every count positive. But once average times count has reached 2^31 the row is frozen: every
  later update of it fails with an integer overflow, whatever it reports, so the estimates of
  that account and model never follow its usage again.
\<close>
theorem usage_stats_freeze:
  assumes "stats_ok B s" and "0 \<le> c" "c \<le> B"
  shows "stats_ok B (snd (update_account_usage_stats f a m c s)) \<and>
    (\<forall>st cs. stats s (a, m) = Some st \<longrightarrow> 2 ^ 31 \<le> st_avg st * st_count st \<longrightarrow>
      fold (\<lambda>c s. snd (update_account_usage_stats no_faults a m c s)) cs s = s)"
proof -
  have "fold (\<lambda>c s. snd (update_account_usage_stats no_faults a m c s)) cs s = s"
    if "stats s (a, m) = Some st" "2 ^ 31 \<le> st_avg st * st_count st" for st cs
    using that by (induction cs) (simp_all add: stats_frozen_step)
  then show ?thesis using update_stats_ok [OF assms] by blast
qed

text \<open>A row with an average of 2000 tokens over 1,073,742 requests: two further requests change nothing.\<close>

theorem usage_stats_freeze_witness:
  "fold (\<lambda>c s. snd (update_account_usage_stats no_faults 1 ''m'' c s)) [4000, 4000]
     (empty_db\<lparr>stats := [(1, ''m'') \<mapsto> \<lparr>st_avg = 2000, st_count = 1073742\<rparr>]\<rparr>) =
   empty_db\<lparr>stats := [(1, ''m'') \<mapsto> \<lparr>st_avg = 2000, st_count = 1073742\<rparr>]\<rparr>"
proof -
  define s where "s = empty_db\<lparr>stats := [(1, ''m'') \<mapsto> \<lparr>st_avg = 2000, st_count = 1073742\<rparr>]\<rparr>"
  have "stats_ok 4000 s" by (simp add: stats_ok_def s_def)
  then have "fold (\<lambda>c s. snd (update_account_usage_stats no_faults 1 ''m'' c s)) [4000, 4000] s = s"
  proof -
    have "stats s (1, ''m'') = Some \<lparr>st_avg = 2000, st_count = 1073742\<rparr>"
      "2 ^ 31 \<le> st_avg \<lparr>st_avg = 2000, st_count = 1073742\<rparr> * st_count \<lparr>st_avg = 2000, st_count = 1073742\<rparr>"
      by (simp_all add: s_def)
    moreover have "(0::int) \<le> 4000" "(4000::int) \<le> 4000" by simp_all
    ultimately show ?thesis using usage_stats_freeze [OF \<open>stats_ok 4000 s\<close>, of 4000] by blast
  qed
  then show ?thesis by (simp only: s_def)
qed

end
