(* ===== verification/CreditRequests.thy ===== *)
theory CreditRequests
  imports Pricing
begin

text \<open>
  Cap-hit requests (internal/store/credit_requests.go), the recorder that files them and
  notifies the operator (internal/creditrequest/recorder.go), and the admin handler that
  resolves them (internal/admin/credit_requests.go). A request belongs to an account and a
  month; its status goes from pending to granted, dismissed or expired, once.
\<close>

section \<open>The store\<close>

definition live_request :: "int \<Rightarrow> day \<Rightarrow> credit_request \<Rightarrow> bool" where
  "live_request a month r \<longleftrightarrow> cr_account r = a \<and> cr_period r = month \<and> cr_status r \<in> {''pending'', ''dismissed''}"

text \<open>FileCreditRequest: (0, False) when nothing was filed.\<close>

definition file_credit_request :: "faults \<Rightarrow> gotime \<Rightarrow> int \<Rightarrow> (int \<times> bool) store_prog" where
  "file_credit_request f now a = sql f 0 (\<lambda>s.
     if find (live_request a (month_start now)) (requests s) \<noteq> None then (Inr (0, False), s)
     else if row_of ac_id a (accounts s) = None then (Inl ForeignKey, s)
     else (Inr (next_request s, True), s\<lparr>requests := requests s @ [\<lparr>cr_id = next_request s, cr_account = a,
         cr_period = month_start now, cr_status = ''pending'', cr_created = now, cr_resolved = None, cr_note = None\<rparr>],
       next_request := next_request s + 1\<rparr>))"

definition expired_note :: string where "expired_note = ''expired at month rollover''"

definition expire_stale_credit_requests :: "faults \<Rightarrow> nat \<Rightarrow> gotime \<Rightarrow> unit store_prog" where
  "expire_stale_credit_requests f k now = sql f k (modp (\<lambda>s. s\<lparr>requests :=
     upd_where (\<lambda>r. cr_status r = ''pending'' \<and> cr_period r < month_start now)
       (\<lambda>r. r\<lparr>cr_status := ''expired'', cr_resolved := Some now, cr_note := Some expired_note\<rparr>) (requests s)\<rparr>))"

record credit_request_row =
  crr_request :: credit_request
  crr_account_name :: string
  crr_email :: "string option"
  crr_monthly_grant :: "rat option"
  crr_balance :: rat

definition balance_or_zero :: "int \<Rightarrow> db \<Rightarrow> rat" where
  "balance_or_zero a s = (case balances s a of None \<Rightarrow> 0 | Some cb \<Rightarrow> f_of_micros (cb_balance cb))"

text \<open>The listing, newest first; the email is that of the account's oldest identity.\<close>

definition request_row :: "db \<Rightarrow> credit_request \<Rightarrow> credit_request_row option" where
  "request_row s r = (case row_of ac_id (cr_account r) (accounts s) of None \<Rightarrow> None | Some ac \<Rightarrow>
     Some \<lparr>crr_request = r, crr_account_name = ac_name ac,
       crr_email = map_option fi_email (find (\<lambda>x. fi_account x = cr_account r) (identities s)),
       crr_monthly_grant = map_option f_of_micros (ac_monthly_grant ac),
       crr_balance = balance_or_zero (cr_account r) s\<rparr>)"

definition list_credit_requests :: "faults \<Rightarrow> string \<Rightarrow> gotime \<Rightarrow> credit_request_row list store_prog" where
  "list_credit_requests f status now = bindp (expire_stale_credit_requests f 0 now) (\<lambda>_. sql f 1 (getp (\<lambda>s.
     map the (filter (\<lambda>x. x \<noteq> None) (map (request_row s)
       (rev (sort_key cr_created (filter (\<lambda>r. cr_status r = status) (requests s)))))))))"

definition resolve_credit_request :: "faults \<Rightarrow> gotime \<Rightarrow> int \<Rightarrow> string \<Rightarrow> string \<Rightarrow> unit store_prog" where
  "resolve_credit_request f now i status note =
     bindp (sql f 0 (\<lambda>s. let p = (\<lambda>r. cr_id r = i \<and> cr_status r = ''pending'' \<and> month_start now \<le> cr_period r) in
        (Inr (find p (requests s) \<noteq> None), s\<lparr>requests := upd_where p (\<lambda>r. r\<lparr>cr_status := status,
           cr_resolved := Some now, cr_note := (if note = [] then None else Some note)\<rparr>) (requests s)\<rparr>))) (\<lambda>hit.
     if hit then retp () else
     bindp (sql f 1 (getp (\<lambda>s. row_of cr_id i (requests s)))) (\<lambda>row.
     case row of None \<Rightarrow> failp RequestNotFound | Some r \<Rightarrow>
     if cr_status r = ''pending'' \<and> cr_period r < month_start now
     then bindp (expire_stale_credit_requests f 2 now) (\<lambda>_. failp RequestExpired)
     else failp RequestResolved))"

record credit_request_info =
  cri_account :: int
  cri_email :: "string option"
  cri_display :: "string option"
  cri_monthly_grant :: "rat option"
  cri_balance :: rat
  cri_period :: day

definition get_credit_request_info :: "faults \<Rightarrow> int \<Rightarrow> db \<Rightarrow> store_error + credit_request_info" where
  "get_credit_request_info f i s = (if f 0 then Inl SqlFault else
     case row_of cr_id i (requests s) of None \<Rightarrow> Inl RequestNotFound | Some r \<Rightarrow>
     (case row_of ac_id (cr_account r) (accounts s) of None \<Rightarrow> Inl RequestNotFound | Some ac \<Rightarrow>
       let fi = find (\<lambda>x. fi_account x = cr_account r) (identities s) in
       Inr \<lparr>cri_account = cr_account r, cri_email = map_option fi_email fi, cri_display = map_option fi_display fi,
         cri_monthly_grant = map_option f_of_micros (ac_monthly_grant ac),
         cri_balance = balance_or_zero (cr_account r) s, cri_period = cr_period r\<rparr>))"

section \<open>The recorder\<close>

record notification =
  nt_request :: int
  nt_account :: int
  nt_email :: string
  nt_display :: string
  nt_grant :: rat
  nt_spent :: rat
  nt_period :: day

record recorder =
  rc_webhook :: string
  rc_default_grant :: rat

text \<open>
  deliver: at most two attempts, stopping at the first status below 300. \<open>post k\<close> is the
  outcome of attempt k, None for a transport error. The result lists the attempts made.
\<close>

fun deliver_from :: "(nat \<Rightarrow> int option) \<Rightarrow> nat \<Rightarrow> nat \<Rightarrow> nat \<times> bool" where
  "deliver_from post k 0 = (k, False)"
| "deliver_from post k (Suc n) = (case post k of Some st \<Rightarrow> if st < 300 then (Suc k, True) else deliver_from post (Suc k) n
     | None \<Rightarrow> deliver_from post (Suc k) n)"

definition deliver :: "(nat \<Rightarrow> int option) \<Rightarrow> nat \<times> bool" where
  "deliver post = deliver_from post 0 2"

definition make_notification :: "recorder \<Rightarrow> int \<Rightarrow> credit_request_info \<Rightarrow> notification" where
  "make_notification rc i info = (let grant = (case cri_monthly_grant info of None \<Rightarrow> rc_default_grant rc | Some g \<Rightarrow> g) in
     \<lparr>nt_request = i, nt_account = cri_account info,
      nt_email = (case cri_email info of None \<Rightarrow> [] | Some e \<Rightarrow> e),
      nt_display = (case cri_display info of None \<Rightarrow> [] | Some e \<Rightarrow> e),
      nt_grant = grant, nt_spent = fsub grant (cri_balance info), nt_period = cri_period info\<rparr>)"

text \<open>
  recordCapHit: the notification to deliver, if any, and the state. \<open>env\<close> is what other
  processes commit between the filing and the look-up. A nil recorder does nothing.
\<close>

definition record_cap_hit :: "(nat \<Rightarrow> faults) \<Rightarrow> (db \<Rightarrow> db) \<Rightarrow> gotime \<Rightarrow> recorder option \<Rightarrow> int \<Rightarrow> db \<Rightarrow> notification option \<times> db" where
  "record_cap_hit f env now rc a s = (case rc of None \<Rightarrow> (None, s) | Some r \<Rightarrow>
     (case file_credit_request (f 0) now a s of
        (Inl e, s1) \<Rightarrow> (None, s1)
      | (Inr (i, filed), s1) \<Rightarrow>
          if \<not> filed \<or> rc_webhook r = [] then (None, s1) else
          (case get_credit_request_info (f 1) i (env s1) of
             Inl e \<Rightarrow> (None, env s1)
           | Inr info \<Rightarrow> (Some (make_notification r i info), env s1))))"

section \<open>The admin handler\<close>

definition parse_credit_request_status :: "string \<Rightarrow> api_error + string" where
  "parse_credit_request_status raw = (if raw = [] then Inr ''pending''
     else if raw \<in> {''pending'', ''granted'', ''dismissed'', ''expired''} then Inr raw
     else Inl (api_err 400 ''invalid_status'' ''invalid_request_error''))"

definition resolve_credit_request_handler ::
  "faults \<Rightarrow> gotime \<Rightarrow> int option \<Rightarrow> (api_error + string \<times> string) \<Rightarrow> db \<Rightarrow> (api_error + int \<times> string) \<times> db" where
  "resolve_credit_request_handler f now path_id body s =
     (case path_id of None \<Rightarrow> (Inl (api_err 400 ''invalid_id'' ''invalid_request_error''), s) | Some i \<Rightarrow>
     (case body of Inl e \<Rightarrow> (Inl e, s) | Inr (status, note) \<Rightarrow>
      if status \<noteq> ''granted'' \<and> status \<noteq> ''dismissed'' then (Inl (api_err 400 ''invalid_status'' ''invalid_request_error''), s) else
      (case resolve_credit_request f now i status note s of
         (Inl RequestNotFound, s') \<Rightarrow> (Inl (api_err 404 ''not_found'' ''invalid_request_error''), s')
       | (Inl RequestResolved, s') \<Rightarrow> (Inl (api_err 409 ''already_resolved'' ''invalid_request_error''), s')
       | (Inl RequestExpired, s') \<Rightarrow> (Inl (api_err 409 ''request_expired'' ''invalid_request_error''), s')
       | (Inl e, s') \<Rightarrow> (Inl (api_err 500 ''internal_error'' ''server_error''), s')
       | (Inr _, s') \<Rightarrow> (Inr (i, status), s'))))"


section \<open>The life of a request\<close>

definition is_live :: "credit_request \<Rightarrow> bool" where
  "is_live r \<longleftrightarrow> cr_status r \<in> {''pending'', ''dismissed''}"

text \<open>At most one pending or dismissed row per account and month; ids are unique.\<close>

definition requests_inv :: "db \<Rightarrow> bool" where
  "requests_inv s \<longleftrightarrow> distinct (map cr_id (requests s)) \<and> (\<forall>r \<in> set (requests s). cr_id r < next_request s) \<and>
     distinct (map (\<lambda>r. (cr_account r, cr_period r)) (filter is_live (requests s)))"

text \<open>One row may only be closed, and only while it is pending.\<close>

definition row_step :: "credit_request \<Rightarrow> credit_request \<Rightarrow> bool" where
  "row_step r r' \<longleftrightarrow> cr_id r' = cr_id r \<and> cr_account r' = cr_account r \<and> cr_period r' = cr_period r \<and>
     cr_created r' = cr_created r \<and> (r' = r \<or> cr_status r = ''pending'' \<and> cr_status r' \<in> {''granted'', ''dismissed'', ''expired''})"

lemma row_step_refl [simp]: "row_step r r"
  by (simp add: row_step_def)

lemma row_step_live: "row_step r r' \<Longrightarrow> is_live r' \<Longrightarrow> is_live r"
  by (auto simp: row_step_def is_live_def)

lemma live_keys_close:
  assumes "list_all2 row_step rs rs'"
  shows "\<exists>ks. map (\<lambda>r. (cr_account r, cr_period r)) (filter is_live rs') = ks \<and>
     set ks \<subseteq> set (map (\<lambda>r. (cr_account r, cr_period r)) (filter is_live rs)) \<and>
     (distinct (map (\<lambda>r. (cr_account r, cr_period r)) (filter is_live rs)) \<longrightarrow> distinct ks)"
  using assms
proof (induction rule: list_all2_induct)
  case (Cons r rs r' rs')
  have k: "(cr_account r', cr_period r') = (cr_account r, cr_period r)" using Cons.hyps(1) by (simp add: row_step_def)
  then show ?case using Cons.IH row_step_live [OF Cons.hyps(1)] by (cases "is_live r'") auto
qed simp

lemma requests_inv_close:
  assumes "requests_inv s" "list_all2 row_step (requests s) (requests s')" "next_request s' = next_request s"
  shows "requests_inv s'"
proof -
  have ids: "map cr_id (requests s') = map cr_id (requests s)"
    using assms(2) by (induction rule: list_all2_induct) (auto simp: row_step_def)
  have b: "(\<forall>r \<in> set rs. cr_id r < n) \<longleftrightarrow> (\<forall>i \<in> set (map cr_id rs). i < n)" for rs n by simp
  have i: "distinct (map cr_id (requests s'))" "\<forall>r \<in> set (requests s'). cr_id r < next_request s'"
    using assms(1) unfolding requests_inv_def b ids assms(3) by blast+
  have "distinct (map (\<lambda>r. (cr_account r, cr_period r)) (filter is_live (requests s')))"
    using live_keys_close [OF assms(2)] assms(1) unfolding requests_inv_def by blast
  then show ?thesis using i unfolding requests_inv_def by blast
qed

lemma upd_where_row_step:
  assumes "\<And>r. p r \<Longrightarrow> row_step r (g r)" shows "list_all2 row_step rs (upd_where p g rs)"
  using assms by (induction rs) (auto simp: upd_where_def)

lemma list_all2_row_step_refl: "list_all2 row_step rs rs"
  by (simp add: list_all2_refl)

text \<open>What an operation does to the table: close some pending rows, or file one new row.\<close>

definition closes :: "db \<Rightarrow> db \<Rightarrow> bool" where
  "closes s s' \<longleftrightarrow> list_all2 row_step (requests s) (requests s') \<and> next_request s' = next_request s"

definition files :: "int \<Rightarrow> day \<Rightarrow> db \<Rightarrow> db \<Rightarrow> bool" where
  "files a m s s' \<longleftrightarrow> (\<forall>r \<in> set (requests s). \<not> live_request a m r) \<and> next_request s' = next_request s + 1 \<and>
     (\<exists>r. requests s' = requests s @ [r] \<and> cr_id r = next_request s \<and> cr_account r = a \<and> cr_period r = m \<and> cr_status r = ''pending'')"

lemma closes_refl [simp]: "closes s s"
  by (simp add: closes_def list_all2_row_step_refl)

lemma closes_fields: "requests s' = requests s \<Longrightarrow> next_request s' = next_request s \<Longrightarrow> closes s s'"
  by (simp add: closes_def list_all2_row_step_refl)

lemma expire_closes: "closes s (snd (expire_stale_credit_requests f k now s))"
  by (auto simp: expire_stale_credit_requests_def sql_def stmt_def modp_def closes_def row_step_def
      intro!: upd_where_row_step list_all2_row_step_refl)

lemma file_cases:
  obtains (none) "snd (file_credit_request f now a s) = s" "\<forall>i. fst (file_credit_request f now a s) \<noteq> Inr (i, True)"
  | (filed) "fst (file_credit_request f now a s) = Inr (next_request s, True)"
      "files a (month_start now) s (snd (file_credit_request f now a s))"
proof (cases "f 0 \<or> find (live_request a (month_start now)) (requests s) \<noteq> None \<or> row_of ac_id a (accounts s) = None")
  case True
  then show thesis using none by (auto simp: file_credit_request_def sql_def stmt_def)
next
  case False
  then show thesis using filed by (simp add: file_credit_request_def sql_def stmt_def files_def find_None_iff)
qed

lemma resolve_closes:
  assumes "status = ''granted'' \<or> status = ''dismissed''"
  shows "closes s (snd (resolve_credit_request f now i status note s))"
proof -
  let ?p = "\<lambda>r. cr_id r = i \<and> cr_status r = ''pending'' \<and> month_start now \<le> cr_period r"
  let ?g = "\<lambda>r::credit_request. r\<lparr>cr_status := status, cr_resolved := Some now, cr_note := (if note = [] then None else Some note)\<rparr>"
  let ?s1 = "s\<lparr>requests := upd_where ?p ?g (requests s)\<rparr>"
  have c1: "closes s ?s1" using assms by (auto simp: closes_def row_step_def intro!: upd_where_row_step)
  show ?thesis
  proof (cases "find ?p (requests s) = None")
    case False
    then show ?thesis using c1 by (auto simp: resolve_credit_request_def bindp_def sql_def stmt_def retp_def)
  next
    case True
    then have "upd_where ?p ?g (requests s) = requests s" by (intro upd_where_none) (auto simp: find_None_iff)
    then have "?s1 = s" by simp
    then have "snd (resolve_credit_request f now i status note s) \<in> {s, snd (expire_stale_credit_requests f 2 now s)}"
      using True by (auto simp: resolve_credit_request_def bindp_def sql_def stmt_def getp_def failp_def
          split: option.splits prod.splits sum.splits)
    then show ?thesis using expire_closes by auto
  qed
qed

lemma handler_closes: "closes s (snd (resolve_credit_request_handler f now i body s))"
proof (cases i)
  case (Some j)
  show ?thesis
  proof (cases body)
    case (Inr x)
    obtain status note' where x: "x = (status, note')" by (cases x)
    show ?thesis
    proof (cases "status = ''granted'' \<or> status = ''dismissed''")
      case True
      obtain r s' where r: "resolve_credit_request f now j status note' s = (r, s')"
        by (cases "resolve_credit_request f now j status note' s")
      have n: "(status \<noteq> ''granted'' \<and> status \<noteq> ''dismissed'') = False" using True by blast
      have "snd (resolve_credit_request_handler f now i body s) = s'"
        unfolding resolve_credit_request_handler_def Some Inr x option.case sum.case prod.case n r if_False
        by (simp split: sum.split store_error.split)
      then show ?thesis using resolve_closes [OF True, of s f now j note'] r by simp
    qed (simp add: resolve_credit_request_handler_def Some Inr x)
  qed (simp add: resolve_credit_request_handler_def Some)
qed (simp add: resolve_credit_request_handler_def)

lemma files_inv:
  assumes "requests_inv s" "files a m s s'" shows "requests_inv s'"
proof -
  obtain r where r: "requests s' = requests s @ [r]" "cr_id r = next_request s" "cr_account r = a" "cr_period r = m"
    and l: "\<forall>x \<in> set (requests s). \<not> live_request a m x" and n: "next_request s' = next_request s + 1"
    using assms(2) by (auto simp: files_def)
  have "(a, m) \<notin> (\<lambda>r. (cr_account r, cr_period r)) ` set (filter is_live (requests s))"
    using l by (auto simp: live_request_def is_live_def)
  then show ?thesis using assms(1) r n by (fastforce simp: requests_inv_def)
qed

datatype request_op = CapHit int | ListRequests string | ResolveRequest "int option" "api_error + string \<times> string"

fun run_request_op :: "faults \<times> gotime \<times> request_op \<Rightarrow> db \<Rightarrow> db" where
  "run_request_op (f, now, CapHit a) s = snd (file_credit_request f now a s)"
| "run_request_op (f, now, ListRequests status) s = snd (list_credit_requests f status now s)"
| "run_request_op (f, now, ResolveRequest i body) s = snd (resolve_credit_request_handler f now i body s)"

lemma run_request_op_step:
  "closes s (run_request_op op s) \<or> (\<exists>a m. files a m s (run_request_op op s))"
proof -
  obtain f now x where op: "op = (f, now, x)" by (cases op)
  show ?thesis
  proof (cases x)
    case (CapHit a)
    show ?thesis by (cases rule: file_cases [of f now a s]) (auto simp: op CapHit)
  next
    case (ListRequests st)
    have "closes s (snd (list_credit_requests f st now s))"
      using expire_closes [of s f 0 now]
      by (auto simp: list_credit_requests_def bindp_def sql_def stmt_def getp_def split: prod.splits sum.splits)
    then show ?thesis by (simp add: op ListRequests)
  next
    case (ResolveRequest i body)
    then show ?thesis using handler_closes by (simp add: op)
  qed
qed

definition keeps_closed :: "db \<Rightarrow> db \<Rightarrow> bool" where
  "keeps_closed s s' \<longleftrightarrow> (\<forall>r \<in> set (requests s). cr_status r \<noteq> ''pending'' \<longrightarrow> r \<in> set (requests s'))"

lemma closes_keeps: assumes "closes s s'" shows "keeps_closed s s'"
proof -
  have "list_all2 row_step rs rs' \<Longrightarrow> r \<in> set rs \<Longrightarrow> cr_status r \<noteq> ''pending'' \<Longrightarrow> r \<in> set rs'" for rs rs' r
    by (induction rule: list_all2_induct) (auto simp: row_step_def)
  then show ?thesis using assms by (auto simp: keeps_closed_def closes_def)
qed

lemma run_request_ops:
  assumes "requests_inv s"
  shows "requests_inv (fold run_request_op ops s) \<and> keeps_closed s (fold run_request_op ops s)"
  using assms
proof (induction ops arbitrary: s)
  case (Cons op ops)
  have "requests_inv (run_request_op op s) \<and> keeps_closed s (run_request_op op s)"
    using run_request_op_step [of s op]
  proof
    assume c: "closes s (run_request_op op s)"
    then have "requests_inv (run_request_op op s)" using requests_inv_close [OF Cons.prems] by (simp add: closes_def)
    then show ?thesis using closes_keeps [OF c] by blast
  next
    assume "\<exists>a m. files a m s (run_request_op op s)"
    then obtain a m where g: "files a m s (run_request_op op s)" by blast
    then have "keeps_closed s (run_request_op op s)" by (auto simp: files_def keeps_closed_def)
    then show ?thesis using files_inv [OF Cons.prems g] by blast
  qed
  moreover from this have "keeps_closed (run_request_op op s) (fold run_request_op ops (run_request_op op s))"
    using Cons.IH by blast
  ultimately show ?case using Cons.IH by (simp add: keeps_closed_def)
qed (simp add: keeps_closed_def)


lemma files_exactly:
  "fst (file_credit_request no_faults now a s) = Inr (next_request s, True) \<longleftrightarrow>
     row_of ac_id a (accounts s) \<noteq> None \<and> (\<forall>r \<in> set (requests s). \<not> live_request a (month_start now) r)"
  by (auto simp: file_credit_request_def sql_def stmt_def find_None_iff)

lemma resolve_exactly:
  assumes inv: "requests_inv s" and r: "resolve_credit_request f now i status remark s = (Inr (), s')"
  obtains x where "x \<in> set (requests s)" "cr_id x = i" "cr_status x = ''pending''" "month_start now \<le> cr_period x"
    "requests s' = upd_where (\<lambda>r. cr_id r = i) (\<lambda>r. r\<lparr>cr_status := status, cr_resolved := Some now,
       cr_note := (if remark = [] then None else Some remark)\<rparr>) (requests s)"
proof -
  let ?p = "\<lambda>r. cr_id r = i \<and> cr_status r = ''pending'' \<and> month_start now \<le> cr_period r"
  have h: "find ?p (requests s) \<noteq> None \<and> requests s' = upd_where ?p (\<lambda>r. r\<lparr>cr_status := status, cr_resolved := Some now,
       cr_note := (if remark = [] then None else Some remark)\<rparr>) (requests s)"
    using r by (auto simp: resolve_credit_request_def ledger_run Let_def split: option.splits if_splits)
  then obtain x where x: "x \<in> set (requests s)" "?p x" by (auto simp: find_None_iff)
  have "y = x" if "y \<in> set (requests s)" "cr_id y = i" for y
    using inv x that by (auto simp: requests_inv_def distinct_map inj_on_def)
  then have "upd_where ?p g (requests s) = upd_where (\<lambda>r. cr_id r = i) g (requests s)" for g
    using x unfolding upd_where_def by (intro map_cong [OF refl]) auto
  then show thesis using that x h by simp
qed

text \<open>
  C39: The life of a credit request. Over any sequence of cap hits, admin listings and resolutions,
  at any times and with any statements failing, an account has at most one pending or dismissed
  request per month; a request that is granted, dismissed or expired never changes again. At any
  point a cap hit that meets no failure files a new request exactly when the account exists and
  has no pending or dismissed one for the month, so a granted request does not keep it from asking
  again in the same month; and a resolution succeeds only by closing a pending request of the
  current month or later, and changes that row alone.
\<close>
theorem request_lifecycle:
  assumes "requests_inv s" "s2 = fold run_request_op ops s"
  shows "requests_inv s2 \<and>
    (\<forall>r \<in> set (requests s). cr_status r \<noteq> ''pending'' \<longrightarrow> r \<in> set (requests s2)) \<and>
    (\<forall>now a. fst (file_credit_request no_faults now a s2) = Inr (next_request s2, True) \<longleftrightarrow>
       row_of ac_id a (accounts s2) \<noteq> None \<and> (\<forall>r \<in> set (requests s2). \<not> live_request a (month_start now) r)) \<and>
    (\<forall>f now i status remark s3. resolve_credit_request f now i status remark s2 = (Inr (), s3) \<longrightarrow>
       (\<exists>r \<in> set (requests s2). cr_id r = i \<and> cr_status r = ''pending'' \<and> month_start now \<le> cr_period r) \<and>
       requests s3 = upd_where (\<lambda>r. cr_id r = i) (\<lambda>r. r\<lparr>cr_status := status, cr_resolved := Some now,
         cr_note := (if remark = [] then None else Some remark)\<rparr>) (requests s2))"
proof (intro conjI allI impI)
  have k: "requests_inv s2 \<and> keeps_closed s s2" unfolding assms(2) by (rule run_request_ops [OF assms(1)])
  then show inv: "requests_inv s2" by blast
  show "\<forall>r \<in> set (requests s). cr_status r \<noteq> ''pending'' \<longrightarrow> r \<in> set (requests s2)"
    using k by (simp add: keeps_closed_def)
  show "(fst (file_credit_request no_faults now a s2) = Inr (next_request s2, True)) =
       (row_of ac_id a (accounts s2) \<noteq> None \<and> (\<forall>r \<in> set (requests s2). \<not> live_request a (month_start now) r))" for now a
    by (rule files_exactly)
  fix f now i status remark s3
  assume r: "resolve_credit_request f now i status remark s2 = (Inr (), s3)"
  show "\<exists>r \<in> set (requests s2). cr_id r = i \<and> cr_status r = ''pending'' \<and> month_start now \<le> cr_period r"
    "requests s3 = upd_where (\<lambda>r. cr_id r = i) (\<lambda>r. r\<lparr>cr_status := status, cr_resolved := Some now,
         cr_note := (if remark = [] then None else Some remark)\<rparr>) (requests s2)"
    by (rule resolve_exactly [OF inv r]; blast)+
qed

text \<open>A request is filed, granted, and the account may ask again in the same month; once dismissed, not.\<close>

definition request_db :: db where
  "request_db = one_hold_db\<lparr>requests := [\<lparr>cr_id = 1, cr_account = 1, cr_period = month_start 0, cr_status = ''dismissed'',
     cr_created = 5, cr_resolved = Some 6, cr_note = None\<rparr>], next_request := 2\<rparr>"

definition february :: gotime where "february = 40 * 24 * hour"

definition request_events :: "(faults \<times> gotime \<times> request_op) list" where
  "request_events = [(no_faults, 100, CapHit 1), (no_faults, february, CapHit 1), (no_faults, february, CapHit 1),
     (no_faults, february, ResolveRequest (Some 2) (Inr (''granted'', [])))]"

theorem request_lifecycle_witness:
  "map cr_status (requests (fold run_request_op request_events request_db)) = [''dismissed'', ''granted''] \<and>
   fst (file_credit_request no_faults february 1 (fold run_request_op request_events request_db)) = Inr (3, True) \<and>
   fst (file_credit_request no_faults 100 1 (fold run_request_op request_events request_db)) \<noteq> Inr (3, True)"
proof -
  let ?s = "fold run_request_op request_events request_db"
  have i: "requests_inv request_db" by (simp add: requests_inv_def request_db_def is_live_def)
  have e: "(map cr_status (requests ?s), next_request ?s, row_of ac_id 1 (accounts ?s) \<noteq> None,
      list_all (\<lambda>r. \<not> live_request 1 (month_start february) r) (requests ?s), list_all (\<lambda>r. \<not> live_request 1 (month_start 100) r) (requests ?s)) =
    ([''dismissed'', ''granted''], 3, True, True, False)"
    by code_simp
  note t = request_lifecycle [OF i refl, of request_events]
  have "(fst (file_credit_request no_faults now 1 ?s) = Inr (next_request ?s, True)) =
       (row_of ac_id 1 (accounts ?s) \<noteq> None \<and> list_all (\<lambda>r. \<not> live_request 1 (month_start now) r) (requests ?s))" for now
    using t by (simp add: list_all_iff)
  then show ?thesis using e by simp
qed

section \<open>Notifications\<close>

lemma deliver_from_bound: "k \<le> fst (deliver_from post k n) \<and> fst (deliver_from post k n) \<le> k + n"
  by (induction n arbitrary: k) (auto split: option.splits, (metis Suc_leD add_Suc_shift add_Suc_right)+)

text \<open>
  One notification per filed request. RecordCapHit produces a notification only when this
  call filed the request it names; while the account has a pending or dismissed request for
  the month it files nothing and notifies nobody, so a capped user retrying, or a dismissed
  one, is silent; and a delivery makes one or two attempts, the second only after a failed
  first one.
\<close>
theorem cap_hit_notifies_once:
  assumes "record_cap_hit g env now rc a s = (r, s')"
  shows "(\<forall>n. r = Some n \<longrightarrow> nt_request n = next_request s \<and> rc \<noteq> None \<and>
       files a (month_start now) s (snd (file_credit_request (g 0) now a s))) \<and>
    ((\<exists>x \<in> set (requests s). live_request a (month_start now) x) \<longrightarrow> r = None \<and> s' = s) \<and>
    (\<forall>post. fst (deliver post) \<in> {1, 2} \<and> (fst (deliver post) = 2 \<longrightarrow> \<not> (\<exists>st. post 0 = Some st \<and> st < 300)))"
proof (intro conjI allI impI)
  fix n assume n: "r = Some n"
  show "nt_request n = next_request s" "rc \<noteq> None" "files a (month_start now) s (snd (file_credit_request (g 0) now a s))"
    using assms n
    by (cases rule: file_cases [of "g 0" now a s];
        cases "file_credit_request (g 0) now a s";
        auto simp: record_cap_hit_def make_notification_def Let_def split: option.splits sum.splits prod.splits if_splits)+
next
  assume l: "\<exists>x \<in> set (requests s). live_request a (month_start now) x"
  then have "find (live_request a (month_start now)) (requests s) \<noteq> None" by (auto simp: find_None_iff)
  then have "file_credit_request (g 0) now a s = (if g 0 0 then Inl SqlFault else Inr (0, False), s)"
    by (simp add: file_credit_request_def sql_def stmt_def)
  then have "record_cap_hit g env now rc a s = (None, s)"
    by (auto simp: record_cap_hit_def split: option.splits)
  then show "r = None" "s' = s" using assms by simp_all
next
  fix post :: "nat \<Rightarrow> int option"
  show "fst (deliver post) \<in> {1, 2}"
    by (auto simp: deliver_def numeral_2_eq_2 split: option.splits)
  show "\<not> (\<exists>st. post 0 = Some st \<and> st < 300)" if "fst (deliver post) = 2"
    using that by (auto simp: deliver_def numeral_2_eq_2 split: option.splits)
qed

theorem cap_hit_notifies_once_witness:
  "fst (record_cap_hit (\<lambda>_. no_faults) (\<lambda>s. s) 100 (Some \<lparr>rc_webhook = ''u'', rc_default_grant = 20\<rparr>) 1 one_hold_db) =
     Some \<lparr>nt_request = 1, nt_account = 1, nt_email = [], nt_display = [], nt_grant = 20, nt_spent = 10, nt_period = month_start 100\<rparr> \<and>
   fst (record_cap_hit (\<lambda>_. no_faults) (\<lambda>s. s) 100 (Some \<lparr>rc_webhook = ''u'', rc_default_grant = 20\<rparr>) 1 request_db) = None"
proof
  show "fst (record_cap_hit (\<lambda>_. no_faults) (\<lambda>s. s) 100 (Some \<lparr>rc_webhook = ''u'', rc_default_grant = 20\<rparr>) 1 one_hold_db) =
     Some \<lparr>nt_request = 1, nt_account = 1, nt_email = [], nt_display = [], nt_grant = 20, nt_spent = 10, nt_period = month_start 100\<rparr>"
    by code_simp
  have m: "month_start 100 = month_start 0" by code_simp
  have "\<exists>x \<in> set (requests request_db). live_request 1 (month_start 100) x"
    by (simp add: request_db_def live_request_def m)
  then show "fst (record_cap_hit (\<lambda>_. no_faults) (\<lambda>s. s) 100 (Some \<lparr>rc_webhook = ''u'', rc_default_grant = 20\<rparr>) 1 request_db) = None"
    using cap_hit_notifies_once [OF prod.collapse [symmetric], of "\<lambda>_. no_faults" "\<lambda>s. s" 100 "Some \<lparr>rc_webhook = ''u'', rc_default_grant = 20\<rparr>" 1 request_db]
    by blast
qed

end
