(* ===== verification/TokenBucket.thy ===== *)
theory TokenBucket
  imports GoTime
begin

text \<open>
  The token bucket the gateway's limiters share. internal/ratelimit, internal/authlimit and
  internal/admin each keep their own copy of it; the common arithmetic is \<open>refilled\<close>, the
  common contract the locale \<open>token_bucket\<close>, from which the bound on the requests a key can
  pass in a window follows once for all of them.
\<close>

section \<open>Refill arithmetic\<close>

definition refilled :: "rat \<Rightarrow> rat \<Rightarrow> rat \<Rightarrow> duration \<Rightarrow> rat" where
  "refilled cap rate x d = min cap (fadd x (fmul (duration_seconds d) rate))"

definition bucket_err :: rat where "bucket_err = 1 / 10 ^ 9"

lemma refilled_le_cap: "refilled cap rate x d \<le> cap"
  by (simp add: refilled_def)

lemma rnd64_upper: "0 \<le> x \<Longrightarrow> rnd64 x \<le> x + x / 2 ^ 53 + 1 / 10 ^ 30"
  using rnd64_error [of x] tiny_powi by (simp add: abs_le_iff)

lemma rnd64_lower: "0 \<le> x \<Longrightarrow> x - x / 2 ^ 53 - 1 / 10 ^ 30 \<le> rnd64 x"
  using rnd64_error [of x] tiny_powi by (simp add: abs_le_iff)

lemma duration_seconds_split:
  assumes "0 \<le> d" "d < 2 ^ 63"
  shows "duration_seconds d = rnd64 (of_int (d div second) + rnd64 (of_int (d mod second) / 1000000000))"
proof -
  have "d div second < 2 ^ 53" "d mod second < 2 ^ 53" "0 \<le> d div second" "0 \<le> d mod second"
    using assms by (auto simp: second_def pos_imp_zdiv_nonneg_iff)
  then show ?thesis using assms
    by (simp add: duration_seconds_def fadd_def fdivc_def go_rem_def go_div_nonneg second_def
        minus_mult_div_eq_mod)
qed

lemma sum_error:
  fixes q r s :: rat
  assumes "0 \<le> r" "r \<le> 1" "s \<le> 61" "q \<le> r + r / 2 ^ 53 + 1 / 10 ^ 30"
  shows "s + q + (s + q) / 2 ^ 53 + 1 / 10 ^ 30 \<le> s + r + 1 / 10 ^ 14"
  using assms by (simp add: field_simps)

text \<open>Up to a minute-scale window the conversion to seconds is exact to ten decimals and more.\<close>

lemma duration_seconds_upper:
  assumes "0 \<le> d" "d \<le> 61 * second"
  shows "duration_seconds d \<le> of_int d / 10 ^ 9 + 1 / 10 ^ 14"
proof -
  let ?s = "of_int (d div second) :: rat" and ?r = "of_int (d mod second) / 1000000000 :: rat"
  have d: "of_int d / 10 ^ 9 = ?s + ?r"
  proof -
    have "of_int d = (of_int (second * (d div second) + d mod second) :: rat)" by simp
    then show ?thesis by (simp only: of_int_add of_int_mult second_def) (simp add: field_simps)
  qed
  have s: "0 \<le> ?s" using assms by (simp add: second_def pos_imp_zdiv_nonneg_iff)
  have "d div second \<le> 61" using assms by (simp add: second_def)
  then have s': "?s \<le> 61" by simp
  have "0 \<le> d mod second" "d mod second < second" by (simp_all add: second_def)
  then have r: "0 \<le> ?r" "?r \<le> 1" by (simp_all add: second_def)
  have q: "rnd64 ?r \<le> ?r + ?r / 2 ^ 53 + 1 / 10 ^ 30" by (rule rnd64_upper [OF r(1)])
  have q0: "0 \<le> rnd64 ?r" by (rule f64.rd_nonneg [OF r(1)])
  have "rnd64 (?s + rnd64 ?r) \<le> ?s + rnd64 ?r + (?s + rnd64 ?r) / 2 ^ 53 + 1 / 10 ^ 30"
    using s q0 by (intro rnd64_upper) simp
  also have "\<dots> \<le> ?s + ?r + 1 / 10 ^ 14" by (rule sum_error [OF r s' q])
  finally have "rnd64 (?s + rnd64 ?r) \<le> of_int d / 10 ^ 9 + 1 / 10 ^ 14" unfolding d .
  moreover have "d < 2 ^ 63" using assms by (simp add: second_def)
  ultimately show ?thesis using duration_seconds_split [OF assms(1)] by simp
qed

lemma duration_seconds_mono:
  assumes "0 \<le> d" "d \<le> e" "e < 2 ^ 63"
  shows "duration_seconds d \<le> duration_seconds e"
proof (cases "d div second = e div second")
  case True
  have "d mod second \<le> e mod second"
    using assms True by (simp add: minus_div_mult_eq_mod [symmetric])
  then have "rnd64 (of_int (d mod second) / 1000000000) \<le> rnd64 (of_int (e mod second) / 1000000000)"
    by (intro rnd64_mono divide_right_mono) simp_all
  then show ?thesis using assms True by (simp add: duration_seconds_split rnd64_mono)
next
  case False
  have "d div second \<le> e div second" using assms by (simp add: second_def zdiv_mono1)
  then have lt: "d div second + 1 \<le> e div second" using False by simp
  have "d mod second \<le> second" by (simp add: second_def)
  then have "rnd64 (of_int (d mod second) / 1000000000) \<le> of_int 1"
    by (intro f64.rd_le_int) (simp_all add: second_def)
  moreover have "0 \<le> rnd64 (of_int (e mod second) / 1000000000)"
    by (intro f64.rd_nonneg) (simp add: second_def)
  moreover have "(of_int (d div second) :: rat) + 1 \<le> of_int (e div second)"
    using lt by (metis of_int_1 of_int_add of_int_le_iff)
  ultimately show ?thesis using assms by (simp add: duration_seconds_split rnd64_mono)
qed

lemma duration_seconds_whole:
  "0 \<le> n \<Longrightarrow> n \<le> 9000000000 \<Longrightarrow> duration_seconds (n * second) = of_int n"
proof -
  assume n: "0 \<le> n" "n \<le> 9000000000"
  have "n * second < 2 ^ 63" using n by (simp add: second_def)
  then show ?thesis using n
    by (simp add: duration_seconds_split second_def rnd64_int)
qed

text \<open>The refill rate in tokens per second, float64(limit) / 60.0.\<close>

definition bucket_rate :: "int \<Rightarrow> rat" where
  "bucket_rate R = fdivc (f_of_int R) 60"

lemma bucket_rate_bounds:
  assumes "1 \<le> R" "R \<le> 10000"
  shows "of_int R / 60 - 1 / 10 ^ 13 \<le> bucket_rate R" "bucket_rate R \<le> of_int R / 60 + 1 / 10 ^ 13"
    "of_int R \<le> 600 * bucket_rate R"
proof -
  have r: "(1::rat) \<le> of_int R" "(of_int R :: rat) \<le> 10000" using assms by simp_all
  have e: "bucket_rate R = rnd64 (of_int R / 60)" using assms by (simp add: bucket_rate_def fdivc_def)
  have u: "rnd64 (of_int R / 60) \<le> of_int R / 60 + of_int R / 60 / 2 ^ 53 + 1 / 10 ^ 30"
    using r by (intro rnd64_upper) simp
  have l: "of_int R / 60 - of_int R / 60 / 2 ^ 53 - 1 / 10 ^ 30 \<le> rnd64 (of_int R / 60)"
    using r by (intro rnd64_lower) simp
  show "of_int R / 60 - 1 / 10 ^ 13 \<le> bucket_rate R" using l r unfolding e by simp
  show "bucket_rate R \<le> of_int R / 60 + 1 / 10 ^ 13" using u r unfolding e by simp
  show "of_int R \<le> 600 * bucket_rate R" using l r unfolding e by simp
qed

lemma product_error:
  fixes a b R d :: rat
  assumes "0 \<le> a" "0 \<le> b" "a \<le> d / 10 ^ 9 + 1 / 10 ^ 14" "b \<le> R / 60 + 1 / 10 ^ 13"
    and "0 \<le> d" "d \<le> 60 * 10 ^ 9" "0 \<le> R" "R \<le> 10000"
  shows "a * b \<le> R * d / (60 * 10 ^ 9) + 1 / 10 ^ 11"
proof -
  have "a * b \<le> (d / 10 ^ 9 + 1 / 10 ^ 14) * (R / 60 + 1 / 10 ^ 13)"
    using assms by (intro mult_mono) auto
  also have "\<dots> = R * d / (60 * 10 ^ 9) + d / 10 ^ 22 + R / (60 * 10 ^ 14) + 1 / 10 ^ 27"
    by (simp add: field_simps)
  also have "\<dots> \<le> R * d / (60 * 10 ^ 9) + 1 / 10 ^ 11" using assms by simp
  finally show ?thesis .
qed

lemma cap_reached: "(c::rat) - x \<le> g \<Longrightarrow> r \<le> c \<Longrightarrow> 0 \<le> e \<Longrightarrow> r \<le> x + g + e"
  by linarith

text \<open>A refill never creates more than the elapsed time is worth, but for the rounding.\<close>

lemma refilled_growth:
  assumes R: "1 \<le> R" "R \<le> 10000" and x: "0 \<le> x" "x \<le> of_int R" and d: "0 \<le> d"
  shows "refilled (of_int R) (bucket_rate R) x d \<le> x + of_int R * of_int d / (60 * 10 ^ 9) + 1 / 10 ^ 10"
proof (cases "of_int R - x \<le> of_int R * of_int d / (60 * 10 ^ 9)")
  case True
  show ?thesis by (rule cap_reached [OF True refilled_le_cap]) simp
next
  case False
  define g where "g = of_int R * of_int d / (60 * 10 ^ 9 :: rat)"
  have r: "(1::rat) \<le> of_int R" "(of_int R :: rat) \<le> 10000" using R by simp_all
  have "g < of_int R - x" using False by (simp only: g_def not_le)
  moreover have "0 \<le> g" using r d by (simp add: g_def)
  ultimately have g: "0 \<le> g" "g \<le> of_int R" using x by linarith+
  then have "of_int R * of_int d \<le> of_int R * (60 * 10 ^ 9 :: rat)" by (simp add: g_def field_simps)
  moreover have "(0::rat) < of_int R" using r by linarith
  ultimately have d': "(of_int d :: rat) \<le> 60 * 10 ^ 9" by (rule mult_left_le_imp_le)
  then have "(of_int d :: rat) \<le> of_int 60000000000" by simp
  then have "d \<le> 60000000000" by (simp only: of_int_le_iff)
  then have "duration_seconds d \<le> of_int d / 10 ^ 9 + 1 / 10 ^ 14"
    using d by (intro duration_seconds_upper) (simp_all add: second_def)
  moreover have s0: "0 \<le> duration_seconds d" by (rule duration_seconds_nonneg [OF d])
  moreover have b0: "0 \<le> bucket_rate R"
    using r by (simp add: bucket_rate_def fdivc_def f_of_int_def f64.rd_nonneg)
  ultimately have p: "duration_seconds d * bucket_rate R \<le> g + 1 / 10 ^ 11"
    unfolding g_def using bucket_rate_bounds(2) [OF R] d d' r by (intro product_error) simp_all
  define p where "p = duration_seconds d * bucket_rate R"
  have p': "0 \<le> p" "p \<le> g + 1 / 10 ^ 11" using s0 b0 p by (simp_all add: p_def)
  have m: "rnd64 p \<le> g + 2 / 10 ^ 11" "0 \<le> rnd64 p"
    using rnd64_upper [OF p'(1)] p'(2) g r f64.rd_nonneg [OF p'(1)] by (simp_all add: field_simps)
  have "0 \<le> x + rnd64 p" using x m by simp
  then have "rnd64 (x + rnd64 p) \<le> x + g + 1 / 10 ^ 10"
    using rnd64_upper [of "x + rnd64 p"] m x r g by (simp add: field_simps)
  then show ?thesis by (simp add: refilled_def fadd_def fmul_def p_def g_def)
qed

lemma refilled_nonneg: "1 \<le> R \<Longrightarrow> 0 \<le> x \<Longrightarrow> 0 \<le> d \<Longrightarrow> 0 \<le> refilled (of_int R) (bucket_rate R) x d"
  unfolding refilled_def fadd_def fmul_def bucket_rate_def fdivc_def f_of_int_def
  by (auto intro!: f64.rd_nonneg add_nonneg_nonneg mult_nonneg_nonneg duration_seconds_nonneg)

text \<open>Ten idle minutes fill any bucket, so evicting one after that is not observable.\<close>

lemma refilled_full:
  assumes R: "1 \<le> R" "R \<le> 10000" and x: "0 \<le> x" and d: "600 * second \<le> d" "d < 2 ^ 63"
  shows "refilled (of_int R) (bucket_rate R) x d = of_int R"
proof -
  have "duration_seconds (600 * second) \<le> duration_seconds d"
    using d by (intro duration_seconds_mono) (simp_all add: second_def)
  then have s: "600 \<le> duration_seconds d" using duration_seconds_whole [of 600] by simp
  have b: "0 \<le> bucket_rate R" using bucket_rate_bounds(3) [OF R] R by simp
  have "of_int R \<le> 600 * bucket_rate R" by (rule bucket_rate_bounds(3) [OF R])
  also have "\<dots> \<le> duration_seconds d * bucket_rate R" using s b by (intro mult_right_mono) auto
  finally have "of_int R \<le> fmul (duration_seconds d) (bucket_rate R)"
    using R by (simp add: fmul_def f64.rd_ge_int)
  then have "of_int R \<le> fadd x (fmul (duration_seconds d) (bucket_rate R))"
    using x R by (simp add: fadd_def f64.rd_ge_int)
  then show ?thesis by (simp add: refilled_def)
qed

lemma fsub_one:
  assumes "1 \<le> y" "y \<le> of_int R" "R \<le> 10000"
  shows "0 \<le> fsub y 1" "fsub y 1 \<le> of_int R" "fsub y 1 + 1 \<le> y + 1 / 10 ^ 11"
proof -
  have y: "0 \<le> y - 1" "y - 1 \<le> of_int R" "y \<le> 10000"
    using assms by (auto intro: order_trans)
  have R: "\<bar>R\<bar> \<le> 2 ^ 53" using assms y(1,2) by simp
  show "0 \<le> fsub y 1" using y by (simp add: fsub_def f64.rd_nonneg)
  show "fsub y 1 \<le> of_int R" using y R by (simp add: fsub_def f64.rd_le_int)
  show "fsub y 1 + 1 \<le> y + 1 / 10 ^ 11"
    using rnd64_upper [OF y(1)] y by (simp add: fsub_def field_simps)
qed

section \<open>The limiter contract\<close>

text \<open>
  A sequence of requests, each with its time and its key, served one after the other by an
  Allow operation, and how many requests of one key it let through.
\<close>

fun run_limiter :: "('l \<Rightarrow> gotime \<Rightarrow> 'k \<Rightarrow> bool \<times> 'l) \<Rightarrow> 'l \<Rightarrow> (gotime \<times> 'k) list \<Rightarrow> bool list" where
  "run_limiter al l [] = []"
| "run_limiter al l ((t, k) # rs) = fst (al l t k) # run_limiter al (snd (al l t k)) rs"

fun granted :: "'k \<Rightarrow> (gotime \<times> 'k) list \<Rightarrow> bool list \<Rightarrow> nat" where
  "granted k ((t, k') # rs) (b # bs) = (if k' = k \<and> b then 1 else 0) + granted k rs bs"
| "granted k _ _ = 0"

locale token_bucket =
  fixes allow :: "'l \<Rightarrow> gotime \<Rightarrow> 'k \<Rightarrow> bool \<times> 'l"
    and level :: "'l \<Rightarrow> 'k \<Rightarrow> rat option"
    and stamp :: "'l \<Rightarrow> 'k \<Rightarrow> gotime"
    and cap :: rat
    and rate :: rat
    and err :: rat
  assumes rate_nonneg: "0 \<le> rate" and err_nonneg: "0 \<le> err" and cap_ge_1: "1 \<le> cap"
    and fresh: "level l k = None \<Longrightarrow> fst (allow l t k) \<and> level (snd (allow l t k)) k = Some (cap - 1)"
    and stamped: "stamp (snd (allow l t k)) k = t"
    and known: "level l k = Some x \<Longrightarrow> 0 \<le> x \<Longrightarrow> x \<le> cap \<Longrightarrow> stamp l k \<le> t \<Longrightarrow>
      \<exists>y. level (snd (allow l t k)) k = Some y \<and> 0 \<le> y \<and> y \<le> cap \<and>
          y + (if fst (allow l t k) then 1 else 0) \<le> x + rate * of_int (t - stamp l k) + err"
    and frame: "k' \<noteq> k \<Longrightarrow>
      level (snd (allow l t k)) k' = level l k' \<and> stamp (snd (allow l t k)) k' = stamp l k'"
begin

lemma granted_known:
  assumes "level l k = Some x" "0 \<le> x" "x \<le> cap"
    and "sorted (map fst rs)" "\<forall>r \<in> set rs. stamp l k \<le> fst r \<and> fst r \<le> T" "stamp l k \<le> T"
  shows "of_nat (granted k rs (run_limiter allow l rs)) \<le>
    x + rate * of_int (T - stamp l k) + err * of_nat (length rs)"
  using assms
proof (induction rs arbitrary: l x)
  case Nil
  then show ?case using rate_nonneg by simp
next
  case (Cons r rs)
  obtain t k' where r: "r = (t, k')" by (cases r)
  let ?l = "snd (allow l t k')"
  show ?case
  proof (cases "k' = k")
    case False
    then have f: "level ?l k = Some x" "stamp ?l k = stamp l k"
      using frame [of k k'] Cons.prems(1) by simp_all
    have "of_nat (granted k rs (run_limiter allow ?l rs)) \<le>
        x + rate * of_int (T - stamp ?l k) + err * of_nat (length rs)"
      using Cons.prems f by (intro Cons.IH) auto
    then show ?thesis using False f err_nonneg by (simp add: r distrib_left)
  next
    case True
    have st: "stamp l k \<le> t" "t \<le> T" using Cons.prems by (auto simp: r)
    obtain y where y: "level ?l k = Some y" "0 \<le> y" "y \<le> cap"
        "y + (if fst (allow l t k') then 1 else 0) \<le> x + rate * of_int (t - stamp l k) + err"
      using known [OF Cons.prems(1-3) st(1)] True by blast
    have s: "stamp ?l k = t" using stamped True by simp
    have "of_nat (granted k rs (run_limiter allow ?l rs)) \<le>
        y + rate * of_int (T - stamp ?l k) + err * of_nat (length rs)"
      using Cons.prems y st s by (intro Cons.IH) (auto simp: r)
    then show ?thesis using True y(4) s
      by (simp add: r distrib_left right_diff_distrib split: if_splits)
  qed
qed

text \<open>
  The burst bound: from the first request on, a key passes at most its capacity, plus what
  the elapsed time refills, plus the accumulated rounding.
\<close>

lemma burst:
  assumes "level l k = None" and "sorted (map fst rs)"
    and "\<forall>r \<in> set rs. t0 \<le> fst r \<and> fst r \<le> T" and "t0 \<le> T"
  shows "of_nat (granted k rs (run_limiter allow l rs)) \<le>
    cap + rate * of_int (T - t0) + err * of_nat (length rs)"
  using assms
proof (induction rs arbitrary: l)
  case Nil
  then show ?case using rate_nonneg cap_ge_1 by simp
next
  case (Cons r rs)
  obtain t k' where r: "r = (t, k')" by (cases r)
  let ?l = "snd (allow l t k')"
  show ?case
  proof (cases "k' = k")
    case False
    then have "level ?l k = None" using frame [of k k'] Cons.prems(1) by simp
    then have "of_nat (granted k rs (run_limiter allow ?l rs)) \<le>
        cap + rate * of_int (T - t0) + err * of_nat (length rs)"
      using Cons.prems by (intro Cons.IH) auto
    then show ?thesis using False err_nonneg by (simp add: r distrib_left)
  next
    case True
    have f: "fst (allow l t k')" "level ?l k = Some (cap - 1)" "stamp ?l k = t"
      using fresh [OF Cons.prems(1)] stamped True by simp_all
    have t: "t0 \<le> t" "t \<le> T" using Cons.prems by (auto simp: r)
    have "of_nat (granted k rs (run_limiter allow ?l rs)) \<le>
        cap - 1 + rate * of_int (T - stamp ?l k) + err * of_nat (length rs)"
      using Cons.prems f t cap_ge_1 by (intro granted_known) (auto simp: r)
    moreover have "rate * of_int (T - t) \<le> rate * of_int (T - t0)"
      using t rate_nonneg by (intro mult_left_mono) simp_all
    ultimately show ?thesis using True f err_nonneg by (simp add: r distrib_left)
  qed
qed

end

section \<open>The budget of one key\<close>

text \<open>
  A limiter that is never told when a window starts: its operations (requests, refunds,
  evictions) arrive with their times, each lets in a net number of requests of the key in
  question, and a potential bounds what the key may still spend now.
\<close>

fun run_timed :: "('l \<Rightarrow> gotime \<Rightarrow> 'o \<Rightarrow> 'l) \<Rightarrow> 'l \<Rightarrow> (gotime \<times> 'o) list \<Rightarrow> 'l" where
  "run_timed step l [] = l"
| "run_timed step l ((t, x) # xs) = run_timed step (step l t x) xs"

fun net_admitted :: "('l \<Rightarrow> gotime \<Rightarrow> 'o \<Rightarrow> int) \<Rightarrow> ('l \<Rightarrow> gotime \<Rightarrow> 'o \<Rightarrow> 'l) \<Rightarrow> 'l \<Rightarrow>
    (gotime \<times> 'o) list \<Rightarrow> int" where
  "net_admitted admits step l [] = 0"
| "net_admitted admits step l ((t, x) # xs) = admits l t x + net_admitted admits step (step l t x) xs"

locale budget =
  fixes step :: "'l \<Rightarrow> gotime \<Rightarrow> 'o \<Rightarrow> 'l"
    and admits :: "'l \<Rightarrow> gotime \<Rightarrow> 'o \<Rightarrow> int"
    and good :: "gotime \<Rightarrow> 'l \<Rightarrow> bool"
    and legal :: "'o \<Rightarrow> bool"
    and usual :: "'o \<Rightarrow> bool"
    and pot :: "gotime \<Rightarrow> 'l \<Rightarrow> rat"
    and cap :: rat
    and rate :: rat
    and err :: rat
  assumes budget_nonneg: "0 \<le> rate" "0 \<le> err"
    and pot_range: "good t l \<Longrightarrow> 0 \<le> pot t l \<and> pot t l \<le> cap"
    and good_step: "good t0 l \<Longrightarrow> t0 \<le> t \<Longrightarrow> legal x \<Longrightarrow> good t (step l t x)"
    and good_later: "good t0 l \<Longrightarrow> t0 \<le> t \<Longrightarrow> good t l"
    and accrue: "good t0 l \<Longrightarrow> t0 \<le> t \<Longrightarrow> pot t l \<le> pot t0 l + rate * of_int (t - t0)"
    and spend: "good t l \<Longrightarrow> legal x \<Longrightarrow> usual x \<Longrightarrow>
      of_int (admits l t x) + pot t (step l t x) \<le> pot t l + err"
begin

lemma good_run:
  assumes "good t0 l" "sorted (map fst xs)" "\<forall>p \<in> set xs. t0 \<le> fst p \<and> fst p \<le> T \<and> legal (snd p)" "t0 \<le> T"
  shows "good T (run_timed step l xs)"
  using assms
proof (induction xs arbitrary: l t0)
  case Nil
  then show ?case using good_later by simp
next
  case (Cons p xs)
  obtain t x where p: "p = (t, x)" by (cases p)
  have "good t (step l t x)" using good_step [OF Cons.prems(1)] Cons.prems(3) by (simp add: p)
  then have "good T (run_timed step (step l t x) xs)"
    using Cons.prems by (intro Cons.IH) (auto simp: p)
  then show ?case by (simp add: p)
qed

lemma budget_spent:
  assumes "good t0 l" "sorted (map fst xs)"
    and "\<forall>p \<in> set xs. t0 \<le> fst p \<and> fst p \<le> T \<and> legal (snd p) \<and> usual (snd p)" "t0 \<le> T"
  shows "of_int (net_admitted admits step l xs) \<le>
    pot t0 l + rate * of_int (T - t0) + err * of_nat (length xs)"
  using assms
proof (induction xs arbitrary: l t0)
  case Nil
  then show ?case using pot_range [of t0 l] budget_nonneg by simp
next
  case (Cons p xs)
  obtain t x where p: "p = (t, x)" by (cases p)
  have t: "t0 \<le> t" "t \<le> T" "legal x" "usual x" using Cons.prems(3) by (auto simp: p)
  have g: "good t l" "good t (step l t x)"
    using good_later [OF Cons.prems(1) t(1)] good_step [OF Cons.prems(1) t(1,3)] by simp_all
  have "of_int (net_admitted admits step (step l t x) xs) \<le>
      pot t (step l t x) + rate * of_int (T - t) + err * of_nat (length xs)"
    using Cons.prems g t by (intro Cons.IH) (auto simp: p)
  then show ?case using spend [OF g(1) t(3,4)] accrue [OF Cons.prems(1) t(1)]
    by (simp add: p distrib_left right_diff_distrib)
qed

lemma window_bound:
  assumes "good b l" "sorted (map fst (hs @ xs))" "\<forall>p \<in> set hs. b \<le> fst p \<and> fst p \<le> t0 \<and> legal (snd p)"
    and "\<forall>p \<in> set xs. t0 \<le> fst p \<and> fst p \<le> T \<and> legal (snd p) \<and> usual (snd p)" "b \<le> t0" "t0 \<le> T"
  shows "of_int (net_admitted admits step (run_timed step l hs) xs) \<le>
    cap + rate * of_int (T - t0) + err * of_nat (length xs)"
proof -
  have g: "good t0 (run_timed step l hs)"
    using assms by (intro good_run [of b]) (auto simp: sorted_append)
  from budget_spent [OF g _ assms(4,6)] pot_range [OF g] assms(2)
  show ?thesis by (simp add: sorted_append)
qed

end

end
