(* ===== verification/RateLimit.thy ===== *)
theory RateLimit
  imports TokenBucket Prelude
begin

text \<open>
  internal/ratelimit: the token-bucket \<open>Limiter\<close>, the per-account concurrency cap, the bounds on
  configured limits, and the middleware that runs account bucket, key bucket and concurrency
  slot in this order. A limiter is its bucket map; the mutex makes every method one step.
\<close>

section \<open>Limiter\<close>

record bucket =
  bk_tokens :: rat
  bk_capacity :: rat
  bk_refill_rate :: rat
  bk_last_refill :: gotime
  bk_last_access :: gotime

type_synonym limiter = "int \<rightharpoonup> bucket"

definition prune_interval :: duration where "prune_interval = 1 * minute"
definition idle_cutoff :: duration where "idle_cutoff = 10 * minute"

definition limiter_allow :: "limiter \<Rightarrow> gotime \<Rightarrow> int \<Rightarrow> int \<Rightarrow> (bool \<times> f64) \<times> limiter" where
  "limiter_allow l now key rate_limit = (case l key of
     None \<Rightarrow> ((True, Fin 0), l(key \<mapsto> \<lparr>bk_tokens = fsub (f_of_int rate_limit) 1,
       bk_capacity = f_of_int rate_limit, bk_refill_rate = bucket_rate rate_limit,
       bk_last_refill = now, bk_last_access = now\<rparr>))
   | Some b \<Rightarrow>
       let cap = f_of_int rate_limit; rate = bucket_rate rate_limit;
           x = refilled cap rate (bk_tokens b) (time_sub now (bk_last_refill b));
           b' = \<lparr>bk_tokens = x, bk_capacity = cap, bk_refill_rate = rate,
                 bk_last_refill = now, bk_last_access = now\<rparr>
       in if 1 \<le> x then ((True, Fin 0), l(key \<mapsto> b'\<lparr>bk_tokens := fsub x 1\<rparr>))
          else ((False, fdiv (fsub 1 x) rate), l(key \<mapsto> b')))"

definition limiter_return :: "limiter \<Rightarrow> int \<Rightarrow> limiter" where
  "limiter_return l key = (case l key of None \<Rightarrow> l
     | Some b \<Rightarrow> l(key \<mapsto> b\<lparr>bk_tokens := min (bk_capacity b) (fadd (bk_tokens b) 1)\<rparr>))"

definition limiter_prune :: "limiter \<Rightarrow> gotime \<Rightarrow> limiter" where
  "limiter_prune l now = (\<lambda>key. case l key of None \<Rightarrow> None
     | Some b \<Rightarrow> if bk_last_access b < now - idle_cutoff then None else Some b)"

text \<open>The interface of a bucket map at one fixed limit, as the clients of a class see it.\<close>

definition allow_at :: "int \<Rightarrow> limiter \<Rightarrow> gotime \<Rightarrow> int \<Rightarrow> bool \<times> limiter" where
  "allow_at R l t key = (fst (fst (limiter_allow l t key R)), snd (limiter_allow l t key R))"

definition bucket_level :: "limiter \<Rightarrow> int \<Rightarrow> rat option" where
  "bucket_level l key = map_option bk_tokens (l key)"

definition bucket_stamp :: "limiter \<Rightarrow> int \<Rightarrow> gotime" where
  "bucket_stamp l key = (case l key of None \<Rightarrow> 0 | Some b \<Rightarrow> bk_last_refill b)"

lemma rate_mono:
  fixes d e R :: int
  assumes "d \<le> e" "0 \<le> R"
  shows "of_int R * of_int d / (60 * 10 ^ 9) \<le> of_int R / (60 * 10 ^ 9) * (of_int e :: rat)"
proof -
  have "(of_int R :: rat) * of_int d \<le> of_int R * of_int e"
    using assms by (intro mult_left_mono) simp_all
  then show ?thesis by (simp add: field_simps)
qed

lemma refilled_take:
  assumes R: "1 \<le> R" "R \<le> 10000" and x: "0 \<le> x" "x \<le> of_int R" and t: "u \<le> t"
    and y: "y = refilled (of_int R) (bucket_rate R) x (time_sub t u)"
  shows "0 \<le> y" "y \<le> of_int R"
    "y \<le> x + of_int R / (60 * 10 ^ 9) * of_int (t - u) + 1 / 10 ^ 10"
    "1 \<le> y \<Longrightarrow> fsub y 1 + 1 \<le> x + of_int R / (60 * 10 ^ 9) * of_int (t - u) + 1 / 10 ^ 9"
proof -
  have d: "0 \<le> time_sub t u" "time_sub t u \<le> t - u" using t by (simp_all add: time_sub_nonneg time_sub_le)
  show "0 \<le> y" unfolding y by (rule refilled_nonneg [OF R(1) x(1) d(1)])
  show y1: "y \<le> of_int R" unfolding y by (rule refilled_le_cap)
  have "of_int R * of_int (time_sub t u) / (60 * 10 ^ 9) \<le> of_int R / (60 * 10 ^ 9) * (of_int (t - u) :: rat)"
    using d R by (intro rate_mono) simp_all
  then show g: "y \<le> x + of_int R / (60 * 10 ^ 9) * of_int (t - u) + 1 / 10 ^ 10"
    unfolding y using refilled_growth [OF R x d(1)] by linarith
  assume "1 \<le> y"
  from fsub_one(3) [OF this y1 R(2)] g
  show "fsub y 1 + 1 \<le> x + of_int R / (60 * 10 ^ 9) * of_int (t - u) + 1 / 10 ^ 9" by simp
qed

lemma limiter_token_bucket:
  assumes R: "1 \<le> R" "R \<le> 10000"
  shows "token_bucket (allow_at R) bucket_level bucket_stamp (of_int R) (of_int R / (60 * 10 ^ 9)) bucket_err"
proof
  fix l :: limiter and t and key :: int and x
  show "0 \<le> (of_int R :: rat) / (60 * 10 ^ 9)" "0 \<le> bucket_err" "1 \<le> (of_int R :: rat)"
    using R by (simp_all add: bucket_err_def)
  show "bucket_stamp (snd (allow_at R l t key)) key = t"
    by (simp add: allow_at_def limiter_allow_def bucket_stamp_def Let_def split: option.split)
  have r: "f_of_int R = of_int R" "fsub (of_int R) 1 = of_int R - 1"
    using R rnd64_int [of "R - 1"] by (simp_all add: fsub_def)
  show "bucket_level l key = None \<Longrightarrow>
      fst (allow_at R l t key) \<and> bucket_level (snd (allow_at R l t key)) key = Some (of_int R - 1)"
    using r by (simp add: allow_at_def limiter_allow_def bucket_level_def)
  assume l: "bucket_level l key = Some x" and x: "0 \<le> x" "x \<le> of_int R" and st: "bucket_stamp l key \<le> t"
  then obtain b where b: "l key = Some b" "bk_tokens b = x" "bk_last_refill b \<le> t"
      "bucket_stamp l key = bk_last_refill b"
    by (auto simp: bucket_level_def bucket_stamp_def)
  define y where "y = refilled (of_int R) (bucket_rate R) x (time_sub t (bk_last_refill b))"
  note y = refilled_take [OF R x b(3) y_def]
  show "\<exists>z. bucket_level (snd (allow_at R l t key)) key = Some z \<and> 0 \<le> z \<and> z \<le> of_int R \<and>
      z + (if fst (allow_at R l t key) then 1 else 0)
        \<le> x + of_int R / (60 * 10 ^ 9) * of_int (t - bucket_stamp l key) + bucket_err"
  proof (cases "1 \<le> y")
    case True
    have "fst (allow_at R l t key)" "bucket_level (snd (allow_at R l t key)) key = Some (fsub y 1)"
      using b True r by (simp_all add: allow_at_def limiter_allow_def bucket_level_def Let_def y_def)
    then show ?thesis using y(4) [OF True] fsub_one(1,2) [OF True y(2) R(2)] b(4)
      by (simp add: bucket_err_def)
  next
    case False
    have "\<not> fst (allow_at R l t key)" "bucket_level (snd (allow_at R l t key)) key = Some y"
      using b False r by (simp_all add: allow_at_def limiter_allow_def bucket_level_def Let_def y_def)
    then show ?thesis using y(1-3) b(4) by (simp add: bucket_err_def)
  qed
next
  fix l :: limiter and t and key key' :: int
  assume "key' \<noteq> key"
  then show "bucket_level (snd (allow_at R l t key)) key' = bucket_level l key' \<and>
      bucket_stamp (snd (allow_at R l t key)) key' = bucket_stamp l key'"
    by (simp add: allow_at_def limiter_allow_def bucket_level_def bucket_stamp_def Let_def split: option.split)
qed


text \<open>The limits an administrator can configure: 1 to 10000 requests per minute.\<close>

definition max_config_per_minute :: int where "max_config_per_minute = 10000"
definition default_config_per_minute :: int where "default_config_per_minute = 60"

text \<open>ApplyConfigDefaultsAndCap; None is ErrConfigTooHigh.\<close>

definition apply_config_defaults_and_cap :: "int \<Rightarrow> int option" where
  "apply_config_defaults_and_cap n =
     (if n \<le> 0 then Some default_config_per_minute
      else if max_config_per_minute < n then None else Some n)"

lemma apply_config_bounds:
  "apply_config_defaults_and_cap n = Some R \<Longrightarrow> 1 \<le> R \<and> R \<le> 10000"
  by (auto simp: apply_config_defaults_and_cap_def default_config_per_minute_def
      max_config_per_minute_def split: if_splits)

locale bounded_limit =
  fixes R :: int
  assumes R_ge: "1 \<le> R" and R_le: "R \<le> 10000"
begin

lemma R_bucket: "token_bucket (allow_at R) bucket_level bucket_stamp (of_int R) (of_int R / (60 * 10 ^ 9)) bucket_err"
  by (rule limiter_token_bucket [OF R_ge R_le])

end

sublocale bounded_limit \<subseteq> lim: token_bucket "allow_at R" bucket_level bucket_stamp "of_int R"
  "of_int R / (60 * 10 ^ 9)" bucket_err
  by (rule R_bucket)

interpretation default_limit: bounded_limit default_config_per_minute
  by unfold_locales (simp_all add: default_config_per_minute_def)

section \<open>What a limiter guarantees\<close>

text \<open>The state every bucket is in while the clock does not go backwards.\<close>

definition buckets_ok :: "gotime \<Rightarrow> limiter \<Rightarrow> bool" where
  "buckets_ok now l \<longleftrightarrow> (\<forall>key b. l key = Some b \<longrightarrow>
     0 \<le> bk_tokens b \<and> bk_tokens b \<le> bk_capacity b \<and> bk_last_refill b \<le> now \<and>
     bk_last_access b = bk_last_refill b)"

lemma buckets_okD:
  "buckets_ok now l \<Longrightarrow> l key = Some b \<Longrightarrow> 0 \<le> bk_tokens b \<and> bk_tokens b \<le> bk_capacity b \<and>
     bk_last_refill b \<le> now \<and> bk_last_access b = bk_last_refill b"
  by (simp add: buckets_ok_def)

lemma buckets_ok_upd:
  "buckets_ok now l \<Longrightarrow> now \<le> t \<Longrightarrow> 0 \<le> bk_tokens b \<Longrightarrow> bk_tokens b \<le> bk_capacity b \<Longrightarrow>
   bk_last_refill b \<le> t \<Longrightarrow> bk_last_access b = bk_last_refill b \<Longrightarrow> buckets_ok t (l(key \<mapsto> b))"
  by (auto simp: buckets_ok_def intro: order_trans)

text \<open>Along every sequence of Allow, Return and prune calls with configured limits and a clock
  that does not go back, the tokens of every bucket stay between 0 and its capacity.\<close>

theorem limiter_tokens_bounded:
  assumes ok: "buckets_ok now l" and R: "1 \<le> R" "R \<le> 10000" and t: "now \<le> t"
  shows "buckets_ok t (snd (limiter_allow l t key R)) \<and> buckets_ok now (limiter_return l key) \<and>
    buckets_ok now (limiter_prune l t)"
proof (intro conjI)
  have r: "f_of_int R = of_int R" "fsub (of_int R) 1 = of_int R - 1" "(1::rat) \<le> of_int R"
    using R rnd64_int [of "R - 1"] by (simp_all add: fsub_def)
  show "buckets_ok t (snd (limiter_allow l t key R))"
  proof (cases "l key")
    case None
    then show ?thesis using ok t r by (simp add: limiter_allow_def buckets_ok_upd)
  next
    case (Some b)
    define y where "y = refilled (of_int R) (bucket_rate R) (bk_tokens b) (time_sub t (bk_last_refill b))"
    have b: "0 \<le> bk_tokens b" "bk_last_refill b \<le> t" using buckets_okD [OF ok Some] t by auto
    have y: "0 \<le> y" "y \<le> of_int R"
      unfolding y_def using b R by (auto intro: refilled_nonneg refilled_le_cap time_sub_nonneg)
    show ?thesis using Some ok t r y fsub_one [of y R] R(2)
      by (simp add: limiter_allow_def Let_def buckets_ok_upd flip: y_def)
  qed
  show "buckets_ok now (limiter_return l key)"
  proof (cases "l key")
    case None
    then show ?thesis using ok by (simp add: limiter_return_def)
  next
    case (Some b)
    have "0 \<le> fadd (bk_tokens b) 1" using buckets_okD [OF ok Some]
      by (simp add: fadd_def f64.rd_nonneg)
    then show ?thesis using buckets_okD [OF ok Some] Some ok
      by (auto simp: limiter_return_def intro!: buckets_ok_upd [OF ok])
  qed
  show "buckets_ok now (limiter_prune l t)"
    using ok by (auto simp: buckets_ok_def limiter_prune_def split: option.splits if_splits)
qed

lemma limiter_tokens_bounded_witness:
  "buckets_ok 5 (snd (limiter_allow Map.empty 5 7 60)) \<and> buckets_ok 0 (limiter_return Map.empty 7) \<and>
   buckets_ok 0 (limiter_prune Map.empty 5)"
  using limiter_tokens_bounded [of 0 Map.empty 60 5 7] by (simp add: buckets_ok_def)

text \<open>
  A limiter in use: requests of any key at the limit in force when they arrive, refunds of a
  granted request (the Return of a request the key bucket refuses), and the pruner.
\<close>

datatype limiter_op = AllowOp int int | ReturnOp int | PruneOp

fun limiter_op_step :: "limiter \<Rightarrow> gotime \<Rightarrow> limiter_op \<Rightarrow> limiter" where
  "limiter_op_step l t (AllowOp key R) = snd (limiter_allow l t key R)"
| "limiter_op_step l t (ReturnOp key) = limiter_return l key"
| "limiter_op_step l t PruneOp = limiter_prune l t"

text \<open>Requests of the key let in by one operation, a refund counting as one request less.\<close>

fun op_admits :: "int \<Rightarrow> limiter \<Rightarrow> gotime \<Rightarrow> limiter_op \<Rightarrow> int" where
  "op_admits key l t (AllowOp k R) = (if k = key \<and> fst (fst (limiter_allow l t k R)) then 1 else 0)"
| "op_admits key l t (ReturnOp k) = (if k = key then - 1 else 0)"
| "op_admits key l t PruneOp = 0"

definition op_configured :: "limiter_op \<Rightarrow> bool" where
  "op_configured x = (case x of AllowOp k R \<Rightarrow> 1 \<le> R \<and> R \<le> max_config_per_minute | _ \<Rightarrow> True)"

definition op_at_limit :: "int \<Rightarrow> int \<Rightarrow> limiter_op \<Rightarrow> bool" where
  "op_at_limit key R x = (case x of AllowOp k R' \<Rightarrow> k = key \<longrightarrow> R' = R | _ \<Rightarrow> True)"

text \<open>What the key may spend at once at time t: its tokens refilled up to then, at most R.\<close>

definition spendable :: "int \<Rightarrow> int \<Rightarrow> gotime \<Rightarrow> limiter \<Rightarrow> rat" where
  "spendable key R t l = (case l key of None \<Rightarrow> of_int R
     | Some b \<Rightarrow> min (of_int R) (bk_tokens b + of_int R / (60 * 10 ^ 9) * of_int (t - bk_last_refill b)))"

lemma spendable_Some:
  "l key = Some b \<Longrightarrow> spendable key R t l =
     min (of_int R) (bk_tokens b + of_int R / (60 * 10 ^ 9) * of_int (t - bk_last_refill b))"
  by (simp add: spendable_def)

lemma spendable_None: "l key = None \<Longrightarrow> spendable key R t l = of_int R"
  by (simp add: spendable_def)

lemma spendable_cong: "l key = l' key \<Longrightarrow> spendable key R t l = spendable key R t l'"
  by (simp add: spendable_def)

lemma min_grow:
  fixes c x y k :: rat
  shows "0 \<le> k \<Longrightarrow> y \<le> x + k \<Longrightarrow> min c y \<le> min c x + k"
  by (simp add: min_def)

lemma spendable_range:
  assumes "buckets_ok t l" "1 \<le> R"
  shows "0 \<le> spendable key R t l \<and> spendable key R t l \<le> of_int R"
proof (cases "l key")
  case (Some b)
  have "0 \<le> of_int R / (60 * 10 ^ 9) * (of_int (t - bk_last_refill b) :: rat)" "0 \<le> bk_tokens b"
    using buckets_okD [OF assms(1) Some] assms(2) by simp_all
  then show ?thesis using assms(2) by (simp add: spendable_Some [of l key, OF Some])
qed (use assms in \<open>simp add: spendable_None\<close>)

lemma spendable_accrue:
  assumes "1 \<le> R" "t0 \<le> t"
  shows "spendable key R t l \<le> spendable key R t0 l + of_int R / (60 * 10 ^ 9) * of_int (t - t0)"
proof (cases "l key")
  case (Some b)
  show ?thesis unfolding spendable_Some [of l key, OF Some]
    using assms by (intro min_grow) (simp_all add: right_diff_distrib)
qed (use assms in \<open>simp add: spendable_None\<close>)

lemma spendable_allow:
  assumes ok: "buckets_ok t l" and R: "1 \<le> R" "R \<le> 10000"
  shows "(if fst (fst (limiter_allow l t key R)) then 1 else 0) + spendable key R t (snd (limiter_allow l t key R))
    \<le> spendable key R t l + bucket_err"
proof (cases "l key")
  case None
  have "f_of_int R = of_int R" "fsub (of_int R) 1 = of_int R - 1"
    using R rnd64_int [of "R - 1"] by (simp_all add: fsub_def)
  then show ?thesis using None R by (simp add: limiter_allow_def spendable_def bucket_err_def)
next
  case (Some b)
  note b = buckets_okD [OF ok Some]
  have r: "f_of_int R = of_int R" using R by simp
  define y where "y = refilled (of_int R) (bucket_rate R) (bk_tokens b) (time_sub t (bk_last_refill b))"
  have y: "y \<le> of_int R" unfolding y_def by (rule refilled_le_cap)
  have ys: "y \<le> spendable key R t l + 1 / 10 ^ 10"
  proof (cases "bk_tokens b \<le> of_int R")
    case True
    then show ?thesis using refilled_take(2,3) [OF R _ True _ y_def] b
      by (simp add: spendable_Some [of l key, OF Some] min_def)
  next
    case False
    have "0 \<le> of_int R / (60 * 10 ^ 9) * (of_int (t - bk_last_refill b) :: rat)" using b R by simp
    then have "spendable key R t l = of_int R" using False by (simp add: spendable_Some [of l key, OF Some])
    then show ?thesis using y by simp
  qed
  show ?thesis
  proof (cases "1 \<le> y")
    case True
    have "limiter_allow l t key R = ((True, Fin 0), l(key \<mapsto> \<lparr>bk_tokens = fsub y 1, bk_capacity = of_int R,
        bk_refill_rate = bucket_rate R, bk_last_refill = t, bk_last_access = t\<rparr>))"
      using Some True r by (simp add: limiter_allow_def Let_def y_def)
    then show ?thesis using fsub_one(3) [OF True y R(2)] ys
      by (simp add: spendable_def bucket_err_def)
  next
    case False
    have "\<not> fst (fst (limiter_allow l t key R))" "snd (limiter_allow l t key R) = l(key \<mapsto>
        \<lparr>bk_tokens = y, bk_capacity = of_int R, bk_refill_rate = bucket_rate R, bk_last_refill = t, bk_last_access = t\<rparr>)"
      using Some False r by (simp_all add: limiter_allow_def Let_def y_def)
    then show ?thesis using ys by (simp add: spendable_def bucket_err_def)
  qed
qed

lemma spendable_return:
  assumes ok: "buckets_ok t l" and R: "1 \<le> R" "R \<le> 10000"
  shows "spendable key R t (limiter_return l key) \<le> spendable key R t l + 1 + bucket_err"
proof (cases "l key")
  case None
  then show ?thesis by (simp add: limiter_return_def bucket_err_def)
next
  case (Some b)
  note b = buckets_okD [OF ok Some]
  define g where "g = of_int R / (60 * 10 ^ 9) * (of_int (t - bk_last_refill b) :: rat)"
  have g: "0 \<le> g" using b R by (simp add: g_def)
  show ?thesis
  proof (cases "bk_tokens b \<le> of_int R")
    case True
    have "fadd (bk_tokens b) 1 \<le> bk_tokens b + 1 + bucket_err"
      using rnd64_upper [of "bk_tokens b + 1"] b True R
      by (simp add: fadd_def bucket_err_def field_simps)
    then have "min (bk_capacity b) (fadd (bk_tokens b) 1) + g \<le> bk_tokens b + g + (1 + bucket_err)"
      by (simp add: min_def)
    from min_grow [OF _ this, of "of_int R"]
    show ?thesis using Some by (simp add: limiter_return_def spendable_def g_def bucket_err_def)
  next
    case False
    then have "spendable key R t l = of_int R"
      using g unfolding spendable_Some [of l key, OF Some] g_def [symmetric] by simp
    moreover have "spendable key R t (limiter_return l key) \<le> of_int R"
      using Some by (simp add: limiter_return_def spendable_def)
    ultimately show ?thesis by (simp add: bucket_err_def)
  qed
qed

text \<open>The pruner only takes buckets that ten idle minutes have filled.\<close>

lemma spendable_prune:
  assumes ok: "buckets_ok t l" and R: "1 \<le> R"
  shows "spendable key R t (limiter_prune l t) = spendable key R t l"
proof (cases "\<exists>b. l key = Some b \<and> bk_last_access b < t - idle_cutoff")
  case True
  then obtain b where b: "l key = Some b" "bk_last_access b < t - idle_cutoff" by blast
  note inv = buckets_okD [OF ok b(1)]
  have "600 * 10 ^ 9 \<le> t - bk_last_refill b"
    using b inv by (simp add: idle_cutoff_def minute_def second_def)
  then have "of_int (600 * 10 ^ 9) \<le> (of_int (t - bk_last_refill b) :: rat)" by (simp only: of_int_le_iff)
  then have "of_int R / (60 * 10 ^ 9) * of_int (600 * 10 ^ 9) \<le> of_int R / (60 * 10 ^ 9) * (of_int (t - bk_last_refill b) :: rat)"
    using R by (intro mult_left_mono) simp_all
  moreover have "of_int R \<le> of_int R / (60 * 10 ^ 9) * (of_int (600 * 10 ^ 9) :: rat)" using R by simp
  ultimately have "of_int R \<le> bk_tokens b + of_int R / (60 * 10 ^ 9) * (of_int (t - bk_last_refill b) :: rat)"
    using inv by linarith
  then have "spendable key R t l = of_int R" unfolding spendable_Some [of l key, OF b(1)] by (rule min_absorb1)
  moreover have "limiter_prune l t key = None" using b by (simp add: limiter_prune_def)
  ultimately show ?thesis by (simp add: spendable_None)
next
  case False
  then have "limiter_prune l t key = l key" by (auto simp: limiter_prune_def split: option.splits)
  then show ?thesis by (rule spendable_cong)
qed

lemma limiter_frame:
  "k \<noteq> key \<Longrightarrow> snd (limiter_allow l t k R) key = l key"
  "k \<noteq> key \<Longrightarrow> limiter_return l k key = l key"
  by (simp_all add: limiter_allow_def limiter_return_def Let_def split: option.split)

lemma buckets_ok_later: "buckets_ok t0 l \<Longrightarrow> t0 \<le> t \<Longrightarrow> buckets_ok t l"
  by (auto simp: buckets_ok_def intro: order_trans)

lemma limiter_budget:
  assumes R: "1 \<le> R" "R \<le> 10000"
  shows "budget limiter_op_step (op_admits key) buckets_ok op_configured (op_at_limit key R) (spendable key R)
    (of_int R) (of_int R / (60 * 10 ^ 9)) bucket_err"
proof
  fix t0 t :: gotime and l :: limiter and x :: limiter_op
  show "0 \<le> (of_int R :: rat) / (60 * 10 ^ 9)" "0 \<le> bucket_err" using R by (simp_all add: bucket_err_def)
  show "buckets_ok t l \<Longrightarrow> 0 \<le> spendable key R t l \<and> spendable key R t l \<le> of_int R"
    using R spendable_range [of t l R key] by simp
  show "buckets_ok t0 l \<Longrightarrow> t0 \<le> t \<Longrightarrow> buckets_ok t l" by (rule buckets_ok_later)
  show "t0 \<le> t \<Longrightarrow> spendable key R t l \<le> spendable key R t0 l + of_int R / (60 * 10 ^ 9) * of_int (t - t0)"
    using R by (intro spendable_accrue)
  show "buckets_ok t0 l \<Longrightarrow> t0 \<le> t \<Longrightarrow> op_configured x \<Longrightarrow> buckets_ok t (limiter_op_step l t x)"
    using limiter_tokens_bounded [of t l] limiter_tokens_bounded [of t l 1 t] buckets_ok_later [of t0 l t]
    by (cases x) (auto simp: op_configured_def max_config_per_minute_def)
  show "buckets_ok t l \<Longrightarrow> op_configured x \<Longrightarrow> op_at_limit key R x \<Longrightarrow>
      of_int (op_admits key l t x) + spendable key R t (limiter_op_step l t x) \<le> spendable key R t l + bucket_err"
  proof (cases x)
    case (AllowOp k R')
    assume "buckets_ok t l" "op_at_limit key R x"
    moreover have "k \<noteq> key \<Longrightarrow> spendable key R t (snd (limiter_allow l t k R')) = spendable key R t l"
      using limiter_frame(1) [of k key l t R'] by (rule spendable_cong)
    ultimately show ?thesis using AllowOp spendable_allow [of t l R key] R
      by (cases "k = key") (auto simp: op_at_limit_def bucket_err_def)
  next
    case (ReturnOp k)
    assume "buckets_ok t l"
    moreover have "k \<noteq> key \<Longrightarrow> spendable key R t (limiter_return l k) = spendable key R t l"
      using limiter_frame(2) [of k key l] by (rule spendable_cong)
    ultimately show ?thesis using ReturnOp spendable_return [of t l R key] R
      by (cases "k = key") (auto simp: bucket_err_def)
  next
    case PruneOp
    assume "buckets_ok t l"
    then show ?thesis using PruneOp spendable_prune [of t l R key] R by (simp add: bucket_err_def)
  qed
qed

sublocale bounded_limit \<subseteq> spending: budget limiter_op_step "op_admits key" buckets_ok op_configured
  "op_at_limit key R" "spendable key R" "of_int R" "of_int R / (60 * 10 ^ 9)" bucket_err for key
  by (rule limiter_budget [OF R_ge R_le])

context bounded_limit
begin

lemmas key_window = spending.window_bound

end

text \<open>C32: In any window of a limiter in use since the process started, however the key was used,
  refunded, pruned or reconfigured before and whatever the other keys do, a key configured through
  the admin API with R requests per minute passes (refunds taken off) at most R requests plus what
  the window refills (R per 60 s), up to a billionth per operation of float64 rounding. In
  particular idling never saves up more than R requests.\<close>

theorem limiter_burst:
  assumes cfg: "apply_config_defaults_and_cap n = Some R"
    and sorted: "sorted (map fst (hs @ xs))"
    and history: "\<forall>p \<in> set hs. fst p \<le> t0 \<and> op_configured (snd p)"
    and window: "\<forall>p \<in> set xs. t0 \<le> fst p \<and> fst p \<le> t1 \<and> op_configured (snd p) \<and> op_at_limit key R (snd p)"
    and t: "t0 \<le> t1"
  shows "of_int (net_admitted (op_admits key) limiter_op_step (run_timed limiter_op_step Map.empty hs) xs) \<le>
    (of_int R + of_int R * of_int (t1 - t0) / of_int minute + of_nat (length xs) / 10 ^ 9 :: rat)"
proof -
  define b where "b = Min (insert t0 (set (map fst hs)))"
  have b: "b \<le> t0" "\<forall>p \<in> set hs. b \<le> fst p" by (auto simp: b_def)
  have g: "buckets_ok b Map.empty" by (simp add: buckets_ok_def)
  have "bounded_limit R" using apply_config_bounds [OF cfg] by unfold_locales auto
  from bounded_limit.key_window [OF this g sorted _ window b(1) t] history b
  show ?thesis by (simp add: bucket_err_def minute_def second_def)
qed

lemma limiter_burst_witness:
  "(let hs = [(0, AllowOp 7 1), (120 * second, AllowOp 8 5)];
        xs = [(130 * second, AllowOp 7 1), (130 * second, AllowOp 7 1), (131 * second, AllowOp 8 5)];
        l = run_timed limiter_op_step Map.empty hs
    in l 7 \<noteq> None \<and> of_int (net_admitted (op_admits 7) limiter_op_step l xs) \<le>
         (1 + of_int second / of_int minute + 3 / 10 ^ 9 :: rat))"
proof -
  let ?hs = "[(0, AllowOp 7 1), (120 * second, AllowOp 8 5)]"
  let ?xs = "[(130 * second, AllowOp 7 1), (130 * second, AllowOp 7 1), (131 * second, AllowOp 8 5)]"
  have "of_int (net_admitted (op_admits 7) limiter_op_step (run_timed limiter_op_step Map.empty ?hs) ?xs) \<le>
     (of_int 1 + of_int 1 * of_int (131 * second - 130 * second) / of_int minute + of_nat (length ?xs) / 10 ^ 9 :: rat)"
    by (rule limiter_burst [of 1 1 ?hs ?xs "130 * second" "131 * second" 7])
      (simp_all add: apply_config_defaults_and_cap_def max_config_per_minute_def op_configured_def
        op_at_limit_def second_def)
  moreover have "run_timed limiter_op_step Map.empty ?hs 7 \<noteq> None"
    by (simp add: limiter_allow_def)
  ultimately show ?thesis by (simp add: second_def del: net_admitted.simps run_timed.simps)
qed

text \<open>Evicting idle buckets cannot be observed: at every later time a request gets the same
  answer, and leaves the same tokens behind, as if its bucket had been kept.\<close>

theorem limiter_prune_unobservable:
  assumes ok: "buckets_ok now l" and R: "1 \<le> R" "R \<le> 10000" and t: "now \<le> t"
    and recent: "\<forall>b. l key = Some b \<longrightarrow> t - bk_last_refill b < 2 ^ 63"
  shows "fst (limiter_allow (limiter_prune l now) t key R) = fst (limiter_allow l t key R) \<and>
    snd (limiter_allow (limiter_prune l now) t key R) key = snd (limiter_allow l t key R) key"
proof (cases "\<exists>b. l key = Some b \<and> bk_last_access b < now - idle_cutoff")
  case False
  then have "limiter_prune l now key = l key" by (auto simp: limiter_prune_def split: option.splits)
  then show ?thesis by (simp add: limiter_allow_def Let_def split: option.split)
next
  case True
  then obtain b where b: "l key = Some b" "bk_last_access b < now - idle_cutoff" by blast
  have d: "time_sub t (bk_last_refill b) = t - bk_last_refill b" "600 * second \<le> t - bk_last_refill b"
      "t - bk_last_refill b < 2 ^ 63" "0 \<le> bk_tokens b"
    using b recent buckets_okD [OF ok b(1)] t
    by (auto simp: time_sub_def sat64_def idle_cutoff_def minute_def second_def)
  have r: "f_of_int R = of_int R" "(1::rat) \<le> of_int R" using R by simp_all
  have "refilled (of_int R) (bucket_rate R) (bk_tokens b) (t - bk_last_refill b) = of_int R"
    by (rule refilled_full [OF R d(4) d(2,3)])
  then show ?thesis using b d r by (simp add: limiter_allow_def limiter_prune_def Let_def)
qed

lemma limiter_prune_unobservable_witness:
  "let l = [7 \<mapsto> \<lparr>bk_tokens = 0, bk_capacity = 60, bk_refill_rate = 1, bk_last_refill = 0, bk_last_access = 0\<rparr>] in
   limiter_prune l (11 * minute) 7 = None \<and>
   fst (limiter_allow (limiter_prune l (11 * minute)) (12 * minute) 7 60) = fst (limiter_allow l (12 * minute) 7 60)"
proof -
  let ?l = "[7 \<mapsto> \<lparr>bk_tokens = 0, bk_capacity = 60, bk_refill_rate = 1, bk_last_refill = 0, bk_last_access = 0\<rparr>] :: limiter"
  have "buckets_ok (11 * minute) ?l" by (simp add: buckets_ok_def minute_def)
  then show ?thesis using limiter_prune_unobservable [of "11 * minute" ?l 60 "12 * minute" 7]
    by (simp add: Let_def minute_def limiter_prune_def idle_cutoff_def)
qed

section \<open>Concurrency\<close>

text \<open>The in-flight counters of ConcurrencyLimiter; an absent entry counts 0.\<close>

type_synonym conc = "int \<rightharpoonup> int"

definition in_use :: "conc \<Rightarrow> int \<Rightarrow> int" where
  "in_use c key = (case c key of None \<Rightarrow> 0 | Some n \<Rightarrow> n)"

definition try_acquire :: "conc \<Rightarrow> int \<Rightarrow> int \<Rightarrow> bool \<times> conc" where
  "try_acquire c key mx =
     (if mx \<le> 0 then (True, c)
      else if mx \<le> in_use c key then (False, c)
      else (True, c(key \<mapsto> in_use c key + 1)))"

definition release_slot :: "conc \<Rightarrow> int \<Rightarrow> conc" where
  "release_slot c key = (case c key of None \<Rightarrow> c
     | Some n \<Rightarrow> if n \<le> 1 then c(key := None) else c(key \<mapsto> n - 1))"

definition in_flight :: "conc \<Rightarrow> int" where
  "in_flight c = (\<Sum>key \<in> dom c. the (c key))"

text \<open>No entry is at or below zero, so an idle account has no entry.\<close>

definition conc_ok :: "conc \<Rightarrow> bool" where
  "conc_ok c \<longleftrightarrow> (\<forall>key n. c key = Some n \<longrightarrow> 1 \<le> n)"

lemma in_use_nonneg: "conc_ok c \<Longrightarrow> 0 \<le> in_use c key"
  by (fastforce simp: conc_ok_def in_use_def split: option.split)

lemma try_acquire_in_use:
  "0 < mx \<Longrightarrow> try_acquire c key mx = (True, c') \<Longrightarrow>
   in_use c' k = in_use c k + (if k = key then 1 else 0) \<and> in_use c' key \<le> mx"
  by (auto simp: try_acquire_def in_use_def split: if_splits option.splits)

lemma release_slot_in_use:
  "conc_ok c \<Longrightarrow> 1 \<le> in_use c key \<Longrightarrow> in_use (release_slot c key) k = in_use c k - (if k = key then 1 else 0)"
proof (cases "c key")
  case (Some n)
  moreover assume "conc_ok c"
  ultimately have "1 \<le> n" by (simp add: conc_ok_def)
  then show ?thesis using Some by (auto simp: in_use_def release_slot_def)
qed (simp add: in_use_def)

lemma try_acquire_ok: "conc_ok c \<Longrightarrow> conc_ok (snd (try_acquire c key mx))"
  using in_use_nonneg [of c key] by (auto simp: try_acquire_def conc_ok_def)

lemma release_slot_ok: "conc_ok c \<Longrightarrow> conc_ok (release_slot c key)"
  by (auto simp: conc_ok_def release_slot_def split: option.splits if_splits)

text \<open>Releasing a slot that was just acquired gives back the counters as they were; no entry is
  left behind for an idle account.\<close>

theorem acquire_release:
  assumes "conc_ok c" "0 < mx" "try_acquire c key mx = (True, c')"
  shows "release_slot c' key = c"
proof (cases "c key")
  case None
  then show ?thesis using assms by (auto simp: try_acquire_def release_slot_def in_use_def split: if_splits)
next
  case (Some n)
  then have "1 \<le> n" using assms(1) by (simp add: conc_ok_def)
  then show ?thesis using Some assms
    by (auto simp: try_acquire_def release_slot_def in_use_def split: if_splits)
qed

lemma acquire_release_witness:
  "try_acquire [3 \<mapsto> 1] 3 2 = (True, [3 \<mapsto> 2]) \<and> release_slot [3 \<mapsto> 2] 3 = [3 \<mapsto> 1]"
proof -
  have "try_acquire [3 \<mapsto> 1] 3 2 = (True, [3 \<mapsto> 2])" by (auto simp: try_acquire_def in_use_def)
  moreover have "conc_ok [3 \<mapsto> 1]" by (auto simp: conc_ok_def)
  ultimately show ?thesis using acquire_release [of "[3 \<mapsto> 1]" 2 3 "[3 \<mapsto> 2]"] by simp
qed

end
