(* ===== verification/Gate.thy ===== *)
theory Gate
  imports CreditRequests RateLimit
begin

text \<open>
  The middlewares between authentication and the chat handler: which account a request is
  billed to (internal/billing/billing.go), the account and key rate limits with the
  concurrency cap (internal/ratelimit/middleware.go) and the credit pre-check
  (internal/credits/middleware.go), in this order.
\<close>

section \<open>Billing resolution\<close>

record resolution =
  br_account :: int
  br_managed :: bool
  br_rate :: "int option"

text \<open>The identity headers as received; the key, when authentication attached one.\<close>

record identity_headers =
  ih_user_id :: string
  ih_email :: string
  ih_name :: string

definition source_openwebui :: string where "source_openwebui = ''openwebui''"

definition forwarded_identity :: "identity_headers \<Rightarrow> federated_identity" where
  "forwarded_identity h = \<lparr>fid_source = source_openwebui, fid_external = trim_space (ih_user_id h),
     fid_email = trim_space (ih_email h), fid_display = trim_space (ih_name h)\<rparr>"

definition billing_middleware ::
  "(nat \<Rightarrow> faults) \<Rightarrow> (nat \<Rightarrow> db \<Rightarrow> db) \<Rightarrow> rat \<Rightarrow> gotime \<Rightarrow> auth_key option \<Rightarrow> identity_headers \<Rightarrow> db \<Rightarrow>
     (api_error + resolution option) \<times> db" where
  "billing_middleware f env dflt now key h s = (case key of None \<Rightarrow> (Inr None, s) | Some k \<Rightarrow>
     if ak_trust_headers (au_key k) \<and> trim_space (ih_user_id h) \<noteq> []
     then (case resolve_end_user_account f env (forwarded_identity h) dflt now s of
         (Inl e, s') \<Rightarrow> (Inl (api_err 500 ''internal_error'' ''server_error''), s')
       | (Inr r, s') \<Rightarrow> (Inr (Some \<lparr>br_account = eu_account r, br_managed = True, br_rate = eu_rate r\<rparr>), s'))
     else (Inr (map_option (\<lambda>a. \<lparr>br_account = a, br_managed = au_managed k, br_rate = au_rate k\<rparr>) (ak_account (au_key k))), s))"

section \<open>Rate limits\<close>

record limits =
  lm_end_user :: int
  lm_service :: int
  lm_end_user_conc :: int
  lm_service_conc :: int

definition max_concurrent :: "limits \<Rightarrow> bool \<Rightarrow> int" where
  "max_concurrent l managed = (if managed then lm_end_user_conc l else lm_service_conc l)"

definition effective_limit :: "int option \<Rightarrow> bool \<Rightarrow> limits \<Rightarrow> int" where
  "effective_limit override managed l = (case override of Some n \<Rightarrow> n | None \<Rightarrow> if managed then lm_end_user l else lm_service l)"

text \<open>writeRateLimited: math.Ceil, then the clamp to an hour.\<close>

definition retry_after_secs :: "f64 \<Rightarrow> int" where
  "retry_after_secs r = (case r of NaN \<Rightarrow> 1 | NegInf \<Rightarrow> 1 | PosInf \<Rightarrow> 3600
     | Fin x \<Rightarrow> (let c = \<lceil>x\<rceil> in if c < 1 then 1 else if 3600 < c then 3600 else c))"

definition write_rate_limited :: "f64 \<Rightarrow> api_error" where
  "write_rate_limited r = api_err_retry 429 ''rate_limit_exceeded'' ''rate_limit_exceeded'' (retry_after_secs r)"

record gate_state =
  gt_keys :: limiter
  gt_accounts :: limiter
  gt_conc :: conc

text \<open>
  The part of the middleware before the handler; on success the account whose slot the
  deferred part must release, if any. \<open>rate_gate_leave\<close> is that part.
\<close>

definition rate_gate_enter ::
  "limits \<Rightarrow> gotime \<Rightarrow> auth_key option \<Rightarrow> resolution option \<Rightarrow> bool \<Rightarrow> gate_state \<Rightarrow> (api_error + int option) \<times> gate_state" where
  "rate_gate_enter l now key res is_get g = (case key of None \<Rightarrow> (Inr None, g) | Some k \<Rightarrow>
     let (acc_ok, acc_retry, accounts1) = (case res of None \<Rightarrow> (True, Fin 0, gt_accounts g)
           | Some r \<Rightarrow> (case limiter_allow (gt_accounts g) now (br_account r) (effective_limit (br_rate r) (br_managed r) l) of
                ((ok, retry), a) \<Rightarrow> (ok, retry, a)));
         g1 = g\<lparr>gt_accounts := accounts1\<rparr>
     in if \<not> acc_ok then (Inl (write_rate_limited acc_retry), g1) else
     (case limiter_allow (gt_keys g1) now (ak_id (au_key k)) (ak_rate_limit (au_key k)) of ((key_ok, key_retry), keys1) \<Rightarrow>
       let g2 = g1\<lparr>gt_keys := keys1\<rparr> in
       if \<not> key_ok then (Inl (write_rate_limited key_retry),
          (case res of None \<Rightarrow> g2 | Some r \<Rightarrow> g2\<lparr>gt_accounts := limiter_return (gt_accounts g2) (br_account r)\<rparr>))
       else (case res of None \<Rightarrow> (Inr None, g2) | Some r \<Rightarrow>
         if is_get then (Inr None, g2) else
         (case try_acquire (gt_conc g2) (br_account r) (max_concurrent l (br_managed r)) of
            (False, c) \<Rightarrow> (Inl (api_err_retry 429 ''rate_limit_exceeded'' ''rate_limit_exceeded'' 5), g2\<lparr>gt_conc := c\<rparr>)
          | (True, c) \<Rightarrow> (Inr (Some (br_account r)), g2\<lparr>gt_conc := c\<rparr>)))))"

definition rate_gate_leave :: "int option \<Rightarrow> gate_state \<Rightarrow> gate_state" where
  "rate_gate_leave slot g = (case slot of None \<Rightarrow> g | Some a \<Rightarrow> g\<lparr>gt_conc := release_slot (gt_conc g) a\<rparr>)"

section \<open>The credit pre-check\<close>

text \<open>The verdict, and the account whose cap hit is to be recorded.\<close>

definition credit_gate ::
  "faults \<Rightarrow> auth_key option \<Rightarrow> resolution option \<Rightarrow> db \<Rightarrow> (api_error + unit) \<times> int option" where
  "credit_gate f key res s = (case key of None \<Rightarrow> (Inr (), None) | Some k \<Rightarrow>
     (case (case res of Some r \<Rightarrow> Some (br_account r, br_managed r)
            | None \<Rightarrow> map_option (\<lambda>a. (a, False)) (ak_account (au_key k))) of
        None \<Rightarrow> (Inl (api_err 403 ''account_required'' ''invalid_request_error''), None)
      | Some (a, managed) \<Rightarrow>
          (case get_account_credit_status f a s of
             Inl e \<Rightarrow> (Inl (api_err 500 ''internal_error'' ''server_error''), None)
           | Inr (active, bal, res) \<Rightarrow>
               if \<not> active then (Inl (api_err 403 ''account_disabled'' ''invalid_request_error''), None)
               else if fsub bal res \<le> 0
               then (if managed then (Inl (api_err 402 ''monthly_limit_reached'' ''invalid_request_error''), Some a)
                     else (Inl (api_err 402 ''insufficient_credits'' ''invalid_request_error''), None))
               else (Inr (), None))))"

section \<open>Who pays\<close>

text \<open>
  C6: A forwarded identity is billed to its own account or not at all. On a key that does not
  trust user headers, or without a user id, the headers are inert: the request bills the key's
  account and the database does not change. On a trusting key with a user id the request is
  billed to the account the identity is mapped to in the resulting database, as an
  allowance-managed account, or it fails with a 500; it never falls back to the key's account.
\<close>
theorem billing_isolation:
  assumes "\<And>n. identity_step (env n)" and "federated_inv s"
    and "billing_middleware f env dflt now (Some k) h s = (r, s')"
  shows "if ak_trust_headers (au_key k) \<and> trim_space (ih_user_id h) \<noteq> []
    then (case r of Inl e \<Rightarrow> ae_status e = 500
        | Inr None \<Rightarrow> False
        | Inr (Some b) \<Rightarrow> br_managed b \<and> identity_account (forwarded_identity h) s' = Some (br_account b))
    else s' = s \<and> (\<exists>b. r = Inr b \<and> map_option br_account b = ak_account (au_key k))"
proof (cases "ak_trust_headers (au_key k) \<and> trim_space (ih_user_id h) \<noteq> []")
  case True
  obtain q t where q: "resolve_end_user_account f env (forwarded_identity h) dflt now s = (q, t)"
    by (cases "resolve_end_user_account f env (forwarded_identity h) dflt now s")
  note st = resolve_state [OF assms(1) q]
  show ?thesis using True assms(2,3) st q by (cases q) (auto simp: billing_middleware_def)
next
  case False
  then show ?thesis using assms(3) by (cases "ak_account (au_key k)") (auto simp: billing_middleware_def)
qed

definition trusting_key :: auth_key where
  "trusting_key = \<lparr>au_key = (demo_key 1 ''h1'')\<lparr>ak_account := Some 9, ak_trust_headers := True\<rparr>, au_rate = None, au_managed = False\<rparr>"

theorem billing_isolation_witness:
  "fst (billing_middleware (\<lambda>_. no_faults) (\<lambda>_ t. t) 10 0 (Some trusting_key) \<lparr>ih_user_id = ''u1'', ih_email = [], ih_name = ''Ann''\<rparr> empty_db) =
     Inr (Some \<lparr>br_account = 1, br_managed = True, br_rate = None\<rparr>) \<and>
   identity_account (forwarded_identity \<lparr>ih_user_id = ''u1'', ih_email = [], ih_name = ''Ann''\<rparr>)
     (snd (billing_middleware (\<lambda>_. no_faults) (\<lambda>_ t. t) 10 0 (Some trusting_key) \<lparr>ih_user_id = ''u1'', ih_email = [], ih_name = ''Ann''\<rparr> empty_db)) = Some 1"
proof
  define h where "h = \<lparr>ih_user_id = ''u1'', ih_email = [], ih_name = ''Ann''\<rparr>"
  define r where "r = billing_middleware (\<lambda>_. no_faults) (\<lambda>_ t. t) 10 0 (Some trusting_key) h empty_db"
  have f: "fst r = Inr (Some \<lparr>br_account = 1, br_managed = True, br_rate = None\<rparr>)" unfolding r_def h_def by code_simp
  then show "fst (billing_middleware (\<lambda>_. no_faults) (\<lambda>_ t. t) 10 0 (Some trusting_key) \<lparr>ih_user_id = ''u1'', ih_email = [], ih_name = ''Ann''\<rparr> empty_db) =
     Inr (Some \<lparr>br_account = 1, br_managed = True, br_rate = None\<rparr>)" by (simp add: r_def h_def)
  have "identity_step (\<lambda>t. t)" by (rule identity_stepI) simp
  from billing_isolation [OF this federated_inv_empty, of "\<lambda>_. no_faults" 10 0 trusting_key h "fst r" "snd r"]
  have t: "if ak_trust_headers (au_key trusting_key) \<and> trim_space (ih_user_id h) \<noteq> []
    then (case fst r of Inl e \<Rightarrow> ae_status e = 500 | Inr None \<Rightarrow> False
        | Inr (Some b) \<Rightarrow> br_managed b \<and> identity_account (forwarded_identity h) (snd r) = Some (br_account b))
    else snd r = empty_db \<and> (\<exists>b. fst r = Inr b \<and> map_option br_account b = ak_account (au_key trusting_key))"
    by (simp add: r_def)
  have "ak_trust_headers (au_key trusting_key) \<and> trim_space (ih_user_id h) \<noteq> []" unfolding h_def by code_simp
  then show "identity_account (forwarded_identity \<lparr>ih_user_id = ''u1'', ih_email = [], ih_name = ''Ann''\<rparr>)
     (snd (billing_middleware (\<lambda>_. no_faults) (\<lambda>_ t. t) 10 0 (Some trusting_key) \<lparr>ih_user_id = ''u1'', ih_email = [], ih_name = ''Ann''\<rparr> empty_db)) = Some 1"
    using t f by (simp add: r_def h_def)
qed


section \<open>Throttling is attributed to the right bucket\<close>

lemma retry_after_bounds: "1 \<le> retry_after_secs r \<and> retry_after_secs r \<le> 3600"
  by (cases r) (auto simp: retry_after_secs_def Let_def)

text \<open>The tokens an account has available at a time, before the request at that time.\<close>

definition account_level :: "int \<Rightarrow> limiter \<Rightarrow> gotime \<Rightarrow> int \<Rightarrow> rat" where
  "account_level limit l now a = (case l a of None \<Rightarrow> f_of_int limit
     | Some b \<Rightarrow> refilled (f_of_int limit) (bucket_rate limit) (bk_tokens b) (time_sub now (bk_last_refill b)))"

lemma limiter_allow_level:
  assumes "limiter_allow l now a limit = ((ok, retry), l')" and "1 \<le> limit"
  shows "\<exists>b. l' a = Some b \<and> bk_capacity b = f_of_int limit \<and> (\<forall>c. c \<noteq> a \<longrightarrow> l' c = l c) \<and>
    bk_tokens b = (if ok then fsub (account_level limit l now a) 1 else account_level limit l now a)"
  using assms by (auto simp: limiter_allow_def account_level_def Let_def split: option.splits if_splits)

lemma allowed_level: "limiter_allow l now a limit = ((True, retry), l') \<Longrightarrow> l a \<noteq> None \<Longrightarrow> 1 \<le> account_level limit l now a"
  by (auto simp: limiter_allow_def account_level_def Let_def split: option.splits if_splits)

lemma level_le_cap: "account_level limit l now a \<le> f_of_int limit"
  by (auto simp: account_level_def refilled_le_cap split: option.splits)

text \<open>Taking a token and giving it back costs at most a billionth of a token.\<close>

lemma refund_error:
  assumes "1 \<le> x" "x \<le> 10000" shows "\<bar>fadd (fsub x 1) 1 - x\<bar> \<le> 1 / 10 ^ 9"
proof -
  have a: "\<bar>rnd64 (x - 1) - (x - 1)\<bar> \<le> (x - 1) / 2 ^ 53 + 1 / 10 ^ 30"
    using rnd64_error [of "x - 1"] tiny_powi assms(1) by simp
  have a': "(x - 1) / 2 ^ 53 \<le> 10000 / 2 ^ 53" using assms(2) by (intro divide_right_mono) simp_all
  then have a2: "\<bar>rnd64 (x - 1) - (x - 1)\<bar> \<le> 10000 / 2 ^ 53 + 1 / 10 ^ 30" using a by linarith
  have "0 \<le> rnd64 (x - 1)" using rnd64_mono [of 0 "x - 1"] assms(1) by simp
  then have b: "\<bar>rnd64 (rnd64 (x - 1) + 1) - (rnd64 (x - 1) + 1)\<bar> \<le> (rnd64 (x - 1) + 1) / 2 ^ 53 + 1 / 10 ^ 30"
    using rnd64_error [of "rnd64 (x - 1) + 1"] tiny_powi by simp
  have "rnd64 (x - 1) + 1 \<le> 10002"
  proof -
    have "10000 / 2 ^ 53 + 1 / 10 ^ 30 \<le> (1 :: rat)" by simp
    then show ?thesis using a2 assms(2) by linarith
  qed
  then have "(rnd64 (x - 1) + 1) / 2 ^ 53 \<le> 10002 / 2 ^ 53" by (intro divide_right_mono) simp_all
  then have "\<bar>fadd (fsub x 1) 1 - x\<bar> \<le> (10000 / 2 ^ 53 + 1 / 10 ^ 30) + (10002 / 2 ^ 53 + 1 / 10 ^ 30)"
    unfolding fadd_def fsub_def using a2 b by linarith
  also have "\<dots> \<le> 1 / 10 ^ 9" by simp
  finally show ?thesis .
qed

lemma level_ge_1:
  assumes "limiter_allow l now a limit = ((True, retry), l')" "1 \<le> limit" "limit \<le> 10000"
  shows "1 \<le> account_level limit l now a"
proof (cases "l a")
  case None
  then show ?thesis using assms(2,3) by (simp add: account_level_def)
next
  case (Some b)
  then show ?thesis using allowed_level [OF assms(1)] by simp
qed

text \<open>What a request did to its account's bucket when the key's bucket refused it.\<close>

lemma refunded_level:
  assumes a: "limiter_allow l now a limit = ((True, retry), l')" and lim: "1 \<le> limit" "limit \<le> 10000"
  shows "\<exists>b. limiter_return l' a a = Some b \<and> \<bar>bk_tokens b - account_level limit l now a\<bar> \<le> 1 / 10 ^ 9"
proof -
  let ?L = "account_level limit l now a"
  obtain b where b: "l' a = Some b" "bk_capacity b = f_of_int limit" "bk_tokens b = fsub ?L 1"
    using limiter_allow_level [OF a lim(1)] by auto
  have c: "f_of_int limit = of_int limit" using lim by simp
  have L: "1 \<le> ?L" "?L \<le> of_int limit" using level_ge_1 [OF a lim] level_le_cap [of limit l now a] c by simp_all
  then have "?L \<le> 10000" using lim(2) by (metis of_int_le_iff of_int_numeral order_trans)
  then have e: "\<bar>fadd (fsub ?L 1) 1 - ?L\<bar> \<le> 1 / 10 ^ 9" by (rule refund_error [OF L(1)])
  have "\<bar>min (of_int limit) (fadd (fsub ?L 1) 1) - ?L\<bar> \<le> 1 / 10 ^ 9" using e L(2) unfolding min_def by (auto simp: abs_le_iff)
  then show ?thesis using b c by (simp add: limiter_return_def)
qed

text \<open>
  C36: Rejections are charged to whoever caused them. When the account's bucket refuses a
  request, the shared key's bucket and the concurrency counters are untouched; when the key's
  bucket refuses it, the account's token is given back, to within a billionth, and no slot is
  taken; when the concurrency cap refuses it, the account's token stays spent and no counter
  changes. Every refusal is a 429 with a Retry-After between one second and one hour.
\<close>
theorem rate_gate_attribution:
  assumes "rate_gate_enter l now (Some k) (Some r) is_get g = (Inl e, g')"
    and "limit = effective_limit (br_rate r) (br_managed r) l" and "1 \<le> limit" "limit \<le> 10000"
    and "limiter_allow (gt_accounts g) now (br_account r) limit = ((acc_ok, retry), accounts1)"
    and "limiter_allow (gt_keys g) now (ak_id (au_key k)) (ak_rate_limit (au_key k)) = ((key_ok, key_retry), keys1)"
  shows "ae_status e = 429 \<and> (\<exists>n. ae_retry e = Some n \<and> 1 \<le> n \<and> n \<le> 3600) \<and> gt_conc g' = gt_conc g \<and>
    (if \<not> acc_ok then gt_keys g' = gt_keys g
     else if \<not> key_ok then (\<exists>b. gt_accounts g' (br_account r) = Some b \<and>
            \<bar>bk_tokens b - account_level limit (gt_accounts g) now (br_account r)\<bar> \<le> 1 / 10 ^ 9)
     else (\<exists>b. gt_accounts g' (br_account r) = Some b \<and>
            bk_tokens b = fsub (account_level limit (gt_accounts g) now (br_account r)) 1))"
proof -
  consider (acc) "\<not> acc_ok" | (key) "acc_ok" "\<not> key_ok" | (conc) "acc_ok" "key_ok" by blast
  then show ?thesis
  proof cases
    case acc
    then have "e = write_rate_limited retry" "g' = g\<lparr>gt_accounts := accounts1\<rparr>"
      using assms(1,2,5) by (auto simp: rate_gate_enter_def Let_def)
    then show ?thesis using acc retry_after_bounds by (simp add: write_rate_limited_def)
  next
    case key
    then have e: "e = write_rate_limited key_retry"
      "g' = g\<lparr>gt_accounts := limiter_return accounts1 (br_account r), gt_keys := keys1\<rparr>"
      using assms(1,2,5,6) by (auto simp: rate_gate_enter_def Let_def)
    have "limiter_allow (gt_accounts g) now (br_account r) limit = ((True, retry), accounts1)" using assms(5) key(1) by simp
    from refunded_level [OF this assms(3,4)] show ?thesis
      using key e retry_after_bounds by (simp add: write_rate_limited_def)
  next
    case conc
    then have e: "e = api_err_retry 429 ''rate_limit_exceeded'' ''rate_limit_exceeded'' 5"
      "gt_accounts g' = accounts1" "gt_conc g' = gt_conc g"
      using assms(1,2,5,6) by (auto simp: rate_gate_enter_def Let_def try_acquire_def split: if_splits prod.splits bool.splits)
    obtain b where "accounts1 (br_account r) = Some b" "bk_tokens b = fsub (account_level limit (gt_accounts g) now (br_account r)) 1"
      using limiter_allow_level [OF assms(5,3)] conc(1) by auto
    then show ?thesis using conc e by simp
  qed
qed


definition demo_auth :: auth_key where
  "demo_auth = \<lparr>au_key = demo_key 1 ''h1'', au_rate = None, au_managed = False\<rparr>"

definition demo_limits :: limits where
  "demo_limits = \<lparr>lm_end_user = 60, lm_service = 60, lm_end_user_conc = 1, lm_service_conc = 1\<rparr>"

definition busy_gate :: gate_state where
  "busy_gate = \<lparr>gt_keys = Map.empty, gt_accounts = Map.empty, gt_conc = [7 \<mapsto> 1]\<rparr>"

text \<open>The account is at its cap: the token is spent, the slot refused.\<close>

theorem rate_gate_attribution_witness:
  "\<exists>e g'. rate_gate_enter demo_limits 0 (Some demo_auth) (Some \<lparr>br_account = 7, br_managed = False, br_rate = None\<rparr>) False busy_gate = (Inl e, g') \<and>
     ae_status e = 429 \<and> gt_conc g' = gt_conc busy_gate"
proof -
  define r :: resolution where "r = \<lparr>br_account = 7, br_managed = False, br_rate = None\<rparr>"
  define x where "x = rate_gate_enter demo_limits 0 (Some demo_auth) (Some r) False busy_gate"
  have "isl (fst x)" unfolding x_def r_def by code_simp
  then obtain e g' where e: "x = (Inl e, g')" by (cases x) (auto simp: isl_def)
  obtain acc_ok retry accounts1 where a: "limiter_allow (gt_accounts busy_gate) 0 (br_account r) 60 = ((acc_ok, retry), accounts1)"
    by (metis prod.exhaust)
  obtain key_ok kr keys1 where k: "limiter_allow (gt_keys busy_gate) 0 (ak_id (au_key demo_auth)) (ak_rate_limit (au_key demo_auth)) = ((key_ok, kr), keys1)"
    by (metis prod.exhaust)
  have "60 = effective_limit (br_rate r) (br_managed r) demo_limits" by (simp add: r_def effective_limit_def demo_limits_def)
  from rate_gate_attribution [OF e [unfolded x_def] this _ _ a k]
  have "ae_status e = 429 \<and> gt_conc g' = gt_conc busy_gate" by simp
  then show ?thesis using e by (auto simp: x_def r_def)
qed

section \<open>Slots in flight\<close>

text \<open>Requests entering and leaving; \<open>held\<close> lists the slots of the requests in flight.\<close>

inductive gate_run :: "limits \<Rightarrow> gate_state \<Rightarrow> int list \<Rightarrow> bool" for l where
  gate_start: "gt_conc g = Map.empty \<Longrightarrow> gate_run l g []"
| gate_enter: "gate_run l g held \<Longrightarrow> rate_gate_enter l now key res is_get g = (Inr slot, g') \<Longrightarrow>
     gate_run l g' (case slot of None \<Rightarrow> held | Some a \<Rightarrow> a # held)"
| gate_refuse: "gate_run l g held \<Longrightarrow> rate_gate_enter l now key res is_get g = (Inl e, g') \<Longrightarrow> gate_run l g' held"
| gate_leave: "gate_run l g (xs @ a # ys) \<Longrightarrow> gate_run l (rate_gate_leave (Some a) g) (xs @ ys)"

text \<open>What an entry does to the counters.\<close>

lemma rate_gate_enter_conc:
  assumes "rate_gate_enter l now key res is_get g = (r, g')"
  shows "(case r of Inr (Some a) \<Rightarrow> \<exists>rs. res = Some rs \<and> br_account rs = a \<and>
       try_acquire (gt_conc g) a (max_concurrent l (br_managed rs)) = (True, gt_conc g')
     | _ \<Rightarrow> gt_conc g' = gt_conc g)"
proof (cases key)
  case None
  then show ?thesis using assms by (auto simp: rate_gate_enter_def)
next
  case (Some k)
  obtain key_ok kr keys1 where kl: "limiter_allow (gt_keys g) now (ak_id (au_key k)) (ak_rate_limit (au_key k)) = ((key_ok, kr), keys1)"
    by (metis prod.exhaust)
  show ?thesis
  proof (cases res)
    case None
    then show ?thesis using assms kl by (cases key_ok) (auto simp: rate_gate_enter_def Some Let_def)
  next
    case res: (Some rs)
    obtain acc_ok ar acc1 where al: "limiter_allow (gt_accounts g) now (br_account rs) (effective_limit (br_rate rs) (br_managed rs) l) = ((acc_ok, ar), acc1)"
      by (metis prod.exhaust)
    obtain b c where tl: "try_acquire (gt_conc g) (br_account rs) (max_concurrent l (br_managed rs)) = (b, c)"
      by (metis prod.exhaust)
    have c: "\<not> b \<Longrightarrow> c = gt_conc g" using tl by (auto simp: try_acquire_def split: if_splits)
    show ?thesis using assms kl al tl c
      by (cases acc_ok; cases key_ok; cases is_get; cases b) (auto simp: rate_gate_enter_def Some res Let_def)
  qed
qed

definition caps_positive :: "limits \<Rightarrow> bool" where
  "caps_positive l \<longleftrightarrow> 0 < lm_end_user_conc l \<and> 0 < lm_service_conc l"

lemma max_concurrent_pos: "caps_positive l \<Longrightarrow> 0 < max_concurrent l m"
  by (simp add: caps_positive_def max_concurrent_def)

lemma gate_run_counts:
  assumes "gate_run l g held" "caps_positive l"
  shows "conc_ok (gt_conc g) \<and> (\<forall>a. in_use (gt_conc g) a = int (count_list held a))"
  using assms
proof (induction rule: gate_run.induct)
  case (gate_start g)
  then show ?case by (simp add: conc_ok_def in_use_def)
next
  case (gate_enter g held now key res is_get slot g')
  show ?case
  proof (cases slot)
    case None
    then show ?thesis using gate_enter rate_gate_enter_conc [OF gate_enter.hyps(2)] by simp
  next
    case (Some a)
    then obtain rs where "res = Some rs" "br_account rs = a" and
      t: "try_acquire (gt_conc g) a (max_concurrent l (br_managed rs)) = (True, gt_conc g')"
      using rate_gate_enter_conc [OF gate_enter.hyps(2)] by auto
    have "conc_ok (gt_conc g')" using try_acquire_ok [of "gt_conc g"] gate_enter.IH gate_enter.prems t by (metis snd_conv)
    moreover have "in_use (gt_conc g') k = in_use (gt_conc g) k + (if k = a then 1 else 0)" for k
      using try_acquire_in_use [OF max_concurrent_pos [OF gate_enter.prems] t] by blast
    ultimately show ?thesis using gate_enter Some by auto
  qed
next
  case (gate_refuse g held now key res is_get e g')
  then show ?case using rate_gate_enter_conc [OF gate_refuse.hyps(2)] by simp
next
  case (gate_leave g xs a ys)
  then have i: "conc_ok (gt_conc g)" "\<forall>k. in_use (gt_conc g) k = int (count_list (xs @ a # ys) k)" by simp_all
  then have "1 \<le> in_use (gt_conc g) a" by simp
  then show ?case using i release_slot_in_use [OF i(1)] release_slot_ok [OF i(1)]
    by (simp add: rate_gate_leave_def)
qed

text \<open>
  The concurrency counter is the number of requests in flight. In every run in which
  requests enter, are refused, and leave in any order, the counter of an account equals the
  number of its requests holding a slot; a request gets a slot only while fewer than the cap
  of its class are held; and when all have left, every counter is back to zero.
\<close>
theorem concurrency_slots:
  assumes "gate_run l g held" and "caps_positive l"
  shows "in_use (gt_conc g) a = int (count_list held a) \<and>
    (\<forall>now key rs is_get g'. rate_gate_enter l now key (Some rs) is_get g = (Inr (Some a), g') \<longrightarrow>
       int (count_list held a) < max_concurrent l (br_managed rs)) \<and>
    (held = [] \<longrightarrow> gt_conc g = Map.empty)"
proof (intro conjI allI impI)
  note i = gate_run_counts [OF assms]
  show "in_use (gt_conc g) a = int (count_list held a)" using i by blast
  fix now key rs is_get g'
  assume "rate_gate_enter l now key (Some rs) is_get g = (Inr (Some a), g')"
  then have "try_acquire (gt_conc g) a (max_concurrent l (br_managed rs)) = (True, gt_conc g')"
    using rate_gate_enter_conc by fastforce
  from try_acquire_in_use [OF max_concurrent_pos [OF assms(2)] this, of a]
  have "in_use (gt_conc g') a = in_use (gt_conc g) a + 1" "in_use (gt_conc g') a \<le> max_concurrent l (br_managed rs)" by simp_all
  then show "int (count_list held a) < max_concurrent l (br_managed rs)" using i by simp
next
  assume h: "held = []"
  note i = gate_run_counts [OF assms]
  show "gt_conc g = Map.empty"
  proof
    fix k
    have u: "in_use (gt_conc g) k = 0" and ok: "conc_ok (gt_conc g)" using i h by simp_all
    show "gt_conc g k = None"
    proof (cases "gt_conc g k")
      case (Some n)
      then have "1 \<le> n" "in_use (gt_conc g) k = n" using ok by (simp_all add: conc_ok_def in_use_def)
      then show ?thesis using u by simp
    qed
  qed
qed

theorem concurrency_slots_witness:
  "\<exists>g. gate_run demo_limits g [7] \<and> in_use (gt_conc g) 7 = 1"
proof -
  define r :: resolution where "r = \<lparr>br_account = 7, br_managed = False, br_rate = None\<rparr>"
  define g0 :: gate_state where "g0 = \<lparr>gt_keys = Map.empty, gt_accounts = Map.empty, gt_conc = Map.empty\<rparr>"
  define x where "x = rate_gate_enter demo_limits 0 (Some demo_auth) (Some r) False g0"
  have "fst x = Inr (Some 7)" unfolding x_def r_def g0_def by code_simp
  then have e: "x = (Inr (Some 7), snd x)" by (metis prod.collapse)
  have "gate_run demo_limits g0 []" by (rule gate_start) (simp add: g0_def)
  from gate_enter [OF this e [unfolded x_def]] have g: "gate_run demo_limits (snd x) [7]" by (simp add: x_def)
  have "caps_positive demo_limits" by (simp add: caps_positive_def demo_limits_def)
  from concurrency_slots [OF g this, of 7] g show ?thesis by auto
qed

section \<open>The pre-check is exact\<close>

lemma f_of_micros_less:
  assumes "dec_ok a" "dec_ok b" shows "0 < fsub (f_of_micros a) (f_of_micros b) \<longleftrightarrow> b < a"
proof
  assume "b < a"
  then have "micros_val b + 1 / 1000000 \<le> micros_val a" by (simp add: micros_val_def field_simps)
  moreover have "\<bar>f_of_micros a - micros_val a\<bar> \<le> 3 / 25000000" "\<bar>f_of_micros b - micros_val b\<bar> \<le> 3 / 25000000"
    using f_of_micros_error [OF assms(1)] f_of_micros_error [OF assms(2)] by simp_all
  ultimately have d: "1 / 2000000 \<le> f_of_micros a - f_of_micros b" unfolding abs_le_iff by linarith
  have "rnd64 (1 / 2000000) \<le> fsub (f_of_micros a) (f_of_micros b)" unfolding fsub_def by (rule rnd64_mono [OF d])
  moreover have "0 < rnd64 (1 / 2000000)" by code_simp
  ultimately show "0 < fsub (f_of_micros a) (f_of_micros b)" by linarith
next
  assume p: "0 < fsub (f_of_micros a) (f_of_micros b)"
  show "b < a"
  proof (rule ccontr)
    assume "\<not> b < a"
    then have "f_of_micros a \<le> f_of_micros b" unfolding f_of_micros_def by (intro rnd64_mono) simp
    then have "fsub (f_of_micros a) (f_of_micros b) \<le> rnd64 0" unfolding fsub_def by (intro rnd64_mono) simp
    then show False using p by simp
  qed
qed

text \<open>
  The credit gate lets a request through exactly when it should. With a working database
  and a consistent ledger, a request billed to account a passes exactly when the account has
  its balance row, is active, and its balance exceeds what is reserved, to the millionth, although the comparison is made
  in floating point; a request with no account to bill never passes, and a cap hit is recorded
  only for an allowance-managed account refused with monthly_limit_reached.
\<close>
theorem credit_gate_exact:
  assumes "ledger_inv s" and "\<not> f 0"
  shows "(fst (credit_gate f (Some k) (Some r) s) = Inr () \<longleftrightarrow>
      (\<exists>ac cb. row_of ac_id (br_account r) (accounts s) = Some ac \<and> balances s (br_account r) = Some cb \<and>
         ac_active ac \<and> cb_reserved cb < cb_balance cb)) \<and>
    (ak_account (au_key k) = None \<longrightarrow> fst (credit_gate f (Some k) None s) = Inl (api_err 403 ''account_required'' ''invalid_request_error'')) \<and>
    (\<forall>a. snd (credit_gate f (Some k) (Some r) s) = Some a \<longrightarrow> a = br_account r \<and> br_managed r \<and>
       fst (credit_gate f (Some k) (Some r) s) = Inl (api_err 402 ''monthly_limit_reached'' ''invalid_request_error''))"
proof -
  have "0 < fsub (f_of_micros (cb_balance cb)) (f_of_micros (cb_reserved cb)) \<longleftrightarrow> cb_reserved cb < cb_balance cb"
    if "balances s (br_account r) = Some cb" for cb
    using ledger_invD [OF assms(1) that] by (intro f_of_micros_less) simp_all
  then have e: "fsub (f_of_micros (cb_balance cb)) (f_of_micros (cb_reserved cb)) \<le> 0 \<longleftrightarrow> cb_balance cb \<le> cb_reserved cb"
    if "balances s (br_account r) = Some cb" for cb
    using that by (metis not_le)
  have n: "credit_gate f (Some k) None s = (Inl (api_err 403 ''account_required'' ''invalid_request_error''), None)"
    if "ak_account (au_key k) = None" using that by (simp add: credit_gate_def)
  show ?thesis
  proof (cases "row_of ac_id (br_account r) (accounts s) = None \<or> balances s (br_account r) = None")
    case True
    then have st: "get_account_credit_status f (br_account r) s = Inl NoBalanceRow"
      using assms(2) by (auto simp: get_account_credit_status_def split: option.splits)
    show ?thesis using n True by (auto simp: credit_gate_def st)
  next
    case False
    then obtain ac cb where ac: "row_of ac_id (br_account r) (accounts s) = Some ac" and cb: "balances s (br_account r) = Some cb"
      by auto
    have st: "get_account_credit_status f (br_account r) s =
        Inr (ac_active ac, f_of_micros (cb_balance cb), f_of_micros (cb_reserved cb))"
      using assms(2) ac cb by (simp add: get_account_credit_status_def)
    show ?thesis using n e [OF cb] ac cb by (auto simp: credit_gate_def st)
  qed
qed

theorem credit_gate_exact_witness:
  "fst (credit_gate no_faults (Some demo_auth) (Some \<lparr>br_account = 1, br_managed = False, br_rate = None\<rparr>) one_hold_db) = Inr ()"
  using credit_gate_exact [OF one_hold_inv(1), of no_faults demo_auth "\<lparr>br_account = 1, br_managed = False, br_rate = None\<rparr>"]
  by (simp add: one_hold_db_def row_of_def)

end
