(* ===== verification/Registry.thy ===== *)
theory Registry
  imports Prelude GoTime "HOL-Library.Multiset"
begin

text \<open>
  internal/registry: the routing core. The writer-side entries are a table in map iteration
  order, which Go leaves open; publishing sorts it, and \<open>publish_order\<close> shows the order does
  not matter. A URL is the value of its String method; a nil URL is None. The deep copies
  (clone, cloneModels) are the identity on values.
\<close>

section \<open>State\<close>

datatype health = HealthUnknown | HealthHealthy | HealthUnhealthy

record node =
  nd_id :: int
  nd_name :: string
  nd_url :: "string option"
  nd_auth :: string
  nd_timeout :: duration

record node_state =
  ns_node :: node
  ns_health :: health
  ns_models :: "string list option"
  ns_last_error :: string
  ns_last_checked :: gotime

record probe_result =
  pb_health :: health
  pb_models :: "string list option"
  pb_last_error :: string
  pb_last_checked :: gotime

text \<open>
  An entry and a published node state have the same five fields. In the model of the
  published map \<open>model \<rightarrow> candidates\<close> a missing key is the empty list: a key is only created
  by appending to it.
\<close>

record snapshot =
  sn_nodes :: "node_state list"
  sn_models :: "string \<Rightarrow> node list"

record registry =
  rg_snap :: snapshot
  rg_entries :: "node_state list"
  rg_counters :: "string \<rightharpoonup> 64 word"

definition entry_id :: "node_state \<Rightarrow> int" where
  [simp]: "entry_id e = nd_id (ns_node e)"

definition new_registry :: registry where
  "new_registry = \<lparr>rg_snap = \<lparr>sn_nodes = [], sn_models = (\<lambda>_. [])\<rparr>, rg_entries = [], rg_counters = Map.empty\<rparr>"

section \<open>Publishing\<close>

definition routable :: "node_state \<Rightarrow> bool" where
  "routable e \<longleftrightarrow> ns_health e = HealthHealthy \<and> ns_models e \<noteq> None"

text \<open>models[m] = append(models[m], e.node) for every m of the list, repetitions included.\<close>

definition entry_candidates :: "string \<Rightarrow> node_state \<Rightarrow> node list" where
  "entry_candidates m e = (if routable e
     then map (\<lambda>_. ns_node e) (filter (\<lambda>m'. m' = m) (the (ns_models e))) else [])"

definition snapshot_of :: "node_state list \<Rightarrow> snapshot" where
  "snapshot_of es = \<lparr>sn_nodes = sort_key entry_id es,
     sn_models = (\<lambda>m. sort_key nd_id (concat (map (entry_candidates m) es)))\<rparr>"

definition publish :: "registry \<Rightarrow> registry" where
  "publish r = (let sn = snapshot_of (rg_entries r) in
     r\<lparr>rg_snap := sn,
       rg_counters := (\<lambda>m. if sn_models sn m = [] then None else rg_counters r m)\<rparr>)"

section \<open>Operations\<close>

definition put_entry :: "node_state \<Rightarrow> node_state list \<Rightarrow> node_state list" where
  "put_entry e es = (if entry_id e \<in> entry_id ` set es
     then upd_where (\<lambda>x. entry_id x = entry_id e) (\<lambda>_. e) es else es @ [e])"

text \<open>The entry of a declared node: runtime state carries over when the URL is unchanged.\<close>

definition declared_entry :: "node_state list \<Rightarrow> node \<Rightarrow> node_state" where
  "declared_entry old n = (case row_of entry_id (nd_id n) old of
     Some prev \<Rightarrow> if nd_url (ns_node prev) = nd_url n then prev\<lparr>ns_node := n\<rparr>
       else \<lparr>ns_node = n, ns_health = HealthUnknown, ns_models = None, ns_last_error = [], ns_last_checked = zero_time\<rparr>
   | None \<Rightarrow> \<lparr>ns_node = n, ns_health = HealthUnknown, ns_models = None, ns_last_error = [], ns_last_checked = zero_time\<rparr>)"

definition set_nodes :: "node list \<Rightarrow> registry \<Rightarrow> registry" where
  "set_nodes ns r = publish (r\<lparr>rg_entries := fold (\<lambda>n. put_entry (declared_entry (rg_entries r) n)) ns []\<rparr>)"

definition upd_entry :: "int \<Rightarrow> (node_state \<Rightarrow> node_state) \<Rightarrow> registry \<Rightarrow> registry" where
  "upd_entry i g r = (if i \<in> entry_id ` set (rg_entries r)
     then publish (r\<lparr>rg_entries := upd_where (\<lambda>e. entry_id e = i) g (rg_entries r)\<rparr>) else r)"

definition set_node_state :: "int \<Rightarrow> health \<Rightarrow> string list option \<Rightarrow> registry \<Rightarrow> registry" where
  "set_node_state i h ms = upd_entry i (\<lambda>e. e\<lparr>ns_health := h, ns_models := ms\<rparr>)"

definition set_node_probe :: "int \<Rightarrow> probe_result \<Rightarrow> registry \<Rightarrow> registry" where
  "set_node_probe i p = upd_entry i (\<lambda>e. e\<lparr>ns_health := pb_health p, ns_models := pb_models p,
     ns_last_error := pb_last_error p, ns_last_checked := pb_last_checked p\<rparr>)"

text \<open>
  Resolve is two atomic steps: the load of the published candidates, and, with more than one
  of them, the fetch-and-increment of the counter under the mutex. Writers may run between
  the two. None is ErrModelUnavailable.
\<close>

definition resolve_load :: "string \<Rightarrow> registry \<Rightarrow> node list" where
  "resolve_load m r = sn_models (rg_snap r) m"

definition resolve_pick :: "string \<Rightarrow> node list \<Rightarrow> registry \<Rightarrow> node option \<times> registry" where
  "resolve_pick m cs r =
     (if cs = [] then (None, r)
      else if length cs = 1 then (Some (hd cs), r)
      else let c = (case rg_counters r m of None \<Rightarrow> 0 | Some c \<Rightarrow> c) in
        (Some (cs ! (unat c mod length cs)), r\<lparr>rg_counters := (rg_counters r)(m \<mapsto> c + 1)\<rparr>))"

definition resolve :: "string \<Rightarrow> registry \<Rightarrow> node option \<times> registry" where
  "resolve m r = resolve_pick m (resolve_load m r) r"

definition registry_snapshot :: "registry \<Rightarrow> snapshot" where
  "registry_snapshot r = rg_snap r"

section \<open>Sorting forgets the iteration order\<close>

lemma sort_key_unique:
  assumes "mset xs = mset ys" "\<And>x y. x \<in> set xs \<Longrightarrow> y \<in> set xs \<Longrightarrow> k x = k y \<Longrightarrow> x = y"
  shows "sort_key k xs = sort_key k ys"
  using assms
proof (intro properties_for_sort_key)
  fix c assume "c \<in> set (sort_key k ys)"
  then have c: "c \<in> set xs" using assms(1) by (metis set_mset_mset set_sort)
  have "filter (\<lambda>x. k c = k x) (sort_key k ys) = filter (\<lambda>x. x = c) (sort_key k ys)"
  proof (rule filter_cong)
    fix x assume "x \<in> set (sort_key k ys)"
    then have "x \<in> set xs" using assms(1) by (metis set_mset_mset set_sort)
    then show "(k c = k x) = (x = c)" using assms(2) c by metis
  qed simp
  moreover have "filter (\<lambda>x. k c = k x) xs = filter (\<lambda>x. x = c) xs"
    by (rule filter_cong) (use assms(2) c in metis)+
  moreover have "filter (\<lambda>x. x = c) zs = replicate (count (mset zs) c) c" for zs
    by (induction zs) auto
  ultimately show "filter (\<lambda>x. k c = k x) (sort_key k ys) = filter (\<lambda>x. k c = k x) xs"
    using assms(1) by simp
qed (use assms in simp_all)

lemma mset_concat_map:
  "mset xs = mset ys \<Longrightarrow> mset (concat (map f xs)) = mset (concat (map f ys))"
proof -
  assume "mset xs = mset ys"
  then have "(\<Sum>x\<in>#mset xs. mset (f x)) = (\<Sum>x\<in>#mset ys. mset (f x))" by simp
  moreover have "mset (concat (map f zs)) = (\<Sum>x\<in>#mset zs. mset (f x))" for zs
    by (induction zs) simp_all
  ultimately show ?thesis by simp
qed

lemma entry_candidates_mem:
  "n \<in> set (entry_candidates m e) \<longleftrightarrow>
   n = ns_node e \<and> ns_health e = HealthHealthy \<and> (\<exists>ms. ns_models e = Some ms \<and> m \<in> set ms)"
  by (auto simp: entry_candidates_def routable_def)

text \<open>What is published does not depend on the order in which Go iterates over the entries:
  any two iteration orders of the same entries give the same snapshot.\<close>

theorem publish_order:
  assumes same: "mset es = mset es'" and ids: "distinct (map entry_id es)"
  shows "snapshot_of es = snapshot_of es'"
proof -
  have "inj_on entry_id (set es)" using ids by (simp add: distinct_map del: entry_id_def)
  then have inj: "x = y" if "x \<in> set es" "y \<in> set es" "entry_id x = entry_id y" for x y
    by (rule inj_onD [OF _ that(3,1,2)])
  have "sort_key entry_id es = sort_key entry_id es'" by (rule sort_key_unique [OF same inj])
  moreover have "sort_key nd_id (concat (map (entry_candidates m) es)) =
      sort_key nd_id (concat (map (entry_candidates m) es'))" for m
  proof (rule sort_key_unique [OF mset_concat_map [OF same]])
    fix x y
    assume "x \<in> set (concat (map (entry_candidates m) es))" "y \<in> set (concat (map (entry_candidates m) es))"
      "nd_id x = nd_id y"
    then obtain ex ey where "ex \<in> set es" "x = ns_node ex" "ey \<in> set es" "y = ns_node ey"
      by (auto simp: entry_candidates_mem)
    moreover from this \<open>nd_id x = nd_id y\<close> have "ex = ey" by (intro inj) simp_all
    ultimately show "x = y" by simp
  qed
  ultimately show ?thesis by (simp add: snapshot_of_def)
qed

definition plain_node :: "int \<Rightarrow> node" where
  "plain_node i = \<lparr>nd_id = i, nd_name = ''n'', nd_url = Some ''http://h'', nd_auth = [], nd_timeout = 0\<rparr>"

definition healthy_entry :: "int \<Rightarrow> string list \<Rightarrow> node_state" where
  "healthy_entry i ms = \<lparr>ns_node = plain_node i, ns_health = HealthHealthy, ns_models = Some ms,
     ns_last_error = [], ns_last_checked = 0\<rparr>"

lemma publish_order_witness:
  "snapshot_of [healthy_entry 1 [''m''], healthy_entry 2 [''m'']] =
   snapshot_of [healthy_entry 2 [''m''], healthy_entry 1 [''m'']]"
  by (rule publish_order) (simp_all add: healthy_entry_def plain_node_def)


section \<open>Invariant\<close>

text \<open>
  Node ids are unique, the published snapshot is that of the entries, and only routable
  models have a round-robin counter, so the counter map is bounded by the catalog.
\<close>

definition registry_inv :: "registry \<Rightarrow> bool" where
  "registry_inv r \<longleftrightarrow> distinct (map entry_id (rg_entries r)) \<and> rg_snap r = snapshot_of (rg_entries r) \<and>
     (\<forall>m. rg_counters r m \<noteq> None \<longrightarrow> sn_models (rg_snap r) m \<noteq> [])"

lemma publish_simps [simp]:
  "rg_entries (publish r) = rg_entries r" "rg_snap (publish r) = snapshot_of (rg_entries r)"
  by (simp_all add: publish_def Let_def)

lemma publish_inv: "distinct (map entry_id (rg_entries r)) \<Longrightarrow> registry_inv (publish r)"
  by (auto simp: registry_inv_def publish_def Let_def split: if_splits)

lemma put_entry_ids: "entry_id ` set (put_entry e es) = insert (entry_id e) (entry_id ` set es)"
  by (auto simp: put_entry_def set_upd_where image_iff split: if_splits)

lemma put_entry_distinct:
  assumes "distinct (map entry_id es)" shows "distinct (map entry_id (put_entry e es))"
proof (cases "entry_id e \<in> entry_id ` set es")
  case True
  have "map entry_id (upd_where (\<lambda>x. entry_id x = entry_id e) (\<lambda>_. e) es) = map entry_id es"
    by (auto simp: upd_where_def)
  then show ?thesis using True assms by (simp add: put_entry_def)
next
  case False
  then show ?thesis using assms by (auto simp: put_entry_def)
qed

lemma put_entry_mem:
  "e' \<in> set (put_entry e es) \<longleftrightarrow> e' = e \<or> (e' \<in> set es \<and> entry_id e' \<noteq> entry_id e)"
  by (auto simp: put_entry_def set_upd_where image_iff split: if_splits)

lemma declared_entry_id [simp]: "nd_id (ns_node (declared_entry old n)) = nd_id n"
  by (auto simp: declared_entry_def split: option.split)

lemma declared_entry_entry_id [simp]: "entry_id (declared_entry old n) = nd_id n"
  by simp

lemma declared_entry_node [simp]: "ns_node (declared_entry old n) = n"
  by (auto simp: declared_entry_def split: option.split)

lemma fold_put_distinct:
  "distinct (map entry_id es) \<Longrightarrow> distinct (map entry_id (fold (\<lambda>n. put_entry (f n)) ns es))"
  by (induction ns arbitrary: es) (simp_all del: entry_id_def add: put_entry_distinct)

lemma fold_put_mem:
  "e \<in> set (fold (\<lambda>n. put_entry (declared_entry old n)) ns es) \<Longrightarrow>
   e \<in> set es \<or> (\<exists>n \<in> set ns. e = declared_entry old n)"
proof (induction ns arbitrary: es)
  case (Cons a ns)
  from Cons.prems have "e \<in> set (fold (\<lambda>n. put_entry (declared_entry old n)) ns (put_entry (declared_entry old a) es))"
    by simp
  from Cons.IH [OF this] show ?case by (auto simp: put_entry_mem simp del: entry_id_def)
qed simp

lemma fold_put_ids:
  "entry_id ` set (fold (\<lambda>n. put_entry (declared_entry old n)) ns es) = entry_id ` set es \<union> nd_id ` set ns"
  by (induction ns arbitrary: es) (auto simp: put_entry_ids simp del: entry_id_def)

lemma set_nodes_inv: "registry_inv (set_nodes ns r)"
  unfolding set_nodes_def by (intro publish_inv) (simp add: fold_put_distinct del: entry_id_def)

lemma upd_entry_inv:
  assumes "registry_inv r" "\<And>e. ns_node (g e) = ns_node e"
  shows "registry_inv (upd_entry i g r)"
proof -
  have "map entry_id (upd_where p g es) = map entry_id es" for p es
    using assms(2) by (simp add: upd_where_def)
  then have "registry_inv (publish (r\<lparr>rg_entries := upd_where (\<lambda>e. entry_id e = i) g (rg_entries r)\<rparr>))"
    using assms(1) by (intro publish_inv) (simp add: registry_inv_def del: entry_id_def)
  then show ?thesis using assms(1) by (simp add: upd_entry_def)
qed

lemma candidates_iff:
  assumes "registry_inv r"
  shows "n \<in> set (resolve_load m r) \<longleftrightarrow> (\<exists>e \<in> set (rg_entries r). n = ns_node e \<and>
     ns_health e = HealthHealthy \<and> (\<exists>ms. ns_models e = Some ms \<and> m \<in> set ms))"
  using assms by (simp add: registry_inv_def resolve_load_def snapshot_of_def entry_candidates_mem)

lemma resolve_pick_mem:
  "resolve_pick m cs r = (Some n, r') \<Longrightarrow> n \<in> set cs"
  by (auto simp: resolve_pick_def Let_def split: if_splits)

text \<open>Every operation of the registry keeps its invariant: unique node ids, a published
  snapshot that is the one of the entries, and counters for routable models only (when Resolve
  runs without an interleaved publish).\<close>

theorem registry_ops_inv:
  assumes "registry_inv r"
  shows "registry_inv (set_nodes ns r) \<and> registry_inv (set_node_state i h ms r) \<and>
    registry_inv (set_node_probe i p r) \<and> registry_inv (snd (resolve m r))"
proof (intro conjI)
  show "registry_inv (snd (resolve m r))"
    using assms by (auto simp: resolve_def resolve_pick_def resolve_load_def registry_inv_def Let_def)
qed (simp_all add: set_nodes_inv set_node_state_def set_node_probe_def upd_entry_inv assms)

lemma registry_ops_inv_witness: "registry_inv (snd (resolve ''m'' new_registry))"
proof -
  have "registry_inv new_registry" by (simp add: registry_inv_def new_registry_def snapshot_of_def)
  then show ?thesis using registry_ops_inv [of new_registry] by blast
qed

section \<open>Resolve\<close>

text \<open>C20: Resolve answers with a node only if that node is declared, healthy and lists the model, and
  it fails only if no such node exists.\<close>

theorem resolve_sound_complete:
  assumes inv: "registry_inv r"
  shows "(\<forall>n. fst (resolve m r) = Some n \<longrightarrow> (\<exists>e \<in> set (rg_entries r). n = ns_node e \<and>
      ns_health e = HealthHealthy \<and> (\<exists>ms. ns_models e = Some ms \<and> m \<in> set ms))) \<and>
    (fst (resolve m r) = None \<longleftrightarrow> \<not> (\<exists>e \<in> set (rg_entries r).
      ns_health e = HealthHealthy \<and> (\<exists>ms. ns_models e = Some ms \<and> m \<in> set ms)))"
proof (intro conjI allI impI)
  fix n assume "fst (resolve m r) = Some n"
  then have "resolve_pick m (resolve_load m r) r = (Some n, snd (resolve m r))"
    by (simp add: resolve_def prod_eq_iff)
  then have "n \<in> set (resolve_load m r)" by (rule resolve_pick_mem)
  then show "\<exists>e \<in> set (rg_entries r). n = ns_node e \<and> ns_health e = HealthHealthy \<and>
      (\<exists>ms. ns_models e = Some ms \<and> m \<in> set ms)" using candidates_iff [OF inv] by blast
next
  have "fst (resolve m r) = None \<longleftrightarrow> resolve_load m r = []"
    by (auto simp: resolve_def resolve_pick_def Let_def)
  also have "\<dots> \<longleftrightarrow> \<not> (\<exists>n. n \<in> set (resolve_load m r))" by (auto simp: neq_Nil_conv)
  finally show "fst (resolve m r) = None \<longleftrightarrow> \<not> (\<exists>e \<in> set (rg_entries r).
      ns_health e = HealthHealthy \<and> (\<exists>ms. ns_models e = Some ms \<and> m \<in> set ms))"
    using candidates_iff [OF inv] by blast
qed

definition two_node_registry :: registry where
  "two_node_registry = publish (new_registry\<lparr>rg_entries := [healthy_entry 2 [''m''], healthy_entry 1 [''m'', ''k'']]\<rparr>)"

lemma two_node_inv [simp]: "registry_inv two_node_registry"
  unfolding two_node_registry_def by (intro publish_inv) (simp add: healthy_entry_def plain_node_def)

lemma two_node_load [simp]: "resolve_load ''m'' two_node_registry = [plain_node 1, plain_node 2]"
  by (simp add: resolve_load_def two_node_registry_def snapshot_of_def entry_candidates_def routable_def
      healthy_entry_def plain_node_def)

lemma resolve_sound_complete_witness: "fst (resolve ''m'' two_node_registry) \<noteq> None"
  using resolve_sound_complete [OF two_node_inv, of "''m''"]
  by (simp add: two_node_registry_def healthy_entry_def)

section \<open>Round robin\<close>

fun resolve_times :: "nat \<Rightarrow> string \<Rightarrow> registry \<Rightarrow> node option list" where
  "resolve_times 0 m r = []"
| "resolve_times (Suc k) m r = fst (resolve m r) # resolve_times k m (snd (resolve m r))"

lemma resolve_times_nth:
  fixes c :: "64 word"
  assumes "resolve_load m r = cs" "2 \<le> length cs"
    and "(case rg_counters r m of None \<Rightarrow> 0 | Some c \<Rightarrow> c) = c" "unat c + k < 2 ^ 64"
  shows "resolve_times k m r = map (\<lambda>i. Some (cs ! ((unat c + i) mod length cs))) [0..<k]"
  using assms
proof (induction k arbitrary: r c)
  case (Suc k)
  let ?r = "snd (resolve m r)"
  have res: "resolve m r = (Some (cs ! (unat c mod length cs)), r\<lparr>rg_counters := (rg_counters r)(m \<mapsto> c + 1)\<rparr>)"
    using Suc.prems by (auto simp: resolve_def resolve_pick_def)
  have suc: "unat (c + 1) = unat c + 1"
    using Suc.prems(4) by (simp add: unat_word_ariths)
  have "resolve_times k m ?r = map (\<lambda>i. Some (cs ! ((unat (c + 1) + i) mod length cs))) [0..<k]"
    using Suc.prems suc by (intro Suc.IH) (simp_all add: res resolve_load_def)
  then show ?case
    by (simp add: res suc upt_conv_Cons map_Suc_upt [symmetric] del: upt_Suc)
qed simp

lemma rotation_mset: "mset (map (\<lambda>i. cs ! ((c + i) mod length cs)) [0..<length cs]) = mset cs"
proof (cases "cs = []")
  case False
  then have n: "0 < length cs" by simp
  have e: "map (\<lambda>i. cs ! ((c + i) mod length cs)) [0..<length cs] = rotate c cs"
    using n by (intro nth_equalityI) (simp_all add: nth_rotate)
  show ?thesis unfolding e rotate_drop_take mset_append
    by (metis append_take_drop_id mset_append union_commute)
qed simp

text \<open>Round robin is fair: as many successive Resolve calls as the model has candidates pick each
  candidate exactly once (short of the wrap-around of the uint64 counter).\<close>

theorem round_robin_fair:
  assumes cs: "resolve_load m r = cs" "cs \<noteq> []"
    and c: "(case rg_counters r m of None \<Rightarrow> 0 | Some c \<Rightarrow> unat c) + length cs < 2 ^ 64"
  shows "mset (resolve_times (length cs) m r) = image_mset Some (mset cs)"
proof (cases "length cs = 1")
  case True
  then obtain x where "cs = [x]" by (auto simp: length_Suc_conv)
  then show ?thesis using cs by (simp add: resolve_def resolve_pick_def)
next
  case False
  moreover have "length cs \<noteq> 0" using cs(2) by simp
  ultimately have "2 \<le> length cs" by linarith
  define c0 where "c0 = (case rg_counters r m of None \<Rightarrow> 0 | Some c \<Rightarrow> c)"
  have "unat c0 + length cs < 2 ^ 64" using c by (auto simp: c0_def split: option.splits)
  then have "resolve_times (length cs) m r = map (\<lambda>i. Some (cs ! ((unat c0 + i) mod length cs))) [0..<length cs]"
    using cs \<open>2 \<le> length cs\<close> by (intro resolve_times_nth) (simp_all add: c0_def)
  also have "\<dots> = map Some (map (\<lambda>i. cs ! ((unat c0 + i) mod length cs)) [0..<length cs])" by simp
  also have "mset \<dots> = image_mset Some (mset cs)" by (subst mset_map, subst rotation_mset) (rule refl)
  finally show ?thesis .
qed

lemma round_robin_fair_witness:
  "mset (resolve_times (Suc (Suc 0)) ''m'' two_node_registry) = {#Some (plain_node 1), Some (plain_node 2)#}"
proof -
  have "rg_counters two_node_registry ''m'' = None"
    by (simp add: two_node_registry_def publish_def new_registry_def Let_def)
  then show ?thesis using round_robin_fair [OF two_node_load] by (simp del: resolve_times.simps)
qed


section \<open>Declaring nodes\<close>

lemma set_nodes_entries:
  "e \<in> set (rg_entries (set_nodes ns r)) \<Longrightarrow> \<exists>n \<in> set ns. e = declared_entry (rg_entries r) n"
  unfolding set_nodes_def using fold_put_mem [of e "rg_entries r" ns "[]"] by simp

lemma set_nodes_candidate:
  assumes "n \<in> set (resolve_load m (set_nodes ns r))"
  shows "n \<in> set ns \<and> (\<exists>prev. row_of entry_id (nd_id n) (rg_entries r) = Some prev \<and>
    nd_url (ns_node prev) = nd_url n \<and> ns_health prev = HealthHealthy \<and>
    (\<exists>ms. ns_models prev = Some ms \<and> m \<in> set ms))"
proof -
  obtain e where e: "e \<in> set (rg_entries (set_nodes ns r))" "n = ns_node e" "ns_health e = HealthHealthy"
      "\<exists>ms. ns_models e = Some ms \<and> m \<in> set ms"
    using assms candidates_iff [OF set_nodes_inv] by blast
  then obtain n' where n': "n' \<in> set ns" "e = declared_entry (rg_entries r) n'"
    using set_nodes_entries by blast
  then have "n = n'" using e(2) by simp
  then show ?thesis using n' e(3,4)
    by (auto simp: declared_entry_def split: option.splits if_splits)
qed

text \<open>Declaring nodes never makes a backend routable: a node that is a candidate after SetNodes was
  already declared with the same URL, healthy, and listing that model. A changed URL starts over.\<close>

theorem set_nodes_no_optimistic_routing:
  assumes "n \<in> set (resolve_load m (set_nodes ns r))"
  shows "n \<in> set ns \<and> (\<exists>prev. row_of entry_id (nd_id n) (rg_entries r) = Some prev \<and>
    nd_url (ns_node prev) = nd_url n \<and> ns_health prev = HealthHealthy \<and>
    (\<exists>ms. ns_models prev = Some ms \<and> m \<in> set ms))"
  by (rule set_nodes_candidate [OF assms])

lemma set_nodes_no_optimistic_routing_witness:
  "plain_node 1 \<in> set (resolve_load ''k'' (set_nodes [plain_node 1] two_node_registry)) \<and>
   (\<exists>prev. row_of entry_id 1 (rg_entries two_node_registry) = Some prev)"
proof -
  have "declared_entry (rg_entries two_node_registry) (plain_node 1) = healthy_entry 1 [''m'', ''k'']"
    by (simp add: declared_entry_def two_node_registry_def row_of_def healthy_entry_def plain_node_def)
  then have c: "plain_node 1 \<in> set (resolve_load ''k'' (set_nodes [plain_node 1] two_node_registry))"
    by (simp add: resolve_load_def set_nodes_def put_entry_def snapshot_of_def entry_candidates_mem)
       (simp add: healthy_entry_def)
  have "nd_id (plain_node 1) = 1" by (simp add: plain_node_def)
  then show ?thesis using set_nodes_no_optimistic_routing [OF c] c by auto
qed

section \<open>A publish between the two steps of Resolve\<close>

text \<open>The pruning of counters is not airtight: when a publish removes a model between the
  snapshot load and the counter step of a Resolve, the counter of the now unroutable model is
  created again, and it stays until the next publish.\<close>

theorem resolve_race_leaks_counter:
  "registry_inv two_node_registry \<and>
   (let cs = resolve_load ''m'' two_node_registry; r1 = set_nodes [] two_node_registry;
        (n, r2) = resolve_pick ''m'' cs r1
    in resolve_load ''m'' r2 = [] \<and> rg_counters r2 ''m'' = Some 1 \<and> n = Some (plain_node 1))"
  by (simp add: Let_def resolve_pick_def split: prod.split)
     (auto simp: resolve_load_def set_nodes_def publish_def snapshot_of_def Let_def)

section \<open>The interface\<close>

text \<open>
  What the poller relies on, over the observations \<open>routes r m\<close> (the ids that can serve m)
  and \<open>known r\<close> (the declared ids).
\<close>

locale node_registry =
  fixes ok :: "'r \<Rightarrow> bool"
    and known :: "'r \<Rightarrow> int set"
    and routes :: "'r \<Rightarrow> string \<Rightarrow> int set"
    and declare_nodes :: "node list \<Rightarrow> 'r \<Rightarrow> 'r"
    and report :: "int \<Rightarrow> probe_result \<Rightarrow> 'r \<Rightarrow> 'r"
  assumes ok_declare: "ok (declare_nodes ns r)"
    and ok_report: "ok r \<Longrightarrow> ok (report i p r)"
    and known_declare: "known (declare_nodes ns r) = nd_id ` set ns"
    and known_report: "known (report i p r) = known r"
    and routes_known: "ok r \<Longrightarrow> routes r m \<subseteq> known r"
    and routes_declare: "ok r \<Longrightarrow> routes (declare_nodes ns r) m \<subseteq> routes r m"
    and routes_report: "ok r \<Longrightarrow> i \<in> known r \<Longrightarrow> j \<in> routes (report i p r) m \<longleftrightarrow>
      (if j = i then pb_health p = HealthHealthy \<and> (\<exists>ms. pb_models p = Some ms \<and> m \<in> set ms)
       else j \<in> routes r m)"
begin

lemma routes_unknown: "ok r \<Longrightarrow> i \<notin> known r \<Longrightarrow> i \<notin> routes (report j p r) m"
  using routes_known [of "report j p r" m] ok_report [of r j p] known_report [of j p r] by blast

lemma not_routed_unless_healthy:
  "ok r \<Longrightarrow> pb_health p \<noteq> HealthHealthy \<Longrightarrow> i \<notin> routes (report i p r) m"
  using routes_report [of r i i p m] routes_unknown [of r i i p m] by auto

end

definition routed_ids :: "registry \<Rightarrow> string \<Rightarrow> int set" where
  "routed_ids r m = nd_id ` set (resolve_load m r)"

definition known_ids :: "registry \<Rightarrow> int set" where
  "known_ids r = entry_id ` set (rg_entries r)"

lemma routed_ids_iff:
  "registry_inv r \<Longrightarrow> j \<in> routed_ids r m \<longleftrightarrow> (\<exists>e \<in> set (rg_entries r). entry_id e = j \<and>
     ns_health e = HealthHealthy \<and> (\<exists>ms. ns_models e = Some ms \<and> m \<in> set ms))"
  using candidates_iff [of r _ m] by (fastforce simp: routed_ids_def image_iff)

lemma upd_entry_entries:
  "rg_entries (upd_entry i g r) = (if i \<in> known_ids r then upd_where (\<lambda>e. entry_id e = i) g (rg_entries r)
     else rg_entries r)"
  by (simp add: upd_entry_def known_ids_def del: entry_id_def)

lemma known_ids_upd_entry:
  "(\<And>e. ns_node (g e) = ns_node e) \<Longrightarrow> known_ids (upd_entry i g r) = known_ids r"
proof -
  assume g: "\<And>e. ns_node (g e) = ns_node e"
  have "map entry_id (upd_where p g es) = map entry_id es" for p es
    using g by (simp add: upd_where_def)
  from arg_cong [OF this, of set] show ?thesis by (simp add: known_ids_def upd_entry_entries del: entry_id_def)
qed

lemma row_of_entry:
  "registry_inv r \<Longrightarrow> row_of entry_id i (rg_entries r) = Some e \<longleftrightarrow> e \<in> set (rg_entries r) \<and> entry_id e = i"
  using row_of_Some [of entry_id i "rg_entries r" e] row_of_distinct [of entry_id "rg_entries r" e]
  by (auto simp: registry_inv_def simp del: entry_id_def)

interpretation reg: node_registry registry_inv known_ids routed_ids set_nodes set_node_probe
proof
  fix r :: registry and i j m p ns
  show "registry_inv (set_nodes ns r)" by (rule set_nodes_inv)
  show "known_ids (set_nodes ns r) = nd_id ` set ns"
    using fold_put_ids [of "rg_entries r" ns "[]"]
    by (simp add: set_nodes_def known_ids_def del: entry_id_def)
  show "known_ids (set_node_probe i p r) = known_ids r"
    by (simp add: set_node_probe_def known_ids_upd_entry)
  assume inv: "registry_inv r"
  show inv': "registry_inv (set_node_probe i p r)"
    using inv by (simp add: set_node_probe_def upd_entry_inv)
  show "routed_ids r m \<subseteq> known_ids r"
    using routed_ids_iff [OF inv] by (auto simp: known_ids_def)
  show "routed_ids (set_nodes ns r) m \<subseteq> routed_ids r m"
  proof
    fix k assume "k \<in> routed_ids (set_nodes ns r) m"
    then obtain n where n: "n \<in> set (resolve_load m (set_nodes ns r))" "k = nd_id n"
      by (auto simp: routed_ids_def)
    obtain prev where "row_of entry_id (nd_id n) (rg_entries r) = Some prev" "ns_health prev = HealthHealthy"
        "\<exists>ms. ns_models prev = Some ms \<and> m \<in> set ms"
      using set_nodes_candidate [OF n(1)] by blast
    then show "k \<in> routed_ids r m"
      using n(2) inv row_of_Some by (fastforce simp: routed_ids_iff)
  qed
  assume i: "i \<in> known_ids r"
  define f where "f = (\<lambda>e. if entry_id e = i then e\<lparr>ns_health := pb_health p, ns_models := pb_models p,
      ns_last_error := pb_last_error p, ns_last_checked := pb_last_checked p\<rparr> else e)"
  have "set (rg_entries (set_node_probe i p r)) = f ` set (rg_entries r)"
    using i by (simp add: set_node_probe_def upd_entry_entries set_upd_where f_def del: entry_id_def)
  then have "j \<in> routed_ids (set_node_probe i p r) m \<longleftrightarrow> (\<exists>e \<in> set (rg_entries r). entry_id (f e) = j \<and>
      ns_health (f e) = HealthHealthy \<and> (\<exists>ms. ns_models (f e) = Some ms \<and> m \<in> set ms))"
    by (simp only: routed_ids_iff [OF inv'] bex_simps)
  also have "\<dots> \<longleftrightarrow> (if j = i then pb_health p = HealthHealthy \<and> (\<exists>ms. pb_models p = Some ms \<and> m \<in> set ms)
      else j \<in> routed_ids r m)"
    using i by (auto simp: routed_ids_iff [OF inv] known_ids_def f_def)
  finally show "(j \<in> routed_ids (set_node_probe i p r) m) = (if j = i then pb_health p = HealthHealthy \<and>
      (\<exists>ms. pb_models p = Some ms \<and> m \<in> set ms) else j \<in> routed_ids r m)" .
qed

end
