(* ===== verification/Chat.thy ===== *)
theory Chat
  imports Gate Registry
begin

text \<open>
  The client-facing proxy (internal/proxy/proxy.go): the chat-completions flow from the peeked
  body to the settled hold and the queued usage row, and the model listing. encoding/json and
  the upstream exchange are parameters: what a body decodes to, and what the upstream answers.
  Other requests and background jobs act between the steps; \<open>env 0\<close> is what they do
  before the routing, \<open>env 1\<close> what they do while the upstream request runs.
\<close>

section \<open>Data\<close>

text \<open>The peeked fields; the inner option of include_usage is its own pointer.\<close>

record request_meta =
  rm_model :: string
  rm_stream :: "bool option"
  rm_max_tokens :: "int option"
  rm_max_completion :: "int option"
  rm_stream_options :: "bool option option"

definition wants_stream_usage :: "request_meta \<Rightarrow> bool" where
  "wants_stream_usage m \<longleftrightarrow> rm_stream_options m = Some (Some True)"

record usage_data =
  ud_model :: string
  ud_prompt :: int
  ud_completion :: int
  ud_total :: int

definition no_usage :: "string \<Rightarrow> usage_data" where
  "no_usage m = \<lparr>ud_model = m, ud_prompt = 0, ud_completion = 0, ud_total = 0\<rparr>"

text \<open>
  The decoders: a request body, a body and its stream_options as raw objects (None is an
  error; the inner None of the options is JSON null), a response body over a given record,
  and a stream chunk as its usage counts and number of choices. The encoder may fail.
\<close>

record json_lib =
  jl_meta :: "string \<Rightarrow> request_meta option"
  jl_body :: "string \<Rightarrow> (string \<rightharpoonup> string) option"
  jl_options :: "string \<Rightarrow> (string \<rightharpoonup> string) option option"
  jl_marshal :: "(string \<rightharpoonup> string) \<Rightarrow> string option"
  jl_usage :: "string \<Rightarrow> usage_data \<Rightarrow> usage_data"
  jl_chunk :: "string \<Rightarrow> ((int \<times> int \<times> int) option \<times> nat) option"

definition inject_stream_usage :: "json_lib \<Rightarrow> string \<Rightarrow> string \<times> bool" where
  "inject_stream_usage jl body = (case jl_body jl body of None \<Rightarrow> (body, False) | Some m \<Rightarrow>
     (case (case m ''stream_options'' of None \<Rightarrow> Some Map.empty
            | Some raw \<Rightarrow> (case jl_options jl raw of None \<Rightarrow> None | Some None \<Rightarrow> Some Map.empty | Some (Some opts) \<Rightarrow> Some opts)) of
        None \<Rightarrow> (body, False)
      | Some opts \<Rightarrow>
          (case jl_marshal jl (opts(''include_usage'' \<mapsto> ''true'')) of None \<Rightarrow> (body, False)
           | Some raw \<Rightarrow>
               (case jl_marshal jl (m(''stream_options'' \<mapsto> raw)) of None \<Rightarrow> (body, False) | Some out \<Rightarrow> (out, True)))))"

record billing_info =
  bi_account :: "int option"
  bi_managed :: bool

definition billing_of :: "auth_key option \<Rightarrow> resolution option \<Rightarrow> billing_info" where
  "billing_of key res = (case res of Some r \<Rightarrow> \<lparr>bi_account = Some (br_account r), bi_managed = br_managed r\<rparr>
     | None \<Rightarrow> \<lparr>bi_account = (case key of None \<Rightarrow> None | Some k \<Rightarrow> ak_account (au_key k)), bi_managed = False\<rparr>)"

text \<open>The shared state of a request: the database, the registry and the bounded usage queue.\<close>

record gateway =
  gw_db :: db
  gw_reg :: registry
  gw_queue :: "usage_entry list"

definition on_db :: "(db \<Rightarrow> 'a \<times> db) \<Rightarrow> gateway \<Rightarrow> 'a \<times> gateway" where
  "on_db m g = (case m (gw_db g) of (a, d) \<Rightarrow> (a, g\<lparr>gw_db := d\<rparr>))"

section \<open>Token limits and estimates\<close>

definition requested_max :: "request_meta \<Rightarrow> int option" where
  "requested_max m = (case rm_max_tokens m of None \<Rightarrow> rm_max_completion m | t \<Rightarrow> t)"

text \<open>A failed look-up of the statistics is logged and ignored.\<close>

definition stats_or_none :: "faults \<Rightarrow> int \<Rightarrow> string \<Rightarrow> db \<Rightarrow> usage_stats option" where
  "stats_or_none f a m s = (case get_account_usage_stats f a m s of Inl e \<Rightarrow> None | Inr st \<Rightarrow> st)"

definition session_retry_after :: "gotime \<Rightarrow> gotime option \<Rightarrow> int" where
  "session_retry_after now oldest = (let d = (case oldest of None \<Rightarrow> 6 * hour
       | Some t \<Rightarrow> let u = time_sub (t + 6 * hour) now in if u < 0 then second else u)
     in \<lfloor>duration_seconds d\<rfloor>)"

text \<open>The session limit: int additions wrap.\<close>

definition session_check ::
  "(nat \<Rightarrow> faults) \<Rightarrow> gotime \<Rightarrow> auth_key \<Rightarrow> int \<Rightarrow> request_meta \<Rightarrow> credit_pricing \<Rightarrow> int \<Rightarrow> db \<Rightarrow> api_error option" where
  "session_check f now k a meta p body_len s = (case ak_session_limit (au_key k) of None \<Rightarrow> None | Some limit \<Rightarrow>
     let total = wrap64 (estimate_prompt_tokens body_len +
           estimate_completion_tokens (requested_max meta) (stats_or_none (f 1) a (rm_model meta) s) (Some p))
     in (case get_session_token_usage (f 2) now (ak_id (au_key k)) (6 * hour) s of
          Inl e \<Rightarrow> None
        | Inr (consumed, oldest) \<Rightarrow> if limit < wrap64 (consumed + total)
            then Some (api_err_retry 429 ''session_limit_exceeded'' ''rate_limit_error'' (session_retry_after now oldest))
            else None))"

section \<open>Admission: steps 1 to 4\<close>

datatype body_read = TooLarge | ReadFailed | Body string

record admitted =
  am_body :: string
  am_meta :: request_meta
  am_node :: node
  am_bill :: billing_info
  am_enabled :: bool
  am_pricing :: "credit_pricing option"
  am_hold :: int

definition chat_validate :: "json_lib \<Rightarrow> body_read \<Rightarrow> api_error + string \<times> request_meta" where
  "chat_validate jl b = (case b of
       TooLarge \<Rightarrow> Inl (api_err 413 ''request_too_large'' ''invalid_request_error'')
     | ReadFailed \<Rightarrow> Inl (api_err 400 ''invalid_request'' ''invalid_request_error'')
     | Body body \<Rightarrow> (case jl_meta jl body of None \<Rightarrow> Inl (api_err 400 ''invalid_request'' ''invalid_request_error'')
         | Some m \<Rightarrow> if trim_space (rm_model m) = [] then Inl (api_err 400 ''invalid_request'' ''invalid_request_error'')
             else Inr (body, m)))"

text \<open>The pricing and session checks of step 2; the price when credits are enforced.\<close>

definition chat_price ::
  "(nat \<Rightarrow> faults) \<Rightarrow> gotime \<Rightarrow> auth_key option \<Rightarrow> billing_info \<Rightarrow> request_meta \<Rightarrow> int \<Rightarrow> db \<Rightarrow> api_error + credit_pricing option" where
  "chat_price f now key bill meta body_len s = (case (key, bi_account bill) of
       (Some k, Some a) \<Rightarrow> (case get_pricing_by_model (f 0) (rm_model meta) s of
           Inl e \<Rightarrow> Inl (api_err 500 ''internal_error'' ''server_error'')
         | Inr None \<Rightarrow> Inl (api_err 400 ''unknown_model'' ''invalid_request_error'')
         | Inr (Some p) \<Rightarrow> (case session_check f now k a meta p body_len s of Some e \<Rightarrow> Inl e | None \<Rightarrow> Inr (Some p)))
     | _ \<Rightarrow> Inr None)"

text \<open>Step 4: estimate and reserve. Any failure of the reservation is answered with 402.\<close>

definition chat_reserve ::
  "(nat \<Rightarrow> faults) \<Rightarrow> gotime \<Rightarrow> int \<Rightarrow> bool \<Rightarrow> request_meta \<Rightarrow> credit_pricing option \<Rightarrow> int \<Rightarrow> db \<Rightarrow> ((api_error + int) \<times> int option) \<times> db" where
  "chat_reserve f now a managed meta p body_len s =
     (let amount = estimate_cost p (estimate_prompt_tokens body_len)
            (estimate_completion_tokens (requested_max meta) (stats_or_none (f 3) a (rm_model meta) s) p)
      in case reserve_credits (f 4) now a amount s of
          (Inr hid, s') \<Rightarrow> ((Inr hid, None), s')
        | (Inl e, s') \<Rightarrow> if managed then ((Inl (api_err 402 ''monthly_limit_reached'' ''invalid_request_error''), Some a), s')
            else ((Inl (api_err 402 ''insufficient_credits'' ''invalid_request_error''), None), s'))"

text \<open>Admission: the request to forward, or the refusal with the cap hit to record.\<close>

definition chat_admit ::
  "json_lib \<Rightarrow> (nat \<Rightarrow> faults) \<Rightarrow> (nat \<Rightarrow> gateway \<Rightarrow> gateway) \<Rightarrow> gotime \<Rightarrow> auth_key option \<Rightarrow> resolution option \<Rightarrow> body_read \<Rightarrow>
     gateway \<Rightarrow> ((api_error + admitted) \<times> int option) \<times> gateway" where
  "chat_admit jl f env now key res b g = (case chat_validate jl b of Inl e \<Rightarrow> ((Inl e, None), g) | Inr (body, meta) \<Rightarrow>
     let bill = billing_of key res; n = int (length body) in
     (case chat_price f now key bill meta n (gw_db g) of Inl e \<Rightarrow> ((Inl e, None), g) | Inr p \<Rightarrow>
      (let g1 = env 0 g in
       case resolve (rm_model meta) (gw_reg g1) of
         (None, r) \<Rightarrow> ((Inl (api_err 503 ''model_unavailable'' ''server_error''), None), g1\<lparr>gw_reg := r\<rparr>)
       | (Some node, r) \<Rightarrow>
           let g2 = g1\<lparr>gw_reg := r\<rparr>;
               am = (\<lambda>hid. \<lparr>am_body = body, am_meta = meta, am_node = node, am_bill = bill, am_enabled = (p \<noteq> None),
                      am_pricing = p, am_hold = hid\<rparr>) in
           (case (p, bi_account bill) of
              (Some _, Some a) \<Rightarrow> (case on_db (chat_reserve f now a (bi_managed bill) meta p n) g2 of
                  ((Inl e, hit), g3) \<Rightarrow> ((Inl e, hit), g3)
                | ((Inr hid, hit), g3) \<Rightarrow> ((Inr (am hid), hit), g3))
            | _ \<Rightarrow> ((Inr (am 0), None), g2)))))"

section \<open>Settlement and the usage row\<close>

text \<open>The tokens to bill: those reported, or an estimate from the bytes when none were.\<close>

definition billed_tokens :: "usage_data \<Rightarrow> int \<Rightarrow> int \<times> int" where
  "billed_tokens ud bytes = (if ud_total ud = 0 \<and> 0 < bytes then (0, estimate_from_response_bytes bytes)
     else (ud_prompt ud, ud_completion ud))"

text \<open>
  settleCredits and settleStreamCredits share everything after the token counts: the charge,
  and the statistics when there were completion tokens. A failed settlement charges 0.
\<close>

definition settle_tokens ::
  "(nat \<Rightarrow> faults) \<Rightarrow> gotime \<Rightarrow> int \<Rightarrow> billing_info \<Rightarrow> usage_data \<Rightarrow> int \<Rightarrow> credit_pricing option \<Rightarrow> db \<Rightarrow> rat \<times> db" where
  "settle_tokens f now hid bill ud bytes p s =
     (let (pt, ct) = billed_tokens ud bytes;
          (r, s1) = settle_hold (f 5) now hid (estimate_cost p pt ct) s;
          charged = (case r of Inl e \<Rightarrow> 0 | Inr c \<Rightarrow> c);
          s2 = (case bi_account bill of None \<Rightarrow> s1 | Some a \<Rightarrow> if 0 < ct
                then snd (update_account_usage_stats (f 6) a (ud_model ud) ct s1) else s1)
      in (charged, s2))"

definition settle_credits ::
  "(nat \<Rightarrow> faults) \<Rightarrow> gotime \<Rightarrow> int \<Rightarrow> billing_info \<Rightarrow> usage_data \<Rightarrow> int \<Rightarrow> credit_pricing option \<Rightarrow> db \<Rightarrow> rat \<times> db" where
  "settle_credits f now hid bill ud body_len p s = settle_tokens f now hid bill ud body_len p s"

definition settle_stream_credits ::
  "(nat \<Rightarrow> faults) \<Rightarrow> gotime \<Rightarrow> int \<Rightarrow> billing_info \<Rightarrow> usage_data \<Rightarrow> int \<Rightarrow> string \<Rightarrow> credit_pricing option \<Rightarrow> db \<Rightarrow> rat \<times> db" where
  "settle_stream_credits f now hid bill ud written status p s =
     (if status = ''error'' \<and> written = 0 then (0, snd (release_hold (f 5) now hid s))
      else settle_tokens f now hid bill ud written p s)"

text \<open>logUsage: a full queue drops the entry.\<close>

definition usage_row :: "auth_key \<Rightarrow> billing_info \<Rightarrow> usage_data \<Rightarrow> int \<Rightarrow> string \<Rightarrow> rat \<Rightarrow> int option \<Rightarrow> usage_entry" where
  "usage_row k bill ud ms status charged node_id = \<lparr>ue_key = ak_id (au_key k), ue_model = ud_model ud, ue_prompt = ud_prompt ud,
     ue_completion = ud_completion ud, ue_total = ud_total ud, ue_duration_ms = ms, ue_status = status, ue_charged = charged,
     ue_node = node_id, ue_account = bi_account bill\<rparr>"

definition log_usage_entry ::
  "nat \<Rightarrow> auth_key option \<Rightarrow> billing_info \<Rightarrow> usage_data \<Rightarrow> int \<Rightarrow> string \<Rightarrow> rat \<Rightarrow> int option \<Rightarrow> gateway \<Rightarrow> gateway" where
  "log_usage_entry cap key bill ud ms status charged node_id g = (case key of None \<Rightarrow> g | Some k \<Rightarrow>
     if length (gw_queue g) < cap then g\<lparr>gw_queue := gw_queue g @ [usage_row k bill ud ms status charged node_id]\<rparr> else g)"

section \<open>The upstream exchange\<close>

text \<open>strconv.Itoa.\<close>

fun decimal :: "nat \<Rightarrow> string" where
  "decimal n = (if n < 10 then [char_of (48 + n)] else decimal (n div 10) @ [char_of (48 + n mod 10)])"

declare decimal.simps [simp del]

definition go_itoa :: "int \<Rightarrow> string" where
  "go_itoa n = (if n < 0 then ''-'' @ decimal (nat (- n)) else decimal (nat n))"

text \<open>
  The forwarded request. \<open>join\<close> is url.URL's JoinPath and String of a base URL; the request
  cannot be built from a base without one. The deadline of the context is the timeout.
\<close>

record upstream_request =
  ur_url :: string
  ur_body :: string
  ur_headers :: "(string \<times> string) list"
  ur_timeout :: duration

definition default_upstream_timeout :: duration where
  "default_upstream_timeout = 5 * minute"

definition upstream_timeout :: "node \<Rightarrow> duration" where
  "upstream_timeout n = (if 0 < nd_timeout n then nd_timeout n else default_upstream_timeout)"

definition new_upstream_request :: "(string \<Rightarrow> string \<Rightarrow> string option) \<Rightarrow> node \<Rightarrow> string \<Rightarrow> upstream_request option" where
  "new_upstream_request join n body = (case nd_url n of None \<Rightarrow> None | Some base \<Rightarrow>
     map_option (\<lambda>u. \<lparr>ur_url = u, ur_body = body,
         ur_headers = (''Content-Type'', ''application/json'') # (if nd_auth n \<noteq> [] then [(''Authorization'', nd_auth n)] else []),
         ur_timeout = upstream_timeout n\<rparr>)
       (join base ''v1/chat/completions''))"

text \<open>
  What comes back: no response at all, or a status, headers, the bytes that arrive, and how
  the body ends. \<open>gone\<close> says that by then the client's own context is done.
\<close>

datatype body_end = Eof | Broken bool

datatype upstream_reply =
    Unreachable bool
  | Reply int "(string \<times> string) list" string body_end

definition copy_response_headers :: "(string \<times> string) list \<Rightarrow> (string \<times> string) list \<Rightarrow> (string \<times> string) list" where
  "copy_response_headers dst src = dst @ filter (\<lambda>(k, v). to_lower k \<noteq> ''content-length'') src"

text \<open>What the client gets.\<close>

datatype client_reply =
    NoReply
  | Failure api_error
  | Response int "(string \<times> string) list" string

text \<open>
  io.ReadAll of a LimitReader: the limit ends the body before a later failure is seen.
\<close>

definition read_limited :: "int \<Rightarrow> string \<Rightarrow> body_end \<Rightarrow> string option" where
  "read_limited max_body bs e = (if max_body \<le> int (length bs) then Some (take (nat max_body) bs)
     else (case e of Eof \<Rightarrow> Some bs | Broken _ \<Rightarrow> None))"

section \<open>The non-streaming handler\<close>

text \<open>Releasing the hold after a failed exchange; a failed release leaves it to the sweep.\<close>

definition release_if :: "faults \<Rightarrow> gotime \<Rightarrow> bool \<Rightarrow> int \<Rightarrow> gateway \<Rightarrow> gateway" where
  "release_if f now enabled hid g = (if enabled then snd (on_db (release_hold f now hid) g) else g)"

text \<open>The sizes, and the request fixed before forwarding: start is when the handler began.\<close>

record proxy_conf =
  px_max_body :: int
  px_queue_cap :: nat
  px_start :: gotime

definition elapsed_ms :: "proxy_conf \<Rightarrow> gotime \<Rightarrow> int" where
  "elapsed_ms c now = go_div (time_sub now (px_start c)) millisecond"

text \<open>The failure to reach the upstream, common to both handlers.\<close>

definition upstream_failed ::
  "proxy_conf \<Rightarrow> gotime \<Rightarrow> auth_key option \<Rightarrow> admitted \<Rightarrow> bool \<Rightarrow> gateway \<Rightarrow> client_reply \<times> gateway" where
  "upstream_failed c now key am gone g =
     (let g' = log_usage_entry (px_queue_cap c) key (am_bill am) (no_usage (rm_model (am_meta am))) (elapsed_ms c now)
           (if gone then ''partial'' else ''error'') 0 (Some (nd_id (am_node am))) g
      in (if gone then NoReply else Failure (api_err 502 ''upstream_error'' ''server_error''), g'))"

definition handle_non_streaming ::
  "json_lib \<Rightarrow> (string \<Rightarrow> string \<Rightarrow> string option) \<Rightarrow> (upstream_request \<Rightarrow> upstream_reply) \<Rightarrow> (nat \<Rightarrow> faults) \<Rightarrow> proxy_conf \<Rightarrow>
     gotime \<Rightarrow> auth_key option \<Rightarrow> admitted \<Rightarrow> gateway \<Rightarrow> client_reply \<times> gateway" where
  "handle_non_streaming jl join up f c now key am g =
     (let rel = release_if (f 5) now (am_enabled am) (am_hold am) in
      case new_upstream_request join (am_node am) (am_body am) of
        None \<Rightarrow> (Failure (api_err 500 ''internal_error'' ''server_error''), rel g)
      | Some req \<Rightarrow> (case up req of
          Unreachable gone \<Rightarrow> upstream_failed c now key am gone (rel g)
        | Reply status hdrs bs e \<Rightarrow> (case read_limited (px_max_body c) bs e of
            None \<Rightarrow> upstream_failed c now key am False (rel g)
          | Some body \<Rightarrow>
              let n = int (length body); ud0 = no_usage (rm_model (am_meta am));
                  ud = (if status = 200 then jl_usage jl body ud0 else ud0);
                  (cost, g1) = (if \<not> am_enabled am then (0, g) else if status \<noteq> 200 then (0, rel g)
                    else on_db (settle_credits f now (am_hold am) (am_bill am) ud n (am_pricing am)) g);
                  g2 = log_usage_entry (px_queue_cap c) key (am_bill am) ud (elapsed_ms c now)
                    (if status = 200 then ''completed'' else ''error'') cost (Some (nd_id (am_node am))) g1
              in (Response status (copy_response_headers [] hdrs @ [(''Content-Length'', go_itoa n)]) body, g2))))"

section \<open>The streaming handler\<close>

text \<open>ReadBytes of a newline: the line with its delimiter, the rest, and whether it was found.\<close>

definition newline :: char where
  "newline = char_of (10 :: nat)"

definition read_line :: "string \<Rightarrow> string \<times> string \<times> bool" where
  "read_line bs = (case dropWhile (\<lambda>c. c \<noteq> newline) bs of
       [] \<Rightarrow> (bs, [], False)
     | _ # rest \<Rightarrow> (takeWhile (\<lambda>c. c \<noteq> newline) bs @ [newline], rest, True))"

lemma read_line_shorter: "read_line bs = (line, rest, True) \<Longrightarrow> length rest < length bs"
proof -
  assume a: "read_line bs = (line, rest, True)"
  have "length (dropWhile (\<lambda>c. c \<noteq> newline) bs) \<le> length bs" by (rule length_dropWhile_le)
  then show ?thesis using a by (auto simp: read_line_def split: list.splits)
qed

record stream_state =
  ss_usage :: usage_data
  ss_out :: string
  ss_written :: int

text \<open>The payload of an SSE data line: at most one space after the colon is dropped.\<close>

definition sse_data :: "string \<Rightarrow> string option" where
  "sse_data line = (let t = trim_space line in if has_prefix ''data:'' t
     then (let d = drop 5 t in Some (if has_prefix '' '' d then drop 1 d else d)) else None)"

definition chunk_of :: "json_lib \<Rightarrow> string \<Rightarrow> ((int \<times> int \<times> int) \<times> nat) option" where
  "chunk_of jl line = (case sse_data line of None \<Rightarrow> None | Some d \<Rightarrow> if d = ''[DONE]'' then None else
     (case jl_chunk jl d of Some (Some u, n) \<Rightarrow> Some (u, n) | _ \<Rightarrow> None))"

text \<open>A usage-only chunk the proxy itself asked for is read and not relayed.\<close>

definition relay_line :: "json_lib \<Rightarrow> bool \<Rightarrow> string \<Rightarrow> stream_state \<Rightarrow> stream_state" where
  "relay_line jl injected line st =
     (let (ud, suppress) = (case chunk_of jl line of None \<Rightarrow> (ss_usage st, False)
            | Some ((p, c, t), n) \<Rightarrow> ((ss_usage st)\<lparr>ud_prompt := p, ud_completion := c, ud_total := t\<rparr>, injected \<and> n = 0));
          st' = st\<lparr>ss_usage := ud\<rparr>
      in if suppress then st' else st'\<lparr>ss_out := ss_out st' @ line, ss_written := ss_written st' + int (length line)\<rparr>)"

function relay_loop :: "json_lib \<Rightarrow> bool \<Rightarrow> string \<Rightarrow> stream_state \<Rightarrow> stream_state" where
  "relay_loop jl injected bs st = (case read_line bs of (line, rest, found) \<Rightarrow>
     let st' = (if line = [] then st else relay_line jl injected line st) in
     if found then relay_loop jl injected rest st' else st')"
  by pat_completeness auto

termination relay_loop
  by (relation "measure (\<lambda>(jl, injected, bs, st). length bs)") (auto dest: read_line_shorter [OF sym])

declare relay_loop.simps [simp del]

definition stream_status :: "body_end \<Rightarrow> string" where
  "stream_status e = (case e of Eof \<Rightarrow> ''completed'' | Broken gone \<Rightarrow> if gone then ''partial'' else ''error'')"

definition handle_streaming ::
  "json_lib \<Rightarrow> (string \<Rightarrow> string \<Rightarrow> string option) \<Rightarrow> (upstream_request \<Rightarrow> upstream_reply) \<Rightarrow> (nat \<Rightarrow> faults) \<Rightarrow> proxy_conf \<Rightarrow>
     gotime \<Rightarrow> auth_key option \<Rightarrow> admitted \<Rightarrow> string \<Rightarrow> bool \<Rightarrow> bool \<Rightarrow> gateway \<Rightarrow> client_reply \<times> gateway" where
  "handle_streaming jl join up f c now key am body injected flusher g =
     (let rel = release_if (f 5) now (am_enabled am) (am_hold am); ud0 = no_usage (rm_model (am_meta am));
          log = (\<lambda>ud st cost. log_usage_entry (px_queue_cap c) key (am_bill am) ud (elapsed_ms c now) st cost (Some (nd_id (am_node am))))
      in if \<not> flusher then (Failure (api_err 500 ''streaming_unsupported'' ''server_error''), rel g)
      else case new_upstream_request join (am_node am) body of
        None \<Rightarrow> (Failure (api_err 500 ''internal_error'' ''server_error''), rel g)
      | Some req \<Rightarrow> (case up req of
          Unreachable gone \<Rightarrow> upstream_failed c now key am gone (rel g)
        | Reply status hdrs bs e \<Rightarrow>
            let hs = copy_response_headers [] hdrs in
            if status \<noteq> 200 then (Response status hs (take (nat (px_max_body c)) bs), log ud0 ''error'' 0 (rel g))
            else
              let st = relay_loop jl injected bs \<lparr>ss_usage = ud0, ss_out = [], ss_written = 0\<rparr>;
                  (cost, g1) = (if \<not> am_enabled am then (0, g) else
                    on_db (settle_stream_credits f now (am_hold am) (am_bill am) (ss_usage st) (ss_written st) (stream_status e) (am_pricing am)) g)
              in (Response status hs (ss_out st), log (ss_usage st) (stream_status e) cost g1)))"

section \<open>The handler\<close>

text \<open>Step 5: forward the admitted request. The upstream exchange ends at \<open>later\<close>.\<close>

definition forward ::
  "json_lib \<Rightarrow> (string \<Rightarrow> string \<Rightarrow> string option) \<Rightarrow> (upstream_request \<Rightarrow> upstream_reply) \<Rightarrow> (nat \<Rightarrow> faults) \<Rightarrow> proxy_conf \<Rightarrow>
     gotime \<Rightarrow> auth_key option \<Rightarrow> admitted \<Rightarrow> bool \<Rightarrow> gateway \<Rightarrow> client_reply \<times> gateway" where
  "forward jl join up f c later key am flusher g = (if rm_stream (am_meta am) = Some True
     then (let (body, injected) = (if wants_stream_usage (am_meta am) then (am_body am, False) else inject_stream_usage jl (am_body am))
           in handle_streaming jl join up f c later key am body injected flusher g)
     else handle_non_streaming jl join up f c later key am g)"

text \<open>handleChatCompletions: the reply, the account whose cap hit is recorded, and the new state.\<close>

definition handle_chat_completions ::
  "json_lib \<Rightarrow> (string \<Rightarrow> string \<Rightarrow> string option) \<Rightarrow> (upstream_request \<Rightarrow> upstream_reply) \<Rightarrow> (nat \<Rightarrow> faults) \<Rightarrow>
     (nat \<Rightarrow> gateway \<Rightarrow> gateway) \<Rightarrow> proxy_conf \<Rightarrow> gotime \<Rightarrow> auth_key option \<Rightarrow> resolution option \<Rightarrow> body_read \<Rightarrow> bool \<Rightarrow>
     gateway \<Rightarrow> (client_reply \<times> int option) \<times> gateway" where
  "handle_chat_completions jl join up f env c later key res b flusher g =
     (case chat_admit jl f env (px_start c) key res b g of
        ((Inl e, hit), g1) \<Rightarrow> ((Failure e, hit), g1)
      | ((Inr am, hit), g1) \<Rightarrow> (case forward jl join up f c later key am flusher (env 1 g1) of (r, g2) \<Rightarrow> ((r, hit), g2)))"

section \<open>The model listing\<close>

text \<open>handleModels: the id and owner of every listed model.\<close>

definition owned_by :: "node list \<Rightarrow> string" where
  "owned_by ns = (case ns of [] \<Rightarrow> ''local'' | [n] \<Rightarrow> nd_name n | _ \<Rightarrow> ''multiple'')"

definition handle_models ::
  "(string \<Rightarrow> string \<Rightarrow> bool) \<Rightarrow> faults \<Rightarrow> bool \<Rightarrow> registry \<Rightarrow> db \<Rightarrow> api_error + (string \<times> string) list" where
  "handle_models le f every r s = (case list_active_pricing le f s of
       Inl e \<Rightarrow> Inl (api_err 500 ''internal_error'' ''server_error'')
     | Inr ps \<Rightarrow> (let served = sn_models (registry_snapshot r) in
         Inr (map (\<lambda>p. (pr_model p, owned_by (served (pr_model p))))
           (filter (\<lambda>p. served (pr_model p) \<noteq> [] \<or> every) ps))))"

datatype route = ChatCompletions | ModelList | RouteNotFound

definition serve_http :: "string \<Rightarrow> string \<Rightarrow> route" where
  "serve_http verb path = (if verb = ''POST'' \<and> path = ''/api/v1/chat/completions'' then ChatCompletions
     else if verb = ''GET'' \<and> path = ''/api/v1/models'' then ModelList else RouteNotFound)"

definition strip_trailing_slash :: "string \<Rightarrow> string" where
  "strip_trailing_slash path = (if 1 < length path \<and> has_suffix ''/'' path then take (length path - 1) path else path)"

end
