(* ===== verification/ChatRelay.thy ===== *)
theory ChatRelay
  imports Chat
begin

text \<open>
  What the stream relay forwards and what the usage injection changes: the relay loop of
  \<open>Chat\<close> against a specification on the list of lines, and the injected body against the
  client's.
\<close>

section \<open>Lines\<close>

fun split_lines :: "string \<Rightarrow> string list" where
  "split_lines [] = []"
| "split_lines (c # cs) = (if c = newline then [c] # split_lines cs
     else (case split_lines cs of [] \<Rightarrow> [[c]] | l # ls \<Rightarrow> (c # l) # ls))"

lemma concat_split_lines [simp]: "concat (split_lines bs) = bs"
  by (induction bs) (auto split: list.splits)

lemma read_line_Cons:
  "read_line (c # cs) = (if c = newline then ([c], cs, True)
     else (case read_line cs of (line, rest, found) \<Rightarrow> (c # line, rest, found)))"
  by (auto simp: read_line_def simp del: dropWhile_eq_Nil_conv split: list.splits)

lemma read_line_Nil [simp]: "read_line [] = ([], [], False)"
  by (simp add: read_line_def)

lemma read_line_empty: "read_line bs = ([], rest, found) \<Longrightarrow> bs = [] \<and> \<not> found"
  by (cases bs) (auto simp: read_line_Cons split: if_splits prod.splits)

lemma split_lines_step:
  "read_line bs = (line, rest, found) \<Longrightarrow>
   split_lines bs = (if line = [] then [] else [line]) @ (if found then split_lines rest else [])"
proof (induction bs arbitrary: line rest found)
  case (Cons c cs)
  obtain l r f where r: "read_line cs = (l, r, f)" by (metis prod.exhaust)
  show ?case using Cons.prems Cons.IH [OF r] read_line_empty [of cs r f] r
    by (auto simp: read_line_Cons split: if_splits)
qed simp

section \<open>The loop is a fold over the lines\<close>

lemma relay_loop_fold: "relay_loop jl injected bs st = fold (relay_line jl injected) (split_lines bs) st"
proof (induction jl injected bs st rule: relay_loop.induct)
  case (1 jl injected bs st)
  obtain line rest found where r: "read_line bs = (line, rest, found)" by (metis prod.exhaust)
  show ?case using 1 [OF r [symmetric] refl refl] r split_lines_step [OF r]
    by (subst relay_loop.simps) (auto simp: Let_def)
qed

definition suppressed :: "json_lib \<Rightarrow> bool \<Rightarrow> string \<Rightarrow> bool" where
  "suppressed jl injected line \<longleftrightarrow> injected \<and> (case chunk_of jl line of None \<Rightarrow> False | Some (u, n) \<Rightarrow> n = 0)"

definition reported :: "json_lib \<Rightarrow> string list \<Rightarrow> (int \<times> int \<times> int) list" where
  "reported jl ls = map fst (List.map_filter (chunk_of jl) ls)"

definition with_counts :: "int \<times> int \<times> int \<Rightarrow> usage_data \<Rightarrow> usage_data" where
  "with_counts u ud = (case u of (p, c, t) \<Rightarrow> ud\<lparr>ud_prompt := p, ud_completion := c, ud_total := t\<rparr>)"

lemma with_counts_again [simp]: "with_counts u (with_counts v ud) = with_counts u ud"
  by (simp add: with_counts_def split: prod.splits)

lemma reported_simps:
  "reported jl [] = []"
  "reported jl (l # ls) = (case chunk_of jl l of None \<Rightarrow> reported jl ls | Some (u, n) \<Rightarrow> u # reported jl ls)"
  by (auto simp: reported_def split: option.splits)

lemma relay_line_out:
  "ss_out (relay_line jl injected l st) = ss_out st @ (if suppressed jl injected l then [] else l)"
  "ss_written (relay_line jl injected l st) = ss_written st + (if suppressed jl injected l then 0 else int (length l))"
  "ss_usage (relay_line jl injected l st) = (case chunk_of jl l of None \<Rightarrow> ss_usage st | Some (u, n) \<Rightarrow> with_counts u (ss_usage st))"
  by (auto simp: relay_line_def suppressed_def with_counts_def Let_def split: option.splits prod.splits)

lemma relay_fold:
  "ss_out (fold (relay_line jl injected) ls st) = ss_out st @ concat (filter (\<lambda>l. \<not> suppressed jl injected l) ls)"
  "ss_written (fold (relay_line jl injected) ls st) =
     ss_written st + int (length (concat (filter (\<lambda>l. \<not> suppressed jl injected l) ls)))"
  "ss_usage (fold (relay_line jl injected) ls st) =
     (if reported jl ls = [] then ss_usage st else with_counts (last (reported jl ls)) (ss_usage st))"
  by (induction ls arbitrary: st) (auto simp: relay_line_out reported_simps split: option.splits)

definition stream_start :: "string \<Rightarrow> stream_state" where
  "stream_start m = \<lparr>ss_usage = no_usage m, ss_out = [], ss_written = 0\<rparr>"

lemma relay_written: "ss_written (relay_loop jl injected bs (stream_start m)) = int (length (ss_out (relay_loop jl injected bs (stream_start m))))"
  by (simp add: relay_loop_fold relay_fold stream_start_def)

text \<open>
  C9: The relay is transparent. What reaches the client is the upstream's bytes, line by
  line and in order, less exactly the usage-only chunks the proxy itself provoked; without
  injection it is every byte. The bytes counted for billing are the bytes relayed, and the
  usage recorded is that of the last chunk that carried one, relayed or not.
\<close>
theorem relay_transparent:
  "concat (split_lines bs) = bs \<and>
   ss_out (relay_loop jl injected bs (stream_start m)) = concat (filter (\<lambda>l. \<not> suppressed jl injected l) (split_lines bs)) \<and>
   ss_out (relay_loop jl False bs (stream_start m)) = bs \<and>
   ss_written (relay_loop jl injected bs (stream_start m)) = int (length (ss_out (relay_loop jl injected bs (stream_start m)))) \<and>
   ss_usage (relay_loop jl injected bs (stream_start m)) = (if reported jl (split_lines bs) = [] then no_usage m
     else with_counts (last (reported jl (split_lines bs))) (no_usage m))"
proof -
  have "filter (\<lambda>l. \<not> suppressed jl False l) ls = ls" for ls by (simp add: suppressed_def)
  then show ?thesis by (simp add: relay_loop_fold relay_fold stream_start_def)
qed

section \<open>Injection\<close>

text \<open>
  What encoding/json documents and the injection relies on: decoding an encoded object gives
  the object back, as a body and as options.
\<close>

definition codec_ok :: "json_lib \<Rightarrow> bool" where
  "codec_ok jl \<longleftrightarrow> (\<forall>m raw. jl_marshal jl m = Some raw \<longrightarrow> jl_body jl raw = Some m \<and> jl_options jl raw = Some (Some m))"

definition options_of :: "json_lib \<Rightarrow> (string \<rightharpoonup> string) \<Rightarrow> string \<rightharpoonup> string" where
  "options_of jl m = (case m ''stream_options'' of None \<Rightarrow> Map.empty
     | Some raw \<Rightarrow> (case jl_options jl raw of Some (Some opts) \<Rightarrow> opts | _ \<Rightarrow> Map.empty))"

text \<open>
  The injection asks for usage and changes nothing else. When it takes place, the body
  sent upstream decodes to the client's fields with only stream_options replaced, by the
  client's own options with include_usage true; when it does not, the client's body is
  forwarded byte for byte.
\<close>
theorem injection_preserves:
  assumes codec: "codec_ok jl" and i: "inject_stream_usage jl body = (out, ok)"
  shows "if ok then \<exists>m m' raw. jl_body jl body = Some m \<and> jl_body jl out = Some m' \<and>
      (\<forall>k. k \<noteq> ''stream_options'' \<longrightarrow> m' k = m k) \<and> m' ''stream_options'' = Some raw \<and>
      jl_options jl raw = Some (Some ((options_of jl m)(''include_usage'' \<mapsto> ''true'')))
    else out = body"
proof (cases ok)
  case False
  then show ?thesis using i by (auto simp: inject_stream_usage_def split: option.splits)
next
  case True
  then obtain m opts raw where m: "jl_body jl body = Some m"
    "jl_marshal jl (opts(''include_usage'' \<mapsto> ''true'')) = Some raw"
    "jl_marshal jl (m(''stream_options'' \<mapsto> raw)) = Some out" "opts = options_of jl m"
    using i by (auto simp: inject_stream_usage_def options_of_def split: option.splits)
  then have "jl_options jl raw = Some (Some (opts(''include_usage'' \<mapsto> ''true'')))"
    "jl_body jl out = Some (m(''stream_options'' \<mapsto> raw))" using codec by (auto simp: codec_ok_def)
  then show ?thesis using True m(1,4) by auto
qed

text \<open>A codec on the three objects of one request.\<close>

definition demo_object :: "string \<rightharpoonup> (string \<rightharpoonup> string)" where
  "demo_object raw = (if raw = ''b'' then Some [''model'' \<mapsto> ''x''] else if raw = ''o'' then Some [''include_usage'' \<mapsto> ''true'']
     else if raw = ''r'' then Some [''model'' \<mapsto> ''x'', ''stream_options'' \<mapsto> ''o''] else None)"

definition demo_codec :: json_lib where
  "demo_codec = \<lparr>jl_meta = (\<lambda>_. None), jl_body = demo_object, jl_options = (\<lambda>raw. map_option Some (demo_object raw)),
     jl_marshal = (\<lambda>m. if m = [''include_usage'' \<mapsto> ''true''] then Some ''o''
        else if m = [''model'' \<mapsto> ''x'', ''stream_options'' \<mapsto> ''o''] then Some ''r'' else None),
     jl_usage = (\<lambda>_ u. u), jl_chunk = (\<lambda>_. None)\<rparr>"

lemma demo_codec_ok: "codec_ok demo_codec"
  by (auto simp: codec_ok_def demo_codec_def demo_object_def split: if_splits)

lemma demo_objects_differ: "[''model'' \<mapsto> ''x'', ''stream_options'' \<mapsto> ''o''] \<noteq> [''include_usage'' \<mapsto> ''true'']"
proof
  assume "[''model'' \<mapsto> ''x'', ''stream_options'' \<mapsto> ''o''] = [''include_usage'' \<mapsto> ''true'']"
  from fun_cong [OF this, of "''model''"] show False by simp
qed

theorem injection_preserves_witness:
  "inject_stream_usage demo_codec ''b'' = (''r'', True) \<and> (\<exists>m'. jl_body demo_codec ''r'' = Some m' \<and> m' ''model'' = Some ''x'')"
proof -
  have i: "inject_stream_usage demo_codec ''b'' = (''r'', True)"
    by (simp add: inject_stream_usage_def demo_codec_def demo_object_def demo_objects_differ)
  from injection_preserves [OF demo_codec_ok i] obtain m m' where m: "jl_body demo_codec ''b'' = Some m"
    "jl_body demo_codec ''r'' = Some m'" "\<forall>k. k \<noteq> ''stream_options'' \<longrightarrow> m' k = m k" by auto
  then have "m' ''model'' = m ''model''" "m ''model'' = Some ''x''" by (auto simp: demo_codec_def demo_object_def)
  then show ?thesis using i m(2) by simp
qed

end
