(* ===== verification/ChatFlow.thy ===== *)
theory ChatFlow
  imports ChatRelay
begin

text \<open>
  The money side of the chat flow of \<open>Chat\<close>: what admission, an exchange and its settlement
  do to balances, holds and the audit trail.
\<close>

section \<open>Ledger frames\<close>

definition same_ledger :: "db \<Rightarrow> db \<Rightarrow> bool" where
  "same_ledger s t \<longleftrightarrow> balances s = balances t \<and> holds s = holds t \<and> next_hold s = next_hold t \<and>
     transactions s = transactions t"

lemma same_ledger_refl [simp]: "same_ledger s s"
  by (simp add: same_ledger_def)

lemma same_ledger_inv: "same_ledger s t \<Longrightarrow> ledger_inv s = ledger_inv t"
  by (simp add: same_ledger_def ledger_inv_def holds_wf_def)

lemma same_ledger_pending: "same_ledger s t \<Longrightarrow> pending_set s = pending_set t"
  by (simp add: same_ledger_def pending_set_def)

lemma update_stats_ledger: "same_ledger (snd (update_account_usage_stats f a m c s)) s"
  by (auto simp: update_account_usage_stats_def sql_def stmt_def same_ledger_def Let_def split: option.splits)

lemma on_db_db [simp]: "gw_db (snd (on_db m g)) = snd (m (gw_db g))" "fst (on_db m g) = fst (m (gw_db g))"
  by (simp_all add: on_db_def split: prod.splits)

lemma on_db_pair: "on_db m g = (a, g') \<longleftrightarrow> (\<exists>d. m (gw_db g) = (a, d) \<and> g' = g\<lparr>gw_db := d\<rparr>)"
  by (auto simp: on_db_def split: prod.splits)

lemma log_usage_db [simp]:
  "gw_db (log_usage_entry cap key bill ud ms st cost n g) = gw_db g"
  "gw_reg (log_usage_entry cap key bill ud ms st cost n g) = gw_reg g"
  by (auto simp: log_usage_entry_def split: option.splits)

lemma ledger_atomic_release: "release_hold f now hid s = (Inl e, s') \<Longrightarrow> s' = s"
  by (auto simp: release_hold_def dest: transact_Inl)

lemma ledger_atomic_settle: "settle_hold f now hid amt s = (Inl e, s') \<Longrightarrow> s' = s"
  by (auto simp: settle_hold_def dest: transact_Inl)

lemma ledger_atomic_reserve: "reserve_credits f now a amt s = (Inl e, s') \<Longrightarrow> s' = s"
  by (auto simp: reserve_credits_def dest: transact_Inl)

section \<open>Settlement\<close>

text \<open>Settling tokens is settling the hold at their cost, as far as the ledger goes.\<close>

lemma settle_tokens_ledger:
  assumes "settle_tokens f now hid bill ud n p s = (c, s')"
  obtains r s1 where "settle_hold (f 5) now hid (estimate_cost p (fst (billed_tokens ud n)) (snd (billed_tokens ud n))) s = (r, s1)"
    "same_ledger s' s1" "c = (case r of Inl e \<Rightarrow> 0 | Inr v \<Rightarrow> v)"
proof -
  obtain pt ct where b: "billed_tokens ud n = (pt, ct)" by (metis prod.exhaust)
  obtain r s1 where r: "settle_hold (f 5) now hid (estimate_cost p pt ct) s = (r, s1)" by (metis prod.exhaust)
  have "c = (case r of Inl e \<Rightarrow> 0 | Inr v \<Rightarrow> v)" "same_ledger s' s1"
    using assms update_stats_ledger by (auto simp: settle_tokens_def b r Let_def split: option.splits if_splits)
  then show thesis using that r b by simp
qed

text \<open>How the exchange of an admitted request ends, as far as its hold goes.\<close>

datatype settlement = NoHold | ReleaseIt | ChargeIt "usage_data" int

definition settle_as :: "(nat \<Rightarrow> faults) \<Rightarrow> gotime \<Rightarrow> admitted \<Rightarrow> settlement \<Rightarrow> db \<Rightarrow> db" where
  "settle_as f now am k s = (case k of NoHold \<Rightarrow> s | ReleaseIt \<Rightarrow> snd (release_hold (f 5) now (am_hold am) s)
     | ChargeIt ud n \<Rightarrow> snd (settle_tokens f now (am_hold am) (am_bill am) ud n (am_pricing am) s))"

lemma release_if_db: "gw_db (release_if f now b hid g) = (if b then snd (release_hold f now hid (gw_db g)) else gw_db g)"
  by (simp add: release_if_def)

lemma upstream_failed_db: "upstream_failed c now key am gone g = (r, g') \<Longrightarrow>
   gw_db g' = gw_db g \<and> (\<forall>hs b. r \<noteq> Response 200 hs b)"
  by (auto simp: upstream_failed_def Let_def split: if_splits)

text \<open>
  What the end of an exchange owes the hold, read off what the upstream sent: a release when no
  answer to charge for was relayed (no request, no reply, a body that cannot be kept, a status
  other than 200, a stream that breaks before its first byte reaches the client), otherwise a
  charge, also for a stream that broke off or whose client has gone.
\<close>

definition reply_end :: "json_lib \<Rightarrow> int \<Rightarrow> admitted \<Rightarrow> upstream_reply \<Rightarrow> settlement" where
  "reply_end jl max_body am u = (case u of Unreachable gone \<Rightarrow> ReleaseIt | Reply status hdrs bs e \<Rightarrow>
     (case read_limited max_body bs e of None \<Rightarrow> ReleaseIt | Some body \<Rightarrow>
        if status = 200 then ChargeIt (jl_usage jl body (no_usage (rm_model (am_meta am)))) (int (length body)) else ReleaseIt))"

definition stream_end :: "json_lib \<Rightarrow> bool \<Rightarrow> admitted \<Rightarrow> upstream_reply \<Rightarrow> settlement" where
  "stream_end jl injected am u = (case u of Unreachable gone \<Rightarrow> ReleaseIt | Reply status hdrs bs e \<Rightarrow>
     if status \<noteq> 200 then ReleaseIt else
       let st = relay_loop jl injected bs (stream_start (rm_model (am_meta am))) in
       if stream_status e = ''error'' \<and> ss_written st = 0 then ReleaseIt else ChargeIt (ss_usage st) (ss_written st))"

definition exchange_end ::
  "json_lib \<Rightarrow> (string \<Rightarrow> string \<Rightarrow> string option) \<Rightarrow> (upstream_request \<Rightarrow> upstream_reply) \<Rightarrow> int \<Rightarrow> admitted \<Rightarrow> bool \<Rightarrow> settlement" where
  "exchange_end jl join up max_body am flusher =
     (if \<not> am_enabled am then NoHold
      else if rm_stream (am_meta am) = Some True
      then (let (body, injected) = (if wants_stream_usage (am_meta am) then (am_body am, False) else inject_stream_usage jl (am_body am))
            in if \<not> flusher then ReleaseIt else case new_upstream_request join (am_node am) body of
                 None \<Rightarrow> ReleaseIt | Some req \<Rightarrow> stream_end jl injected am (up req))
      else case new_upstream_request join (am_node am) (am_body am) of
        None \<Rightarrow> ReleaseIt | Some req \<Rightarrow> reply_end jl max_body am (up req))"

lemma handle_non_streaming_settles:
  assumes "handle_non_streaming jl join up f c now key am g = (r, g')"
  obtains k where "gw_db g' = settle_as f now am k (gw_db g)" "(k = NoHold) = (\<not> am_enabled am)"
    "(\<forall>hs b. r \<noteq> Response 200 hs b) \<Longrightarrow> am_enabled am \<Longrightarrow> k = ReleaseIt"
    "am_enabled am \<Longrightarrow> k = (case new_upstream_request join (am_node am) (am_body am) of None \<Rightarrow> ReleaseIt
      | Some req \<Rightarrow> reply_end jl (px_max_body c) am (up req))"
proof -
  define kk where "kk x = (if am_enabled am then x else NoHold)" for x
  have rel: "gw_db (release_if (f 5) now (am_enabled am) (am_hold am) g) = settle_as f now am (kk ReleaseIt) (gw_db g)"
    by (simp add: release_if_db settle_as_def kk_def)
  show thesis
  proof (cases "new_upstream_request join (am_node am) (am_body am)")
    case None
    then show ?thesis using that [of "kk ReleaseIt"] assms rel by (auto simp: handle_non_streaming_def Let_def kk_def reply_end_def)
  next
    case (Some req)
    show ?thesis
    proof (cases "up req")
      case (Unreachable gone)
      then show ?thesis using that [of "kk ReleaseIt"] assms rel Some
        by (auto simp: handle_non_streaming_def Let_def kk_def reply_end_def dest!: upstream_failed_db)
    next
      case (Reply status hdrs bs e)
      show ?thesis
      proof (cases "read_limited (px_max_body c) bs e")
        case None
        then show ?thesis using that [of "kk ReleaseIt"] assms rel Some Reply
          by (auto simp: handle_non_streaming_def Let_def kk_def reply_end_def dest!: upstream_failed_db)
      next
        case body: (Some body)
        show ?thesis
        proof (cases "status = 200")
          case True
          let ?ud = "jl_usage jl body (no_usage (rm_model (am_meta am)))"
          have "gw_db g' = settle_as f now am (kk (ChargeIt ?ud (int (length body)))) (gw_db g)"
            using assms Some Reply body True
            by (auto simp: handle_non_streaming_def Let_def kk_def reply_end_def settle_as_def settle_credits_def on_db_pair split: prod.splits)
          then show ?thesis using that [of "kk (ChargeIt ?ud (int (length body)))"] assms Some Reply body True
            by (auto simp: handle_non_streaming_def Let_def kk_def reply_end_def split: prod.splits)
        next
          case False
          have "gw_db g' = settle_as f now am (kk ReleaseIt) (gw_db g)" "\<forall>hs b. r \<noteq> Response 200 hs b"
            using assms rel Some Reply body False
            by (cases "am_enabled am"; auto simp: handle_non_streaming_def Let_def kk_def reply_end_def settle_as_def)+
          then show ?thesis using that [of "kk ReleaseIt"] Some Reply body False by (simp add: kk_def reply_end_def)
        qed
      qed
    qed
  qed
qed

lemma handle_streaming_settles:
  assumes "handle_streaming jl join up f c now key am body injected flusher g = (r, g')"
  obtains k where "gw_db g' = settle_as f now am k (gw_db g)" "(k = NoHold) = (\<not> am_enabled am)"
    "(\<forall>hs b. r \<noteq> Response 200 hs b) \<Longrightarrow> am_enabled am \<Longrightarrow> k = ReleaseIt"
    "am_enabled am \<Longrightarrow> k = (if \<not> flusher then ReleaseIt else case new_upstream_request join (am_node am) body of None \<Rightarrow> ReleaseIt
      | Some req \<Rightarrow> stream_end jl injected am (up req))"
proof -
  define kk where "kk x = (if am_enabled am then x else NoHold)" for x
  have rel: "gw_db (release_if (f 5) now (am_enabled am) (am_hold am) g) = settle_as f now am (kk ReleaseIt) (gw_db g)"
    by (simp add: release_if_db settle_as_def kk_def)
  note d = handle_streaming_def Let_def kk_def stream_end_def
  show thesis
  proof (cases "flusher \<and> new_upstream_request join (am_node am) body \<noteq> None")
    case False
    then show ?thesis using that [of "kk ReleaseIt"] assms rel by (auto simp: d split: if_splits)
  next
    case True
    then obtain req where req: "flusher" "new_upstream_request join (am_node am) body = Some req" by auto
    show ?thesis
    proof (cases "up req")
      case (Unreachable gone)
      then show ?thesis using that [of "kk ReleaseIt"] assms rel req by (auto simp: d dest!: upstream_failed_db)
    next
      case (Reply status hdrs bs e)
      show ?thesis
      proof (cases "status = 200")
        case False
        then show ?thesis using that [of "kk ReleaseIt"] assms rel req Reply by (auto simp: d)
      next
        case True
        define st where "st = relay_loop jl injected bs (stream_start (rm_model (am_meta am)))"
        define k where "k = kk (if stream_status e = ''error'' \<and> ss_written st = 0 then ReleaseIt else ChargeIt (ss_usage st) (ss_written st))"
        have "gw_db g' = settle_as f now am k (gw_db g)"
          using assms req Reply True
          by (auto simp: d k_def st_def stream_start_def settle_as_def settle_stream_credits_def on_db_pair split: prod.splits if_splits)
        moreover have "\<exists>hs b. r = Response 200 hs b"
          using assms req Reply True by (auto simp: d split: prod.splits)
        moreover have "(k = NoHold) = (\<not> am_enabled am)" by (simp add: k_def kk_def)
        moreover have "am_enabled am \<Longrightarrow> k = stream_end jl injected am (up req)"
          using Reply True by (simp add: k_def kk_def st_def stream_end_def Let_def)
        ultimately show ?thesis using that [of k] req by auto
      qed
    qed
  qed
qed

lemma forward_settles:
  assumes "forward jl join up f c now key am flusher g = (r, g')"
  obtains k where "gw_db g' = settle_as f now am k (gw_db g)" "(k = NoHold) = (\<not> am_enabled am)"
    "(\<forall>hs b. r \<noteq> Response 200 hs b) \<Longrightarrow> am_enabled am \<Longrightarrow> k = ReleaseIt"
    "k = exchange_end jl join up (px_max_body c) am flusher"
proof (cases "rm_stream (am_meta am) = Some True")
  case True
  obtain body injected where B: "(if wants_stream_usage (am_meta am) then (am_body am, False) else inject_stream_usage jl (am_body am)) = (body, injected)"
    by (metis prod.exhaust)
  then have "handle_streaming jl join up f c now key am body injected flusher g = (r, g')" using assms True by (simp add: forward_def)
  then obtain k where k: "gw_db g' = settle_as f now am k (gw_db g)" "(k = NoHold) = (\<not> am_enabled am)"
    "(\<forall>hs b. r \<noteq> Response 200 hs b) \<Longrightarrow> am_enabled am \<Longrightarrow> k = ReleaseIt"
    "am_enabled am \<Longrightarrow> k = (if \<not> flusher then ReleaseIt else case new_upstream_request join (am_node am) body of None \<Rightarrow> ReleaseIt
      | Some req \<Rightarrow> stream_end jl injected am (up req))"
    by (rule handle_streaming_settles) blast
  have "k = exchange_end jl join up (px_max_body c) am flusher"
    using k(2,4) True B by (simp add: exchange_end_def)
  then show thesis using that k(1-3) by blast
next
  case False
  then have "handle_non_streaming jl join up f c now key am g = (r, g')" using assms by (simp add: forward_def)
  then obtain k where k: "gw_db g' = settle_as f now am k (gw_db g)" "(k = NoHold) = (\<not> am_enabled am)"
    "(\<forall>hs b. r \<noteq> Response 200 hs b) \<Longrightarrow> am_enabled am \<Longrightarrow> k = ReleaseIt"
    "am_enabled am \<Longrightarrow> k = (case new_upstream_request join (am_node am) (am_body am) of None \<Rightarrow> ReleaseIt
      | Some req \<Rightarrow> reply_end jl (px_max_body c) am (up req))"
    by (rule handle_non_streaming_settles) blast
  have "k = exchange_end jl join up (px_max_body c) am flusher"
    using k(2,4) False by (simp add: exchange_end_def)
  then show thesis using that k(1-3) by blast
qed

section \<open>A hold is never stranded\<close>

definition hold_open :: "int \<Rightarrow> db \<Rightarrow> bool" where
  "hold_open hid s \<longleftrightarrow> (\<exists>h \<in> set (holds s). ch_id h = hid \<and> ch_status h = Pending)"

lemma same_ledger_open: "same_ledger s t \<Longrightarrow> hold_open hid s = hold_open hid t"
  by (simp add: same_ledger_def hold_open_def)

lemma release_closes: "release_hold f now hid s = (r, s') \<Longrightarrow> \<not> hold_open hid s' \<or> s' = s"
  using release_hold_closes [of f now hid s _ s'] ledger_atomic_release [of f now hid s]
  by (cases r) (auto simp: hold_open_def)

lemma settle_closes: "settle_hold f now hid amt s = (r, s') \<Longrightarrow> \<not> hold_open hid s' \<or> s' = s"
  using settle_hold_closes [of f now hid amt s _ s'] ledger_atomic_settle [of f now hid amt s]
  by (cases r) (auto simp: hold_open_def)

lemma sweep_pending:
  assumes inv: "ledger_inv s"
  shows "pending_set (snd (sweep_stale_holds no_faults (\<lambda>_. no_faults) now d s)) = {h \<in> pending_set s. now - d \<le> ch_created h}"
proof -
  obtain s' where s': "release_all (\<lambda>_. no_faults) now (stale_holds (now - d) s) 0 s = ((0 + length (stale_holds (now - d) s), None), s')"
    "pending_set s' = {h \<in> pending_set s. ch_id h \<notin> set (stale_holds (now - d) s)}"
    using release_all_no_faults [OF inv] by blast
  then show ?thesis using stale_ids [OF inv] by (auto simp: sweep_stale_holds_def not_less)
qed

text \<open>The closing transaction of an exchange failed.\<close>

definition closing_error :: "(nat \<Rightarrow> faults) \<Rightarrow> gotime \<Rightarrow> admitted \<Rightarrow> settlement \<Rightarrow> db \<Rightarrow> bool" where
  "closing_error f now am k s = (case k of NoHold \<Rightarrow> False
     | ReleaseIt \<Rightarrow> isl (fst (release_hold (f 5) now (am_hold am) s))
     | ChargeIt ud n \<Rightarrow> isl (fst (settle_hold (f 5) now (am_hold am)
         (estimate_cost (am_pricing am) (fst (billed_tokens ud n)) (snd (billed_tokens ud n))) s)))"

lemma settle_as_error:
  assumes "closing_error f now am k s"
  shows "same_ledger (settle_as f now am k s) s"
proof (cases k)
  case ReleaseIt
  then show ?thesis using assms ledger_atomic_release [of "f 5" now "am_hold am" s]
    by (cases "release_hold (f 5) now (am_hold am) s") (auto simp: settle_as_def closing_error_def isl_def)
next
  case (ChargeIt ud n)
  obtain c s' where c: "settle_tokens f now (am_hold am) (am_bill am) ud n (am_pricing am) s = (c, s')" by (metis prod.exhaust)
  obtain r s1 where r: "settle_hold (f 5) now (am_hold am) (estimate_cost (am_pricing am) (fst (billed_tokens ud n)) (snd (billed_tokens ud n))) s = (r, s1)"
    "same_ledger s' s1" using settle_tokens_ledger [OF c] by metis
  then have "s1 = s" using assms ChargeIt ledger_atomic_settle by (auto simp: closing_error_def isl_def)
  then show ?thesis using r c ChargeIt by (simp add: settle_as_def)
qed (use assms in \<open>simp add: closing_error_def\<close>)

lemma settle_as_done:
  assumes "k \<noteq> NoHold" "\<not> closing_error f now am k s"
  shows "\<not> hold_open (am_hold am) (settle_as f now am k s)"
proof (cases k)
  case ReleaseIt
  then obtain s' where "release_hold (f 5) now (am_hold am) s = (Inr (), s')"
    using assms(2) by (cases "release_hold (f 5) now (am_hold am) s"; cases "fst (release_hold (f 5) now (am_hold am) s)")
      (auto simp: closing_error_def)
  then show ?thesis using ReleaseIt release_hold_closes by (fastforce simp: settle_as_def hold_open_def)
next
  case (ChargeIt ud n)
  obtain c s' where c: "settle_tokens f now (am_hold am) (am_bill am) ud n (am_pricing am) s = (c, s')" by (metis prod.exhaust)
  obtain r s1 where r: "settle_hold (f 5) now (am_hold am) (estimate_cost (am_pricing am) (fst (billed_tokens ud n)) (snd (billed_tokens ud n))) s = (r, s1)"
    "same_ledger s' s1" using settle_tokens_ledger [OF c] by metis
  obtain v where "r = Inr v" using r(1) assms(2) ChargeIt by (cases r) (auto simp: closing_error_def)
  then have "\<not> hold_open (am_hold am) s1" using r(1) settle_hold_closes by (fastforce simp: hold_open_def)
  then show ?thesis using same_ledger_open [OF r(2)] c ChargeIt by (simp add: settle_as_def)
qed (use assms in simp)

lemma settle_as_open:
  assumes "k \<noteq> NoHold"
  shows "hold_open (am_hold am) (settle_as f now am k s) = (hold_open (am_hold am) s \<and> closing_error f now am k s)"
  using settle_as_done [OF assms] same_ledger_open [OF settle_as_error [of f now am k s]] by blast

text \<open>The database refuses a closing transaction of its own accord only when an amount overflows.\<close>

definition charge_fits :: "rat \<Rightarrow> int \<Rightarrow> db \<Rightarrow> bool" where
  "charge_fits cost hid s \<longleftrightarrow> (\<forall>h cb. h \<in> pending_set s \<longrightarrow> ch_id h = hid \<longrightarrow> balances s (ch_account h) = Some cb \<longrightarrow>
     dec_ok (dec6 (micros_val (cb_balance cb) - cost)) \<and> dec_ok (dec6 cost))"

lemma closing_error_overflow:
  assumes inv: "ledger_inv s" and f: "f 5 = no_faults" and e: "closing_error f now am k s"
  obtains ud n where "k = ChargeIt ud n"
    "\<not> charge_fits (estimate_cost (am_pricing am) (fst (billed_tokens ud n)) (snd (billed_tokens ud n))) (am_hold am) s"
proof (cases k)
  case NoHold
  then show thesis using e by (simp add: closing_error_def)
next
  case ReleaseIt
  then show thesis using e f release_hold_total [OF inv, of now "am_hold am"] by (auto simp: closing_error_def)
next
  case (ChargeIt ud n)
  let ?c = "estimate_cost (am_pricing am) (fst (billed_tokens ud n)) (snd (billed_tokens ud n))"
  have e': "isl (fst (settle_hold no_faults now (am_hold am) ?c s))" using e f ChargeIt by (simp add: closing_error_def)
  have "\<not> charge_fits ?c (am_hold am) s"
  proof
    assume ft: "charge_fits ?c (am_hold am) s"
    show False
    proof (cases "\<exists>h \<in> pending_set s. ch_id h = am_hold am")
      case True
      then obtain h where h: "h \<in> set (holds s)" "ch_status h = Pending" "ch_id h = am_hold am" "h \<in> pending_set s"
        by (auto simp: pending_set_def)
      obtain cb where cb: "balances s (ch_account h) = Some cb" by (rule pending_hold_facts [OF inv h(1,2)])
      have "dec_ok (dec6 (micros_val (cb_balance cb) - ?c))" "dec_ok (dec6 ?c)"
        using ft h(3,4) cb unfolding charge_fits_def by blast+
      from settle_pending_hold [OF inv h(1,2) cb this, of now] e' h(3) show False by auto
    next
      case False
      then have "\<forall>h \<in> set (holds s). ch_id h = am_hold am \<longrightarrow> ch_status h \<noteq> Pending" by (auto simp: pending_set_def)
      from closed_hold_inert(1) [OF this] e' show False by simp
    qed
  qed
  then show thesis using that ChargeIt by blast
qed

lemma exchange_end_owes: "am_enabled am \<Longrightarrow> exchange_end jl join up max_body am flusher \<noteq> NoHold"
  by (simp add: exchange_end_def reply_end_def stream_end_def Let_def split: option.split upstream_reply.split prod.split)

text \<open>
  C7: No request strands its hold. When the exchange of an admitted request is over, streamed or
  not, complete, partial or failed, its hold is open exactly if it was open before and the
  closing transaction that the exchange calls for (a release or a charge, \<open>exchange_end\<close>) failed;
  then the ledger is exactly as before the exchange. Without a database failure that happens only
  when the charge or the new balance does not fit its column, so never for a release. A hold left
  open is freed by the first sweep for which it is old enough.
\<close>
theorem hold_never_stranded:
  assumes "am_enabled am" and f: "forward jl join up f c now key am flusher g = (r, g')"
  shows "(let k = exchange_end jl join up (px_max_body c) am flusher; s = gw_db g; s' = gw_db g' in
    (hold_open (am_hold am) s' \<longleftrightarrow> hold_open (am_hold am) s \<and> closing_error f now am k s) \<and>
    (closing_error f now am k s \<longrightarrow> same_ledger s' s) \<and>
    (ledger_inv s \<longrightarrow> f 5 = no_faults \<longrightarrow> closing_error f now am k s \<longrightarrow> (\<exists>ud n. k = ChargeIt ud n \<and>
       \<not> charge_fits (estimate_cost (am_pricing am) (fst (billed_tokens ud n)) (snd (billed_tokens ud n))) (am_hold am) s)) \<and>
    (ledger_inv s' \<longrightarrow> (\<forall>h. h \<in> pending_set s' \<longrightarrow> ch_id h = am_hold am \<longrightarrow> ch_created h < t - d \<longrightarrow>
       h \<notin> pending_set (snd (sweep_stale_holds no_faults (\<lambda>_. no_faults) t d s')))))"
proof -
  let ?k = "exchange_end jl join up (px_max_body c) am flusher"
  obtain k where k0: "gw_db g' = settle_as f now am k (gw_db g)" "k = ?k" by (rule forward_settles [OF f])
  then have k: "gw_db g' = settle_as f now am ?k (gw_db g)" by simp
  have ne: "?k \<noteq> NoHold" by (rule exchange_end_owes [OF assms(1)])
  have ov: "ledger_inv (gw_db g) \<Longrightarrow> f 5 = no_faults \<Longrightarrow> closing_error f now am ?k (gw_db g) \<Longrightarrow> \<exists>ud n. ?k = ChargeIt ud n \<and>
       \<not> charge_fits (estimate_cost (am_pricing am) (fst (billed_tokens ud n)) (snd (billed_tokens ud n))) (am_hold am) (gw_db g)"
    by (erule (2) closing_error_overflow) blast
  show ?thesis unfolding Let_def
    using settle_as_open [OF ne, of am f now "gw_db g"] settle_as_error [of f now am ?k "gw_db g"] ov
      sweep_pending [of "gw_db g'" t d] by (simp add: k)
qed

section \<open>Admission\<close>

text \<open>Rates and averages are not negative, so no estimate is.\<close>

definition costs_ok :: "db \<Rightarrow> bool" where
  "costs_ok s \<longleftrightarrow> (\<forall>r \<in> set (pricing s). rates_ok (scan_pricing r)) \<and> (\<forall>k st. stats s k = Some st \<longrightarrow> 0 \<le> st_avg st)"

lemma priced_ok: "get_pricing_by_model f m s = Inr (Some p) \<Longrightarrow> costs_ok s \<Longrightarrow> rates_ok p"
  by (auto simp: get_pricing_by_model_def costs_ok_def find_Some_iff split: if_splits)

lemma prompt_estimate_pos: "1 \<le> estimate_prompt_tokens n"
  by (simp add: estimate_prompt_tokens_def Let_def)

lemma completion_estimate_nonneg: "costs_ok s \<Longrightarrow> 0 \<le> estimate_completion_tokens mt (stats_or_none f a m s) p"
  by (auto simp: estimate_completion_tokens_def stats_or_none_def get_account_usage_stats_def costs_ok_def
      split: option.splits if_splits)

definition estimated_cost :: "(nat \<Rightarrow> faults) \<Rightarrow> int \<Rightarrow> admitted \<Rightarrow> db \<Rightarrow> rat" where
  "estimated_cost f a am s = estimate_cost (am_pricing am) (estimate_prompt_tokens (int (length (am_body am))))
     (estimate_completion_tokens (requested_max (am_meta am)) (stats_or_none (f 3) a (rm_model (am_meta am)) s) (am_pricing am))"

lemma chat_reserve_ok:
  "chat_reserve f now a managed meta p n s = ((Inr hid, hit), s') \<Longrightarrow>
   reserve_credits (f 4) now a (estimate_cost p (estimate_prompt_tokens n)
      (estimate_completion_tokens (requested_max meta) (stats_or_none (f 3) a (rm_model meta) s) p)) s = (Inr hid, s') \<and> hit = None"
  by (auto simp: chat_reserve_def Let_def split: prod.splits sum.splits if_splits)

lemma chat_reserve_refused:
  "chat_reserve f now a managed meta p n s = ((Inl e, hit), s') \<Longrightarrow> s' = s \<and> ae_status e = 402 \<and>
     (hit = (if managed then Some a else None)) \<and> (hit \<noteq> None \<longrightarrow> ae_code e = ''monthly_limit_reached'')"
  by (auto simp: chat_reserve_def Let_def dest: ledger_atomic_reserve split: prod.splits sum.splits if_splits)

lemma chat_price_rates: "chat_price f now key bill meta n s = Inr (Some p) \<Longrightarrow> costs_ok s \<Longrightarrow> rates_ok p"
  by (auto simp: chat_price_def split: option.splits sum.splits dest: priced_ok)

lemma chat_price_bill: "chat_price f now key bill meta n s = Inr (Some p) \<Longrightarrow> \<exists>k a. key = Some k \<and> bi_account bill = Some a"
  by (auto simp: chat_price_def split: option.splits)

text \<open>What an admitted request has done to the database.\<close>

lemma chat_admit_Inr:
  assumes "chat_admit jl f env now key res b g = ((Inr am, hit), g')"
  shows "gw_queue g' = gw_queue (env 0 g)" "hit = None" "am_bill am = billing_of key res" "am_enabled am = (am_pricing am \<noteq> None)"
    "am_enabled am \<Longrightarrow> \<exists>a. bi_account (am_bill am) = Some a \<and>
       reserve_credits (f 4) now a (estimated_cost f a am (gw_db (env 0 g))) (gw_db (env 0 g)) = (Inr (am_hold am), gw_db g')"
    "\<not> am_enabled am \<Longrightarrow> gw_db g' = gw_db (env 0 g)"
    "costs_ok (gw_db g) \<Longrightarrow> am_pricing am = Some p \<Longrightarrow> rates_ok p"
proof -
  obtain body meta where v: "chat_validate jl b = Inr (body, meta)"
    using assms by (auto simp: chat_admit_def split: sum.splits)
  obtain p' where p: "chat_price f now key (billing_of key res) meta (int (length body)) (gw_db g) = Inr p'"
    using assms v by (auto simp: chat_admit_def Let_def split: sum.splits)
  obtain n r where r: "resolve (rm_model meta) (gw_reg (env 0 g)) = (Some n, r)"
    using assms v p by (auto simp: chat_admit_def Let_def split: prod.splits option.splits)
  note d = chat_admit_def Let_def v p r
  show "gw_queue g' = gw_queue (env 0 g)" "am_bill am = billing_of key res"
    using assms by (auto simp: d on_db_pair split: option.splits prod.splits sum.splits)
  show "am_enabled am = (am_pricing am \<noteq> None)"
    using assms chat_price_bill [of f now key _ meta _ "gw_db g"] p by (auto simp: d on_db_pair split: option.splits prod.splits sum.splits)
  show "hit = None" using assms by (auto simp: d on_db_pair split: option.splits prod.splits sum.splits dest: chat_reserve_ok)
  have "am_enabled am \<longrightarrow> (\<exists>a. bi_account (am_bill am) = Some a \<and>
       reserve_credits (f 4) now a (estimated_cost f a am (gw_db (env 0 g))) (gw_db (env 0 g)) = (Inr (am_hold am), gw_db g'))"
    "\<not> am_enabled am \<longrightarrow> gw_db g' = gw_db (env 0 g)"
  proof (atomize (full), cases p')
    case None
    show "(am_enabled am \<longrightarrow> (\<exists>a. bi_account (am_bill am) = Some a \<and>
       reserve_credits (f 4) now a (estimated_cost f a am (gw_db (env 0 g))) (gw_db (env 0 g)) = (Inr (am_hold am), gw_db g'))) \<and>
      (\<not> am_enabled am \<longrightarrow> gw_db g' = gw_db (env 0 g))"
      using assms None by (auto simp: d)
  next
    case (Some P)
    then obtain a where "bi_account (billing_of key res) = Some a" using chat_price_bill p by blast
    then show "(am_enabled am \<longrightarrow> (\<exists>a. bi_account (am_bill am) = Some a \<and>
       reserve_credits (f 4) now a (estimated_cost f a am (gw_db (env 0 g))) (gw_db (env 0 g)) = (Inr (am_hold am), gw_db g'))) \<and>
      (\<not> am_enabled am \<longrightarrow> gw_db g' = gw_db (env 0 g))"
      using assms Some by (auto simp: d on_db_pair estimated_cost_def split: prod.splits sum.splits dest!: chat_reserve_ok)
  qed
  then show "am_enabled am \<Longrightarrow> \<exists>a. bi_account (am_bill am) = Some a \<and>
       reserve_credits (f 4) now a (estimated_cost f a am (gw_db (env 0 g))) (gw_db (env 0 g)) = (Inr (am_hold am), gw_db g')"
    "\<not> am_enabled am \<Longrightarrow> gw_db g' = gw_db (env 0 g)" by blast+
  have "am_pricing am = p'" using assms by (auto simp: d on_db_pair split: option.splits prod.splits sum.splits)
  then show "rates_ok p" if "costs_ok (gw_db g)" "am_pricing am = Some p"
    using that chat_price_rates [of f now key "billing_of key res" meta "int (length body)" "gw_db g" p] p by simp
qed

lemma refused_db:
  assumes "chat_admit jl f env now key res b g = ((Inl e, hit), g')"
  shows "gw_db g' = gw_db g \<or> gw_db g' = gw_db (env 0 g)"
  using assms by (auto simp: chat_admit_def Let_def on_db_pair split: option.splits prod.splits sum.splits dest: chat_reserve_refused)

text \<open>
  A refused request costs nothing. When admission refuses, the database is the one it
  found, before or after whatever others committed meanwhile, so an outage (503) or a failed
  reservation (402) leaves no hold behind and nothing is queued; and a cap hit is recorded only
  for the request's own allowance-managed account, with monthly_limit_reached.
\<close>
theorem refusal_costs_nothing:
  assumes "chat_admit jl f env now key res b g = ((Inl e, hit), g')"
  shows "(gw_db g' = gw_db g \<and> gw_queue g' = gw_queue g \<or> gw_db g' = gw_db (env 0 g) \<and> gw_queue g' = gw_queue (env 0 g)) \<and>
    (ae_status e \<in> {402, 503} \<longrightarrow> gw_db g' = gw_db (env 0 g)) \<and>
    (\<forall>a. hit = Some a \<longrightarrow> bi_account (billing_of key res) = Some a \<and> bi_managed (billing_of key res) \<and>
       ae_status e = 402 \<and> ae_code e = ''monthly_limit_reached'')"
proof (cases "chat_validate jl b")
  case (Inl e')
  then have "ae_status e' \<in> {413, 400}" by (auto simp: chat_validate_def split: body_read.splits option.splits if_splits)
  then show ?thesis using assms Inl by (auto simp: chat_admit_def)
next
  case (Inr bm)
  then obtain body meta where v: "chat_validate jl b = Inr (body, meta)" by (cases bm) auto
  let ?bill = "billing_of key res"
  show ?thesis
  proof (cases "chat_price f now key ?bill meta (int (length body)) (gw_db g)")
    case (Inl e')
    then have "ae_status e' \<in> {500, 400, 429}"
      by (auto simp: chat_price_def session_check_def Let_def split: option.splits sum.splits if_splits prod.splits)
    then show ?thesis using assms v Inl by (auto simp: chat_admit_def Let_def)
  next
    case (Inr q)
    obtain n r where r: "resolve (rm_model meta) (gw_reg (env 0 g)) = (n, r)" by (metis prod.exhaust)
    show ?thesis
    proof (cases n)
      case None
      then show ?thesis using assms v Inr r by (auto simp: chat_admit_def Let_def)
    next
      case (Some nd)
      then obtain P a where q: "q = Some P" "bi_account ?bill = Some a"
        and cr: "chat_reserve f now a (bi_managed ?bill) meta q (int (length body)) (gw_db (env 0 g)) = ((Inl e, hit), gw_db g')"
        and gq: "gw_queue g' = gw_queue (env 0 g)"
        using assms v Inr r by (auto simp: chat_admit_def Let_def on_db_pair split: option.splits prod.splits sum.splits)
      note c = chat_reserve_refused [OF cr]
      have "hit = Some a' \<Longrightarrow> a' = a \<and> bi_managed ?bill \<and> ae_code e = ''monthly_limit_reached''" for a'
        using c by (cases "bi_managed ?bill") simp_all
      then show ?thesis using c gq q(2) by auto
    qed
  qed
qed

section \<open>Reserving and releasing is the identity\<close>

lemma release_pending_effect:
  assumes inv: "ledger_inv s" and h: "h \<in> set (holds s)" "ch_status h = Pending" "balances s (ch_account h) = Some cb"
    and r: "release_hold no_faults now (ch_id h) s = (Inr (), s')"
  shows "balances s' = (balances s)(ch_account h \<mapsto> cb\<lparr>cb_reserved := cb_reserved cb - ch_amount h\<rparr>)"
    "transactions s' = transactions s"
proof -
  obtain cb1 where c: "balances s (ch_account h) = Some cb1"
    "dec6 (micros_val (cb_reserved cb1) - f_of_micros (ch_amount h)) = cb_reserved cb1 - ch_amount h"
    "dec_ok (cb_reserved cb1 - ch_amount h)"
    "find (\<lambda>x. ch_id x = ch_id h \<and> ch_status x = Pending) (holds s) = Some h"
    by (rule pending_hold_facts [OF inv h(1,2)])
  have "s' = snd (release_hold no_faults now (ch_id h) s)" using r by simp
  then show "balances s' = (balances s)(ch_account h \<mapsto> cb\<lparr>cb_reserved := cb_reserved cb - ch_amount h\<rparr>)"
    "transactions s' = transactions s"
    using c h(3) by (simp_all add: release_hold_def transact_def close_hold_def prog_simps)
qed

lemma reserve_effect:
  assumes inv: "ledger_inv s" and amt: "0 \<le> amt" and r: "reserve_credits f now a amt s = (Inr hid, s')"
  obtains cb h where "balances s a = Some cb" "h \<in> set (holds s')" "ch_id h = hid" "ch_account h = a" "ch_amount h = dec6 amt"
    "ch_status h = Pending" "ch_created h = now"
    "balances s' = (balances s)(a \<mapsto> cb\<lparr>cb_reserved := cb_reserved cb + dec6 amt\<rparr>)"
    "transactions s' = transactions s" "ledger_inv s'" "pending_set s' = insert h (pending_set s)" "h \<notin> pending_set s"
    "\<forall>x \<in> pending_set s. ch_id x \<noteq> hid"
proof -
  obtain cb where cb: "balances s a = Some cb" "hid = next_hold s" "dec_ok (dec6 amt)"
    "s' = set_balance a (cb\<lparr>cb_reserved := dec6 (micros_val (cb_reserved cb) + amt)\<rparr>)
       (s\<lparr>holds := holds s @ [\<lparr>ch_id = next_hold s, ch_account = a, ch_amount = dec6 amt,
          ch_status = Pending, ch_created = now, ch_settled = None\<rparr>], next_hold := next_hold s + 1\<rparr>)"
    by (rule reserve_credits_Inr [OF r])
  have res: "dec6 (micros_val (cb_reserved cb) + amt) = cb_reserved cb + dec6 amt"
    using reserved_nonneg [OF inv cb(1)] amt by (rule dec6_add)
  have inv': "ledger_inv s'" using reserve_credits_inv [OF inv amt, of f now a] r by simp
  have old: "\<forall>x \<in> set (holds s). ch_id x \<noteq> next_hold s" using inv by (auto simp: ledger_inv_def holds_wf_def)
  define h where "h = \<lparr>ch_id = next_hold s, ch_account = a, ch_amount = dec6 amt, ch_status = Pending, ch_created = now, ch_settled = None\<rparr>"
  have "pending_set s' = insert h (pending_set s)" "h \<notin> pending_set s" "\<forall>x \<in> pending_set s. ch_id x \<noteq> hid"
    using cb(2,4) old by (auto simp: pending_set_def h_def)
  moreover have "h \<in> set (holds s')" "balances s' = (balances s)(a \<mapsto> cb\<lparr>cb_reserved := cb_reserved cb + dec6 amt\<rparr>)"
    "transactions s' = transactions s" using cb(4) res by (simp_all add: h_def)
  moreover have "ch_id h = hid" "ch_account h = a" "ch_amount h = dec6 amt" "ch_status h = Pending" "ch_created h = now"
    using cb(2) by (simp_all add: h_def)
  ultimately show thesis using that [OF cb(1), of h] inv' by blast
qed

lemma reserve_release:
  assumes inv: "ledger_inv s" and amt: "0 \<le> amt" and r: "reserve_credits f now a amt s = (Inr hid, s1)"
    and rel: "release_hold no_faults later hid s1 = (Inr (), s2)"
  shows "balances s2 = balances s" "transactions s2 = transactions s" "pending_set s2 = pending_set s"
proof -
  obtain cb h where e: "balances s a = Some cb" "h \<in> set (holds s1)" "ch_id h = hid" "ch_account h = a" "ch_amount h = dec6 amt"
    "ch_status h = Pending" "balances s1 = (balances s)(a \<mapsto> cb\<lparr>cb_reserved := cb_reserved cb + dec6 amt\<rparr>)"
    "transactions s1 = transactions s" "ledger_inv s1" "pending_set s1 = insert h (pending_set s)"
    "\<forall>x \<in> pending_set s. ch_id x \<noteq> hid"
    by (rule reserve_effect [OF inv amt r])
  have b: "balances s1 (ch_account h) = Some (cb\<lparr>cb_reserved := cb_reserved cb + dec6 amt\<rparr>)" using e(4,7) by simp
  note x = release_pending_effect [OF e(9) e(2) e(6) b rel [folded e(3)]]
  show "balances s2 = balances s" using x(1) e(1,4,5,7) by (auto intro!: ext)
  show "transactions s2 = transactions s" using x(2) e(8) by simp
  show "pending_set s2 = pending_set s" using release_hold_pending_set [OF rel] e(3,10,11) by auto
qed

lemma estimated_cost_nonneg:
  assumes "costs_ok s" and "am_pricing am = Some q" "rates_ok q"
  shows "0 \<le> estimated_cost f a am s"
  unfolding estimated_cost_def assms(2)
  using estimate_cost_nonneg [OF assms(3)] prompt_estimate_pos completion_estimate_nonneg [OF assms(1)]
  by (metis order_trans zero_le_one)

lemma unanswered_keeps_money:
  assumes "handle_chat_completions jl join up f (\<lambda>_. id) c later key res b flusher g = ((r, hit), g')"
    and "ledger_inv (gw_db g)" and "costs_ok (gw_db g)" and "f 5 = no_faults" and "\<forall>hs bs. r \<noteq> Response 200 hs bs"
  shows "balances (gw_db g') = balances (gw_db g) \<and> transactions (gw_db g') = transactions (gw_db g) \<and>
    pending_set (gw_db g') = pending_set (gw_db g)"
proof -
  obtain v hit1 g1 where a: "chat_admit jl f (\<lambda>_. id) (px_start c) key res b g = ((v, hit1), g1)" by (metis prod.exhaust)
  show ?thesis
  proof (cases v)
    case (Inl e)
    have "gw_db g1 = gw_db g" using refused_db [OF a [unfolded Inl]] by simp
    then show ?thesis using assms(1) a Inl by (simp add: handle_chat_completions_def)
  next
    case (Inr am)
    note ad = chat_admit_Inr [OF a [unfolded Inr]]
    have fw: "forward jl join up f c later key am flusher g1 = (r, g')"
      using assms(1) a Inr by (auto simp: handle_chat_completions_def split: prod.splits)
    obtain k where k: "gw_db g' = settle_as f later am k (gw_db g1)" "(k = NoHold) = (\<not> am_enabled am)"
      "am_enabled am \<Longrightarrow> k = ReleaseIt" using forward_settles [OF fw] assms(5) by metis
    show ?thesis
    proof (cases "am_enabled am")
      case False
      then show ?thesis using k ad(6) by (simp add: settle_as_def)
    next
      case True
      then obtain q a where q: "am_pricing am = Some q"
        and rs: "reserve_credits (f 4) (px_start c) a (estimated_cost f a am (gw_db g)) (gw_db g) = (Inr (am_hold am), gw_db g1)"
        using ad(4,5) by auto
      have nn: "0 \<le> estimated_cost f a am (gw_db g)"
        by (rule estimated_cost_nonneg [OF assms(3) q ad(7) [OF assms(3) q]])
      have "ledger_inv (gw_db g1)" using reserve_credits_inv [OF assms(2) nn, of "f 4" "px_start c" a] rs by simp
      then obtain s2 where s2: "release_hold no_faults later (am_hold am) (gw_db g1) = (Inr (), s2)"
        using release_hold_total by metis
      then have "gw_db g' = s2" using k True assms(4) by (simp add: settle_as_def)
      then show ?thesis using reserve_release [OF assms(2) nn rs s2] by simp
    qed
  qed
qed

text \<open>
  No answer, no charge. A chat request that is refused, that cannot reach the upstream, or
  that the upstream answers with anything but 200, leaves every balance, every reservation
  and the audit trail exactly as it found them, whatever was reserved on the way.
\<close>
theorem no_answer_no_charge:
  assumes "handle_chat_completions jl join up f (\<lambda>_. id) c later key res b flusher g = ((r, hit), g')"
    and "ledger_inv (gw_db g)" and "costs_ok (gw_db g)" and "f 5 = no_faults" and "\<forall>hs bs. r \<noteq> Response 200 hs bs"
  shows "balances (gw_db g') = balances (gw_db g) \<and> transactions (gw_db g') = transactions (gw_db g) \<and>
    pending_set (gw_db g') = pending_set (gw_db g)"
  by (rule unanswered_keeps_money [OF assms])

section \<open>A completed request is charged what it used\<close>

lemma pending_same:
  assumes "ledger_inv s" "h \<in> set (holds s)" "ch_status h = Pending" "x \<in> set (holds s)" "ch_id x = ch_id h" "ch_status x = Pending"
  shows "x = h"
  using assms by (auto simp: ledger_inv_def holds_wf_def distinct_map dest: inj_onD)

lemma settle_pending_balances:
  assumes "ledger_inv s" "h \<in> set (holds s)" "ch_status h = Pending" "balances s (ch_account h) = Some cb"
    "dec_ok (dec6 (micros_val (cb_balance cb) - cost))" "dec_ok (dec6 cost)"
  shows "\<exists>s'. settle_hold no_faults now (ch_id h) cost s = (Inr cost, s') \<and>
    balances s' = (balances s)(ch_account h \<mapsto> cb\<lparr>cb_balance := dec6 (micros_val (cb_balance cb) - cost),
       cb_reserved := cb_reserved cb - ch_amount h\<rparr>) \<and>
    transactions s' = transactions s @ [\<lparr>ct_account = ch_account h, ct_amount = - dec6 cost,
       ct_after = dec6 (micros_val (cb_balance cb) - cost), ct_type = ''usage'', ct_ref = Some (ch_id h)\<rparr>]"
proof -
  obtain s' where s': "settle_hold no_faults now (ch_id h) cost s = (Inr cost, s')"
    "balances s' (ch_account h) = Some (cb\<lparr>cb_balance := dec6 (micros_val (cb_balance cb) - cost), cb_reserved := cb_reserved cb - ch_amount h\<rparr>)"
    "transactions s' = transactions s @ [\<lparr>ct_account = ch_account h, ct_amount = - dec6 cost,
       ct_after = dec6 (micros_val (cb_balance cb) - cost), ct_type = ''usage'', ct_ref = Some (ch_id h)\<rparr>]"
    using settle_pending_hold [OF assms] by blast
  have "balances s' b = balances s b" if "b \<noteq> ch_account h" for b
    using s'(1)
  proof (cases rule: settle_hold_Inr)
    case (2 h' s1 cb')
    then show ?thesis using close_hold_Some [OF 2(2)] s'(2) that
        pending_same [OF assms(1-3) close_hold_Some(1-3) [OF 2(2)]] by simp
  qed simp
  then have "balances s' = (balances s)(ch_account h \<mapsto> cb\<lparr>cb_balance := dec6 (micros_val (cb_balance cb) - cost),
       cb_reserved := cb_reserved cb - ch_amount h\<rparr>)"
    using s'(2) by (intro ext) simp
  then show ?thesis using s'(1,3) by blast
qed

text \<open>The upstream body of a request, and what a complete answer with these bytes reports.\<close>

definition outgoing :: "json_lib \<Rightarrow> admitted \<Rightarrow> string \<times> bool" where
  "outgoing jl am = (if rm_stream (am_meta am) = Some True \<and> \<not> wants_stream_usage (am_meta am)
     then inject_stream_usage jl (am_body am) else (am_body am, False))"

definition answer_usage :: "json_lib \<Rightarrow> admitted \<Rightarrow> string \<Rightarrow> usage_data \<times> int" where
  "answer_usage jl am bs = (if rm_stream (am_meta am) = Some True
     then (let st = relay_loop jl (snd (outgoing jl am)) bs (stream_start (rm_model (am_meta am))) in (ss_usage st, ss_written st))
     else (jl_usage jl bs (no_usage (rm_model (am_meta am))), int (length bs)))"

definition answer_cost :: "json_lib \<Rightarrow> admitted \<Rightarrow> string \<Rightarrow> rat" where
  "answer_cost jl am bs = (case answer_usage jl am bs of (ud, n) \<Rightarrow>
     (case billed_tokens ud n of (pt, ct) \<Rightarrow> estimate_cost (am_pricing am) pt ct))"

lemma settle_tokens_Inr:
  assumes "settle_hold (f 5) now hid (estimate_cost p (fst (billed_tokens ud n)) (snd (billed_tokens ud n))) s = (Inr v, s1)"
  shows "fst (settle_tokens f now hid bill ud n p s) = v \<and> same_ledger (snd (settle_tokens f now hid bill ud n p s)) s1"
proof -
  obtain c s' where c: "settle_tokens f now hid bill ud n p s = (c, s')" by (metis prod.exhaust)
  show ?thesis using settle_tokens_ledger [OF c] assms c by (metis (no_types, lifting) fst_conv prod.inject snd_conv sum.case(2))
qed

text \<open>A complete 200 answer, streamed or not, settles its usage and queues its row.\<close>

lemma forward_completes:
  assumes en: "am_enabled am"
    and rq: "new_upstream_request join (am_node am) (fst (outgoing jl am)) = Some req" and up: "up req = Reply 200 hdrs bs Eof"
    and len: "int (length bs) < px_max_body c" and ans: "answer_usage jl am bs = (ud, n)"
    and st: "settle_tokens f now (am_hold am) (am_bill am) ud n (am_pricing am) (gw_db g) = (cost, d)"
  shows "\<exists>hs body. forward jl join up f c now key am True g = (Response 200 hs body,
     log_usage_entry (px_queue_cap c) key (am_bill am) ud (elapsed_ms c now) ''completed'' cost (Some (nd_id (am_node am))) (g\<lparr>gw_db := d\<rparr>))"
proof (cases "rm_stream (am_meta am) = Some True")
  case True
  obtain body injected where o: "outgoing jl am = (body, injected)" by (metis prod.exhaust)
  then have "forward jl join up f c now key am True g = handle_streaming jl join up f c now key am body injected True g"
    using True by (auto simp: forward_def outgoing_def split: if_splits prod.splits)
  moreover have "ss_usage (relay_loop jl injected bs (stream_start (rm_model (am_meta am)))) = ud"
    "ss_written (relay_loop jl injected bs (stream_start (rm_model (am_meta am)))) = n"
    using ans True o by (simp_all add: answer_usage_def Let_def)
  ultimately show ?thesis using rq up en st o
    by (simp add: handle_streaming_def Let_def stream_status_def settle_stream_credits_def on_db_def stream_start_def)
next
  case False
  then have "fst (outgoing jl am) = am_body am" by (auto simp: outgoing_def)
  moreover have "jl_usage jl bs (no_usage (rm_model (am_meta am))) = ud" "n = int (length bs)"
    using ans False by (simp_all add: answer_usage_def)
  moreover have "read_limited (px_max_body c) bs Eof = Some bs" using len by (simp add: read_limited_def)
  ultimately show ?thesis using rq up en st False
    by (simp add: forward_def handle_non_streaming_def Let_def settle_credits_def on_db_def)
qed

text \<open>
  C2: A completed request is charged exactly what it used, once, and the usage row says so.
  When the upstream answers a billed request with a complete 200, streamed or not, the
  client gets a 200, the account's balance falls by the cost of the tokens the answer
  reports (of an estimate from its bytes when it reports none), the reservation falls by the
  amount of the request's hold, one usage transaction is appended, and the row queued for the
  log carries the same account, node, counts and charge.
\<close>
theorem completed_charge:
  assumes en: "am_enabled am" and inv: "ledger_inv (gw_db g)" and f: "f 5 = no_faults"
    and h: "h \<in> set (holds (gw_db g))" "ch_id h = am_hold am" "ch_status h = Pending"
    and cb: "balances (gw_db g) (ch_account h) = Some cb"
    and rq: "new_upstream_request join (am_node am) (fst (outgoing jl am)) = Some req" and up: "up req = Reply 200 hdrs bs Eof"
    and len: "int (length bs) < px_max_body c" and room: "length (gw_queue g) < px_queue_cap c"
    and cost: "cost = answer_cost jl am bs"
    and fits: "dec_ok (dec6 (micros_val (cb_balance cb) - cost))" "dec_ok (dec6 cost)"
    and fw: "forward jl join up f c now (Some k) am True g = (r, g')"
  shows "(\<exists>hs body. r = Response 200 hs body) \<and>
    balances (gw_db g') = (balances (gw_db g))(ch_account h \<mapsto> cb\<lparr>cb_balance := dec6 (micros_val (cb_balance cb) - cost),
       cb_reserved := cb_reserved cb - ch_amount h\<rparr>) \<and>
    transactions (gw_db g') = transactions (gw_db g) @ [\<lparr>ct_account = ch_account h, ct_amount = - dec6 cost,
       ct_after = dec6 (micros_val (cb_balance cb) - cost), ct_type = ''usage'', ct_ref = Some (am_hold am)\<rparr>] \<and>
    \<not> hold_open (am_hold am) (gw_db g') \<and>
    gw_queue g' = gw_queue g @ [usage_row k (am_bill am) (fst (answer_usage jl am bs)) (elapsed_ms c now) ''completed'' cost (Some (nd_id (am_node am)))]"
proof -
  obtain ud n where ans: "answer_usage jl am bs = (ud, n)" by (metis prod.exhaust)
  obtain pt ct where b: "billed_tokens ud n = (pt, ct)" by (metis prod.exhaust)
  have cst: "cost = estimate_cost (am_pricing am) pt ct" using cost ans b by (simp add: answer_cost_def)
  obtain s1 where s1: "settle_hold no_faults now (ch_id h) cost (gw_db g) = (Inr cost, s1)"
    "balances s1 = (balances (gw_db g))(ch_account h \<mapsto> cb\<lparr>cb_balance := dec6 (micros_val (cb_balance cb) - cost),
       cb_reserved := cb_reserved cb - ch_amount h\<rparr>)"
    "transactions s1 = transactions (gw_db g) @ [\<lparr>ct_account = ch_account h, ct_amount = - dec6 cost,
       ct_after = dec6 (micros_val (cb_balance cb) - cost), ct_type = ''usage'', ct_ref = Some (ch_id h)\<rparr>]"
    using settle_pending_balances [OF inv h(1,3) cb fits] by blast
  have "settle_hold (f 5) now (am_hold am) (estimate_cost (am_pricing am) (fst (billed_tokens ud n)) (snd (billed_tokens ud n))) (gw_db g) = (Inr cost, s1)"
    using s1(1) h(2) f b cst by simp
  note st = settle_tokens_Inr [where f = f and bill = "am_bill am", OF this]
  have nopen: "\<not> hold_open (am_hold am) s1" using settle_hold_closes [OF s1(1)] h(2) by (auto simp: hold_open_def)
  obtain d where d: "settle_tokens f now (am_hold am) (am_bill am) ud n (am_pricing am) (gw_db g) = (cost, d)" "same_ledger d s1"
    using st by (metis prod.collapse)
  from forward_completes [where join = join and up = up and f = f and g = g and key = "Some k", OF en rq up len ans d(1)] fw obtain hs body where
    x: "r = Response 200 hs body" "g' = log_usage_entry (px_queue_cap c) (Some k) (am_bill am) ud (elapsed_ms c now) ''completed'' cost (Some (nd_id (am_node am))) (g\<lparr>gw_db := d\<rparr>)"
    by auto
  have db: "gw_db g' = d" using x(2) by simp
  have q: "gw_queue g' = gw_queue g @ [usage_row k (am_bill am) ud (elapsed_ms c now) ''completed'' cost (Some (nd_id (am_node am)))]"
    using x(2) room by (simp add: log_usage_entry_def)
  show ?thesis using x(1) q db d(2) s1(2,3) h(2) nopen ans same_ledger_open [OF d(2)] by (simp add: same_ledger_def)
qed

section \<open>Within its estimate a request keeps the account solvent\<close>

definition solvent :: "db \<Rightarrow> bool" where
  "solvent s \<longleftrightarrow> (\<forall>a cb. balances s a = Some cb \<longrightarrow> cb_reserved cb \<le> cb_balance cb)"

lemma round_half_away_sub: "0 \<le> e \<Longrightarrow> m - round_half_away e \<le> round_half_away (of_int m - e)"
proof -
  assume e: "0 \<le> e"
  have r: "round_half_away e = \<lfloor>e + 1 / 2\<rfloor>" using e by (simp only: round_half_away_def if_True)
  show ?thesis
  proof (cases "0 \<le> of_int m - e")
    case True
    then have "round_half_away (of_int m - e) = \<lfloor>of_int m - e + 1 / 2\<rfloor>" by (simp only: round_half_away_def if_True)
    then show ?thesis using r by linarith
  next
    case False
    then have "round_half_away (of_int m - e) = - \<lfloor>- (of_int m - e) + 1 / 2\<rfloor>" by (simp only: round_half_away_def if_False)
    moreover have "\<lfloor>- (of_int m - e) + 1 / 2\<rfloor> = \<lfloor>e + 1 / 2\<rfloor> - m"
    proof -
      have "- (of_int m - e) + 1 / 2 = (e + 1 / 2) - of_int m" by simp
      then show ?thesis by (simp only: floor_diff_of_int)
    qed
    ultimately show ?thesis using r by linarith
  qed
qed

lemma dec6_sub_ge: "0 \<le> e \<Longrightarrow> b - dec6 e \<le> dec6 (micros_val b - e)"
  using round_half_away_sub [of "e * 1000000" b] by (simp add: dec6_def micros_val_def left_diff_distrib)

text \<open>
  C10: A request that stays within its estimate cannot make its account insolvent. If the hold
  of a request is the cost of pe prompt and ce completion tokens and the tokens billed are at
  most those, then settling it, in whatever way the database fails, keeps every account's
  reservations at or below its balance.
\<close>
theorem within_estimate_solvent:
  assumes inv: "ledger_inv s" and sol: "solvent s" and h: "h \<in> set (holds s)" "ch_status h = Pending"
    and amt: "ch_amount h = dec6 (estimate_cost (Some q) pe ce)" and q: "rates_ok q"
    and bt: "billed_tokens ud n = (pt, ct)" "0 \<le> pt" "pt \<le> pe" "0 \<le> ct" "ct \<le> ce"
    and st: "settle_tokens f now (ch_id h) bill ud n (Some q) s = (c, s')"
  shows "solvent s'"
proof -
  let ?cost = "estimate_cost (Some q) pt ct"
  have c0: "0 \<le> ?cost" using q bt(2,4) by (rule estimate_cost_nonneg)
  have cle: "dec6 ?cost \<le> ch_amount h" unfolding amt using q bt(3,5) by (intro dec6_mono estimate_cost_mono)
  obtain r s1 where r: "settle_hold (f 5) now (ch_id h) ?cost s = (r, s1)" "same_ledger s' s1"
    using settle_tokens_ledger [OF st] bt(1) by (metis fst_conv snd_conv)
  have "solvent s1"
  proof (cases r)
    case (Inl e)
    then show ?thesis using r(1) sol ledger_atomic_settle by blast
  next
    case (Inr v)
    show ?thesis using r(1) [unfolded Inr]
    proof (cases rule: settle_hold_Inr)
      case 1
      then show ?thesis using sol by simp
    next
      case (2 h' s0 cb)
      have hh: "h' = h" using pending_same [OF inv h close_hold_Some(1-3) [OF 2(2)]] .
      obtain cb1 where cb1: "balances s (ch_account h) = Some cb1"
        "dec6 (micros_val (cb_reserved cb1) - f_of_micros (ch_amount h)) = cb_reserved cb1 - ch_amount h"
        by (rule pending_hold_facts [OF inv h])
      have "cb_reserved cb \<le> cb_balance cb" using sol 2(3) by (auto simp: solvent_def)
      then have "cb_reserved cb - ch_amount h \<le> dec6 (micros_val (cb_balance cb) - ?cost)"
        using dec6_sub_ge [OF c0, of "cb_balance cb"] cle by linarith
      moreover have "balances s0 = balances s" using close_hold_Some(4) [OF 2(2)] by simp
      ultimately show ?thesis using sol 2(3,7) cb1 hh by (auto simp: solvent_def)
    qed
  qed
  then show ?thesis using r(2) by (simp add: same_ledger_def solvent_def)
qed

section \<open>The session limit\<close>

definition session_estimate :: "(nat \<Rightarrow> faults) \<Rightarrow> int \<Rightarrow> request_meta \<Rightarrow> credit_pricing \<Rightarrow> int \<Rightarrow> db \<Rightarrow> int" where
  "session_estimate f a meta p body_len s = estimate_prompt_tokens body_len +
     estimate_completion_tokens (requested_max meta) (stats_or_none (f 1) a (rm_model meta) s) (Some p)"

lemma seconds_le_6h: "0 \<le> d \<Longrightarrow> d \<le> 6 * hour \<Longrightarrow> duration_seconds d \<le> 21600"
proof -
  assume d: "0 \<le> d" "d \<le> 6 * hour"
  define q r where "q = d div second" and "r = d mod second"
  have s: "second = 1000000000" "hour = 3600 * second" by (simp_all add: duration_defs)
  have qr: "0 \<le> q" "q \<le> 21600" "0 \<le> r" "r < 1000000000" "d = q * 1000000000 + r"
    using d s zdiv_mono1 [of d "21600 * second" second] by (simp_all add: q_def r_def pos_imp_zdiv_nonneg_iff)
  have e: "duration_seconds d = rnd64 (rnd64 (of_int q) + rnd64 (rnd64 (of_int r) / 1000000000))"
  proof -
    have "go_div d second = q" "go_rem d second = r"
      using d s by (simp_all add: go_rem_def go_div_nonneg q_def r_def minus_mult_div_eq_mod mult.commute [of _ 1000000000])
    then show ?thesis by (simp add: duration_seconds_def fadd_def fdivc_def f_of_int_def)
  qed
  have i: "rnd64 (of_int q) = of_int q" "rnd64 (of_int r) = of_int r" "rnd64 21600 = 21600" "rnd64 1 = 1"
    using qr f_of_int_small by (simp_all add: f_of_int_def [symmetric])
  have "rnd64 (of_int r / 1000000000) \<le> 1" using rnd64_mono [of "of_int r / 1000000000" 1] qr i(4) by simp
  moreover have "rnd64 (of_int r / 1000000000) = 0" if "q = 21600"
  proof -
    have "d \<le> 21600 * 1000000000" using d(2) s by simp
    then have "r = 0" using qr(3,5) that by linarith
    then show ?thesis by simp
  qed
  ultimately have "of_int q + rnd64 (of_int r / 1000000000) \<le> 21600"
  proof (cases "q = 21600")
    case False
    assume a: "rnd64 (of_int r / 1000000000) \<le> 1"
    have "q \<le> 21599" using False qr(2) by simp
    then have "(of_int q :: rat) \<le> of_int 21599" by (simp only: of_int_le_iff)
    then show ?thesis using a by simp
  qed simp
  then show ?thesis using rnd64_mono [of "of_int q + rnd64 (of_int r / 1000000000)" 21600] i e by simp
qed

lemma session_retry_bounds:
  assumes "\<And>t. oldest = Some t \<Longrightarrow> t \<le> now" shows "0 \<le> session_retry_after now oldest \<and> session_retry_after now oldest \<le> 21600"
proof -
  define d where "d = (case oldest of None \<Rightarrow> 6 * hour | Some t \<Rightarrow> let u = time_sub (t + 6 * hour) now in if u < 0 then second else u)"
  have "0 \<le> d \<and> d \<le> 6 * hour"
  proof (cases oldest)
    case (Some t)
    have "second \<le> 6 * hour" by (simp add: duration_defs)
    moreover have "time_sub (t + 6 * hour) now \<le> 6 * hour" if "0 \<le> time_sub (t + 6 * hour) now"
      using time_sub_le [of now "t + 6 * hour"] assms [OF Some] that by (cases "now \<le> t + 6 * hour") (auto simp: time_sub_def sat64_def)
    ultimately show ?thesis using Some by (auto simp: d_def Let_def duration_defs)
  qed (simp add: d_def duration_defs)
  then have "0 \<le> duration_seconds d" "duration_seconds d \<le> 21600" using seconds_le_6h duration_seconds_nonneg by blast+
  then show ?thesis by (simp add: session_retry_after_def d_def [symmetric] Let_def le_floor_iff floor_le_iff)
qed

lemma oldest_in_log:
  assumes "get_session_token_usage f now i w s = Inr (consumed, Some t)" shows "\<exists>e. (t, e) \<in> set (usage_logs s)"
proof -
  have fo: "fold (\<lambda>(t, e) m. case m of None \<Rightarrow> Some t | Some t' \<Rightarrow> Some (min t t')) rows m = Some x \<Longrightarrow>
      m = Some x \<or> (\<exists>e. (x, e) \<in> set rows)" for rows :: "(gotime \<times> usage_entry) list" and m x
  proof (induction rows arbitrary: m)
    case (Cons r rows)
    obtain t e where r: "r = (t, e)" by (cases r)
    define m' where "m' = (case m of None \<Rightarrow> Some t | Some t' \<Rightarrow> Some (min t t'))"
    have "m' = Some x \<or> (\<exists>e. (x, e) \<in> set rows)" using Cons.IH Cons.prems by (simp add: r m'_def)
    moreover have "m' = m \<or> m' = Some t" by (simp add: m'_def min_def split: option.splits)
    ultimately show ?case using r by auto
  qed simp
  show ?thesis using assms fo by (fastforce simp: get_session_token_usage_def Let_def split: if_splits)
qed

text \<open>
  The session limit is exact while the sums fit an int64. A key with a limit is refused,
  with 429 and a whole number of seconds between 0 and six hours, exactly when the tokens
  its key consumed in the last six hours plus the request's estimate exceed the limit.
\<close>
theorem session_limit_exact:
  assumes "ak_session_limit (au_key k) = Some limit" and "get_session_token_usage (f 2) now (ak_id (au_key k)) (6 * hour) s = Inr (consumed, oldest)"
    and "int64_ok (session_estimate f a meta p n s)" and "int64_ok (consumed + session_estimate f a meta p n s)"
    and "\<forall>(t, e) \<in> set (usage_logs s). t \<le> now"
  shows "case session_check f now k a meta p n s of
     None \<Rightarrow> consumed + session_estimate f a meta p n s \<le> limit
   | Some e \<Rightarrow> limit < consumed + session_estimate f a meta p n s \<and> ae_status e = 429 \<and>
       (\<exists>secs. ae_retry e = Some secs \<and> 0 \<le> secs \<and> secs \<le> 21600)"
proof -
  have "0 \<le> session_retry_after now oldest \<and> session_retry_after now oldest \<le> 21600"
    using assms(2,5) oldest_in_log by (intro session_retry_bounds) fastforce
  moreover have "wrap64 (session_estimate f a meta p n s) = session_estimate f a meta p n s"
    "wrap64 (consumed + session_estimate f a meta p n s) = consumed + session_estimate f a meta p n s" using assms(3,4) by simp_all
  ultimately show ?thesis using assms(1,2) by (simp add: session_check_def session_estimate_def Let_def)
qed

section \<open>The model listing\<close>

lemma set_insert_by [simp]: "set (insert_by le x ys) = insert x (set ys)"
  by (induction ys) auto

lemma set_sorted_by [simp]: "set (foldr (insert_by le) xs []) = set xs"
  by (induction xs) auto

lemma resolve_pick_some:
  "cs \<noteq> [] \<Longrightarrow> \<exists>n r'. resolve_pick m cs r = (Some n, r') \<and> n \<in> set cs"
  by (auto simp: resolve_pick_def Let_def)

text \<open>
  C40: The listing tells the truth about routing. Without MODELS_LIST_ALL the listed models are
  exactly the actively priced ones some healthy node serves: for each of them the pricing
  check of a chat request finds a price and the registry resolves a node, which is the owner
  named in the listing when that node is the only one. With it, every actively priced model
  is listed.
\<close>
theorem listing_matches_routing:
  assumes "handle_models le no_faults every r s = Inr ms"
  shows "fst ` set ms = {m. (\<exists>row \<in> set (pricing s). cp_active row \<and> cp_model row = m) \<and> (sn_models (rg_snap r) m \<noteq> [] \<or> every)} \<and>
    (\<forall>(m, owner) \<in> set ms. (\<exists>p. get_pricing_by_model no_faults m s = Inr (Some p)) \<and>
       (case sn_models (rg_snap r) m of [] \<Rightarrow> every \<and> fst (resolve m r) = None \<and> owner = ''local''
        | [n] \<Rightarrow> fst (resolve m r) = Some n \<and> owner = nd_name n
        | ns \<Rightarrow> (\<exists>n \<in> set ns. fst (resolve m r) = Some n) \<and> owner = ''multiple''))"
proof -
  define ps where "ps = map scan_pricing (foldr (insert_by (\<lambda>a b. le (cp_model a) (cp_model b))) (filter cp_active (pricing s)) [])"
  define served where "served = sn_models (rg_snap r)"
  have ms: "ms = map (\<lambda>p. (pr_model p, owned_by (served (pr_model p)))) (filter (\<lambda>p. served (pr_model p) \<noteq> [] \<or> every) ps)"
    using assms by (simp add: handle_models_def list_active_pricing_def ps_def served_def registry_snapshot_def Let_def)
  have ps: "pr_model ` set ps = cp_model ` {row \<in> set (pricing s). cp_active row}"
    by (auto simp: ps_def scan_pricing_def image_image image_iff)
  have "fst ` set ms = {m \<in> pr_model ` set ps. served m \<noteq> [] \<or> every}" by (auto simp: ms image_iff)
  then have one: "fst ` set ms = {m. (\<exists>row \<in> set (pricing s). cp_active row \<and> cp_model row = m) \<and> (served m \<noteq> [] \<or> every)}"
    unfolding ps by auto
  have "(\<exists>p. get_pricing_by_model no_faults m s = Inr (Some p)) \<and>
      (case served m of [] \<Rightarrow> every \<and> fst (resolve m r) = None \<and> owner = ''local''
       | [n] \<Rightarrow> fst (resolve m r) = Some n \<and> owner = nd_name n
       | ns \<Rightarrow> (\<exists>n \<in> set ns. fst (resolve m r) = Some n) \<and> owner = ''multiple'')" if "(m, owner) \<in> set ms" for m owner
  proof -
    have o: "owner = owned_by (served m)" "served m \<noteq> [] \<or> every" using that by (auto simp: ms)
    have "m \<in> fst ` set ms" using that by force
    then obtain row where "row \<in> set (pricing s)" "cp_active row" "cp_model row = m" using one by auto
    then have "find (\<lambda>r. cp_model r = m \<and> cp_active r) (pricing s) \<noteq> None" by (auto simp: find_None_iff)
    then have "\<exists>p. get_pricing_by_model no_faults m s = Inr (Some p)" by (auto simp: get_pricing_by_model_def)
    moreover have "resolve m r = resolve_pick m (served m) r" by (simp add: resolve_def resolve_load_def served_def)
    ultimately show ?thesis using o resolve_pick_some [of "served m" m r]
      by (auto simp: owned_by_def resolve_pick_def split: list.splits)
  qed
  then show ?thesis using one by (auto simp: served_def)
qed

section \<open>A concrete gateway\<close>

text \<open>
  Account 1 of \<open>one_hold_db\<close>, one priced model, one healthy node that serves it, and a codec
  that reads the body 'req' as a request for the model with at most 2000 tokens and every
  answer as 1000 prompt and 2000 completion tokens.
\<close>

definition demo_meta :: request_meta where
  "demo_meta = \<lparr>rm_model = ''m'', rm_stream = None, rm_max_tokens = Some 2000, rm_max_completion = None, rm_stream_options = None\<rparr>"

definition demo_json :: json_lib where
  "demo_json = \<lparr>jl_meta = (\<lambda>b. if b = ''req'' then Some demo_meta else None), jl_body = (\<lambda>_. None), jl_options = (\<lambda>_. None),
     jl_marshal = (\<lambda>_. None), jl_usage = (\<lambda>_ u. u\<lparr>ud_prompt := 1000, ud_completion := 2000, ud_total := 3000\<rparr>), jl_chunk = (\<lambda>_. None)\<rparr>"

definition demo_node :: node where
  "demo_node = \<lparr>nd_id = 5, nd_name = ''gpu1'', nd_url = Some ''http://gpu1'', nd_auth = [], nd_timeout = 0\<rparr>"

definition demo_price_row :: pricing_row where
  "demo_price_row = \<lparr>cp_id = 1, cp_model = ''m'', cp_prompt_old = 0, cp_completion_old = 0, cp_prompt_mtok = Some 3000000,
     cp_completion_mtok = Some 15000000, cp_typical = 500, cp_active = True\<rparr>"

definition demo_registry :: registry where
  "demo_registry = set_node_state 5 HealthHealthy (Some [''m'']) (set_nodes [demo_node] new_registry)"

definition demo_gateway :: gateway where
  "demo_gateway = \<lparr>gw_db = one_hold_db\<lparr>pricing := [demo_price_row]\<rparr>, gw_reg = demo_registry, gw_queue = []\<rparr>"

definition demo_conf :: proxy_conf where
  "demo_conf = \<lparr>px_max_body = 1000, px_queue_cap = 10, px_start = 1000\<rparr>"

definition paying_key :: auth_key where
  "paying_key = \<lparr>au_key = (demo_key 1 ''h1'')\<lparr>ak_account := Some 1, ak_session_limit := Some 5000\<rparr>, au_rate = None, au_managed = False\<rparr>"

definition demo_join :: "string \<Rightarrow> string \<Rightarrow> string option" where
  "demo_join base p = Some (base @ ''/'' @ p)"

lemma demo_gateway_ok: "ledger_inv (gw_db demo_gateway)" "costs_ok (gw_db demo_gateway)" "solvent (gw_db demo_gateway)"
proof -
  have "same_ledger (gw_db demo_gateway) one_hold_db" by (simp add: demo_gateway_def same_ledger_def)
  then show "ledger_inv (gw_db demo_gateway)" using same_ledger_inv by simp
  have "0 \<le> f_of_micros 3000000" "0 \<le> f_of_micros 15000000" by code_simp+
  then show "costs_ok (gw_db demo_gateway)"
    by (simp add: demo_gateway_def costs_ok_def one_hold_db_def empty_db_def demo_price_row_def scan_pricing_def rate_of_def rates_ok_def)
  show "solvent (gw_db demo_gateway)" by (simp add: solvent_def demo_gateway_def one_hold_db_def)
qed

definition demo_admission :: "((api_error + admitted) \<times> int option) \<times> gateway" where
  "demo_admission = chat_admit demo_json (\<lambda>_. no_faults) (\<lambda>_. id) 1000 (Some paying_key) None (Body ''req'') demo_gateway"

definition demo_admitted :: admitted where
  "demo_admitted = \<lparr>am_body = ''req'', am_meta = demo_meta, am_node = demo_node, am_bill = \<lparr>bi_account = Some 1, bi_managed = False\<rparr>,
     am_enabled = True, am_pricing = Some (scan_pricing demo_price_row), am_hold = 2\<rparr>"

lemma demo_admission_ok: "fst demo_admission = (Inr demo_admitted, None)"
  unfolding demo_admission_def demo_admitted_def by code_simp

definition demo_after :: gateway where "demo_after = snd demo_admission"

definition demo_hold :: credit_hold where
  "demo_hold = \<lparr>ch_id = 2, ch_account = 1, ch_amount = 30003, ch_status = Pending, ch_created = 1000, ch_settled = None\<rparr>"

definition demo_balance :: credit_balance where
  "demo_balance = \<lparr>cb_balance = 10000000, cb_reserved = 2530003, cb_period = None\<rparr>"

lemma demo_after_ok:
  "ledger_inv (gw_db demo_after)" "demo_hold \<in> set (holds (gw_db demo_after))"
  "balances (gw_db demo_after) = [1 \<mapsto> demo_balance]" "gw_queue demo_after = []"
proof -
  have a: "demo_admission = ((Inr demo_admitted, None), demo_after)" using demo_admission_ok by (simp add: demo_after_def prod_eq_iff)
  note ad = chat_admit_Inr [OF a [unfolded demo_admission_def]]
  let ?e = "estimated_cost (\<lambda>_. no_faults) 1 demo_admitted (gw_db demo_gateway)"
  have r: "reserve_credits no_faults 1000 1 ?e (gw_db demo_gateway) = (Inr 2, gw_db demo_after)"
    using ad(5) by (auto simp: demo_admitted_def)
  have q: "am_pricing demo_admitted = Some (scan_pricing demo_price_row)" by (simp add: demo_admitted_def)
  have nn: "0 \<le> ?e"
    using demo_gateway_ok(2) q ad(7) [OF demo_gateway_ok(2) q] by (rule estimated_cost_nonneg)
  have amt: "dec6 ?e = 30003" unfolding demo_admitted_def by code_simp
  obtain cb h where e: "balances (gw_db demo_gateway) 1 = Some cb" "h \<in> set (holds (gw_db demo_after))" "ch_id h = 2" "ch_account h = 1"
    "ch_amount h = dec6 ?e" "ch_status h = Pending"
    "balances (gw_db demo_after) = (balances (gw_db demo_gateway))(1 \<mapsto> cb\<lparr>cb_reserved := cb_reserved cb + dec6 ?e\<rparr>)"
    "ledger_inv (gw_db demo_after)"
    by (rule reserve_effect [OF demo_gateway_ok(1) nn r])
  show "ledger_inv (gw_db demo_after)" by (rule e(8))
  show "balances (gw_db demo_after) = [1 \<mapsto> demo_balance]" 
  proof -
    have "cb = \<lparr>cb_balance = 10000000, cb_reserved = 2500000, cb_period = None\<rparr>" "balances (gw_db demo_gateway) = [1 \<mapsto> cb]"
      using e(1) by (auto simp: demo_gateway_def one_hold_db_def)
    then show ?thesis using e(7) unfolding amt by (simp add: demo_balance_def)
  qed
  show "gw_queue demo_after = []" using ad(1) by (simp add: demo_gateway_def)
  have hs: "holds (gw_db demo_after) = holds one_hold_db @ [demo_hold]"
    using r amt by (auto simp: demo_gateway_def one_hold_db_def demo_hold_def elim!: reserve_credits_Inr)
  then show "demo_hold \<in> set (holds (gw_db demo_after))" by simp
qed

definition demo_forward :: "(upstream_request \<Rightarrow> upstream_reply) \<Rightarrow> client_reply \<times> gateway" where
  "demo_forward up = forward demo_json demo_join up (\<lambda>_. no_faults) demo_conf 3000000000 (Some paying_key) demo_admitted True demo_after"

definition demo_stream :: admitted where
  "demo_stream = demo_admitted\<lparr>am_meta := demo_meta\<lparr>rm_stream := Some True\<rparr>\<rparr>"

text \<open>A stream whose client goes away half-way is charged, and its hold closed.\<close>

theorem hold_never_stranded_witness:
  "let up = (\<lambda>_. Reply 200 [] ''data: x'' (Broken True));
       (r, g) = forward demo_json demo_join up (\<lambda>_. no_faults) demo_conf 3000000000 (Some paying_key) demo_stream True demo_after
   in hold_open 2 (gw_db demo_after) \<and> (\<exists>ud n. exchange_end demo_json demo_join up (px_max_body demo_conf) demo_stream True = ChargeIt ud n) \<and>
      \<not> hold_open 2 (gw_db g)"
proof -
  let ?up = "\<lambda>_ :: upstream_request. Reply 200 [] ''data: x'' (Broken True)"
  let ?k = "exchange_end demo_json demo_join ?up (px_max_body demo_conf) demo_stream True"
  obtain r g where f: "forward demo_json demo_join ?up (\<lambda>_. no_faults) demo_conf 3000000000 (Some paying_key) demo_stream True demo_after = (r, g)"
    by (metis prod.exhaust)
  have k: "?k = ChargeIt (no_usage ''m'') 7" unfolding demo_stream_def demo_admitted_def by code_simp
  define cost where "cost = estimate_cost (am_pricing demo_stream) (fst (billed_tokens (no_usage ''m'') 7)) (snd (billed_tokens (no_usage ''m'') 7))"
  have "dec_ok (dec6 (micros_val (cb_balance demo_balance) - cost)) \<and> dec_ok (dec6 cost)"
    unfolding cost_def demo_stream_def demo_admitted_def demo_balance_def by code_simp
  then have "charge_fits cost (am_hold demo_stream) (gw_db demo_after)"
    by (simp add: charge_fits_def demo_after_ok)
  moreover have am: "am_enabled demo_stream" "am_hold demo_stream = 2" by (simp_all add: demo_stream_def demo_admitted_def)
  ultimately have "\<not> hold_open 2 (gw_db g)"
    using hold_never_stranded [OF am(1) f] demo_after_ok(1) by (simp add: Let_def k flip: cost_def)
  moreover have "hold_open 2 (gw_db demo_after)" using demo_after_ok(2) by (force simp: hold_open_def demo_hold_def)
  ultimately show ?thesis using k f by (simp add: Let_def)
qed

theorem refusal_costs_nothing_witness:
  "\<exists>e g'. chat_admit demo_json (\<lambda>_. no_faults) (\<lambda>_. id) 1000 (Some paying_key) None (Body ''req'') (demo_gateway\<lparr>gw_reg := new_registry\<rparr>) = ((Inl e, None), g') \<and>
     ae_status e = 503 \<and> gw_db g' = gw_db demo_gateway"
proof -
  define x where "x = chat_admit demo_json (\<lambda>_. no_faults) (\<lambda>_. id) 1000 (Some paying_key) None (Body ''req'') (demo_gateway\<lparr>gw_reg := new_registry\<rparr>)"
  have f: "fst x = (Inl (api_err 503 ''model_unavailable'' ''server_error''), None)" unfolding x_def by code_simp
  then have x: "x = ((Inl (api_err 503 ''model_unavailable'' ''server_error''), None), snd x)" by (metis prod.collapse)
  have "gw_db (snd x) = gw_db demo_gateway" using refusal_costs_nothing [OF x [unfolded x_def]] by (simp add: x_def)
  then show ?thesis using x by (intro exI [of _ "api_err 503 ''model_unavailable'' ''server_error''"] exI [of _ "snd x"]) (simp add: x_def [symmetric])
qed

theorem session_limit_exact_witness:
  "session_check (\<lambda>_. no_faults) 1000 paying_key 1 demo_meta (scan_pricing demo_price_row) 4 one_hold_db = None"
proof -
  have u: "get_session_token_usage no_faults 1000 (ak_id (au_key paying_key)) (6 * hour) one_hold_db = Inr (0, None)" by code_simp
  have e: "session_estimate (\<lambda>_. no_faults) 1 demo_meta (scan_pricing demo_price_row) 4 one_hold_db = 2001" by code_simp
  have i: "int64_ok 2001" "usage_logs one_hold_db = []" "ak_session_limit (au_key paying_key) = Some 5000"
    by (simp_all add: int64_ok_def one_hold_db_def empty_db_def paying_key_def)
  from session_limit_exact [OF i(3), of "\<lambda>_. no_faults" 1000 one_hold_db 0 None 1 demo_meta "scan_pricing demo_price_row" 4] u e i
  show ?thesis by (auto split: option.splits)
qed

text \<open>
  The session limit can be bypassed by overflow. With a limit of 5000 tokens a request for
  2001 tokens is within it and one for 5001 is refused, yet a request for 2^63 - 1 completion
  tokens passes: the int sum of the estimates wraps to a negative number.
\<close>
theorem session_limit_wraps:
  "session_check (\<lambda>_. no_faults) 1000 paying_key 1 (demo_meta\<lparr>rm_max_tokens := Some 2000\<rparr>) (scan_pricing demo_price_row) 4 one_hold_db = None \<and>
   map_option ae_status (session_check (\<lambda>_. no_faults) 1000 paying_key 1 (demo_meta\<lparr>rm_max_tokens := Some 5000\<rparr>) (scan_pricing demo_price_row) 4 one_hold_db) = Some 429 \<and>
   session_check (\<lambda>_. no_faults) 1000 paying_key 1 (demo_meta\<lparr>rm_max_tokens := Some 9223372036854775807\<rparr>) (scan_pricing demo_price_row) 4 one_hold_db = None"
proof (intro conjI)
  show "session_check (\<lambda>_. no_faults) 1000 paying_key 1 (demo_meta\<lparr>rm_max_tokens := Some 2000\<rparr>) (scan_pricing demo_price_row) 4 one_hold_db = None" by code_simp
  show "map_option ae_status (session_check (\<lambda>_. no_faults) 1000 paying_key 1 (demo_meta\<lparr>rm_max_tokens := Some 5000\<rparr>) (scan_pricing demo_price_row) 4 one_hold_db) = Some 429" by code_simp
  show "session_check (\<lambda>_. no_faults) 1000 paying_key 1 (demo_meta\<lparr>rm_max_tokens := Some 9223372036854775807\<rparr>) (scan_pricing demo_price_row) 4 one_hold_db = None" by code_simp
qed

theorem listing_matches_routing_witness:
  "handle_models (\<lambda>a b. True) no_faults False demo_registry (gw_db demo_gateway) = Inr [(''m'', ''gpu1'')] \<and>
   (\<exists>n. fst (resolve ''m'' demo_registry) = Some n \<and> nd_name n = ''gpu1'')"
proof -
  have h: "handle_models (\<lambda>a b. True) no_faults False demo_registry (gw_db demo_gateway) = Inr [(''m'', ''gpu1'')]" by code_simp
  have s: "sn_models (rg_snap demo_registry) ''m'' = [demo_node]" by code_simp
  from listing_matches_routing [OF h] h s show ?thesis by (simp add: demo_node_def)
qed

theorem completed_charge_witness:
  "\<exists>r g' cb. demo_forward (\<lambda>_. Reply 200 [] ''ok'' Eof) = (r, g') \<and> balances (gw_db g') 1 = Some cb \<and>
     cb_balance cb = 10000000 - 33000 \<and> map ue_charged (gw_queue g') = [rnd64 (33 / 1000)]"
proof -
  note h = demo_after_ok(2)
  define req where "req = \<lparr>ur_url = ''http://gpu1/v1/chat/completions'', ur_body = ''req'', ur_headers = [(''Content-Type'', ''application/json'')], ur_timeout = 300000000000\<rparr>"
  have rq: "new_upstream_request demo_join (am_node demo_admitted) (fst (outgoing demo_json demo_admitted)) = Some req"
    unfolding req_def demo_admitted_def by code_simp
  have c: "answer_cost demo_json demo_admitted ''ok'' = rnd64 (33 / 1000)" unfolding demo_admitted_def by code_simp
  have d: "dec6 (micros_val 10000000 - rnd64 (33 / 1000)) = 9967000" "dec6 (rnd64 (33 / 1000)) = 33000" by code_simp+
  have p: "am_enabled demo_admitted" "am_hold demo_admitted = 2" by (simp_all add: demo_admitted_def)
  obtain r g' where f: "demo_forward (\<lambda>_. Reply 200 [] ''ok'' Eof) = (r, g')" by (metis prod.exhaust)
  have "balances (gw_db g') = (balances (gw_db demo_after))(1 \<mapsto> demo_balance\<lparr>cb_balance := 9967000, cb_reserved := 2500000\<rparr>) \<and>
    gw_queue g' = [usage_row paying_key (am_bill demo_admitted) (fst (answer_usage demo_json demo_admitted ''ok'')) (elapsed_ms demo_conf 3000000000) ''completed'' (rnd64 (33 / 1000)) (Some (nd_id (am_node demo_admitted)))]"
    using completed_charge [OF p(1) demo_after_ok(1) _ h _ _ _ rq, of "\<lambda>_. no_faults" demo_balance "\<lambda>_. Reply 200 [] ''ok'' Eof" "[]" "''ok''" demo_conf
        "rnd64 (33 / 1000)" 3000000000 paying_key r g'] demo_after_ok(3,4) c d p f
    by (simp add: demo_hold_def demo_balance_def demo_conf_def demo_forward_def dec_ok_def)
  then show ?thesis using f by (auto simp: usage_row_def demo_balance_def)
qed

theorem within_estimate_solvent_witness:
  "solvent (snd (settle_tokens (\<lambda>_. no_faults) 2000 2 (am_bill demo_admitted) (no_usage ''m'') 400 (Some (scan_pricing demo_price_row)) (gw_db demo_after)))"
proof -
  note h = demo_after_ok(2)
  have s: "solvent (gw_db demo_after)" by (simp add: solvent_def demo_after_ok(3) demo_balance_def)
  have a: "dec6 (estimate_cost (Some (scan_pricing demo_price_row)) 1 2000) = 30003" by code_simp
  have q: "rates_ok (scan_pricing demo_price_row)" using demo_gateway_ok(2)
    by (simp add: costs_ok_def demo_gateway_def)
  have b: "billed_tokens (no_usage ''m'') 400 = (0, 100)" by code_simp
  obtain c s' where c: "settle_tokens (\<lambda>_. no_faults) 2000 2 (am_bill demo_admitted) (no_usage ''m'') 400 (Some (scan_pricing demo_price_row)) (gw_db demo_after) = (c, s')"
    by (metis prod.exhaust)
  then show ?thesis using within_estimate_solvent [OF demo_after_ok(1) s h _ _ q b, of 1 2000 "\<lambda>_. no_faults" 2000 "am_bill demo_admitted" c s'] a
    by (simp add: demo_hold_def)
qed

end
