(* ===== verification/ApiBase.thy ===== *)
theory ApiBase
  imports ChatFlow
begin

text \<open>
  What the JSON handlers share: request decoding (internal/apierror/decode.go), integer
  parsing, the query parameters of the admin lists (internal/admin/list_filters.go and
  parsePagination of usage_analytics.go) and the pagination envelope (envelope.go). A query is
  the function of url.Values.Get: an absent parameter is empty. The token reader of
  encoding/json is a parameter: the first value and what follows it.
\<close>

section \<open>Decoding a body\<close>

datatype decode_failure = BodyTooLarge | DecodeMessage string

datatype body_tail = TailEof | TailValue | TailFailed decode_failure

definition unknown_field_prefix :: string where
  "unknown_field_prefix = ''json: unknown field ''"

definition unknown_field :: "string \<Rightarrow> string option" where
  "unknown_field msg = (if has_prefix unknown_field_prefix msg then Some (drop (length unknown_field_prefix) msg) else None)"

definition bad_request :: "string \<Rightarrow> api_error" where
  "bad_request code = api_err 400 code ''invalid_request_error''"

definition internal_error :: api_error where
  "internal_error = api_err 500 ''internal_error'' ''server_error''"

definition not_found :: api_error where
  "not_found = api_err 404 ''not_found'' ''invalid_request_error''"

definition write_decode_error :: "decode_failure \<Rightarrow> api_error" where
  "write_decode_error e = (case e of BodyTooLarge \<Rightarrow> api_err 413 ''request_too_large'' ''invalid_request_error''
     | DecodeMessage m \<Rightarrow> (case unknown_field m of Some f \<Rightarrow> bad_request ''unknown_field'' | None \<Rightarrow> bad_request ''invalid_json''))"

type_synonym 'a body = "(decode_failure + 'a) \<times> body_tail"

definition decode_json :: "'a body \<Rightarrow> api_error + 'a" where
  "decode_json b = (case fst b of Inl e \<Rightarrow> Inl (write_decode_error e)
     | Inr v \<Rightarrow> (case snd b of TailEof \<Rightarrow> Inr v | TailValue \<Rightarrow> Inl (bad_request ''invalid_json'')
         | TailFailed e \<Rightarrow> Inl (write_decode_error e)))"

section \<open>Integers in paths and queries\<close>

definition digit_val :: "char \<Rightarrow> nat option" where
  "digit_val c = (if 48 \<le> byte c \<and> byte c \<le> 57 then Some (byte c - 48) else None)"

fun parse_digits :: "nat \<Rightarrow> string \<Rightarrow> nat option" where
  "parse_digits acc [] = Some acc"
| "parse_digits acc (c # cs) = (case digit_val c of None \<Rightarrow> None | Some d \<Rightarrow> parse_digits (10 * acc + d) cs)"

text \<open>strconv.ParseInt in base 10 with 64 bits, and Atoi.\<close>

definition split_sign :: "string \<Rightarrow> bool \<times> string" where
  "split_sign s = (case s of [] \<Rightarrow> (False, []) | c # cs \<Rightarrow> if c = CHR ''-'' then (True, cs) else if c = CHR ''+'' then (False, cs) else (False, s))"

definition parse_int64 :: "string \<Rightarrow> int option" where
  "parse_int64 s = (case split_sign s of (neg, ds) \<Rightarrow> if ds = [] then None else
     (case parse_digits 0 ds of None \<Rightarrow> None | Some n \<Rightarrow>
        let v = (if neg then - int n else int n) in if int64_ok v then Some v else None))"

section \<open>Query parameters\<close>

type_synonym query = "string \<Rightarrow> string"

definition want_envelope :: "query \<Rightarrow> api_error + bool" where
  "want_envelope q = (let raw = q ''envelope'' in if raw = [] \<or> raw = ''1'' then Inr True else if raw = ''0'' then Inr False
     else Inl (bad_request ''invalid_envelope''))"

definition parse_is_active_filter :: "query \<Rightarrow> api_error + bool option" where
  "parse_is_active_filter q = (let raw = q ''is_active'' in if raw = [] then Inr None else if raw = ''true'' then Inr (Some True)
     else if raw = ''false'' then Inr (Some False) else Inl (bad_request ''invalid_is_active''))"

definition parse_role_filter :: "query \<Rightarrow> api_error + string" where
  "parse_role_filter q = (let raw = q ''role'' in if raw \<in> {[], ''admin'', ''user''} then Inr raw else Inl (bad_request ''invalid_role''))"

definition parse_account_type_filter :: "query \<Rightarrow> api_error + string" where
  "parse_account_type_filter q = (let raw = q ''type'' in if raw \<in> {[], ''personal'', ''service'', ''end_user''} then Inr raw
     else Inl (bad_request ''invalid_type''))"

definition default_pagination_size :: int where "default_pagination_size = 100"
definition max_pagination_size :: int where "max_pagination_size = 500"

definition parse_pagination :: "query \<Rightarrow> api_error + int \<times> int" where
  "parse_pagination q =
     (case (if q ''limit'' = [] then Inr default_pagination_size else
              (case parse_int64 (q ''limit'') of None \<Rightarrow> Inl (bad_request ''invalid_limit'')
               | Some n \<Rightarrow> if n \<le> 0 \<or> max_pagination_size < n then Inl (bad_request ''invalid_limit'') else Inr n)) of
        Inl e \<Rightarrow> Inl e
      | Inr l \<Rightarrow> if q ''offset'' = [] then Inr (l, 0) else
              (case parse_int64 (q ''offset'') of None \<Rightarrow> Inl (bad_request ''invalid_offset'')
               | Some n \<Rightarrow> if n < 0 then Inl (bad_request ''invalid_offset'') else Inr (l, n)))"

section \<open>The envelope\<close>

record pagination =
  pg_limit :: int
  pg_offset :: int
  pg_total :: int

text \<open>A Go slice expression panics out of range: None.\<close>

definition go_slice :: "'a list \<Rightarrow> int \<Rightarrow> int \<Rightarrow> 'a list option" where
  "go_slice xs a b = (if 0 \<le> a \<and> a \<le> b \<and> b \<le> int (length xs) then Some (take (nat (b - a)) (drop (nat a) xs)) else None)"

definition slice_window :: "'a list \<Rightarrow> int \<Rightarrow> int \<Rightarrow> ('a list \<times> pagination) option" where
  "slice_window items l off = (let total = int (length items); pg = \<lparr>pg_limit = l, pg_offset = off, pg_total = total\<rparr> in
     if total \<le> off then Some ([], pg)
     else (let e = wrap64 (off + l); e = (if total < e then total else e) in
       map_option (\<lambda>page. (page, pg)) (go_slice items off e)))"

datatype 'a listing = Enveloped "'a list" pagination | Plain "'a list" | Panicked

definition list_reply :: "bool \<Rightarrow> int \<Rightarrow> int \<Rightarrow> 'a list \<Rightarrow> 'a listing" where
  "list_reply env l off items = (if env then (case slice_window items l off of None \<Rightarrow> Panicked | Some (page, pg) \<Rightarrow> Enveloped page pg) else Plain items)"

text \<open>The frame of the admin list handlers: envelope, the endpoint's filters, pagination, then the rows.\<close>

definition list_handler :: "query \<Rightarrow> (api_error + 'f) \<Rightarrow> ('f \<Rightarrow> store_error + 'a list) \<Rightarrow> api_error + 'a listing" where
  "list_handler q flt rows = (case want_envelope q of Inl e \<Rightarrow> Inl e | Inr env \<Rightarrow>
     (case flt of Inl e \<Rightarrow> Inl e | Inr f \<Rightarrow>
     (case parse_pagination q of Inl e \<Rightarrow> Inl e | Inr (l, off) \<Rightarrow>
     (case rows f of Inl e \<Rightarrow> Inl internal_error | Inr xs \<Rightarrow> Inr (list_reply env l off xs)))))"

section \<open>Decimal text reads back\<close>

lemma byte_digit [simp]: "n < 10 \<Longrightarrow> byte (char_of (48 + n)) = 48 + n"
  by (simp add: byte_def)

lemma parse_digits_snoc: "parse_digits acc (xs @ [c]) =
  (case parse_digits acc xs of None \<Rightarrow> None | Some n \<Rightarrow> (case digit_val c of None \<Rightarrow> None | Some d \<Rightarrow> Some (10 * n + d)))"
  by (induction xs arbitrary: acc) (auto split: option.splits)

lemma digit_val_of [simp]: "n < 10 \<Longrightarrow> digit_val (char_of (48 + n)) = Some n"
  by (simp add: digit_val_def)

lemma parse_decimal: "parse_digits 0 (decimal n) = Some n"
proof (induction n rule: decimal.induct)
  case (1 n)
  show ?case
  proof (cases "n < 10")
    case True
    then show ?thesis by (subst decimal.simps) simp
  next
    case False
    then have "parse_digits 0 (decimal (n div 10)) = Some (n div 10)" using 1 by simp
    then show ?thesis using False by (subst decimal.simps) (simp add: parse_digits_snoc)
  qed
qed

lemma decimal_head: "\<exists>d ds. decimal n = char_of (48 + d) # ds \<and> d < (10 :: nat)"
proof (induction n rule: decimal.induct)
  case (1 n)
  show ?case
  proof (cases "n < 10")
    case True
    then have "decimal n = [char_of (48 + n)]" by (subst decimal.simps) simp
    then show ?thesis using True by (intro exI [of _ n] exI [of _ "[]"]) simp
  next
    case False
    then have "decimal n = decimal (n div 10) @ [char_of (48 + n mod 10)]" by (subst decimal.simps) simp
    moreover obtain d :: nat and ds where "decimal (n div 10) = char_of (48 + d) # ds" "d < 10" using 1 False by blast
    ultimately show ?thesis by (intro exI [of _ d] exI [of _ "ds @ [char_of (48 + n mod 10)]"]) simp
  qed
qed

lemma decimal_nonempty [simp]: "decimal n \<noteq> []"
  using decimal_head [of n] by auto

lemma digit_not_sign: "d < (10 :: nat) \<Longrightarrow> char_of (48 + d) \<noteq> CHR ''-'' \<and> char_of (48 + d) \<noteq> CHR ''+''"
proof -
  assume d: "d < 10"
  then have "byte (char_of (48 + d)) = 48 + d" by simp
  moreover have "byte (CHR ''-'') = 45" "byte (CHR ''+'') = 43" by (simp_all add: byte_def)
  ultimately show ?thesis by auto
qed

lemma split_sign_decimal: "split_sign (decimal n) = (False, decimal n)"
proof -
  obtain d ds where "decimal n = char_of (48 + d) # ds" "d < (10 :: nat)" using decimal_head by blast
  then show ?thesis using digit_not_sign [of d] by (simp add: split_sign_def)
qed

text \<open>
  Integers read back. ParseInt applied to the decimal text of a 64-bit integer gives that
  integer, so an id printed in a response or URL is parsed as itself, and text of a number
  outside the 64-bit range is rejected, never truncated.
\<close>
theorem int_text_roundtrip:
  "parse_int64 (go_itoa n) = (if int64_ok n then Some n else None)"
proof (cases "n < 0")
  case True
  then show ?thesis by (simp add: parse_int64_def go_itoa_def split_sign_def parse_decimal)
next
  case False
  then show ?thesis by (simp add: parse_int64_def go_itoa_def split_sign_decimal parse_decimal)
qed

section \<open>Pages\<close>

lemma parse_pagination_bounds:
  "parse_pagination q = Inr (l, off) \<Longrightarrow> 1 \<le> l \<and> l \<le> 500 \<and> 0 \<le> off"
  by (auto simp: parse_pagination_def default_pagination_size_def max_pagination_size_def split: if_splits option.splits sum.splits)

lemma slice_window_page:
  assumes "1 \<le> l" "l \<le> 500" "0 \<le> off" "length items < 2 ^ 62"
  shows "slice_window items l off = Some (take (nat l) (drop (nat off) items), \<lparr>pg_limit = l, pg_offset = off, pg_total = int (length items)\<rparr>)"
proof (cases "int (length items) \<le> off")
  case True
  then have "drop (nat off) items = []" by simp
  then show ?thesis using True by (simp add: slice_window_def Let_def)
next
  case False
  have "int (length items) < int (2 ^ 62)" using assms(4) by (simp only: of_nat_less_iff)
  then have len: "int (length items) < 2 ^ 62" by simp
  then have w: "wrap64 (off + l) = off + l" using False assms(1-3) by (intro wrap64_id) (simp add: int64_ok_def)
  show ?thesis
  proof (cases "int (length items) < off + l")
    case True
    then have "take (nat (int (length items) - off)) (drop (nat off) items) = take (nat l) (drop (nat off) items)"
      using False assms(1,3) by (simp add: nat_le_iff)
    then show ?thesis using True False assms(3) w by (simp add: slice_window_def Let_def go_slice_def)
  next
    case le: False
    then show ?thesis using False assms(1,3) w by (simp add: slice_window_def Let_def go_slice_def)
  qed
qed

text \<open>
  Pagination never panics and never loses a row. Whatever the query, an accepted limit and
  offset give exactly the rows from offset on, at most limit of them and at most 500, with the
  true total; and the consecutive pages of a list put together are the list.
\<close>
theorem pagination_safe:
  assumes "parse_pagination q = Inr (l, off)" and "length items < 2 ^ 62"
  shows "list_reply env l off items = (if env then Enveloped (take (nat l) (drop (nat off) items))
      \<lparr>pg_limit = l, pg_offset = off, pg_total = int (length items)\<rparr> else Plain items) \<and>
    nat l \<in> {1..500} \<and>
    (\<forall>n. length items \<le> n * nat l \<longrightarrow> concat (map (\<lambda>i. take (nat l) (drop (i * nat l) items)) [0..<n]) = items)"
proof (intro conjI allI impI)
  note b = parse_pagination_bounds [OF assms(1)]
  show "list_reply env l off items = (if env then Enveloped (take (nat l) (drop (nat off) items))
      \<lparr>pg_limit = l, pg_offset = off, pg_total = int (length items)\<rparr> else Plain items)"
    using slice_window_page [of l off items] b assms(2) by (simp add: list_reply_def)
  show "nat l \<in> {1..500}" using b by (simp add: nat_le_iff le_nat_iff)
  have p: "concat (map (\<lambda>i. take k (drop (i * k) items)) [0..<n]) = take (n * k) items" for k n
  proof (induction n)
    case (Suc n)
    have "take (n * k) items @ take k (drop (n * k) items) = take (n * k + k) items" by (simp add: take_add)
    then show ?case using Suc by (simp add: add.commute)
  qed simp
  fix n assume "length items \<le> n * nat l"
  then show "concat (map (\<lambda>i. take (nat l) (drop (i * nat l) items)) [0..<n]) = items" using p by simp
qed

theorem pagination_safe_witness:
  "list_reply True 2 1 [10, 20, 30, 40 :: int] = Enveloped [20, 30] \<lparr>pg_limit = 2, pg_offset = 1, pg_total = 4\<rparr>"
proof -
  have "parse_pagination (\<lambda>k. if k = ''limit'' then ''2'' else if k = ''offset'' then ''1'' else []) = Inr (2, 1)" by code_simp
  moreover have "length [10, 20, 30, 40 :: int] < 2 ^ 62" by simp
  ultimately have "list_reply True 2 1 [10, 20, 30, 40 :: int] = Enveloped (take (nat 2) (drop (nat 1) [10, 20, 30, 40]))
      \<lparr>pg_limit = 2, pg_offset = 1, pg_total = int (length [10, 20, 30, 40 :: int])\<rparr>"
    using pagination_safe [of _ 2 1 "[10, 20, 30, 40 :: int]" True] by (metis (no_types, lifting))
  then show ?thesis by (simp add: take_Cons')
qed

end
