(* ===== verification/Analytics.thy ===== *)
theory Analytics
  imports ApiBase "HOL-Library.Multiset"
begin

text \<open>
  The usage queries of internal/store/store.go (GetUsageStats) and internal/store/analytics.go,
  and the query parsing and gap filling of internal/admin/usage_analytics.go. Each SQL query is a
  function of the tables; sums are exact and converted to float64 when scanned; AVG of a
  bigint, whose numeric quotient Postgres rounds by its own rules, is the parameter \<open>avg\<close>. Where SQL leaves the
  order of equal rows open, the model fixes one.
\<close>

section \<open>Joined rows and groups\<close>

record usage_filter =
  uf_since :: "gotime option"
  uf_until :: "gotime option"
  uf_account :: "int option"
  uf_key :: "int option"
  uf_user :: "int option"
  uf_model :: "string option"
  uf_node :: "int option"

type_synonym joined_row = "gotime \<times> usage_entry \<times> api_key"

text \<open>usage_logs JOIN api_keys.\<close>

definition joined_usage :: "db \<Rightarrow> joined_row list" where
  "joined_usage s = List.map_filter (\<lambda>(t, e). map_option (\<lambda>k. (t, e, k)) (row_of ak_id (ue_key e) (api_keys s))) (usage_logs s)"

text \<open>COALESCE(ul.account_id, k.account_id).\<close>

definition row_account :: "joined_row \<Rightarrow> int option" where
  "row_account r = (case r of (t, e, k) \<Rightarrow> (case ue_account e of None \<Rightarrow> ak_account k | a \<Rightarrow> a))"

definition opt_eq :: "'a option \<Rightarrow> 'a option \<Rightarrow> bool" where
  "opt_eq flt v = (case flt of None \<Rightarrow> True | Some x \<Rightarrow> v = Some x)"

definition usage_matches :: "usage_filter \<Rightarrow> joined_row \<Rightarrow> bool" where
  "usage_matches f r = (case r of (t, e, k) \<Rightarrow>
     (case uf_since f of None \<Rightarrow> True | Some u \<Rightarrow> u \<le> t) \<and> (case uf_until f of None \<Rightarrow> True | Some u \<Rightarrow> t < u) \<and>
     opt_eq (uf_account f) (row_account r) \<and> opt_eq (uf_key f) (Some (ue_key e)) \<and> opt_eq (uf_user f) (ak_user k) \<and>
     opt_eq (uf_model f) (Some (ue_model e)) \<and> opt_eq (uf_node f) (ue_node e))"

definition usage_rows :: "usage_filter \<Rightarrow> db \<Rightarrow> joined_row list" where
  "usage_rows f s = filter (usage_matches f) (joined_usage s)"

text \<open>GROUP BY, and a stable ORDER BY on an integer key.\<close>

definition group_rows :: "('a \<Rightarrow> 'k) \<Rightarrow> 'a list \<Rightarrow> ('k \<times> 'a list) list" where
  "group_rows key rs = map (\<lambda>k. (k, filter (\<lambda>r. key r = k) rs)) (remdups (map key rs))"

definition row_entry :: "joined_row \<Rightarrow> usage_entry" where
  "row_entry r = fst (snd r)"

definition sum_of :: "(usage_entry \<Rightarrow> int) \<Rightarrow> joined_row list \<Rightarrow> int" where
  "sum_of g rs = (\<Sum>r\<leftarrow>rs. g (row_entry r))"

definition count_status :: "string \<Rightarrow> joined_row list \<Rightarrow> int" where
  "count_status st rs = int (length (filter (\<lambda>r. ue_status (row_entry r) = st) rs))"

definition credits_of :: "joined_row list \<Rightarrow> rat" where
  "credits_of rs = rnd64 (\<Sum>r\<leftarrow>rs. ue_charged (row_entry r))"

definition avg_duration :: "(int \<Rightarrow> nat \<Rightarrow> rat) \<Rightarrow> joined_row list \<Rightarrow> rat" where
  "avg_duration avg rs = (if rs = [] then 0 else rnd64 (avg (sum_of ue_duration_ms rs) (length rs)))"

section \<open>Statistics of keys\<close>

record usage_stat =
  ut_key :: int
  ut_name :: string
  ut_model :: string
  ut_requests :: int
  ut_prompt :: int
  ut_completion :: int
  ut_total :: int
  ut_status :: string

definition stat_of :: "(int \<times> string \<times> string \<times> string) \<times> joined_row list \<Rightarrow> usage_stat" where
  "stat_of g = (case g of ((i, n, m, st), rs) \<Rightarrow> \<lparr>ut_key = i, ut_name = n, ut_model = m, ut_requests = int (length rs),
     ut_prompt = sum_of ue_prompt rs, ut_completion = sum_of ue_completion rs, ut_total = sum_of ue_total rs, ut_status = st\<rparr>)"

definition get_usage_stats ::
  "(string \<Rightarrow> string \<Rightarrow> bool) \<Rightarrow> faults \<Rightarrow> int option \<Rightarrow> gotime option \<Rightarrow> int option \<Rightarrow> db \<Rightarrow> store_error + usage_stat list" where
  "get_usage_stats le f key since node s = (if f 0 then Inl SqlFault else
     let rs = usage_rows \<lparr>uf_since = since, uf_until = None, uf_account = None, uf_key = key, uf_user = None, uf_model = None, uf_node = node\<rparr> s;
         gs = group_rows (\<lambda>r. case r of (t, e, k) \<Rightarrow> (ue_key e, ak_name k, ue_model e, ue_status e)) rs
     in Inr (map stat_of (foldr (insert_by (\<lambda>a b. fst (fst a) < fst (fst b) \<or>
          fst (fst a) = fst (fst b) \<and> le (fst (snd (snd (fst a)))) (fst (snd (snd (fst b)))))) gs [])))"

section \<open>Summary, models, owners, accounts\<close>

record usage_summary =
  um_requests :: int
  um_prompt :: int
  um_completion :: int
  um_total :: int
  um_credits :: rat
  um_avg_ms :: rat
  um_errors :: int

definition summary_of :: "(int \<Rightarrow> nat \<Rightarrow> rat) \<Rightarrow> joined_row list \<Rightarrow> usage_summary" where
  "summary_of avg rs = \<lparr>um_requests = int (length rs), um_prompt = sum_of ue_prompt rs, um_completion = sum_of ue_completion rs,
     um_total = sum_of ue_total rs, um_credits = credits_of rs, um_avg_ms = avg_duration avg rs, um_errors = count_status ''error'' rs\<rparr>"

definition get_usage_summary :: "(int \<Rightarrow> nat \<Rightarrow> rat) \<Rightarrow> faults \<Rightarrow> usage_filter \<Rightarrow> db \<Rightarrow> store_error + usage_summary" where
  "get_usage_summary avg f uf s = (if f 0 then Inl SqlFault else Inr (summary_of avg (usage_rows uf s)))"

text \<open>Completion tokens per second over completed requests that recorded some.\<close>

definition timed_rows :: "joined_row list \<Rightarrow> joined_row list" where
  "timed_rows rs = filter (\<lambda>r. ue_status (row_entry r) = ''completed'' \<and> 0 < ue_completion (row_entry r) \<and> 0 < ue_duration_ms (row_entry r)) rs"

definition tok_per_sec :: "joined_row list \<Rightarrow> rat option" where
  "tok_per_sec rs = (let xs = timed_rows rs in if xs = [] then None
     else Some (rnd64 (rnd64 (of_int (sum_of ue_completion xs)) / rnd64 (of_int (sum_of ue_duration_ms xs) / 1000))))"

text \<open>percentile_cont: linear interpolation between the two neighbours, in float64.\<close>

definition percentile_cont :: "rat \<Rightarrow> int list \<Rightarrow> rat option" where
  "percentile_cont p xs = (if xs = [] then None else
     let ys = sort xs; pos = fmul p (f_of_int (int (length xs) - 1)); lo = \<lfloor>pos\<rfloor>; hi = \<lceil>pos\<rceil>;
         a = f_of_int (ys ! nat lo); b = f_of_int (ys ! nat hi)
     in Some (if lo = hi then a else fadd a (fmul (fsub pos (of_int lo)) (fsub b a))))"

definition completed_durations :: "joined_row list \<Rightarrow> int list" where
  "completed_durations rs = map (\<lambda>r. ue_duration_ms (row_entry r)) (filter (\<lambda>r. ue_status (row_entry r) = ''completed'') rs)"

record model_usage_row =
  mu_model :: string
  mu_requests :: int
  mu_total :: int
  mu_credits :: rat
  mu_avg_ms :: rat
  mu_prompt :: int
  mu_completion :: int
  mu_tok_per_sec :: "rat option"
  mu_p50 :: "rat option"
  mu_p95 :: "rat option"
  mu_errors :: int
  mu_partials :: int

definition model_row :: "(int \<Rightarrow> nat \<Rightarrow> rat) \<Rightarrow> string \<times> joined_row list \<Rightarrow> model_usage_row" where
  "model_row avg g = (case g of (m, rs) \<Rightarrow> \<lparr>mu_model = m, mu_requests = int (length rs), mu_total = sum_of ue_total rs,
     mu_credits = credits_of rs, mu_avg_ms = avg_duration avg rs, mu_prompt = sum_of ue_prompt rs, mu_completion = sum_of ue_completion rs,
     mu_tok_per_sec = tok_per_sec rs, mu_p50 = percentile_cont (1 / 2) (completed_durations rs),
     mu_p95 = percentile_cont (rnd64 (95 / 100)) (completed_durations rs), mu_errors = count_status ''error'' rs,
     mu_partials = count_status ''partial'' rs\<rparr>)"

definition get_usage_by_model :: "(int \<Rightarrow> nat \<Rightarrow> rat) \<Rightarrow> faults \<Rightarrow> usage_filter \<Rightarrow> db \<Rightarrow> store_error + model_usage_row list" where
  "get_usage_by_model avg f uf s = (if f 0 then Inl SqlFault else
     Inr (map (model_row avg) (sort_key (\<lambda>g. - sum_of ue_total (snd g)) (group_rows (\<lambda>r. ue_model (row_entry r)) (usage_rows uf s)))))"

record owner_usage_row =
  ou_user :: "int option"
  ou_email :: "string option"
  ou_name :: "string option"
  ou_account :: "int option"
  ou_account_name :: "string option"
  ou_account_type :: "string option"
  ou_requests :: int
  ou_total :: int
  ou_credits :: rat
  ou_keys :: int

definition opt_row :: "('r \<Rightarrow> int) \<Rightarrow> int option \<Rightarrow> 'r list \<Rightarrow> 'r option" where
  "opt_row key i rs = (case i of None \<Rightarrow> None | Some k \<Rightarrow> row_of key k rs)"

definition distinct_keys :: "joined_row list \<Rightarrow> int" where
  "distinct_keys rs = int (length (remdups (map (\<lambda>r. ue_key (row_entry r)) rs)))"

definition owner_row :: "db \<Rightarrow> (int option \<times> int option) \<times> joined_row list \<Rightarrow> owner_usage_row" where
  "owner_row s g = (case g of ((u, a), rs) \<Rightarrow> let us = opt_row us_id u (users s); ac = opt_row ac_id a (accounts s) in
     \<lparr>ou_user = u, ou_email = map_option us_email us, ou_name = map_option us_name us, ou_account = a,
      ou_account_name = map_option ac_name ac, ou_account_type = map_option ac_type ac, ou_requests = int (length rs),
      ou_total = sum_of ue_total rs, ou_credits = credits_of rs, ou_keys = distinct_keys rs\<rparr>)"

definition get_usage_by_user :: "faults \<Rightarrow> usage_filter \<Rightarrow> db \<Rightarrow> store_error + owner_usage_row list" where
  "get_usage_by_user f uf s = (if f 0 then Inl SqlFault else
     Inr (map (owner_row s) (sort_key (\<lambda>g. - sum_of ue_total (snd g)) (group_rows (\<lambda>r. (ak_user (snd (snd r)), row_account r)) (usage_rows uf s)))))"

record account_usage_row =
  aw_account :: "int option"
  aw_name :: "string option"
  aw_type :: "string option"
  aw_email :: "string option"
  aw_requests :: int
  aw_total :: int
  aw_credits :: rat
  aw_keys :: int

definition account_row :: "db \<Rightarrow> int option \<times> joined_row list \<Rightarrow> account_usage_row" where
  "account_row s g = (case g of (a, rs) \<Rightarrow> let ac = opt_row ac_id a (accounts s) in
     \<lparr>aw_account = a, aw_name = map_option ac_name ac, aw_type = map_option ac_type ac,
      aw_email = (case ac of None \<Rightarrow> None | Some r \<Rightarrow>
        (case find (\<lambda>x. fi_account x = ac_id r) (identities s) of Some x \<Rightarrow> Some (fi_email x)
         | None \<Rightarrow> map_option us_email (find (\<lambda>u. us_account u = Some (ac_id r)) (users s)))),
      aw_requests = int (length rs), aw_total = sum_of ue_total rs, aw_credits = credits_of rs, aw_keys = distinct_keys rs\<rparr>)"

definition get_usage_by_account :: "faults \<Rightarrow> usage_filter \<Rightarrow> db \<Rightarrow> store_error + account_usage_row list" where
  "get_usage_by_account f uf s = (if f 0 then Inl SqlFault else
     Inr (map (account_row s) (sort_key (\<lambda>g. - sum_of ue_total (snd g)) (group_rows row_account (usage_rows uf s)))))"


section \<open>Time series\<close>

text \<open>date_trunc in UTC and truncateToInterval; a UTC day is 24 hours, so AddDate adds 24 hours.\<close>

definition interval_step :: "string \<Rightarrow> duration" where
  "interval_step iv = (if iv = ''day'' then 24 * hour else hour)"

definition truncate_to_interval :: "gotime \<Rightarrow> string \<Rightarrow> gotime" where
  "truncate_to_interval t iv = t div interval_step iv * interval_step iv"

definition advance_bucket :: "gotime \<Rightarrow> string \<Rightarrow> gotime" where
  "advance_bucket t iv = t + interval_step iv"

record timeseries_bucket =
  tb_bucket :: gotime
  tb_requests :: int
  tb_prompt :: int
  tb_completion :: int
  tb_total :: int
  tb_credits :: rat
  tb_errors :: int

definition bucket_of :: "gotime \<times> joined_row list \<Rightarrow> timeseries_bucket" where
  "bucket_of g = (case g of (b, rs) \<Rightarrow> \<lparr>tb_bucket = b, tb_requests = int (length rs), tb_prompt = sum_of ue_prompt rs,
     tb_completion = sum_of ue_completion rs, tb_total = sum_of ue_total rs, tb_credits = credits_of rs,
     tb_errors = count_status ''error'' rs\<rparr>)"

definition row_bucket :: "string \<Rightarrow> joined_row \<Rightarrow> gotime" where
  "row_bucket iv r = truncate_to_interval (fst r) iv"

definition get_usage_timeseries :: "faults \<Rightarrow> usage_filter \<Rightarrow> string \<Rightarrow> db \<Rightarrow> store_error + timeseries_bucket list" where
  "get_usage_timeseries f uf iv s = (if iv \<notin> {''hour'', ''day''} then Inl BadArgument else if f 0 then Inl SqlFault else
     Inr (map bucket_of (sort_key fst (group_rows (row_bucket iv) (usage_rows uf s)))))"

record model_timeseries_row =
  mt_bucket :: gotime
  mt_model :: string
  mt_requests :: int
  mt_errors :: int
  mt_prompt :: int
  mt_completion :: int
  mt_total :: int
  mt_credits :: rat
  mt_tok_per_sec :: "rat option"
  mt_avg_ms :: rat
  mt_p95 :: "rat option"

definition model_bucket :: "(int \<Rightarrow> nat \<Rightarrow> rat) \<Rightarrow> (string \<times> gotime) \<times> joined_row list \<Rightarrow> model_timeseries_row" where
  "model_bucket avg g = (case g of ((m, b), rs) \<Rightarrow> \<lparr>mt_bucket = b, mt_model = m, mt_requests = int (length rs),
     mt_errors = count_status ''error'' rs, mt_prompt = sum_of ue_prompt rs, mt_completion = sum_of ue_completion rs,
     mt_total = sum_of ue_total rs, mt_credits = credits_of rs, mt_tok_per_sec = tok_per_sec rs, mt_avg_ms = avg_duration avg rs,
     mt_p95 = percentile_cont (rnd64 (95 / 100)) (completed_durations rs)\<rparr>)"

text \<open>The models with the highest totals of the window, ties in the collation order \<open>le\<close>.\<close>

definition top_models :: "(string \<Rightarrow> string \<Rightarrow> bool) \<Rightarrow> nat \<Rightarrow> joined_row list \<Rightarrow> string list" where
  "top_models le n rs = take n (map fst (foldr (insert_by (\<lambda>a b. sum_of ue_total (snd b) < sum_of ue_total (snd a) \<or>
     sum_of ue_total (snd a) = sum_of ue_total (snd b) \<and> le (fst a) (fst b))) (group_rows (\<lambda>r. ue_model (row_entry r)) rs) []))"

definition get_usage_timeseries_by_model ::
  "(string \<Rightarrow> string \<Rightarrow> bool) \<Rightarrow> (int \<Rightarrow> nat \<Rightarrow> rat) \<Rightarrow> faults \<Rightarrow> usage_filter \<Rightarrow> string \<Rightarrow> int \<Rightarrow> db \<Rightarrow> store_error + model_timeseries_row list" where
  "get_usage_timeseries_by_model le avg f uf iv n s = (if iv \<notin> {''hour'', ''day''} then Inl BadArgument else if n \<le> 0 then Inl BadArgument
     else if f 0 then Inl SqlFault else
     let rs = usage_rows uf s; top = top_models le (nat n) rs;
         gs = group_rows (\<lambda>r. (ue_model (row_entry r), row_bucket iv r)) (filter (\<lambda>r. ue_model (row_entry r) \<in> set top) rs)
     in Inr (map (model_bucket avg) (foldr (insert_by (\<lambda>a b. if fst (fst a) = fst (fst b) then snd (fst a) \<le> snd (fst b)
          else le (fst (fst a)) (fst (fst b)))) gs [])))"

section \<open>Query parsing\<close>

definition default_lookback :: duration where "default_lookback = 7 * 24 * hour"
definition interval_hour_cutoff :: duration where "interval_hour_cutoff = 48 * hour"
definition max_timeseries_models :: int where "max_timeseries_models = 12"
definition max_timeseries_buckets :: int where "max_timeseries_buckets = 2000"

definition check_bucket_count :: "gotime \<Rightarrow> gotime \<Rightarrow> string \<Rightarrow> api_error + unit" where
  "check_bucket_count since until iv = (if max_timeseries_buckets * interval_step iv < time_sub until since
     then Inl (bad_request ''invalid_range'') else Inr ())"

text \<open>time.Parse with the two layouts is \<open>rfc3339\<close> and \<open>ymd\<close>.\<close>

definition parse_time_param :: "(string \<Rightarrow> gotime option) \<Rightarrow> (string \<Rightarrow> gotime option) \<Rightarrow> string \<Rightarrow> gotime option" where
  "parse_time_param rfc3339 ymd raw = (case rfc3339 raw of Some t \<Rightarrow> Some t | None \<Rightarrow> ymd raw)"

definition parse_int64_query_param :: "string \<Rightarrow> string \<Rightarrow> api_error + int option" where
  "parse_int64_query_param code raw = (if raw = [] then Inr None else
     (case parse_int64 raw of None \<Rightarrow> Inl (bad_request code) | Some n \<Rightarrow> if n \<le> 0 then Inl (bad_request code) else Inr (Some n)))"

definition window_param :: "(string \<Rightarrow> gotime option) \<Rightarrow> string \<Rightarrow> string \<Rightarrow> gotime \<Rightarrow> api_error + gotime" where
  "window_param pt code raw dflt = (if raw = [] then Inr dflt else (case pt raw of None \<Rightarrow> Inl (bad_request code) | Some t \<Rightarrow> Inr t))"

definition parse_usage_filter :: "(string \<Rightarrow> gotime option) \<Rightarrow> query \<Rightarrow> gotime \<Rightarrow> api_error + usage_filter" where
  "parse_usage_filter pt q now =
     (case window_param pt ''invalid_since'' (q ''since'') (now - default_lookback) of Inl e \<Rightarrow> Inl e | Inr since \<Rightarrow>
     (case window_param pt ''invalid_until'' (q ''until'') now of Inl e \<Rightarrow> Inl e | Inr until \<Rightarrow>
      if \<not> since < until then Inl (bad_request ''invalid_time_range'') else
     (case parse_int64_query_param ''invalid_account_id'' (q ''account_id'') of Inl e \<Rightarrow> Inl e | Inr acc \<Rightarrow>
     (case parse_int64_query_param ''invalid_api_key_id'' (q ''api_key_id'') of Inl e \<Rightarrow> Inl e | Inr key \<Rightarrow>
     (case parse_int64_query_param ''invalid_user_id'' (q ''user_id'') of Inl e \<Rightarrow> Inl e | Inr uid \<Rightarrow>
     (case (if q ''node_id'' = [] then Inr None else
              (case parse_int64 (q ''node_id'') of None \<Rightarrow> Inl (bad_request ''invalid_node_id'') | Some n \<Rightarrow> Inr (Some n))) of Inl e \<Rightarrow> Inl e
      | Inr node \<Rightarrow> Inr \<lparr>uf_since = Some since, uf_until = Some until, uf_account = acc, uf_key = key, uf_user = uid,
          uf_model = (if q ''model'' = [] then None else Some (q ''model'')), uf_node = node\<rparr>))))))"

definition parse_interval :: "query \<Rightarrow> gotime \<Rightarrow> gotime \<Rightarrow> api_error + string" where
  "parse_interval q since until = (let raw = q ''interval'' in
     if raw = [] then Inr (if time_sub until since \<le> interval_hour_cutoff then ''hour'' else ''day'')
     else if raw \<noteq> ''hour'' \<and> raw \<noteq> ''day'' then Inl (bad_request ''invalid_interval'') else Inr raw)"

section \<open>Gap filling\<close>

lemma interval_step_pos [simp]: "0 < interval_step iv"
  by (simp add: interval_step_def hour_def)

lemma interval_step_nonneg [simp]: "0 \<le> interval_step iv"
  by (simp add: interval_step_def hour_def)

function bucket_times :: "string \<Rightarrow> gotime \<Rightarrow> gotime \<Rightarrow> gotime list" where
  "bucket_times iv b e = (if b < e then b # bucket_times iv (advance_bucket b iv) e else [])"
  by pat_completeness auto
termination
  by (relation "measure (\<lambda>(iv, b, e). nat (e - b))") (use interval_step_pos in \<open>auto simp: advance_bucket_def\<close>)

declare bucket_times.simps [simp del]

definition empty_bucket :: "gotime \<Rightarrow> timeseries_bucket" where
  "empty_bucket b = \<lparr>tb_bucket = b, tb_requests = 0, tb_prompt = 0, tb_completion = 0, tb_total = 0, tb_credits = 0, tb_errors = 0\<rparr>"

text \<open>Filling a Go map from a list keeps the last entry of a key.\<close>

definition last_map :: "('r \<Rightarrow> 'k) \<Rightarrow> 'r list \<Rightarrow> 'k \<Rightarrow> 'r option" where
  "last_map key rs k = find (\<lambda>r. key r = k) (rev rs)"

definition gap_fill_buckets :: "timeseries_bucket list \<Rightarrow> gotime \<Rightarrow> gotime \<Rightarrow> string \<Rightarrow> timeseries_bucket list" where
  "gap_fill_buckets rows since until iv = map (\<lambda>b. case last_map tb_bucket rows b of Some r \<Rightarrow> r\<lparr>tb_bucket := b\<rparr> | None \<Rightarrow> empty_bucket b)
     (bucket_times iv (truncate_to_interval since iv) until)"

section \<open>Handlers\<close>

text \<open>Paged reports: by model, by user, by account.\<close>

definition usage_page :: "(string \<Rightarrow> gotime option) \<Rightarrow> query \<Rightarrow> gotime \<Rightarrow> (usage_filter \<Rightarrow> store_error + 'a list) \<Rightarrow> api_error + 'a listing" where
  "usage_page pt q now rows = (case parse_usage_filter pt q now of Inl e \<Rightarrow> Inl e | Inr uf \<Rightarrow>
     (case parse_pagination q of Inl e \<Rightarrow> Inl e | Inr (l, off) \<Rightarrow>
     (case rows uf of Inl e \<Rightarrow> Inl internal_error | Inr xs \<Rightarrow> Inr (list_reply True l off xs))))"

definition usage_summary_handler where
  "usage_summary_handler avg f pt q now s = (case parse_usage_filter pt q now of Inl e \<Rightarrow> Inl e | Inr uf \<Rightarrow>
     (case get_usage_summary avg f uf s of Inl e \<Rightarrow> Inl internal_error | Inr x \<Rightarrow> Inr x))"

definition usage_by_model_handler where
  "usage_by_model_handler avg f pt q now s = usage_page pt q now (\<lambda>uf. get_usage_by_model avg f uf s)"

definition derive_owner_type :: "owner_usage_row \<Rightarrow> string" where
  "derive_owner_type r = (if ou_user r \<noteq> None then ''user'' else if ou_account r \<noteq> None then ''service'' else ''unattributed'')"

definition usage_by_user_handler where
  "usage_by_user_handler f pt q now s = usage_page pt q now
     (\<lambda>uf. map_sum id (map (\<lambda>r. (derive_owner_type r, r))) (get_usage_by_user f uf s))"

definition usage_by_account_handler where
  "usage_by_account_handler f pt q now s = usage_page pt q now (\<lambda>uf. get_usage_by_account f uf s)"

text \<open>What both time series accept: a filter, an interval, and a window that is not too large.\<close>

definition series_request :: "(string \<Rightarrow> gotime option) \<Rightarrow> query \<Rightarrow> gotime \<Rightarrow> api_error + (usage_filter \<times> gotime \<times> gotime \<times> string)" where
  "series_request pt q now = (case parse_usage_filter pt q now of Inl e \<Rightarrow> Inl e | Inr uf \<Rightarrow>
     (let since = the (uf_since uf); until = the (uf_until uf) in
     (case parse_interval q since until of Inl e \<Rightarrow> Inl e | Inr iv \<Rightarrow>
     (case check_bucket_count since until iv of Inl e \<Rightarrow> Inl e | Inr _ \<Rightarrow> Inr (uf, since, until, iv)))))"

definition usage_timeseries_handler :: "faults \<Rightarrow> (string \<Rightarrow> gotime option) \<Rightarrow> query \<Rightarrow> gotime \<Rightarrow> db \<Rightarrow> api_error + string \<times> timeseries_bucket list" where
  "usage_timeseries_handler f pt q now s = (case series_request pt q now of Inl e \<Rightarrow> Inl e | Inr (uf, since, until, iv) \<Rightarrow>
     (case get_usage_timeseries f uf iv s of Inl e \<Rightarrow> Inl internal_error
      | Inr rows \<Rightarrow> Inr (iv, gap_fill_buckets rows since until iv)))"

text \<open>One dense series per model, in descending order of the totals, first seen first.\<close>

definition empty_model_bucket :: "string \<Rightarrow> gotime \<Rightarrow> model_timeseries_row" where
  "empty_model_bucket m b = \<lparr>mt_bucket = b, mt_model = m, mt_requests = 0, mt_errors = 0, mt_prompt = 0, mt_completion = 0,
     mt_total = 0, mt_credits = 0, mt_tok_per_sec = None, mt_avg_ms = 0, mt_p95 = None\<rparr>"

definition model_series :: "model_timeseries_row list \<Rightarrow> gotime \<Rightarrow> gotime \<Rightarrow> string \<Rightarrow> (string \<times> model_timeseries_row list) list" where
  "model_series rows since until iv =
     map (\<lambda>(m, rs). (m, map (\<lambda>b. case last_map mt_bucket rs b of Some r \<Rightarrow> r | None \<Rightarrow> empty_model_bucket m b)
            (bucket_times iv (truncate_to_interval since iv) until)))
       (sort_key (\<lambda>(m, rs). - (\<Sum>r\<leftarrow>rs. mt_total r)) (map (\<lambda>m. (m, filter (\<lambda>r. mt_model r = m) rows)) (rev (remdups (rev (map mt_model rows))))))"

definition usage_timeseries_by_model_handler where
  "usage_timeseries_by_model_handler le avg f pt q now s = (case series_request pt q now of Inl e \<Rightarrow> Inl e | Inr (uf, since, until, iv) \<Rightarrow>
     (case get_usage_timeseries_by_model le avg f uf iv max_timeseries_models s of Inl e \<Rightarrow> Inl internal_error
      | Inr rows \<Rightarrow> Inr (iv, model_series rows since until iv)))"

text \<open>
  BackfillRegistrationEvents: an event for every user, and every service account, that has none.
\<close>

definition has_event :: "string \<Rightarrow> (registration_event \<Rightarrow> int option) \<Rightarrow> int \<Rightarrow> db \<Rightarrow> bool" where
  "has_event kind col i s = (\<exists>e \<in> set (reg_events s). col e = Some i \<and> re_kind e = kind)"

definition backfill_registration_events :: "faults \<Rightarrow> unit store_prog" where
  "backfill_registration_events f =
     bindp (sql f 0 (modp (\<lambda>s. s\<lparr>reg_events := reg_events s @
       map (\<lambda>u. \<lparr>re_kind = ''user'', re_account = us_account u, re_user = Some (us_id u), re_token = None, re_source = ''backfill''\<rparr>)
         (filter (\<lambda>u. \<not> has_event ''user'' re_user (us_id u) s) (users s))\<rparr>))) (\<lambda>_.
     sql f 1 (modp (\<lambda>s. s\<lparr>reg_events := reg_events s @
       map (\<lambda>a. \<lparr>re_kind = ''service'', re_account = Some (ac_id a), re_user = None, re_token = None, re_source = ''backfill''\<rparr>)
         (filter (\<lambda>a. ac_type a = ''service'' \<and> \<not> has_event ''service'' re_account (ac_id a) s) (accounts s))\<rparr>)))"

section \<open>Reports of one window agree\<close>

lemma sum_sort_key: "(\<Sum>x\<leftarrow>sort_key h xs. g x) = (\<Sum>x\<leftarrow>xs. (g x :: 'a :: comm_monoid_add))"
  by (metis mset_map mset_sort sum_mset_sum_list)

lemma group_sum_gen:
  fixes g :: "'a \<Rightarrow> 'b :: comm_monoid_add"
  assumes "finite K" "key ` set rs \<subseteq> K"
  shows "(\<Sum>k\<in>K. \<Sum>r\<leftarrow>filter (\<lambda>r. key r = k) rs. g r) = (\<Sum>r\<leftarrow>rs. g r)"
  using assms(2)
proof (induction rs)
  case (Cons a rs)
  have "(\<Sum>k\<in>K. \<Sum>r\<leftarrow>filter (\<lambda>r. key r = k) (a # rs). g r) =
      (\<Sum>k\<in>K. (if key a = k then g a else 0) + (\<Sum>r\<leftarrow>filter (\<lambda>r. key r = k) rs. g r))"
    by (intro sum.cong) auto
  also have "\<dots> = g a + (\<Sum>r\<leftarrow>rs. g r)" using Cons assms(1) by (simp add: sum.distrib sum.delta)
  finally show ?case by simp
qed simp

lemma group_sum:
  fixes g :: "'a \<Rightarrow> 'b :: comm_monoid_add"
  shows "(\<Sum>p\<leftarrow>group_rows key rs. \<Sum>r\<leftarrow>snd p. g r) = (\<Sum>r\<leftarrow>rs. g r)"
  using group_sum_gen [of "set (map key rs)" key rs g]
  by (simp add: group_rows_def sum_list_distinct_conv_sum_set comp_def)

lemma int_length_sum: "int (length xs) = (\<Sum>x\<leftarrow>xs. 1)"
  by (induction xs) simp_all

lemma count_status_sum: "count_status st rs = (\<Sum>r\<leftarrow>rs. if ue_status (row_entry r) = st then 1 else 0)"
  by (induction rs) (simp_all add: count_status_def)

lemma group_totals:
  "(\<Sum>p\<leftarrow>group_rows key rs. int (length (snd p))) = int (length rs)"
  "(\<Sum>p\<leftarrow>group_rows key rs. sum_of g (snd p)) = sum_of g rs"
  "(\<Sum>p\<leftarrow>group_rows key rs. count_status st (snd p)) = count_status st rs"
  unfolding int_length_sum sum_of_def count_status_sum by (rule group_sum)+

lemma row_sel [simp]:
  "mu_requests (model_row avg p) = int (length (snd p))" "mu_total (model_row avg p) = sum_of ue_total (snd p)"
  "mu_errors (model_row avg p) = count_status ''error'' (snd p)"
  "ou_requests (owner_row s q) = int (length (snd q))" "ou_total (owner_row s q) = sum_of ue_total (snd q)"
  "aw_requests (account_row s r) = int (length (snd r))" "aw_total (account_row s r) = sum_of ue_total (snd r)"
  "tb_requests (bucket_of b) = int (length (snd b))" "tb_total (bucket_of b) = sum_of ue_total (snd b)"
  "tb_errors (bucket_of b) = count_status ''error'' (snd b)" "tb_bucket (bucket_of b) = fst b"
  by (simp_all add: model_row_def owner_row_def account_row_def bucket_of_def Let_def split: prod.splits)

lemma report_totals:
  "get_usage_by_model avg f uf s = Inr ms \<Longrightarrow> (\<Sum>x\<leftarrow>ms. mu_requests x) = int (length (usage_rows uf s)) \<and>
     (\<Sum>x\<leftarrow>ms. mu_total x) = sum_of ue_total (usage_rows uf s) \<and> (\<Sum>x\<leftarrow>ms. mu_errors x) = count_status ''error'' (usage_rows uf s)"
  "get_usage_by_user f uf s = Inr os \<Longrightarrow> (\<Sum>x\<leftarrow>os. ou_requests x) = int (length (usage_rows uf s)) \<and>
     (\<Sum>x\<leftarrow>os. ou_total x) = sum_of ue_total (usage_rows uf s)"
  "get_usage_by_account f uf s = Inr acs \<Longrightarrow> (\<Sum>x\<leftarrow>acs. aw_requests x) = int (length (usage_rows uf s)) \<and>
     (\<Sum>x\<leftarrow>acs. aw_total x) = sum_of ue_total (usage_rows uf s)"
  "get_usage_timeseries f uf iv s = Inr bs \<Longrightarrow> (\<Sum>x\<leftarrow>bs. tb_requests x) = int (length (usage_rows uf s)) \<and>
     (\<Sum>x\<leftarrow>bs. tb_total x) = sum_of ue_total (usage_rows uf s) \<and> (\<Sum>x\<leftarrow>bs. tb_errors x) = count_status ''error'' (usage_rows uf s)"
  by (auto simp: get_usage_by_model_def get_usage_by_user_def get_usage_by_account_def get_usage_timeseries_def
      comp_def sum_sort_key group_totals split: if_splits)

text \<open>
  C38: The reports of one window agree. For every filter and database, the requests, the
  tokens and (where shown) the errors of the by-model, by-user, by-account and time series
  reports add up to those of the summary: grouping neither drops nor repeats a row.
\<close>
theorem usage_reports_agree:
  assumes "get_usage_summary avg f uf s = Inr t" "get_usage_by_model avg f1 uf s = Inr ms"
    "get_usage_by_user f2 uf s = Inr os" "get_usage_by_account f3 uf s = Inr acs" "get_usage_timeseries f4 uf iv s = Inr bs"
  shows "(\<Sum>x\<leftarrow>ms. mu_requests x) = um_requests t \<and> (\<Sum>x\<leftarrow>os. ou_requests x) = um_requests t \<and>
    (\<Sum>x\<leftarrow>acs. aw_requests x) = um_requests t \<and> (\<Sum>x\<leftarrow>bs. tb_requests x) = um_requests t \<and>
    (\<Sum>x\<leftarrow>ms. mu_total x) = um_total t \<and> (\<Sum>x\<leftarrow>os. ou_total x) = um_total t \<and>
    (\<Sum>x\<leftarrow>acs. aw_total x) = um_total t \<and> (\<Sum>x\<leftarrow>bs. tb_total x) = um_total t \<and>
    (\<Sum>x\<leftarrow>ms. mu_errors x) = um_errors t \<and> (\<Sum>x\<leftarrow>bs. tb_errors x) = um_errors t"
proof -
  have "t = summary_of avg (usage_rows uf s)" using assms(1) by (simp add: get_usage_summary_def split: if_splits)
  then show ?thesis using report_totals(1) [OF assms(2)] report_totals(2) [OF assms(3)] report_totals(3) [OF assms(4)]
      report_totals(4) [OF assms(5)] by (simp add: summary_of_def)
qed

section \<open>Dense series\<close>

lemma bucket_times_nth: "i < length (bucket_times iv b e) \<Longrightarrow> bucket_times iv b e ! i = b + int i * interval_step iv"
proof (induction iv b e arbitrary: i rule: bucket_times.induct)
  case (1 iv b e)
  show ?case
  proof (cases i)
    case 0
    then show ?thesis using "1.prems" by (subst bucket_times.simps) (simp add: bucket_times.simps split: if_splits)
  next
    case (Suc j)
    then have lt: "b < e" "j < length (bucket_times iv (advance_bucket b iv) e)"
      using "1.prems" by (simp_all add: bucket_times.simps [of iv b e] split: if_splits)
    show ?thesis using "1.IH" [OF lt] lt(1) Suc
      by (subst bucket_times.simps) (simp add: advance_bucket_def algebra_simps)
  qed
qed

lemma step_dvd: "0 < (d :: int) \<Longrightarrow> b \<le> t \<and> d dvd t - b \<longleftrightarrow> t = b \<or> b + d \<le> t \<and> d dvd t - (b + d)"
proof -
  assume d: "0 < d"
  have "d dvd t - b \<longleftrightarrow> d dvd t - (b + d)" by (metis diff_diff_eq dvd_diff_right_iff dvd_refl dvd_diffD zdvd_zdiffD dvd_diff)
  moreover have "b < t \<Longrightarrow> d dvd t - b \<Longrightarrow> b + d \<le> t" using zdvd_imp_le [of d "t - b"] by simp
  ultimately show ?thesis using d by (cases "t = b"; cases "b < t") auto
qed

lemma bucket_times_set:
  "t \<in> set (bucket_times iv b e) \<longleftrightarrow> b \<le> t \<and> t < e \<and> interval_step iv dvd t - b"
proof (induction iv b e rule: bucket_times.induct)
  case (1 iv b e)
  let ?d = "interval_step iv"
  show ?case
  proof (cases "b < e")
    case True
    note step_dvd [OF interval_step_pos, of b t iv]
    then show ?thesis using 1 True by (subst bucket_times.simps) (auto simp: advance_bucket_def)
  qed (simp add: bucket_times.simps)
qed

lemma bucket_times_distinct: "distinct (bucket_times iv b e)"
  unfolding distinct_conv_nth using bucket_times_nth [of _ iv b e] interval_step_pos [of iv] by (simp add: less_le)

lemma bucket_times_length:
  "b < e \<Longrightarrow> (int (length (bucket_times iv b e)) - 1) * interval_step iv < e - b"
  "b < e \<Longrightarrow> e - b \<le> int (length (bucket_times iv b e)) * interval_step iv"
proof -
  assume be: "b < e"
  let ?ts = "bucket_times iv b e" and ?d = "interval_step iv"
  have ne: "0 < length ?ts" using be by (simp add: bucket_times.simps)
  have "last ?ts < e" using ne bucket_times_set [of "last ?ts" iv b e] by simp
  moreover have "last ?ts = b + int (length ?ts - 1) * ?d" using ne bucket_times_nth [of "length ?ts - 1" iv b e] by (simp add: last_conv_nth)
  moreover have "int (length ?ts - 1) = int (length ?ts) - 1" using ne by (simp add: of_nat_diff Suc_le_eq)
  ultimately show "(int (length ?ts) - 1) * ?d < e - b" by simp
  show "e - b \<le> int (length ?ts) * ?d"
  proof (rule ccontr)
    assume "\<not> ?thesis"
    then have "b + int (length ?ts) * ?d \<in> set ?ts" using mult_nonneg_nonneg [of "int (length ?ts)" ?d] interval_step_pos [of iv] by (simp add: bucket_times_set)
    then obtain i where "i < length ?ts" "?ts ! i = b + int (length ?ts) * ?d" by (auto simp: in_set_conv_nth)
    then show False using bucket_times_nth [of i iv b e] interval_step_pos [of iv] by simp
  qed
qed

lemma truncate_bounds:
  "truncate_to_interval t iv \<le> t" "t < truncate_to_interval t iv + interval_step iv" "interval_step iv dvd truncate_to_interval t iv"
proof -
  have "t - truncate_to_interval t iv = t mod interval_step iv"
    by (simp add: truncate_to_interval_def minus_div_mult_eq_mod)
  then show "truncate_to_interval t iv \<le> t" "t < truncate_to_interval t iv + interval_step iv"
    using pos_mod_sign [of "interval_step iv" t] pos_mod_bound [of "interval_step iv" t] interval_step_pos [of iv] by linarith+
qed (simp add: truncate_to_interval_def)

lemma truncate_mono: "t \<le> u \<Longrightarrow> truncate_to_interval t iv \<le> truncate_to_interval u iv"
  using interval_step_pos [of iv] by (simp add: truncate_to_interval_def zdiv_mono1 mult_right_mono)

lemma truncate_in_window:
  "since \<le> t \<Longrightarrow> t < until \<Longrightarrow> truncate_to_interval t iv \<in> set (bucket_times iv (truncate_to_interval since iv) until)"
  using truncate_mono [of since t iv] truncate_bounds [where t = t and iv = iv] truncate_bounds [where t = since and iv = iv] by (simp add: bucket_times_set)

lemma find_app: "find P (xs @ ys) = (case find P xs of Some r \<Rightarrow> Some r | None \<Rightarrow> find P ys)"
  by (induction xs) simp_all

lemma last_map_Cons: "last_map key (a # rs) k = (case last_map key rs k of Some r \<Rightarrow> Some r | None \<Rightarrow> if key a = k then Some a else None)"
  by (auto simp: last_map_def find_app split: option.splits)

lemma last_map_None: "k \<notin> key ` set rs \<Longrightarrow> last_map key rs k = None"
  by (auto simp: last_map_def find_None_iff)

lemma fill_sum:
  fixes h :: "'r \<Rightarrow> 'b :: comm_monoid_add"
  assumes "distinct ts" "distinct (map key rs)" "key ` set rs \<subseteq> set ts"
  shows "(\<Sum>t\<leftarrow>ts. case last_map key rs t of Some r \<Rightarrow> h r | None \<Rightarrow> 0) = (\<Sum>r\<leftarrow>rs. h r)"
  using assms(2,3)
proof (induction rs)
  case (Cons a rs)
  have "(case last_map key (a # rs) t of Some r \<Rightarrow> h r | None \<Rightarrow> 0) =
      (if key a = t then h a else 0) + (case last_map key rs t of Some r \<Rightarrow> h r | None \<Rightarrow> 0)" for t
    using Cons.prems(1) last_map_None [of "key a" key rs] by (auto simp: last_map_Cons split: option.splits)
  then have "(\<Sum>t\<leftarrow>ts. case last_map key (a # rs) t of Some r \<Rightarrow> h r | None \<Rightarrow> 0) =
      (\<Sum>t\<leftarrow>ts. if key a = t then h a else 0) + (\<Sum>r\<leftarrow>rs. h r)"
    using Cons by (simp add: sum_list_addf)
  also have "(\<Sum>t\<leftarrow>ts. if key a = t then h a else 0) = h a"
    using Cons.prems(2) assms(1) by (simp add: sum_list_distinct_conv_sum_set sum.delta)
  finally show ?case by simp
qed (simp add: last_map_def)

lemma fill_total:
  assumes "distinct (map tb_bucket rows)" "tb_bucket ` set rows \<subseteq> set (bucket_times iv (truncate_to_interval since iv) until)"
    and "\<And>b r. h (r\<lparr>tb_bucket := b\<rparr>) = h r" "\<And>b. h (empty_bucket b) = (0 :: int)"
  shows "(\<Sum>r\<leftarrow>gap_fill_buckets rows since until iv. h r) = (\<Sum>r\<leftarrow>rows. h r)"
proof -
  have "h (case m of Some r \<Rightarrow> r\<lparr>tb_bucket := b\<rparr> | None \<Rightarrow> empty_bucket b) = (case m of Some r \<Rightarrow> h r | None \<Rightarrow> 0)" for m b
    using assms(3,4) by (cases m) simp_all
  then show ?thesis using fill_sum [OF bucket_times_distinct assms(1,2), of h]
    by (simp add: gap_fill_buckets_def comp_def)
qed

lemma timeseries_rows:
  assumes "get_usage_timeseries f uf iv s = Inr rows" "uf_since uf = Some since" "uf_until uf = Some until"
  shows "distinct (map tb_bucket rows)" "tb_bucket ` set rows \<subseteq> set (bucket_times iv (truncate_to_interval since iv) until)"
proof -
  let ?gs = "group_rows (row_bucket iv) (usage_rows uf s)"
  have rows: "rows = map bucket_of (sort_key fst ?gs)" using assms(1) by (simp add: get_usage_timeseries_def split: if_splits)
  have keys: "map fst ?gs = remdups (map (row_bucket iv) (usage_rows uf s))" by (simp add: group_rows_def comp_def)
  have "mset (map tb_bucket rows) = mset (map fst ?gs)" by (simp add: rows comp_def)
  then show "distinct (map tb_bucket rows)" by (metis keys distinct_remdups mset_eq_imp_distinct_iff)
  have "tb_bucket ` set rows = row_bucket iv ` set (usage_rows uf s)"
    using arg_cong [OF keys, of set] by (simp add: rows image_image)
  moreover have "row_bucket iv r \<in> set (bucket_times iv (truncate_to_interval since iv) until)" if "r \<in> set (usage_rows uf s)" for r
    using that assms(2,3) by (auto simp: usage_rows_def usage_matches_def row_bucket_def intro!: truncate_in_window split: prod.splits)
  ultimately show "tb_bucket ` set rows \<subseteq> set (bucket_times iv (truncate_to_interval since iv) until)" by auto
qed

lemma parse_usage_filter_window:
  "parse_usage_filter pt q now = Inr uf \<Longrightarrow> \<exists>since until. uf_since uf = Some since \<and> uf_until uf = Some until \<and> since < until"
  by (auto simp: parse_usage_filter_def split: sum.splits if_splits option.splits)

lemma series_request_Inr:
  assumes "series_request pt q now = Inr (uf, since, until, iv)"
  shows "parse_usage_filter pt q now = Inr uf" "uf_since uf = Some since" "uf_until uf = Some until" "since < until"
    "check_bucket_count since until iv = Inr ()"
proof -
  show p: "parse_usage_filter pt q now = Inr uf" using assms by (auto simp: series_request_def Let_def split: sum.splits)
  obtain a b where ab: "uf_since uf = Some a" "uf_until uf = Some b" "a < b" using parse_usage_filter_window [OF p] by blast
  then have "since = a" "until = b" "check_bucket_count since until iv = Inr ()"
    using assms p by (auto simp: series_request_def Let_def split: sum.splits)
  then show "uf_since uf = Some since" "uf_until uf = Some until" "since < until" "check_bucket_count since until iv = Inr ()"
    using ab by simp_all
qed

text \<open>The saturation of Sub does not matter: the limit is far below the end of int64.\<close>

lemma check_bucket_window:
  assumes "check_bucket_count since until iv = Inr ()" shows "until - since \<le> 2000 * interval_step iv"
proof -
  have "time_sub until since \<le> 2000 * interval_step iv" using assms by (simp add: check_bucket_count_def max_timeseries_buckets_def split: if_splits)
  moreover have "2000 * interval_step iv < 2 ^ 63 - 1" by (simp add: interval_step_def hour_def)
  ultimately show ?thesis by (simp add: time_sub_def sat64_def split: if_splits)
qed

lemma filled_length:
  assumes "since < until" "until - since \<le> 2000 * interval_step iv"
  shows "length (gap_fill_buckets rows since until iv) \<le> 2001"
proof -
  let ?b = "truncate_to_interval since iv" and ?d = "interval_step iv"
  note t = truncate_bounds [where t = since and iv = iv]
  have "?b < until" "until - ?b < 2001 * ?d" using assms t by linarith+
  then have "(int (length (bucket_times iv ?b until)) - 1) * ?d < 2001 * ?d" using bucket_times_length(1) [of ?b until iv] by linarith
  then have "int (length (bucket_times iv ?b until)) - 1 < 2001" using interval_step_pos [of iv] by (simp add: mult_less_cancel_right)
  then show ?thesis by (simp add: gap_fill_buckets_def)
qed

text \<open>
  C37: The time series is dense, aligned, bounded and lossless. Every accepted time-series
  request is answered with consecutive buckets at the multiples of the interval, the first
  holding since, the last below until, at most 2001 of them, and their requests and tokens
  add up to those of all rows of the window.
\<close>
theorem timeseries_dense:
  assumes "usage_timeseries_handler f pt q now s = Inr (iv, bs)"
  shows "\<exists>uf since until. parse_usage_filter pt q now = Inr uf \<and> uf_since uf = Some since \<and> uf_until uf = Some until \<and>
    (\<forall>i < length bs. tb_bucket (bs ! i) = truncate_to_interval since iv + int i * interval_step iv) \<and>
    length bs \<in> {1..2001} \<and> until \<le> truncate_to_interval since iv + int (length bs) * interval_step iv \<and>
    (\<forall>b \<in> set bs. tb_bucket b < until) \<and>
    (\<Sum>b\<leftarrow>bs. tb_requests b) = int (length (usage_rows uf s)) \<and> (\<Sum>b\<leftarrow>bs. tb_total b) = sum_of ue_total (usage_rows uf s)"
proof -
  obtain uf since until rows where r: "series_request pt q now = Inr (uf, since, until, iv)"
    and g: "get_usage_timeseries f uf iv s = Inr rows" and bs: "bs = gap_fill_buckets rows since until iv"
    using assms by (auto simp: usage_timeseries_handler_def split: sum.splits)
  note sr = series_request_Inr [OF r]
  let ?ts = "bucket_times iv (truncate_to_interval since iv) until"
  have "tb_bucket (case m of Some r \<Rightarrow> r\<lparr>tb_bucket := b\<rparr> | None \<Rightarrow> empty_bucket b) = b" for m b
    by (cases m) (simp_all add: empty_bucket_def)
  then have ts: "map tb_bucket bs = ?ts" by (simp add: bs gap_fill_buckets_def comp_def)
  then have len: "length bs = length ?ts" by (metis length_map)
  have b: "truncate_to_interval since iv < until" using sr(4) truncate_bounds(1) [of since iv] by linarith
  have nth: "tb_bucket (bs ! i) = truncate_to_interval since iv + int i * interval_step iv" if "i < length bs" for i
    using that ts len by (metis bucket_times_nth nth_map)
  have sums: "(\<Sum>b\<leftarrow>bs. h b) = (\<Sum>b\<leftarrow>rows. h b)"
    if "\<And>b r. h (r\<lparr>tb_bucket := b\<rparr>) = h r" "\<And>b. h (empty_bucket b) = 0" for h :: "timeseries_bucket \<Rightarrow> int"
    unfolding bs by (rule fill_total [OF timeseries_rows [OF g sr(2,3)] that])
  have "1 \<le> length bs" using b len by (simp add: bucket_times.simps)
  moreover have "length bs \<le> 2001" unfolding bs by (rule filled_length [OF sr(4) check_bucket_window [OF sr(5)]])
  moreover have "until \<le> truncate_to_interval since iv + int (length bs) * interval_step iv"
    using bucket_times_length(2) [OF b, of iv] len by simp
  moreover have "tb_bucket x < until" if "x \<in> set bs" for x
    using that ts bucket_times_set by (metis image_eqI list.set_map)
  ultimately show ?thesis using sr nth report_totals(4) [OF g] sums [of tb_requests] sums [of tb_total]
    by (intro exI [of _ uf] exI [of _ since] exI [of _ until]) (simp add: empty_bucket_def)
qed

text \<open>
  The window check admits 2001 buckets. A window of exactly 2000 hours that does not start
  on the hour passes the check, which the code describes as rejecting windows that would
  fill more than 2000 buckets, and fills 2001.
\<close>
theorem bucket_limit_exceeded:
  "check_bucket_count (hour div 2) (hour div 2 + 2000 * hour) ''hour'' = Inr () \<and>
   length (gap_fill_buckets [] (hour div 2) (hour div 2 + 2000 * hour) ''hour'') = 2001"
proof
  show "check_bucket_count (hour div 2) (hour div 2 + 2000 * hour) ''hour'' = Inr ()" by code_simp
  let ?ts = "bucket_times ''hour'' 0 (hour div 2 + 2000 * hour)"
  have "truncate_to_interval (hour div 2) ''hour'' = 0" by code_simp
  moreover have "hour div 2 + 2000 * hour - 0 \<le> int (length ?ts) * hour"
    using bucket_times_length(2) [of 0 "hour div 2 + 2000 * hour" "''hour''"] by (simp add: hour_def interval_step_def)
  then have "2000 < length ?ts" by (simp add: hour_def)
  moreover have "length (gap_fill_buckets [] (hour div 2) (hour div 2 + 2000 * hour) ''hour'') \<le> 2001"
    by (rule filled_length) (simp_all add: hour_def interval_step_def)
  ultimately show "length (gap_fill_buckets [] (hour div 2) (hour div 2 + 2000 * hour) ''hour'') = 2001"
    by (simp add: gap_fill_buckets_def)
qed

section \<open>Registration events are complete\<close>

text \<open>
  The registration-event backfill is complete and idempotent. After a successful run
  every user and every service account has an event of its kind, the earlier events are
  untouched, and a second run changes nothing.
\<close>
theorem event_backfill_complete:
  assumes "backfill_registration_events f s = (Inr (), s')"
  shows "(\<forall>u \<in> set (users s'). has_event ''user'' re_user (us_id u) s') \<and>
    (\<forall>a \<in> set (accounts s'). ac_type a = ''service'' \<longrightarrow> has_event ''service'' re_account (ac_id a) s') \<and>
    (\<exists>new. reg_events s' = reg_events s @ new) \<and> backfill_registration_events no_faults s' = (Inr (), s')"
proof -
  let ?mk = "\<lambda>u. \<lparr>re_kind = ''user'', re_account = us_account u, re_user = Some (us_id u), re_token = None, re_source = ''backfill''\<rparr>"
  let ?mk' = "\<lambda>a. \<lparr>re_kind = ''service'', re_account = Some (ac_id a), re_user = None, re_token = None, re_source = ''backfill''\<rparr>"
  define n1 where "n1 = map ?mk (filter (\<lambda>u. \<not> has_event ''user'' re_user (us_id u) s) (users s))"
  define s1 where "s1 = s\<lparr>reg_events := reg_events s @ n1\<rparr>"
  define n2 where "n2 = map ?mk' (filter (\<lambda>a. ac_type a = ''service'' \<and> \<not> has_event ''service'' re_account (ac_id a) s1) (accounts s1))"
  have s': "s' = s1\<lparr>reg_events := reg_events s1 @ n2\<rparr>"
    using assms by (auto simp: backfill_registration_events_def ledger_run s1_def n1_def n2_def)
  have us: "has_event ''user'' re_user (us_id u) s'" if "u \<in> set (users s')" for u
    using that by (cases "has_event ''user'' re_user (us_id u) s") (auto simp: s' s1_def n1_def has_event_def bex_Un)
  have acs: "has_event ''service'' re_account (ac_id a) s'" if "a \<in> set (accounts s')" "ac_type a = ''service''" for a
    using that by (cases "has_event ''service'' re_account (ac_id a) s1") (auto simp: s' n2_def has_event_def bex_Un)
  have e: "filter (\<lambda>u. \<not> has_event ''user'' re_user (us_id u) s') (users s') = []"
    "filter (\<lambda>a. ac_type a = ''service'' \<and> \<not> has_event ''service'' re_account (ac_id a) s') (accounts s') = []"
    using us acs by (auto simp: filter_empty_conv)
  have "backfill_registration_events no_faults s' = (Inr (), s')"
    by (simp add: backfill_registration_events_def prog_simps e)
  moreover have "\<exists>new. reg_events s' = reg_events s @ new" by (simp add: s' s1_def)
  ultimately show ?thesis using us acs by blast
qed

section \<open>Witnesses\<close>

text \<open>Three requests of two keys, one of an end-user account, over two hours.\<close>

definition usage_demo :: db where
  "usage_demo = (let
     k = (\<lambda>i n u a. \<lparr>ak_id = i, ak_name = n, ak_hash = n, ak_prefix = n, ak_rate_limit = 60, ak_created = 0, ak_revoked = False,
       ak_user = u, ak_account = a, ak_session_limit = None, ak_trust_headers = False\<rparr>);
     e = (\<lambda>i m n st a. \<lparr>ue_key = i, ue_model = m, ue_prompt = 1, ue_completion = n, ue_total = n + 1, ue_duration_ms = 40, ue_status = st,
       ue_charged = 1, ue_node = None, ue_account = a\<rparr>)
   in empty_db\<lparr>api_keys := [k 1 ''k1'' (Some 1) (Some 1), k 2 ''k2'' None None],
     usage_logs := [(10, e 1 ''m1'' 5 ''completed'' None), (20, e 2 ''m2'' 7 ''error'' (Some 4)), (hour + 3, e 1 ''m2'' 9 ''completed'' (Some 1))]\<rparr>)"

definition demo_filter :: usage_filter where
  "demo_filter = \<lparr>uf_since = Some 0, uf_until = Some (2 * hour), uf_account = None, uf_key = None, uf_user = None, uf_model = None, uf_node = None\<rparr>"

lemma usage_demo_rows: "length (usage_rows demo_filter usage_demo) = 3 \<and> sum_of ue_total (usage_rows demo_filter usage_demo) = 24 \<and>
    count_status ''error'' (usage_rows demo_filter usage_demo) = 1"
  by code_simp

theorem usage_reports_agree_witness:
  "\<exists>ms. get_usage_by_model (\<lambda>n k. 0) no_faults demo_filter usage_demo = Inr ms \<and>
     (\<Sum>x\<leftarrow>ms. mu_requests x) = 3 \<and> (\<Sum>x\<leftarrow>ms. mu_total x) = 24 \<and> (\<Sum>x\<leftarrow>ms. mu_errors x) = 1"
proof -
  obtain t ms os acs bs where r: "get_usage_summary (\<lambda>n k. 0) no_faults demo_filter usage_demo = Inr t"
    "get_usage_by_model (\<lambda>n k. 0) no_faults demo_filter usage_demo = Inr ms" "get_usage_by_user no_faults demo_filter usage_demo = Inr os"
    "get_usage_by_account no_faults demo_filter usage_demo = Inr acs" "get_usage_timeseries no_faults demo_filter ''hour'' usage_demo = Inr bs"
    by (simp add: get_usage_summary_def get_usage_by_model_def get_usage_by_user_def get_usage_by_account_def get_usage_timeseries_def)
  have "t = summary_of (\<lambda>n k. 0) (usage_rows demo_filter usage_demo)" using r(1) by (simp add: get_usage_summary_def)
  then have "um_requests t = 3" "um_total t = 24" "um_errors t = 1" using usage_demo_rows by (simp_all add: summary_of_def)
  then show ?thesis using usage_reports_agree [OF r] r(2) by simp
qed

theorem timeseries_dense_witness:
  "\<exists>iv bs. usage_timeseries_handler no_faults (\<lambda>r. Some (if r = ''a'' then 0 else 2 * hour))
      (\<lambda>k. if k = ''since'' then ''a'' else if k = ''until'' then ''b'' else []) 0 usage_demo = Inr (iv, bs) \<and> (\<Sum>b\<leftarrow>bs. tb_requests b) = 3"
proof -
  let ?pt = "\<lambda>r. Some (if r = ''a'' then 0 else 2 * hour)" and ?q = "\<lambda>k. if k = ''since'' then ''a'' else if k = ''until'' then ''b'' else []"
  have p: "parse_usage_filter ?pt ?q 0 = Inr demo_filter" by (simp add: parse_usage_filter_def window_param_def parse_int64_query_param_def demo_filter_def hour_def)
  then have "series_request ?pt ?q 0 = Inr (demo_filter, 0, 2 * hour, ''hour'')"
    by (simp add: series_request_def demo_filter_def parse_interval_def time_sub_def sat64_def hour_def interval_hour_cutoff_def
        check_bucket_count_def max_timeseries_buckets_def interval_step_def)
  then obtain bs where r: "usage_timeseries_handler no_faults ?pt ?q 0 usage_demo = Inr (''hour'', bs)"
    by (simp add: usage_timeseries_handler_def get_usage_timeseries_def)
  from timeseries_dense [OF r] p have "(\<Sum>b\<leftarrow>bs. tb_requests b) = int (length (usage_rows demo_filter usage_demo))" by auto
  then show ?thesis using r usage_demo_rows by auto
qed

theorem event_backfill_complete_witness:
  "has_event ''user'' re_user 1 (snd (backfill_registration_events no_faults
     (empty_db\<lparr>users := [\<lparr>us_id = 1, us_email = ''a'', us_password = ''p'', us_name = ''n'', us_role = ''user'', us_active = True, us_account = None\<rparr>]\<rparr>)))"
proof -
  let ?s = "empty_db\<lparr>users := [\<lparr>us_id = 1, us_email = ''a'', us_password = ''p'', us_name = ''n'', us_role = ''user'', us_active = True, us_account = None\<rparr>]\<rparr>"
  obtain s' where r: "backfill_registration_events no_faults ?s = (Inr (), s')"
    by (simp add: backfill_registration_events_def prog_simps)
  then have "users s' = users ?s" by (auto simp: backfill_registration_events_def ledger_run)
  then show ?thesis using event_backfill_complete [OF r] r by simp
qed

end
