(* ===== verification/AuthLimit.thy ===== *)
theory AuthLimit
  imports RateLimit GoStrings
begin

text \<open>
  internal/authlimit, the limiters in front of the public authentication surface, and the
  per-session limiter of internal/admin/session_limiter.go. Parsing an address
  (net.ParseIP, net.SplitHostPort) and SHA-256 are parameters; strings.ToLower and
  strings.TrimSpace are modelled on ASCII.
\<close>

section \<open>Keyed limiter\<close>

record tbucket =
  tb_tokens :: rat
  tb_last_refill :: gotime
  tb_last_access :: gotime

type_synonym tbuckets = "string \<rightharpoonup> tbucket"

record keyed_limiter =
  kl_buckets :: tbuckets
  kl_capacity :: rat
  kl_refill_rate :: rat

definition new_keyed_limiter :: "int \<Rightarrow> keyed_limiter" where
  "new_keyed_limiter per_minute =
     \<lparr>kl_buckets = Map.empty, kl_capacity = f_of_int per_minute, kl_refill_rate = bucket_rate per_minute\<rparr>"

definition keyed_allow :: "keyed_limiter \<Rightarrow> gotime \<Rightarrow> string \<Rightarrow> (bool \<times> f64) \<times> keyed_limiter" where
  "keyed_allow l now key =
     (if kl_capacity l \<le> 0 then ((True, Fin 0), l) else
      case kl_buckets l key of
        None \<Rightarrow> ((True, Fin 0), l\<lparr>kl_buckets := (kl_buckets l)(key \<mapsto>
          \<lparr>tb_tokens = fsub (kl_capacity l) 1, tb_last_refill = now, tb_last_access = now\<rparr>)\<rparr>)
      | Some b \<Rightarrow>
          let x = refilled (kl_capacity l) (kl_refill_rate l) (tb_tokens b) (time_sub now (tb_last_refill b));
              put = (\<lambda>tk. l\<lparr>kl_buckets := (kl_buckets l)(key \<mapsto>
                \<lparr>tb_tokens = tk, tb_last_refill = now, tb_last_access = now\<rparr>)\<rparr>)
          in if 1 \<le> x then ((True, Fin 0), put (fsub x 1))
             else ((False, fdiv (fsub 1 x) (kl_refill_rate l)), put x))"

definition keyed_prune :: "keyed_limiter \<Rightarrow> gotime \<Rightarrow> duration \<Rightarrow> keyed_limiter" where
  "keyed_prune l now cutoff_age = l\<lparr>kl_buckets := (\<lambda>key. case kl_buckets l key of None \<Rightarrow> None
     | Some b \<Rightarrow> if tb_last_access b < now - cutoff_age then None else Some b)\<rparr>"

section \<open>Guard\<close>

text \<open>The semaphore of capacity n holding k tokens is \<open>Some (n, k)\<close>; a nil guard is None.\<close>

record guard =
  gd_login_ip :: keyed_limiter
  gd_login_email :: keyed_limiter
  gd_register_ip :: keyed_limiter
  gd_general_ip :: keyed_limiter
  gd_bcrypt :: "(nat \<times> nat) option"

record auth_limits =
  al_login_ip :: int
  al_login_email :: int
  al_register_ip :: int
  al_general_ip :: int
  al_bcrypt :: int

definition new_guard :: "auth_limits \<Rightarrow> guard" where
  "new_guard cfg = \<lparr>gd_login_ip = new_keyed_limiter (al_login_ip cfg),
     gd_login_email = new_keyed_limiter (al_login_email cfg),
     gd_register_ip = new_keyed_limiter (al_register_ip cfg),
     gd_general_ip = new_keyed_limiter (al_general_ip cfg),
     gd_bcrypt = (if 0 < al_bcrypt cfg then Some (nat (al_bcrypt cfg), 0) else None)\<rparr>"

definition allow_login_ip :: "guard option \<Rightarrow> gotime \<Rightarrow> string \<Rightarrow> (bool \<times> f64) \<times> guard option" where
  "allow_login_ip g now ip = (case g of None \<Rightarrow> ((True, Fin 0), None)
     | Some g \<Rightarrow> let (r, l) = keyed_allow (gd_login_ip g) now ip in (r, Some (g\<lparr>gd_login_ip := l\<rparr>)))"

definition allow_login_email ::
  "(string \<Rightarrow> string) \<Rightarrow> guard option \<Rightarrow> gotime \<Rightarrow> string \<Rightarrow> (bool \<times> f64) \<times> guard option" where
  "allow_login_email sha g now email = (case g of None \<Rightarrow> ((True, Fin 0), None)
     | Some g \<Rightarrow> let (r, l) = keyed_allow (gd_login_email g) now (sha (to_lower email))
                in (r, Some (g\<lparr>gd_login_email := l\<rparr>)))"

definition allow_register_ip :: "guard option \<Rightarrow> gotime \<Rightarrow> string \<Rightarrow> (bool \<times> f64) \<times> guard option" where
  "allow_register_ip g now ip = (case g of None \<Rightarrow> ((True, Fin 0), None)
     | Some g \<Rightarrow> let (r, l) = keyed_allow (gd_register_ip g) now ip in (r, Some (g\<lparr>gd_register_ip := l\<rparr>)))"

definition allow_general_ip :: "guard option \<Rightarrow> gotime \<Rightarrow> string \<Rightarrow> (bool \<times> f64) \<times> guard option" where
  "allow_general_ip g now ip = (case g of None \<Rightarrow> ((True, Fin 0), None)
     | Some g \<Rightarrow> let (r, l) = keyed_allow (gd_general_ip g) now ip in (r, Some (g\<lparr>gd_general_ip := l\<rparr>)))"

definition try_acquire_bcrypt :: "guard option \<Rightarrow> bool \<times> guard option" where
  "try_acquire_bcrypt g = (case g of None \<Rightarrow> (True, None) | Some gd \<Rightarrow>
     (case gd_bcrypt gd of None \<Rightarrow> (True, g)
      | Some (cap, n) \<Rightarrow> if n < cap then (True, Some (gd\<lparr>gd_bcrypt := Some (cap, n + 1)\<rparr>)) else (False, g)))"

definition release_bcrypt :: "guard option \<Rightarrow> guard option" where
  "release_bcrypt g = (case g of None \<Rightarrow> None | Some gd \<Rightarrow>
     (case gd_bcrypt gd of None \<Rightarrow> g
      | Some (cap, n) \<Rightarrow> if n = 0 then g else Some (gd\<lparr>gd_bcrypt := Some (cap, n - 1)\<rparr>)))"

text \<open>The background goroutine's tick.\<close>

definition guard_prune :: "gotime \<Rightarrow> guard \<Rightarrow> guard" where
  "guard_prune now g = g\<lparr>gd_login_ip := keyed_prune (gd_login_ip g) now idle_cutoff,
     gd_login_email := keyed_prune (gd_login_email g) now idle_cutoff,
     gd_register_ip := keyed_prune (gd_register_ip g) now idle_cutoff,
     gd_general_ip := keyed_prune (gd_general_ip g) now idle_cutoff\<rparr>"

section \<open>Middleware\<close>

text \<open>The part of an HTTP request the middleware reads; an absent header is empty.\<close>

record auth_request =
  ar_method :: string
  ar_path :: string
  ar_forwarded_for :: string
  ar_real_ip :: string
  ar_remote_addr :: string

definition before_comma :: "string \<Rightarrow> string" where
  "before_comma s = takeWhile (\<lambda>c. c \<noteq> CHR '','') s"

definition client_ip :: "(string \<Rightarrow> string option) \<Rightarrow> (string \<Rightarrow> string option) \<Rightarrow> auth_request \<Rightarrow> string" where
  "client_ip parse_ip split_host r =
     (let fallback = (case parse_ip (trim_space (ar_real_ip r)) of Some ip \<Rightarrow> ip
        | None \<Rightarrow> (case split_host (ar_remote_addr r) of Some h \<Rightarrow> h | None \<Rightarrow> ar_remote_addr r))
      in if ar_forwarded_for r \<noteq> [] then
           (case parse_ip (trim_space (before_comma (ar_forwarded_for r))) of Some ip \<Rightarrow> ip | None \<Rightarrow> fallback)
         else fallback)"

definition auth_middleware ::
  "(string \<Rightarrow> string option) \<Rightarrow> (string \<Rightarrow> string option) \<Rightarrow> guard option \<Rightarrow> gotime \<Rightarrow> auth_request \<Rightarrow>
   (api_error + unit) \<times> guard option" where
  "auth_middleware parse_ip split_host g now r =
     (let ip = client_ip parse_ip split_host r;
          ((allowed, retry), g') =
            (if ar_method r = ''POST'' \<and> ar_path r = ''/api/auth/login'' then allow_login_ip g now ip
             else if ar_method r = ''POST'' \<and>
               (ar_path r = ''/api/auth/register'' \<or> ar_path r = ''/api/accounts/register'')
             then allow_register_ip g now ip
             else allow_general_ip g now ip)
      in ((if allowed then Inr ()
          else Inl (api_err_retry 429 ''rate_limit_exceeded'' ''rate_limit_exceeded''
            (case retry of Fin q \<Rightarrow> \<lceil>q\<rceil> | _ \<Rightarrow> 0))), g'))"

section \<open>The admin session limiter\<close>

definition per_session_rate_limit :: int where "per_session_rate_limit = 300"
definition session_idle_cutoff :: duration where "session_idle_cutoff = 10 * minute"

definition session_allow :: "tbuckets \<Rightarrow> gotime \<Rightarrow> string \<Rightarrow> bool \<times> tbuckets" where
  "session_allow l now hash =
     (let cap = f_of_int per_session_rate_limit; rate = bucket_rate per_session_rate_limit in
      case l hash of
        None \<Rightarrow> (True, l(hash \<mapsto> \<lparr>tb_tokens = fsub cap 1, tb_last_refill = now, tb_last_access = now\<rparr>))
      | Some b \<Rightarrow>
          let x = refilled cap rate (tb_tokens b) (time_sub now (tb_last_refill b))
          in if 1 \<le> x
             then (True, l(hash \<mapsto> \<lparr>tb_tokens = fsub x 1, tb_last_refill = now, tb_last_access = now\<rparr>))
             else (False, l(hash \<mapsto> \<lparr>tb_tokens = x, tb_last_refill = now, tb_last_access = now\<rparr>)))"

definition session_prune :: "tbuckets \<Rightarrow> gotime \<Rightarrow> tbuckets" where
  "session_prune l now = (\<lambda>hash. case l hash of None \<Rightarrow> None
     | Some b \<Rightarrow> if tb_last_access b < now - session_idle_cutoff then None else Some b)"

section \<open>Both are token buckets\<close>

definition tb_level :: "tbuckets \<Rightarrow> string \<Rightarrow> rat option" where
  "tb_level l key = map_option tb_tokens (l key)"

definition tb_stamp :: "tbuckets \<Rightarrow> string \<Rightarrow> gotime" where
  "tb_stamp l key = (case l key of None \<Rightarrow> 0 | Some b \<Rightarrow> tb_last_refill b)"

text \<open>A keyed limiter created for R requests per minute, as a function of its bucket map.\<close>

definition keyed_allow_at :: "int \<Rightarrow> tbuckets \<Rightarrow> gotime \<Rightarrow> string \<Rightarrow> bool \<times> tbuckets" where
  "keyed_allow_at R m t key =
     (let ((ok, _), l) = keyed_allow ((new_keyed_limiter R)\<lparr>kl_buckets := m\<rparr>) t key in (ok, kl_buckets l))"

definition keyed_step :: "int \<Rightarrow> tbuckets \<Rightarrow> gotime \<Rightarrow> string \<Rightarrow> bool \<times> tbuckets" where
  "keyed_step R l now key = (case l key of
     None \<Rightarrow> (True, l(key \<mapsto> \<lparr>tb_tokens = of_int R - 1, tb_last_refill = now, tb_last_access = now\<rparr>))
   | Some b \<Rightarrow>
       let x = refilled (of_int R) (bucket_rate R) (tb_tokens b) (time_sub now (tb_last_refill b))
       in (1 \<le> x, l(key \<mapsto> \<lparr>tb_tokens = (if 1 \<le> x then fsub x 1 else x),
             tb_last_refill = now, tb_last_access = now\<rparr>)))"

lemma keyed_allow_at_step:
  assumes "1 \<le> R" "R \<le> 10000" shows "keyed_allow_at R = keyed_step R"
proof (intro ext)
  fix m t key
  have "f_of_int R = of_int R" "fsub (of_int R) 1 = of_int R - 1"
    using assms rnd64_int [of "R - 1"] by (simp_all add: fsub_def)
  then show "keyed_allow_at R m t key = keyed_step R m t key" using assms
    by (simp add: keyed_allow_at_def keyed_allow_def new_keyed_limiter_def keyed_step_def Let_def split: option.split)
qed

lemma session_allow_step: "session_allow = keyed_step per_session_rate_limit"
proof (intro ext)
  fix l now hash
  have "fsub 300 1 = 299" by (simp add: fsub_def)
  then show "session_allow l now hash = keyed_step per_session_rate_limit l now hash"
    by (simp add: session_allow_def keyed_step_def per_session_rate_limit_def Let_def split: option.split)
qed

lemma keyed_step_token_bucket:
  assumes R: "1 \<le> R" "R \<le> 10000"
  shows "token_bucket (keyed_step R) tb_level tb_stamp (of_int R) (of_int R / (60 * 10 ^ 9)) bucket_err"
proof
  fix l :: tbuckets and t and key :: string and x
  show "0 \<le> (of_int R :: rat) / (60 * 10 ^ 9)" "0 \<le> bucket_err" "1 \<le> (of_int R :: rat)"
    using R by (simp_all add: bucket_err_def)
  show "tb_stamp (snd (keyed_step R l t key)) key = t"
    by (simp add: keyed_step_def tb_stamp_def Let_def split: option.split)
  show "tb_level l key = None \<Longrightarrow>
      fst (keyed_step R l t key) \<and> tb_level (snd (keyed_step R l t key)) key = Some (of_int R - 1)"
    by (simp add: keyed_step_def tb_level_def)
  assume l: "tb_level l key = Some x" and x: "0 \<le> x" "x \<le> of_int R" and st: "tb_stamp l key \<le> t"
  then obtain b where b: "l key = Some b" "tb_tokens b = x" "tb_last_refill b \<le> t"
      "tb_stamp l key = tb_last_refill b"
    by (auto simp: tb_level_def tb_stamp_def)
  define y where "y = refilled (of_int R) (bucket_rate R) x (time_sub t (tb_last_refill b))"
  note y = refilled_take [OF R x b(3) y_def]
  have s: "fst (keyed_step R l t key) \<longleftrightarrow> 1 \<le> y"
    "tb_level (snd (keyed_step R l t key)) key = Some (if 1 \<le> y then fsub y 1 else y)"
    using b by (simp_all add: keyed_step_def tb_level_def Let_def y_def)
  show "\<exists>z. tb_level (snd (keyed_step R l t key)) key = Some z \<and> 0 \<le> z \<and> z \<le> of_int R \<and>
      z + (if fst (keyed_step R l t key) then 1 else 0)
        \<le> x + of_int R / (60 * 10 ^ 9) * of_int (t - tb_stamp l key) + bucket_err"
  proof (cases "1 \<le> y")
    case True
    then show ?thesis using s y(4) fsub_one(1,2) [OF True y(2) R(2)] b(4) by (simp add: bucket_err_def)
  next
    case False
    then show ?thesis using s y(1-3) b(4) by (simp add: bucket_err_def)
  qed
next
  fix l :: tbuckets and t and key key' :: string
  assume "key' \<noteq> key"
  then show "tb_level (snd (keyed_step R l t key)) key' = tb_level l key' \<and>
      tb_stamp (snd (keyed_step R l t key)) key' = tb_stamp l key'"
    by (simp add: keyed_step_def tb_level_def tb_stamp_def Let_def split: option.split)
qed

lemma session_token_bucket:
  "token_bucket session_allow tb_level tb_stamp 300 (300 / (60 * 10 ^ 9)) bucket_err"
  using keyed_step_token_bucket [of per_session_rate_limit] session_allow_step
  by (simp add: per_session_rate_limit_def)

interpretation session: token_bucket session_allow tb_level tb_stamp 300 "300 / (60 * 10 ^ 9)" bucket_err
  by (rule session_token_bucket)


section \<open>Properties\<close>

lemma token_bucket_window:
  assumes "token_bucket al level stamp (of_int R) (of_int R / (60 * 10 ^ 9)) bucket_err"
    and "level l key = None" "sorted (map fst rs)" "\<forall>r \<in> set rs. t0 \<le> fst r \<and> fst r \<le> t1" "t0 \<le> t1"
  shows "of_nat (granted key rs (run_limiter al l rs)) \<le>
    (of_int R + of_int R * of_int (t1 - t0) / of_int minute + of_nat (length rs) / 10 ^ 9 :: rat)"
  using token_bucket.burst [OF assms] by (simp add: bucket_err_def minute_def)

text \<open>A login bucket (per client address or per e-mail hash) created for R attempts per minute
  lets at most R attempts through in any window plus what the window refills, so rotating other
  keys does not raise the bound of the one attacked.\<close>

theorem keyed_limiter_burst:
  assumes "1 \<le> R" "R \<le> 10000" "l key = None" "sorted (map fst rs)"
    and "\<forall>r \<in> set rs. t0 \<le> fst r \<and> fst r \<le> t1" "t0 \<le> t1"
  shows "of_nat (granted key rs (run_limiter (keyed_allow_at R) l rs)) \<le>
    (of_int R + of_int R * of_int (t1 - t0) / of_int minute + of_nat (length rs) / 10 ^ 9 :: rat)"
  using keyed_step_token_bucket [OF assms(1,2)] assms
  by (intro token_bucket_window [where level = tb_level and stamp = tb_stamp])
     (simp_all add: keyed_allow_at_step tb_level_def)

lemma keyed_limiter_burst_witness:
  "of_nat (granted ''1.2.3.4'' [(0, ''1.2.3.4''), (9, ''1.2.3.4'')]
       (run_limiter (keyed_allow_at 5) Map.empty [(0, ''1.2.3.4''), (9, ''1.2.3.4'')]))
     \<le> (5 + 5 * 9 / of_int minute + 2 / 10 ^ 9 :: rat)"
  using keyed_limiter_burst [of 5 Map.empty "''1.2.3.4''" "[(0, ''1.2.3.4''), (9, ''1.2.3.4'')]" 0 9]
  by (simp del: run_limiter.simps granted.simps)

text \<open>An admin session passes at most 300 requests in any window plus 300 per minute of window.\<close>

theorem session_limiter_burst:
  assumes "l hash = None" "sorted (map fst rs)"
    and "\<forall>r \<in> set rs. t0 \<le> fst r \<and> fst r \<le> t1" "t0 \<le> t1"
  shows "of_nat (granted hash rs (run_limiter session_allow l rs)) \<le>
    (300 + 300 * of_int (t1 - t0) / of_int minute + of_nat (length rs) / 10 ^ 9 :: rat)"
  using session.burst [of l hash rs t0 t1] assms
  by (simp add: tb_level_def bucket_err_def minute_def field_simps)

lemma session_limiter_burst_witness:
  "of_nat (granted ''h'' [(0, ''h''), (1, ''g'')] (run_limiter session_allow Map.empty [(0, ''h''), (1, ''g'')]))
     \<le> (300 + 300 * 1 / of_int minute + 2 / 10 ^ 9 :: rat)"
  using session_limiter_burst [of Map.empty "''h''" "[(0, ''h''), (1, ''g'')]" 0 1]
  by (simp del: run_limiter.simps granted.simps)

text \<open>Changing the case of the target e-mail does not escape its login throttle: the answer and
  the guard afterwards are the same.\<close>

theorem login_email_case_insensitive:
  assumes "to_lower e = to_lower e'"
  shows "allow_login_email sha g now e = allow_login_email sha g now e'"
  by (cases g) (simp_all add: allow_login_email_def assms)

lemma login_email_case_insensitive_witness:
  "allow_login_email id (Some (new_guard \<lparr>al_login_ip = 1, al_login_email = 1, al_register_ip = 1,
      al_general_ip = 1, al_bcrypt = 1\<rparr>)) 0 ''Bob@X.org'' =
   allow_login_email id (Some (new_guard \<lparr>al_login_ip = 1, al_login_email = 1, al_register_ip = 1,
      al_general_ip = 1, al_bcrypt = 1\<rparr>)) 0 ''bob@x.ORG''"
proof -
  have "to_lower ''Bob@X.org'' = to_lower ''bob@x.ORG''" by code_simp
  then show ?thesis by (rule login_email_case_insensitive)
qed

text \<open>Each route drains one bucket map of the guard and leaves the others alone.\<close>

definition route_class :: "auth_request \<Rightarrow> string" where
  "route_class r = (if ar_method r = ''POST'' \<and> ar_path r = ''/api/auth/login'' then ''login''
     else if ar_method r = ''POST'' \<and> ar_path r \<in> {''/api/auth/register'', ''/api/accounts/register''}
     then ''register'' else ''general'')"

text \<open>The three address limiters are independent: a request on one class of routes changes
  neither the buckets of the two other classes nor the e-mail throttle nor the semaphore.\<close>

theorem auth_middleware_frame:
  assumes "auth_middleware pip sh (Some g) now r = (res, Some g')"
  shows "gd_login_email g' = gd_login_email g \<and> gd_bcrypt g' = gd_bcrypt g \<and>
    (route_class r \<noteq> ''login'' \<longrightarrow> gd_login_ip g' = gd_login_ip g) \<and>
    (route_class r \<noteq> ''register'' \<longrightarrow> gd_register_ip g' = gd_register_ip g) \<and>
    (route_class r \<noteq> ''general'' \<longrightarrow> gd_general_ip g' = gd_general_ip g)"
  using assms
  by (auto simp: auth_middleware_def route_class_def allow_login_ip_def allow_register_ip_def
      allow_general_ip_def Let_def split: prod.splits if_splits)

lemma auth_middleware_frame_witness:
  "\<exists>res g'. auth_middleware (\<lambda>_. None) (\<lambda>_. None)
      (Some (new_guard \<lparr>al_login_ip = 1, al_login_email = 1, al_register_ip = 1, al_general_ip = 1, al_bcrypt = 1\<rparr>)) 0
      \<lparr>ar_method = ''GET'', ar_path = ''/'', ar_forwarded_for = [], ar_real_ip = [], ar_remote_addr = ''a''\<rparr>
      = (res, Some g') \<and> gd_login_ip g' = new_keyed_limiter 1"
proof -
  let ?g = "new_guard \<lparr>al_login_ip = 1, al_login_email = 1, al_register_ip = 1, al_general_ip = 1, al_bcrypt = 1\<rparr>"
  let ?r = "\<lparr>ar_method = ''GET'', ar_path = ''/'', ar_forwarded_for = [], ar_real_ip = [], ar_remote_addr = ''a''\<rparr>"
  obtain res g' where m: "auth_middleware (\<lambda>_. None) (\<lambda>_. None) (Some ?g) 0 ?r = (res, Some g')"
    by (simp add: auth_middleware_def allow_general_ip_def client_ip_def new_guard_def keyed_allow_def
        new_keyed_limiter_def)
  have "gd_login_ip g' = gd_login_ip ?g" using auth_middleware_frame [OF m] by (simp add: route_class_def)
  then show ?thesis using m by (simp add: new_guard_def)
qed

section \<open>The bcrypt semaphore\<close>

definition bcrypt_ok :: "guard option \<Rightarrow> bool" where
  "bcrypt_ok g = (case g of None \<Rightarrow> True | Some gd \<Rightarrow>
     (case gd_bcrypt gd of None \<Rightarrow> True | Some (cap, n) \<Rightarrow> n \<le> cap))"

text \<open>The semaphore never holds more tokens than its capacity, an acquisition fails exactly when
  it is full, and acquiring then releasing restores the guard.\<close>

theorem bcrypt_semaphore:
  assumes "bcrypt_ok g"
  shows "bcrypt_ok (snd (try_acquire_bcrypt g)) \<and> bcrypt_ok (release_bcrypt g) \<and>
    (fst (try_acquire_bcrypt g) \<longrightarrow> release_bcrypt (snd (try_acquire_bcrypt g)) = g) \<and>
    (\<not> fst (try_acquire_bcrypt g) \<longleftrightarrow>
       (\<exists>gd n. g = Some gd \<and> gd_bcrypt gd = Some (n, n)))"
  using assms
  by (auto simp: bcrypt_ok_def try_acquire_bcrypt_def release_bcrypt_def split: option.splits)

lemma bcrypt_semaphore_witness:
  "fst (try_acquire_bcrypt (Some (new_guard \<lparr>al_login_ip = 1, al_login_email = 1, al_register_ip = 1,
     al_general_ip = 1, al_bcrypt = 2\<rparr>)))"
  using bcrypt_semaphore [of "Some (new_guard \<lparr>al_login_ip = 1, al_login_email = 1, al_register_ip = 1,
     al_general_ip = 1, al_bcrypt = 2\<rparr>)"]
  by (auto simp: bcrypt_ok_def new_guard_def)

end
