(* ===== verification/UserApi.thy ===== *)
theory UserApi
  imports Analytics AuthLimit
begin

text \<open>
  The user-facing API, internal/user/handler.go: registration, login, sessions, profile,
  password, own keys, usage and credits. A handler maps the database and the authentication
  guard to a reply and their new values. bcrypt, SHA-256 and the random source are parameters;
  \<open>fs i\<close> is the fault plan of the handler's i-th store call, \<open>env\<close> what others commit between
  two of its calls, and the instants of one request are one \<open>now\<close>.
\<close>

section \<open>State and parameters\<close>

record api_state =
  as_db :: db
  as_guard :: "guard option"

record crypto =
  cy_hash :: "string \<Rightarrow> string"
  cy_compare :: "string \<Rightarrow> string \<Rightarrow> bool"
  cy_generate :: "string \<Rightarrow> string option"

type_synonym 'a reply = "(api_error + 'a) \<times> api_state"

definition write_throttled :: "f64 \<Rightarrow> api_error" where
  "write_throttled retry = api_err_retry 429 ''rate_limit_exceeded'' ''rate_limit_exceeded'' (case retry of Fin q \<Rightarrow> \<lceil>q\<rceil> | _ \<Rightarrow> 0)"

definition busy :: api_error where
  "busy = write_throttled (Fin 1)"

definition no_user :: api_error where
  "no_user = api_err 401 ''no_user'' ''invalid_request_error''"

definition invalid_credentials :: api_error where
  "invalid_credentials = api_err 401 ''invalid_credentials'' ''invalid_request_error''"

definition account_disabled :: api_error where
  "account_disabled = api_err 403 ''account_disabled'' ''invalid_request_error''"

text \<open>A store call and the reply to its error.\<close>

definition store_call :: "'a store_prog \<Rightarrow> api_error \<Rightarrow> ('a \<Rightarrow> api_state \<Rightarrow> 'b reply) \<Rightarrow> api_state \<Rightarrow> 'b reply" where
  "store_call m err k st = (case m (as_db st) of (Inl e, d) \<Rightarrow> (Inl err, st\<lparr>as_db := d\<rparr>) | (Inr a, d) \<Rightarrow> k a (st\<lparr>as_db := d\<rparr>))"

section \<open>Registration and login\<close>

record register_request =
  rq_email :: string
  rq_password :: string
  rq_name :: string

definition register :: "crypto \<Rightarrow> rat \<Rightarrow> (nat \<Rightarrow> faults) \<Rightarrow> gotime \<Rightarrow> register_request body \<Rightarrow> api_state \<Rightarrow> (int \<times> int) reply" where
  "register cy grant fs now b st = (case decode_json b of Inl e \<Rightarrow> (Inl e, st) | Inr req \<Rightarrow>
     if rq_email req = [] \<or> rq_password req = [] \<or> rq_name req = [] then (Inl (bad_request ''missing_fields''), st)
     else if length (rq_password req) < 8 then (Inl (bad_request ''weak_password''), st)
     else (case try_acquire_bcrypt (as_guard st) of (False, g) \<Rightarrow> (Inl busy, st\<lparr>as_guard := g\<rparr>) | (True, g) \<Rightarrow>
       let st1 = st\<lparr>as_guard := release_bcrypt g\<rparr> in
       (case cy_generate cy (rq_password req) of None \<Rightarrow> (Inl internal_error, st1) | Some h \<Rightarrow>
         store_call (register_user (fs 0) now (rq_email req) h (rq_name req))
           (api_err 409 ''email_exists'' ''invalid_request_error'') (\<lambda>(acc, uid) st2.
           (Inr (uid, acc), if 0 < grant then st2\<lparr>as_db := snd (add_credits (fs 1) acc grant (as_db st2))\<rparr> else st2)) st1)))"

record login_request =
  lr_email :: string
  lr_password :: string

record login_response =
  lg_token :: string
  lg_expires_in :: int
  lg_user :: int
  lg_email :: string
  lg_role :: string

text \<open>The reply comes with the number of bcrypt comparisons made.\<close>

definition login ::
  "crypto \<Rightarrow> (nat \<Rightarrow> faults) \<Rightarrow> (db \<Rightarrow> db) \<Rightarrow> gotime \<Rightarrow> string option \<Rightarrow> login_request body \<Rightarrow> api_state \<Rightarrow> login_response reply \<times> nat" where
  "login cy fs env now rnd b st = (case decode_json b of Inl e \<Rightarrow> ((Inl e, st), 0) | Inr req \<Rightarrow>
     if lr_email req = [] \<or> lr_password req = [] then ((Inl (bad_request ''missing_fields''), st), 0)
     else (case allow_login_email (cy_hash cy) (as_guard st) now (lr_email req) of
       ((False, retry), g) \<Rightarrow> ((Inl (write_throttled retry), st\<lparr>as_guard := g\<rparr>), 0)
     | ((True, retry), g) \<Rightarrow> (case get_user_by_email (fs 0) (lr_email req) (as_db st) of
         Inl e \<Rightarrow> ((Inl internal_error, st\<lparr>as_guard := g\<rparr>), 0)
       | Inr found \<Rightarrow> (case try_acquire_bcrypt g of (False, g') \<Rightarrow> ((Inl busy, st\<lparr>as_guard := g'\<rparr>), 0)
         | (True, g') \<Rightarrow> let st1 = st\<lparr>as_guard := release_bcrypt g'\<rparr> in
           (case found of None \<Rightarrow> ((Inl invalid_credentials, st1), 1)
            | Some u \<Rightarrow> if \<not> us_active u then ((Inl account_disabled, st1), 0)
              else if \<not> cy_compare cy (us_password u) (lr_password req) then ((Inl invalid_credentials, st1), 1)
              else (case rnd of None \<Rightarrow> ((Inl internal_error, st1), 1) | Some raw \<Rightarrow>
                (store_call (create_session (fs 1) (us_id u) (cy_hash cy raw) (now + session_duration_for (us_role u))) internal_error
                   (\<lambda>_ st2. (Inr \<lparr>lg_token = raw, lg_expires_in = session_duration_for (us_role u) div second, lg_user = us_id u,
                        lg_email = us_email u, lg_role = us_role u\<rparr>, st2)) (st1\<lparr>as_db := env (as_db st1)\<rparr>), 1)))))))"

section \<open>Session-authenticated handlers\<close>

text \<open>SessionMiddleware in front of a handler.\<close>

definition with_session ::
  "crypto \<Rightarrow> (nat \<Rightarrow> faults) \<Rightarrow> gotime \<Rightarrow> string \<Rightarrow> string \<Rightarrow> (user option \<Rightarrow> session option \<Rightarrow> api_state \<Rightarrow> 'a reply) \<Rightarrow> api_state \<Rightarrow> 'a reply" where
  "with_session cy g now ah sh h st = (case session_middleware (cy_hash cy) g now ah sh (as_db st) of
     (Inl e, d) \<Rightarrow> (Inl e, st\<lparr>as_db := d\<rparr>) | (Inr (u, x), d) \<Rightarrow> h (Some u) (Some x) (st\<lparr>as_db := d\<rparr>))"

definition logout :: "(nat \<Rightarrow> faults) \<Rightarrow> session option \<Rightarrow> api_state \<Rightarrow> unit reply" where
  "logout fs so st = (case so of None \<Rightarrow> (Inl (api_err 401 ''no_session'' ''invalid_request_error''), st)
     | Some x \<Rightarrow> store_call (delete_session (fs 0) (se_hash x)) internal_error (\<lambda>_ st'. (Inr (), st')) st)"

record profile_response =
  pf_id :: int
  pf_email :: string
  pf_name :: string
  pf_role :: string
  pf_active :: bool

definition get_profile :: "user option \<Rightarrow> api_state \<Rightarrow> profile_response reply" where
  "get_profile uo st = (case uo of None \<Rightarrow> (Inl no_user, st) | Some u \<Rightarrow>
     (Inr \<lparr>pf_id = us_id u, pf_email = us_email u, pf_name = us_name u, pf_role = us_role u, pf_active = us_active u\<rparr>, st))"

record update_profile_request =
  up_name :: string
  up_email :: string

definition update_profile :: "(nat \<Rightarrow> faults) \<Rightarrow> user option \<Rightarrow> update_profile_request body \<Rightarrow> api_state \<Rightarrow> unit reply" where
  "update_profile fs uo b st = (case uo of None \<Rightarrow> (Inl no_user, st) | Some u \<Rightarrow>
     (case decode_json b of Inl e \<Rightarrow> (Inl e, st) | Inr req \<Rightarrow>
       store_call (update_user_profile (fs 0) (us_id u) (if up_name req = [] then us_name u else up_name req)
           (if up_email req = [] then us_email u else up_email req)) internal_error (\<lambda>_ st'. (Inr (), st')) st))"

record change_password_request =
  cp_old :: string
  cp_new :: string

definition change_password ::
  "crypto \<Rightarrow> (nat \<Rightarrow> faults) \<Rightarrow> user option \<Rightarrow> session option \<Rightarrow> change_password_request body \<Rightarrow> api_state \<Rightarrow> unit reply" where
  "change_password cy fs uo so b st = (case uo of None \<Rightarrow> (Inl no_user, st) | Some u \<Rightarrow>
     (case decode_json b of Inl e \<Rightarrow> (Inl e, st) | Inr req \<Rightarrow>
       if cp_old req = [] \<or> cp_new req = [] then (Inl (bad_request ''missing_fields''), st)
       else if length (cp_new req) < 8 then (Inl (bad_request ''weak_password''), st)
       else (case try_acquire_bcrypt (as_guard st) of (False, g) \<Rightarrow> (Inl busy, st\<lparr>as_guard := g\<rparr>) | (True, g) \<Rightarrow>
         let st1 = st\<lparr>as_guard := release_bcrypt g\<rparr> in
         if \<not> cy_compare cy (us_password u) (cp_old req) then (Inl (api_err 401 ''wrong_password'' ''invalid_request_error''), st1)
         else (case cy_generate cy (cp_new req) of None \<Rightarrow> (Inl internal_error, st1) | Some h \<Rightarrow>
           store_call (update_user_password_and_revoke_sessions (fs 0) (us_id u) h (case so of None \<Rightarrow> [] | Some x \<Rightarrow> se_hash x))
             internal_error (\<lambda>_ st'. (Inr (), st')) st1))))"

section \<open>Own keys\<close>

record create_key_request =
  ck_name :: string
  ck_rate_limit :: int

record create_key_response =
  kr_id :: int
  kr_name :: string
  kr_key :: string
  kr_prefix :: string
  kr_rate_limit :: int

text \<open>The raw key is sk- and the hex digits of the random bytes.\<close>

definition raw_key :: "string \<Rightarrow> string" where
  "raw_key hex = ''sk-'' @ hex"

definition create_user_key ::
  "crypto \<Rightarrow> (nat \<Rightarrow> faults) \<Rightarrow> gotime \<Rightarrow> string option \<Rightarrow> user option \<Rightarrow> create_key_request body \<Rightarrow> api_state \<Rightarrow> create_key_response reply" where
  "create_user_key cy fs now rnd uo b st = (case uo of None \<Rightarrow> (Inl no_user, st) | Some u \<Rightarrow>
     (case decode_json b of Inl e \<Rightarrow> (Inl e, st) | Inr req \<Rightarrow>
       if ck_name req = [] then (Inl (bad_request ''missing_name''), st)
       else (case apply_config_defaults_and_cap (ck_rate_limit req) of None \<Rightarrow> (Inl (bad_request ''rate_limit_too_high''), st) | Some rl \<Rightarrow>
       (case rnd of None \<Rightarrow> (Inl internal_error, st) | Some hex \<Rightarrow>
         let raw = raw_key hex; prefix = take 11 raw; h = cy_hash cy raw in
         store_call (case us_account u of Some a \<Rightarrow> create_key_for_account (fs 0) now (us_id u) a (ck_name req) h prefix rl
             | None \<Rightarrow> create_key_for_user (fs 0) now (us_id u) (ck_name req) h prefix rl) internal_error
           (\<lambda>i st'. (Inr \<lparr>kr_id = i, kr_name = ck_name req, kr_key = raw, kr_prefix = prefix, kr_rate_limit = rl\<rparr>, st')) st))))"

definition list_user_keys :: "(nat \<Rightarrow> faults) \<Rightarrow> user option \<Rightarrow> api_state \<Rightarrow> api_key list reply" where
  "list_user_keys fs uo st = (case uo of None \<Rightarrow> (Inl no_user, st) | Some u \<Rightarrow>
     (case list_keys_by_user (fs 0) (us_id u) (as_db st) of Inl e \<Rightarrow> (Inl internal_error, st) | Inr ks \<Rightarrow> (Inr ks, st)))"

definition revoke_user_key :: "(nat \<Rightarrow> faults) \<Rightarrow> (db \<Rightarrow> db) \<Rightarrow> user option \<Rightarrow> string \<Rightarrow> api_state \<Rightarrow> unit reply" where
  "revoke_user_key fs env uo path_id st = (case uo of None \<Rightarrow> (Inl no_user, st) | Some u \<Rightarrow>
     (case parse_int64 path_id of None \<Rightarrow> (Inl (bad_request ''invalid_id''), st) | Some i \<Rightarrow>
     (case list_keys_by_user (fs 0) (us_id u) (as_db st) of Inl e \<Rightarrow> (Inl internal_error, st) | Inr ks \<Rightarrow>
       if \<not> list_ex (\<lambda>k. ak_id k = i) ks then (Inl not_found, st)
       else store_call (revoke_key (fs 1) i) internal_error (\<lambda>_ st'. (Inr (), st')) (st\<lparr>as_db := env (as_db st)\<rparr>))))"

section \<open>Usage and credits\<close>

fun usage_of_keys :: "(string \<Rightarrow> string \<Rightarrow> bool) \<Rightarrow> (nat \<Rightarrow> faults) \<Rightarrow> nat \<Rightarrow> api_key list \<Rightarrow> db \<Rightarrow> store_error + usage_stat list" where
  "usage_of_keys le fs n [] d = Inr []"
| "usage_of_keys le fs n (k # ks) d = (case get_usage_stats le (fs n) (Some (ak_id k)) None None d of Inl e \<Rightarrow> Inl e | Inr xs \<Rightarrow>
     (case usage_of_keys le fs (n + 1) ks d of Inl e \<Rightarrow> Inl e | Inr ys \<Rightarrow> Inr (xs @ ys)))"

definition get_user_usage :: "(string \<Rightarrow> string \<Rightarrow> bool) \<Rightarrow> (nat \<Rightarrow> faults) \<Rightarrow> user option \<Rightarrow> api_state \<Rightarrow> usage_stat list reply" where
  "get_user_usage le fs uo st = (case uo of None \<Rightarrow> (Inl no_user, st) | Some u \<Rightarrow>
     (case list_keys_by_user (fs 0) (us_id u) (as_db st) of Inl e \<Rightarrow> (Inl internal_error, st) | Inr ks \<Rightarrow>
     (case usage_of_keys le fs 1 ks (as_db st) of Inl e \<Rightarrow> (Inl internal_error, st) | Inr xs \<Rightarrow> (Inr xs, st))))"

text \<open>Balance, reserved, available.\<close>

definition get_user_credits :: "(nat \<Rightarrow> faults) \<Rightarrow> user option \<Rightarrow> api_state \<Rightarrow> (rat \<times> rat \<times> rat) reply" where
  "get_user_credits fs uo st = (case uo of None \<Rightarrow> (Inl no_user, st) | Some u \<Rightarrow>
     (case us_account u of None \<Rightarrow> (Inl (api_err 404 ''no_account'' ''invalid_request_error''), st) | Some a \<Rightarrow>
     (case get_credit_balance (fs 0) a (as_db st) of Inl e \<Rightarrow> (Inl internal_error, st)
      | Inr None \<Rightarrow> (Inl (api_err 404 ''no_balance'' ''invalid_request_error''), st)
      | Inr (Some (x, y)) \<Rightarrow> (Inr (x, y, fsub x y), st))))"

text \<open>
  GetCreditTransactions: newest first; rows are in the table in the order of created_at.
\<close>

definition get_credit_transactions :: "faults \<Rightarrow> int \<Rightarrow> int \<Rightarrow> int \<Rightarrow> db \<Rightarrow> store_error + credit_transaction list" where
  "get_credit_transactions f a l off s = (if f 0 then Inl SqlFault else
     Inr (take (nat l) (drop (nat off) (rev (filter (\<lambda>t. ct_account t = a) (transactions s))))))"

definition page_param :: "int \<Rightarrow> (int \<Rightarrow> bool) \<Rightarrow> string \<Rightarrow> int" where
  "page_param dflt ok raw = (if raw = [] then dflt else (case parse_int64 raw of Some n \<Rightarrow> if ok n then n else dflt | None \<Rightarrow> dflt))"

definition get_user_transactions :: "(nat \<Rightarrow> faults) \<Rightarrow> query \<Rightarrow> user option \<Rightarrow> api_state \<Rightarrow> credit_transaction list reply" where
  "get_user_transactions fs q uo st = (case uo of None \<Rightarrow> (Inl no_user, st) | Some u \<Rightarrow>
     (case us_account u of None \<Rightarrow> (Inl (api_err 404 ''no_account'' ''invalid_request_error''), st) | Some a \<Rightarrow>
     (case get_credit_transactions (fs 0) a (page_param 20 (\<lambda>l. 0 < l \<and> l \<le> 100) (q ''limit''))
        (page_param 0 (\<lambda>x. 0 \<le> x) (q ''offset'')) (as_db st) of Inl e \<Rightarrow> (Inl internal_error, st) | Inr ts \<Rightarrow> (Inr ts, st))))"

section \<open>Service accounts\<close>

record service_request =
  sr_token :: string
  sr_name :: string
  sr_rate_limit :: int

record service_response =
  sv_account :: int
  sv_key :: int
  sv_api_key :: string
  sv_prefix :: string
  sv_credits :: rat

definition register_service ::
  "crypto \<Rightarrow> (nat \<Rightarrow> faults) \<Rightarrow> gotime \<Rightarrow> string option \<Rightarrow> service_request body \<Rightarrow> api_state \<Rightarrow> service_response reply" where
  "register_service cy fs now rnd b st = (case decode_json b of Inl e \<Rightarrow> (Inl e, st) | Inr req \<Rightarrow>
     if sr_token req = [] \<or> sr_name req = [] then (Inl (bad_request ''missing_fields''), st)
     else (case apply_config_defaults_and_cap (sr_rate_limit req) of None \<Rightarrow> (Inl (bad_request ''rate_limit_too_high''), st) | Some rl \<Rightarrow>
     (case rnd of None \<Rightarrow> (Inl internal_error, st) | Some hex \<Rightarrow>
       let raw = raw_key hex; prefix = take 11 raw in
       store_call (register_service_account (fs 0) now (cy_hash cy (sr_token req)) (sr_name req) (cy_hash cy raw) prefix rl)
         (bad_request ''registration_failed'')
         (\<lambda>(acc, kid, grant) st'. (Inr \<lparr>sv_account = acc, sv_key = kid, sv_api_key = raw, sv_prefix = prefix, sv_credits = grant\<rparr>, st')) st)))"

section \<open>Slots of the bcrypt semaphore\<close>

definition bcrypt_slots :: "guard option \<Rightarrow> (nat \<times> nat) option" where
  "bcrypt_slots g = (case g of None \<Rightarrow> None | Some gd \<Rightarrow> gd_bcrypt gd)"

lemma slot_returned: "try_acquire_bcrypt g = (True, g') \<Longrightarrow> release_bcrypt g' = g"
  by (auto simp: try_acquire_bcrypt_def release_bcrypt_def split: option.splits if_splits)

lemma acquire_refused: "try_acquire_bcrypt g = (False, g') \<Longrightarrow> g' = g"
  by (auto simp: try_acquire_bcrypt_def split: option.splits if_splits)

lemma allow_login_slots: "allow_login_email h g now em = (r, g') \<Longrightarrow> bcrypt_slots g' = bcrypt_slots g"
  by (auto simp: allow_login_email_def bcrypt_slots_def split: option.splits prod.splits)

lemma store_call_guard:
  "(\<And>a st'. as_guard (snd (k a st')) = as_guard st') \<Longrightarrow> as_guard (snd (store_call m e k st)) = as_guard st"
  by (simp add: store_call_def split: prod.split sum.split)

text \<open>
  C16: No handler leaks a bcrypt slot. On every path of registration, login and password
  change (malformed bodies, throttling, a full semaphore, unknown users, wrong passwords,
  failing statements, success) as many slots are taken after the request as before it.
\<close>
theorem bcrypt_slots_balanced:
  "bcrypt_slots (as_guard (snd (register cy grant fs now rb st))) = bcrypt_slots (as_guard st) \<and>
   bcrypt_slots (as_guard (snd (fst (login cy fs env now rnd lb st)))) = bcrypt_slots (as_guard st) \<and>
   bcrypt_slots (as_guard (snd (change_password cy fs uo so cb st))) = bcrypt_slots (as_guard st)"
proof (intro conjI)
  show "bcrypt_slots (as_guard (snd (register cy grant fs now rb st))) = bcrypt_slots (as_guard st)"
    by (auto simp: register_def Let_def store_call_guard slot_returned dest: acquire_refused split: sum.split prod.split bool.split option.split)
  show "bcrypt_slots (as_guard (snd (fst (login cy fs env now rnd lb st)))) = bcrypt_slots (as_guard st)"
    by (auto simp: login_def Let_def store_call_guard slot_returned allow_login_slots dest: acquire_refused
        split: sum.split prod.split bool.split option.split)
  show "bcrypt_slots (as_guard (snd (change_password cy fs uo so cb st))) = bcrypt_slots (as_guard st)"
    by (auto simp: change_password_def Let_def store_call_guard slot_returned dest: acquire_refused
        split: sum.split prod.split bool.split option.split)
qed

section \<open>What login reveals\<close>

text \<open>
  What a failed login reveals. Past the throttle, an unknown email and a wrong password of
  an active account get the same reply after the same number of bcrypt comparisons and leave
  the same state; a disabled account is told apart by a reply of its own, given without
  comparing the password at all.
\<close>
theorem login_failures:
  fixes env :: "db \<Rightarrow> db" and rnd :: "string option"
  assumes "allow_login_email (cy_hash cy) (as_guard st) now em = ((True, w), g)" "fst (try_acquire_bcrypt g)"
    and "\<not> fs 0 0" "em \<noteq> []" "pw \<noteq> []"
  defines "reply \<equiv> login cy fs env now rnd (Inr \<lparr>lr_email = em, lr_password = pw\<rparr>, TailEof) st"
  shows "(row_of us_email em (users (as_db st)) = None \<longrightarrow> reply = ((Inl invalid_credentials, st\<lparr>as_guard := g\<rparr>), 1)) \<and>
    (\<forall>u. row_of us_email em (users (as_db st)) = Some u \<and> us_active u \<and> \<not> cy_compare cy (us_password u) pw \<longrightarrow>
       reply = ((Inl invalid_credentials, st\<lparr>as_guard := g\<rparr>), 1)) \<and>
    (\<forall>u. row_of us_email em (users (as_db st)) = Some u \<and> \<not> us_active u \<longrightarrow>
       reply = ((Inl account_disabled, st\<lparr>as_guard := g\<rparr>), 0))"
proof -
  obtain g' where g': "try_acquire_bcrypt g = (True, g')" using assms(2) by (cases "try_acquire_bcrypt g") auto
  show ?thesis using assms(1,3,4,5) g' slot_returned [OF g']
    by (simp add: reply_def login_def decode_json_def get_user_by_email_def Let_def)
qed

section \<open>From registration to a session\<close>

lemma login_ok:
  assumes "allow_login_email (cy_hash cy) (as_guard st) now em = ((True, w), g)" "fst (try_acquire_bcrypt g)"
    and "em \<noteq> []" "pw \<noteq> []" "row_of us_email em (users (as_db st)) = Some u" "us_active u" "cy_compare cy (us_password u) pw"
    and "row_of us_id (us_id u) (users (as_db st)) \<noteq> None" "row_of se_hash (cy_hash cy raw) (sessions (as_db st)) = None"
  shows "login cy (\<lambda>_. no_faults) id now (Some raw) (Inr \<lparr>lr_email = em, lr_password = pw\<rparr>, TailEof) st =
    ((Inr \<lparr>lg_token = raw, lg_expires_in = session_duration_for (us_role u) div second, lg_user = us_id u, lg_email = us_email u, lg_role = us_role u\<rparr>,
      \<lparr>as_db = (as_db st)\<lparr>sessions := sessions (as_db st) @ [\<lparr>se_user = us_id u, se_hash = cy_hash cy raw,
         se_expires = now + session_duration_for (us_role u)\<rparr>]\<rparr>, as_guard = g\<rparr>), 1)"
proof -
  obtain g' where g': "try_acquire_bcrypt g = (True, g')" using assms(2) by (cases "try_acquire_bcrypt g") auto
  show ?thesis using assms g' slot_returned [OF g']
    by (auto simp: login_def decode_json_def get_user_by_email_def Let_def store_call_def create_session_def prog_simps)
qed

lemma session_accepts:
  assumes "raw \<noteq> []" "row_of se_hash (h raw) (sessions s) = Some x" "t \<le> se_expires x"
    "row_of us_id (se_user x) (users s) = Some u" "us_active u"
  shows "session_middleware h (\<lambda>_. no_faults) t (bearer_prefix @ raw) [] s = (Inr (u, x), s)"
  using assms by (simp add: session_middleware_Inr extract_session_token_def has_prefix_def)

lemma add_credits_users: "users (snd (add_credits f a x s)) = users s" "sessions (snd (add_credits f a x s)) = sessions s"
proof -
  have "users (snd (add_credits f a x s)) = users s \<and> sessions (snd (add_credits f a x s)) = sessions s"
  proof (cases rule: prog_cases [of "add_credits f a x" s])
    case err
    then show ?thesis by (simp add: add_credits_def transact_atomic)
  next
    case (ok s')
    then show ?thesis by (elim add_credits_Inr) (simp add: ok add_transaction_def set_balance_def)
  qed
  then show "users (snd (add_credits f a x s)) = users s" "sessions (snd (add_credits f a x s)) = sessions s" by simp_all
qed

lemma register_Inr:
  assumes "register cy grant fs now b st = (Inr (uid, acc), st')" "accounts_wf (as_db st)"
  obtains req h where "decode_json b = Inr req" "rq_email req \<noteq> []" "8 \<le> length (rq_password req)"
    "cy_generate cy (rq_password req) = Some h" "row_of us_email (rq_email req) (users (as_db st)) = None" "uid = next_user (as_db st)"
    "users (as_db st') = users (as_db st) @ [fresh_user (as_db st) (rq_email req) h (rq_name req) ''user'']"
    "sessions (as_db st') = sessions (as_db st)"
proof -
  obtain req where req: "decode_json b = Inr req" "rq_email req \<noteq> []" "8 \<le> length (rq_password req)"
    using assms(1) by (auto simp: register_def split: sum.splits if_splits)
  obtain g' where g: "try_acquire_bcrypt (as_guard st) = (True, g')"
    using assms(1) req by (auto simp: register_def split: prod.splits bool.splits if_splits)
  obtain h where h: "cy_generate cy (rq_password req) = Some h"
    using assms(1) req g by (auto simp: register_def Let_def split: if_splits option.splits)
  obtain d where d: "register_user (fs 0) now (rq_email req) h (rq_name req) (as_db st) = (Inr (acc, uid), d)"
    and db: "as_db st' = (if 0 < grant then snd (add_credits (fs 1) acc grant d) else d)"
    using assms(1) req g h by (auto simp: register_def Let_def store_call_def split: if_splits sum.splits prod.splits)
  note r = register_user_Inr [OF assms(2) d]
  show ?thesis
    by (rule that [OF req h]) (use r in \<open>simp_all add: db add_credits_users registered_def add_reg_event_def set_balance_def\<close>)
qed

text \<open>
  C15: A registered user can log in and use the session. With the law of bcrypt (a hash it
  generated compares equal with its password), registration followed by a login with the same
  credentials that is not throttled and draws an unused token succeeds as that user, and the
  token authenticates as the user, to whom role user and an active state are given, at every
  instant of the following seven days and not after them.
\<close>
theorem register_login_session:
  assumes bcrypt: "\<And>p h. cy_generate cy p = Some h \<Longrightarrow> cy_compare cy h p"
    and reg: "register cy grant fs now b st = (Inr (uid, acc), st')" "decode_json b = Inr req" "accounts_wf (as_db st)" "users_ok (as_db st)"
    and free: "allow_login_email (cy_hash cy) (as_guard st') now' (rq_email req) = ((True, w), g)" "fst (try_acquire_bcrypt g)"
    and raw: "raw \<noteq> []" "row_of se_hash (cy_hash cy raw) (sessions (as_db st')) = None"
  shows "\<exists>r st'' u x. login cy (\<lambda>_. no_faults) id now' (Some raw) (Inr \<lparr>lr_email = rq_email req, lr_password = rq_password req\<rparr>, TailEof) st'
        = ((Inr r, st''), 1) \<and> lg_user r = uid \<and> lg_token r = raw \<and> us_id u = uid \<and> us_role u = ''user'' \<and> us_active u \<and>
    (\<forall>t. t \<le> now' + 7 * 24 * hour \<longrightarrow>
       session_middleware (cy_hash cy) (\<lambda>_. no_faults) t (bearer_prefix @ raw) [] (as_db st'') = (Inr (u, x), as_db st'')) \<and>
    (\<forall>t > now' + 7 * 24 * hour. fst (session_middleware (cy_hash cy) (\<lambda>_. no_faults) t (bearer_prefix @ raw) [] (as_db st'')) =
       Inl (api_err 401 ''session_expired'' ''invalid_request_error''))"
proof -
  obtain h where h: "rq_email req \<noteq> []" "8 \<le> length (rq_password req)" "cy_generate cy (rq_password req) = Some h"
    "row_of us_email (rq_email req) (users (as_db st)) = None" "uid = next_user (as_db st)"
    "users (as_db st') = users (as_db st) @ [fresh_user (as_db st) (rq_email req) h (rq_name req) ''user'']"
    using register_Inr [OF reg(1,3)] reg(2) by (metis Inr_inject)
  define u where "u = fresh_user (as_db st) (rq_email req) h (rq_name req) ''user''"
  define x where "x = \<lparr>se_user = us_id u, se_hash = cy_hash cy raw, se_expires = now' + session_duration_for (us_role u)\<rparr>"
  have u: "us_id u = uid" "us_email u = rq_email req" "us_password u = h" "us_role u = ''user''" "us_active u"
    using h(5) by (simp_all add: u_def fresh_user_def)
  have rows: "row_of us_email (rq_email req) (users (as_db st')) = Some u" using h(4,6) u(2) by (simp add: row_of_snoc u_def)
  have "row_of us_id uid (users (as_db st)) = None"
    using reg(4) h(5) by (auto simp: users_ok_def row_of_None)
  then have idrow: "row_of us_id uid (users (as_db st')) = Some u" using h(6) u(1) by (simp add: row_of_snoc u_def)
  have pw: "rq_password req \<noteq> []" using h(2) by auto
  define st'' where "st'' = \<lparr>as_db = (as_db st')\<lparr>sessions := sessions (as_db st') @ [x]\<rparr>, as_guard = g\<rparr>"
  have "us_role u \<noteq> ''admin''" using u(4) by simp
  then have dur: "session_duration_for (us_role u) = 7 * 24 * hour" by (simp add: session_duration_for_def)
  have "row_of us_id (us_id u) (users (as_db st')) \<noteq> None" using idrow u(1) by simp
  note l = login_ok [where cy = cy and pw = "rq_password req", OF free h(1) pw rows u(5) _ this raw(2)]
  have l': "login cy (\<lambda>_. no_faults) id now' (Some raw) (Inr \<lparr>lr_email = rq_email req, lr_password = rq_password req\<rparr>, TailEof) st'
      = ((Inr \<lparr>lg_token = raw, lg_expires_in = session_duration_for (us_role u) div second, lg_user = us_id u, lg_email = us_email u, lg_role = us_role u\<rparr>, st''), 1)"
    unfolding st''_def x_def by (rule l) (use bcrypt [OF h(3)] u(3) in simp)
  have sx: "row_of se_hash (cy_hash cy raw) (sessions (as_db st'')) = Some x" using raw(2) by (simp add: st''_def x_def row_of_snoc)
  have ux: "row_of us_id (se_user x) (users (as_db st'')) = Some u" using idrow u(1) by (simp add: st''_def x_def)
  have exp: "se_expires x = now' + 7 * 24 * hour" by (simp add: x_def dur)
  have "session_middleware (cy_hash cy) (\<lambda>_. no_faults) t (bearer_prefix @ raw) [] (as_db st'') = (Inr (u, x), as_db st'')"
    if "t \<le> now' + 7 * 24 * hour" for t
    by (rule session_accepts [where h = "cy_hash cy", OF raw(1) sx _ ux u(5)]) (use that exp in simp)
  moreover have "fst (session_middleware (cy_hash cy) (\<lambda>_. no_faults) t (bearer_prefix @ raw) [] (as_db st'')) =
       Inl (api_err 401 ''session_expired'' ''invalid_request_error'')" if "now' + 7 * 24 * hour < t" for t
    using that exp sx raw(1) by (simp add: session_middleware_def Let_def extract_session_token_def has_prefix_def get_session_by_token_hash_def)
  ultimately show ?thesis using l' u by (intro exI [of _ "\<lparr>lg_token = raw, lg_expires_in = session_duration_for (us_role u) div second,
      lg_user = us_id u, lg_email = us_email u, lg_role = us_role u\<rparr>"] exI [of _ st''] exI [of _ u] exI [of _ x]) simp
qed

section \<open>Own keys\<close>

lemma new_key_authenticates:
  assumes "raw \<noteq> []" "insert_key now name (h raw) prefix rl uid acc s = (Inr i, s')"
  shows "\<exists>k. authenticate_key h no_faults (bearer_prefix @ raw) s' = Inr k \<and> ak_id (au_key k) = i \<and> ak_user (au_key k) = uid \<and>
    ak_account (au_key k) = acc \<and> ak_rate_limit (au_key k) = rl \<and> \<not> ak_trust_headers (au_key k)"
proof -
  have "find (\<lambda>k. ak_hash k = h raw \<and> \<not> ak_revoked k) (api_keys s) = None"
    using assms(2) by (auto simp: insert_key_def row_of_None find_None_iff split: if_splits)
  then show ?thesis using assms
    by (auto simp: insert_key_def authenticate_key_def extract_bearer_def has_prefix_def get_key_by_hash_def find_app Let_def
        split: if_splits option.splits)
qed

text \<open>
  A key the API hands out works, for its owner only. The raw key in a successful reply
  authenticates at the gateway at once as an unrevoked key of the user and of the user's
  account, with the rate limit of the reply, between 1 and 10000 per minute, and without the
  right to speak for other users.
\<close>
theorem created_key_authenticates:
  assumes "create_user_key cy fs now rnd (Some u) b st = (Inr r, st')"
  shows "1 \<le> kr_rate_limit r \<and> kr_rate_limit r \<le> 10000 \<and> kr_prefix r = take 11 (kr_key r) \<and>
    (\<exists>k. authenticate_key (cy_hash cy) no_faults (bearer_prefix @ kr_key r) (as_db st') = Inr k \<and> ak_id (au_key k) = kr_id r \<and>
       ak_user (au_key k) = Some (us_id u) \<and> ak_account (au_key k) = us_account u \<and>
       ak_rate_limit (au_key k) = kr_rate_limit r \<and> \<not> ak_trust_headers (au_key k))"
proof -
  obtain req where req: "decode_json b = Inr req" "ck_name req \<noteq> []"
    using assms by (auto simp: create_user_key_def split: sum.splits if_splits)
  obtain rl where rl: "apply_config_defaults_and_cap (ck_rate_limit req) = Some rl"
    using assms req by (auto simp: create_user_key_def split: option.splits)
  obtain hex where hex: "rnd = Some hex" using assms req rl by (auto simp: create_user_key_def split: option.splits)
  define raw where "raw = raw_key hex"
  have ins: "insert_key now (ck_name req) (cy_hash cy raw) (take 11 raw) rl (Some (us_id u)) (us_account u) (as_db st) = (Inr (kr_id r), as_db st')"
    and r: "kr_key r = raw" "kr_prefix r = take 11 raw" "kr_rate_limit r = rl"
    using assms req rl hex by (auto simp: create_user_key_def store_call_def Let_def raw_def create_key_for_account_def create_key_for_user_def
        sql_def stmt_def split: option.splits sum.splits prod.splits if_splits)
  have "raw \<noteq> []" by (simp add: raw_def raw_key_def)
  from new_key_authenticates [where h = "cy_hash cy", OF this ins] show ?thesis using apply_config_bounds [OF rl] r by simp
qed

lemma list_keys_by_user_Inr:
  "list_keys_by_user f uid s = Inr ks \<Longrightarrow> set ks = {k \<in> set (api_keys s). ak_user k = Some uid}"
  by (auto simp: list_keys_by_user_def split: if_splits)

lemma revoke_key_others:
  assumes "k \<in> set (api_keys s)" "ak_id k \<noteq> i" shows "k \<in> set (api_keys (snd (revoke_key f i s)))"
  using assms upd_where_memI [OF assms(1), of "\<lambda>k. ak_id k = i" "\<lambda>k. k\<lparr>ak_revoked := True\<rparr>"]
  by (auto simp: revoke_key_def update_keys_def prog_simps)

text \<open>
  A user can revoke own keys only. Whatever id the request names, and whatever others
  commit between the ownership check and the update (keys keep their id and owner), no key of
  another user or of no user changes; an id that is not one of the user's keys is answered
  404; and after a success the named key is refused by the gateway.
\<close>
theorem revoke_own_keys_only:
  assumes ids: "distinct (map ak_id (api_keys (env (as_db st))))" "distinct (map ak_hash (api_keys (env (as_db st))))"
    and stable: "\<And>k. k \<in> set (api_keys (as_db st)) \<Longrightarrow> \<exists>k' \<in> set (api_keys (env (as_db st))). ak_id k' = ak_id k \<and> ak_user k' = ak_user k"
  shows "case revoke_user_key fs env (Some u) p st of (res, st') \<Rightarrow>
    (\<forall>k \<in> set (api_keys (as_db st)) \<inter> set (api_keys (env (as_db st))). ak_user k \<noteq> Some (us_id u) \<longrightarrow> k \<in> set (api_keys (as_db st'))) \<and>
    (\<forall>i. parse_int64 p = Some i \<and> \<not> fs 0 0 \<and> (\<forall>k \<in> set (api_keys (as_db st)). ak_id k = i \<longrightarrow> ak_user k \<noteq> Some (us_id u)) \<longrightarrow>
       res = Inl not_found \<and> st' = st) \<and>
    (res = Inr () \<longrightarrow> (\<exists>k \<in> set (api_keys (env (as_db st))). parse_int64 p = Some (ak_id k) \<and> ak_user k = Some (us_id u) \<and>
       (\<forall>h hdr f. h (extract_bearer hdr) = ak_hash k \<longrightarrow> isl (authenticate_key h f hdr (as_db st')))))"
proof (cases "\<exists>i ks. parse_int64 p = Some i \<and> list_keys_by_user (fs 0) (us_id u) (as_db st) = Inr ks \<and> list_ex (\<lambda>k. ak_id k = i) ks")
  case False
  then show ?thesis
    by (auto simp: revoke_user_key_def list_ex_iff split: option.splits sum.splits) (auto simp: list_keys_by_user_def split: if_splits)
next
  case True
  let ?e = "env (as_db st)"
  obtain i ks where i: "parse_int64 p = Some i" "list_keys_by_user (fs 0) (us_id u) (as_db st) = Inr ks" "list_ex (\<lambda>k. ak_id k = i) ks"
    using True by blast
  obtain k0 where k0: "k0 \<in> set (api_keys (as_db st))" "ak_id k0 = i" "ak_user k0 = Some (us_id u)"
    using i(3) list_keys_by_user_Inr [OF i(2)] by (auto simp: list_ex_iff)
  obtain k where k: "k \<in> set (api_keys ?e)" "ak_id k = i" "ak_user k = Some (us_id u)" using stable [OF k0(1)] k0 by auto
  define d where "d = snd (revoke_key (fs 1) i ?e)"
  have run: "revoke_user_key fs env (Some u) p st = ((case fst (revoke_key (fs 1) i ?e) of Inl e \<Rightarrow> Inl internal_error | Inr _ \<Rightarrow> Inr ()), st\<lparr>as_db := d\<rparr>)"
    using i by (simp add: revoke_user_key_def store_call_def d_def split: prod.split sum.split)
  have other: "x \<in> set (api_keys d)" if "x \<in> set (api_keys ?e)" "ak_user x \<noteq> Some (us_id u)" for x
  proof -
    have "ak_id x \<noteq> i"
    proof
      assume "ak_id x = i"
      then have "x = k" using ids(1) that(1) k(1,2) by (simp add: distinct_map inj_on_def)
      then show False using that(2) k(3) by simp
    qed
    then show ?thesis unfolding d_def by (rule revoke_key_others [OF that(1)])
  qed
  have dead: "isl (authenticate_key h f hdr d)" if "fst (revoke_key (fs 1) i ?e) = Inr ()" "h (extract_bearer hdr) = ak_hash k" for h hdr f
  proof -
    have "revoke_key (fs 1) (ak_id k) ?e = (Inr (), d)" using that(1) k(2) by (simp add: d_def prod_eq_iff)
    from revoke_key_dead [OF ids(2) k(1) this] that(2) have "key_dead (h (extract_bearer hdr)) d" by simp
    from key_dead_rejected [where hash = h and header = hdr and f = f, OF this] show ?thesis by auto
  qed
  show ?thesis using run other dead k k0 i(1) by (auto split: sum.splits)
qed

section \<open>Changing the password\<close>

text \<open>
  C17: A password change that reports success has taken effect. The old password was given,
  the new one matches the stored hash, and from then on no session of the user authenticates
  except the one that made the change; a reply that is an error left the database as it was.
\<close>
theorem password_change_takes_effect:
  assumes bcrypt: "\<And>p h. cy_generate cy p = Some h \<Longrightarrow> cy_compare cy h p"
    and "change_password cy fs (Some u) (Some x) b st = (res, st')"
  shows "case res of Inl e \<Rightarrow> as_db st' = as_db st
    | Inr _ \<Rightarrow> \<exists>req. decode_json b = Inr req \<and> cy_compare cy (us_password u) (cp_old req) \<and> 8 \<le> length (cp_new req) \<and>
        (\<exists>v. row_of us_id (us_id u) (users (as_db st')) = Some v \<and> cy_compare cy (us_password v) (cp_new req)) \<and>
        (\<forall>h g t ah sh v y d. session_middleware h g t ah sh (as_db st') = (Inr (v, y), d) \<and> us_id v = us_id u \<longrightarrow> se_hash y = se_hash x)"
proof (cases res)
  case (Inl e)
  then show ?thesis using assms(2) password_change_fail
    by (auto simp: change_password_def store_call_def Let_def split: sum.splits if_splits prod.splits bool.splits option.splits)
       (metis fst_conv isl_def snd_conv)+
next
  case (Inr r)
  obtain req where req: "decode_json b = Inr req" "8 \<le> length (cp_new req)"
    using assms(2) Inr by (auto simp: change_password_def split: sum.splits if_splits)
  obtain g' where g: "try_acquire_bcrypt (as_guard st) = (True, g')"
    using assms(2) Inr req by (auto simp: change_password_def split: prod.splits bool.splits if_splits)
  have old: "cy_compare cy (us_password u) (cp_old req)"
    using assms(2) Inr req g by (auto simp: change_password_def Let_def split: if_splits)
  obtain h where h: "cy_generate cy (cp_new req) = Some h"
    using assms(2) Inr req g old by (auto simp: change_password_def Let_def split: if_splits option.splits)
  have run: "update_user_password_and_revoke_sessions (fs 0) (us_id u) h (se_hash x) (as_db st) = (Inr (), as_db st')"
    using assms(2) Inr req g old h by (auto simp: change_password_def Let_def store_call_def split: if_splits sum.splits prod.splits)
  then have db: "row_of us_id (us_id u) (users (as_db st)) \<noteq> None" "as_db st' = delete_sessions_except (us_id u) (se_hash x)
       ((as_db st)\<lparr>users := upd_where (\<lambda>v. us_id v = us_id u) (\<lambda>v. v\<lparr>us_password := h\<rparr>) (users (as_db st))\<rparr>)"
    by (simp_all add: password_change_Inr)
  obtain v where v: "row_of us_id (us_id u) (users (as_db st)) = Some v" using db(1) by blast
  have row: "row_of us_id (us_id u) (users (as_db st')) = Some (v\<lparr>us_password := h\<rparr>)"
    using row_of_Some [OF v] v by (simp add: db(2) delete_sessions_except_def row_of_upd_id)
  have "se_hash y = se_hash x" if "session_middleware hf gf t ah sh (as_db st') = (Inr (w, y), d)" "us_id w = us_id u" for hf gf t ah sh w y d
  proof -
    have "row_of se_hash (hf (extract_session_token ah sh)) (sessions (as_db st')) = Some y" "row_of us_id (se_user y) (users (as_db st')) = Some w"
      using that(1) by (simp_all add: session_middleware_Inr)
    then have "y \<in> set (sessions (as_db st'))" "se_user y = us_id u" using that(2) row_of_Some by (fastforce dest: row_of_Some)+
    then show ?thesis by (auto simp: db(2) delete_sessions_except_def)
  qed
  then show ?thesis using Inr req old row bcrypt [OF h] by auto
qed

section \<open>Witnesses\<close>

definition demo_crypto :: crypto where
  "demo_crypto = \<lparr>cy_hash = (\<lambda>x. ''#'' @ x), cy_compare = (\<lambda>h p. h = ''b'' @ p), cy_generate = (\<lambda>p. Some (''b'' @ p))\<rparr>"

lemma demo_bcrypt: "cy_generate demo_crypto p = Some h \<Longrightarrow> cy_compare demo_crypto h p"
  by (simp add: demo_crypto_def)

definition demo_api :: api_state where
  "demo_api = \<lparr>as_db = empty_db, as_guard = None\<rparr>"

definition demo_register :: "(int \<times> int) reply" where
  "demo_register = register demo_crypto 0 (\<lambda>_. no_faults) 5 (Inr \<lparr>rq_email = ''a@b'', rq_password = ''longenough'', rq_name = ''n''\<rparr>, TailEof) demo_api"

definition demo_server :: api_state where
  "demo_server = snd demo_register"

definition demo_member :: user where
  "demo_member = \<lparr>us_id = 1, us_email = ''a@b'', us_password = ''blongenough'', us_name = ''n'', us_role = ''user'', us_active = True, us_account = Some 1\<rparr>"

lemma demo_server_facts:
  "fst demo_register = Inr (1, 1)" "as_guard demo_server = None" "users (as_db demo_server) = [demo_member]"
  "sessions (as_db demo_server) = []" "api_keys (as_db demo_server) = []"
  by code_simp+

lemma nil_guard [simp]: "allow_login_email h None now em = ((True, Fin 0), None)" "try_acquire_bcrypt None = (True, None)"
  by (simp_all add: allow_login_email_def try_acquire_bcrypt_def)

theorem register_login_session_witness:
  "\<exists>st'' :: api_state. session_middleware (cy_hash demo_crypto) (\<lambda>_. no_faults) (3 * 24 * hour) (bearer_prefix @ ''tok'') [] (as_db st'')
     = (Inr (demo_member, \<lparr>se_user = 1, se_hash = ''#tok'', se_expires = 9 + 7 * 24 * hour\<rparr>), as_db st'')"
proof -
  have reg: "register demo_crypto 0 (\<lambda>_. no_faults) 5 (Inr \<lparr>rq_email = ''a@b'', rq_password = ''longenough'', rq_name = ''n''\<rparr>, TailEof) demo_api
      = (Inr (1, 1), demo_server)"
    using demo_server_facts(1) unfolding demo_register_def [symmetric] demo_server_def by (simp add: prod_eq_iff)
  have w: "accounts_wf (as_db demo_api)" "users_ok (as_db demo_api)" by (simp_all add: demo_api_def accounts_wf_def users_ok_def empty_db_def)
  obtain r st'' u x where l: "login demo_crypto (\<lambda>_. no_faults) id 9 (Some ''tok'') (Inr \<lparr>lr_email = ''a@b'', lr_password = ''longenough''\<rparr>, TailEof) demo_server
        = ((Inr r, st''), 1)"
    and m: "session_middleware (cy_hash demo_crypto) (\<lambda>_. no_faults) (3 * 24 * hour) (bearer_prefix @ ''tok'') [] (as_db st'') = (Inr (u, x), as_db st'')"
    using register_login_session [OF demo_bcrypt reg _ w, of "\<lparr>rq_email = ''a@b'', rq_password = ''longenough'', rq_name = ''n''\<rparr>" 9 "Fin 0" None "''tok''"]
      demo_server_facts(2,4) by (auto simp: decode_json_def row_of_def hour_def)
  have em: "row_of us_email ''a@b'' (users (as_db demo_server)) = Some demo_member" "row_of us_id (us_id demo_member) (users (as_db demo_server)) \<noteq> None"
    "row_of se_hash (cy_hash demo_crypto ''tok'') (sessions (as_db demo_server)) = None" "us_active demo_member"
    "cy_compare demo_crypto (us_password demo_member) ''longenough''"
    unfolding demo_server_facts by code_simp+
  have "login demo_crypto (\<lambda>_. no_faults) id 9 (Some ''tok'') (Inr \<lparr>lr_email = ''a@b'', lr_password = ''longenough''\<rparr>, TailEof) demo_server = ((Inr
      \<lparr>lg_token = ''tok'', lg_expires_in = session_duration_for (us_role demo_member) div second, lg_user = us_id demo_member,
       lg_email = us_email demo_member, lg_role = us_role demo_member\<rparr>, \<lparr>as_db = (as_db demo_server)\<lparr>sessions := sessions (as_db demo_server) @
        [\<lparr>se_user = us_id demo_member, se_hash = cy_hash demo_crypto ''tok'', se_expires = 9 + session_duration_for (us_role demo_member)\<rparr>]\<rparr>, as_guard = None\<rparr>), 1)"
    by (rule login_ok) (simp_all add: demo_server_facts(2) em)
  then have st: "as_db st'' = (as_db demo_server)\<lparr>sessions := [\<lparr>se_user = 1, se_hash = ''#tok'', se_expires = 9 + 7 * 24 * hour\<rparr>]\<rparr>"
    using l by (auto simp: demo_server_facts(4) demo_member_def demo_crypto_def session_duration_for_def)
  then have "u = demo_member \<and> x = \<lparr>se_user = 1, se_hash = ''#tok'', se_expires = 9 + 7 * 24 * hour\<rparr>"
    using m by (auto simp: session_middleware_Inr row_of_def demo_server_facts(3) demo_member_def split: if_splits)
  then show ?thesis using m by (intro exI [of _ st'']) simp
qed

theorem login_failures_witness:
  "fst (fst (login demo_crypto (\<lambda>_. no_faults) id 9 (Some ''tok'') (Inr \<lparr>lr_email = ''x@y'', lr_password = ''wrong''\<rparr>, TailEof) demo_server)) = Inl invalid_credentials \<and>
   fst (fst (login demo_crypto (\<lambda>_. no_faults) id 9 (Some ''tok'') (Inr \<lparr>lr_email = ''a@b'', lr_password = ''wrong''\<rparr>, TailEof) demo_server)) = Inl invalid_credentials"
proof -
  have a: "allow_login_email (cy_hash demo_crypto) (as_guard demo_server) 9 em = ((True, Fin 0), None)" for em by (simp add: demo_server_facts(2))
  have r: "row_of us_email ''x@y'' (users (as_db demo_server)) = None" "row_of us_email ''a@b'' (users (as_db demo_server)) = Some demo_member"
    "us_active demo_member" "\<not> cy_compare demo_crypto (us_password demo_member) ''wrong''"
    unfolding demo_server_facts by code_simp+
  note lf = login_failures [where fs = "\<lambda>_. no_faults" and cy = demo_crypto, OF a]
  show ?thesis using lf [of "''x@y''" "''wrong''" "id" "Some ''tok''"] lf [of "''a@b''" "''wrong''" "id" "Some ''tok''"] r by simp
qed

theorem created_key_authenticates_witness:
  "\<exists>st' k. create_user_key demo_crypto (\<lambda>_. no_faults) 9 (Some ''abcdef0123'') (Some demo_member) (Inr \<lparr>ck_name = ''laptop'', ck_rate_limit = 0\<rparr>, TailEof) demo_server
      = (Inr \<lparr>kr_id = 1, kr_name = ''laptop'', kr_key = ''sk-abcdef0123'', kr_prefix = ''sk-abcdef01'', kr_rate_limit = 60\<rparr>, st') \<and>
    authenticate_key (cy_hash demo_crypto) no_faults (bearer_prefix @ ''sk-abcdef0123'') (as_db st') = Inr k \<and> ak_account (au_key k) = Some 1"
proof -
  let ?c = "create_user_key demo_crypto (\<lambda>_. no_faults) 9 (Some ''abcdef0123'') (Some demo_member) (Inr \<lparr>ck_name = ''laptop'', ck_rate_limit = 0\<rparr>, TailEof) demo_server"
  have "fst ?c = Inr \<lparr>kr_id = 1, kr_name = ''laptop'', kr_key = ''sk-abcdef0123'', kr_prefix = ''sk-abcdef01'', kr_rate_limit = 60\<rparr>" by code_simp
  then have r: "?c = (Inr \<lparr>kr_id = 1, kr_name = ''laptop'', kr_key = ''sk-abcdef0123'', kr_prefix = ''sk-abcdef01'', kr_rate_limit = 60\<rparr>, snd ?c)" by (simp add: prod_eq_iff)
  have "us_account demo_member = Some 1" by (simp add: demo_member_def)
  then show ?thesis using created_key_authenticates [OF r] r by auto
qed

definition two_keys :: api_state where
  "two_keys = \<lparr>as_db = empty_db\<lparr>api_keys := [(demo_key 1 ''#k1'')\<lparr>ak_user := Some 1\<rparr>, (demo_key 2 ''#k2'')\<lparr>ak_user := Some 2\<rparr>]\<rparr>, as_guard = None\<rparr>"

theorem revoke_own_keys_only_witness:
  "revoke_user_key (\<lambda>_. no_faults) id (Some demo_member) ''2'' two_keys = (Inl not_found, two_keys) \<and>
   isl (authenticate_key (cy_hash demo_crypto) no_faults (bearer_prefix @ ''k1'') (as_db (snd (revoke_user_key (\<lambda>_. no_faults) id (Some demo_member) ''1'' two_keys))))"
proof -
  have d: "distinct (map ak_id (api_keys (id (as_db two_keys))))" "distinct (map ak_hash (api_keys (id (as_db two_keys))))" by code_simp+
  have "\<exists>k' \<in> set (api_keys (id (as_db two_keys))). ak_id k' = ak_id k \<and> ak_user k' = ak_user k" if "k \<in> set (api_keys (as_db two_keys))" for k
    using that by auto
  note own = revoke_own_keys_only [where env = id and fs = "\<lambda>_. no_faults" and u = demo_member, OF d this]
  have p: "parse_int64 ''2'' = Some 2" "parse_int64 ''1'' = Some 1" "fst (revoke_user_key (\<lambda>_. no_faults) id (Some demo_member) ''1'' two_keys) = Inr ()" by code_simp+
  have ks: "api_keys (as_db two_keys) = [(demo_key 1 ''#k1'')\<lparr>ak_user := Some 1\<rparr>, (demo_key 2 ''#k2'')\<lparr>ak_user := Some 2\<rparr>]"
    "us_id demo_member = 1" by (simp_all add: two_keys_def demo_member_def)
  have hb: "extract_bearer (bearer_prefix @ ''k1'') = ''k1''" by (simp add: extract_bearer_def has_prefix_def)
  obtain res s2 where r2: "revoke_user_key (\<lambda>_. no_faults) id (Some demo_member) ''2'' two_keys = (res, s2)" by fastforce
  from own [of "''2''"] p ks have "revoke_user_key (\<lambda>_. no_faults) id (Some demo_member) ''2'' two_keys = (Inl not_found, two_keys)"
    by (simp add: demo_key_def r2)
  moreover
  obtain res s1 where r1: "revoke_user_key (\<lambda>_. no_faults) id (Some demo_member) ''1'' two_keys = (res, s1)" by fastforce
  from own [of "''1''"] p ks
  have "\<forall>h hdr f. h (extract_bearer hdr) = ''#k1'' \<longrightarrow> isl (authenticate_key h f hdr (as_db (snd (revoke_user_key (\<lambda>_. no_faults) id (Some demo_member) ''1'' two_keys))))"
    by (simp add: demo_key_def r1)
  then have "isl (authenticate_key (cy_hash demo_crypto) no_faults (bearer_prefix @ ''k1'') (as_db (snd (revoke_user_key (\<lambda>_. no_faults) id (Some demo_member) ''1'' two_keys))))"
    using hb by (simp add: demo_crypto_def)
  ultimately show ?thesis by simp
qed

theorem password_change_takes_effect_witness:
  "\<exists>v. row_of us_id 1 (users (as_db (snd (change_password demo_crypto (\<lambda>_. no_faults) (Some demo_member) (Some \<lparr>se_user = 1, se_hash = ''#t'', se_expires = 9\<rparr>)
      (Inr \<lparr>cp_old = ''longenough'', cp_new = ''evenlonger''\<rparr>, TailEof) demo_server)))) = Some v \<and> cy_compare demo_crypto (us_password v) ''evenlonger''"
proof -
  let ?c = "change_password demo_crypto (\<lambda>_. no_faults) (Some demo_member) (Some \<lparr>se_user = 1, se_hash = ''#t'', se_expires = 9\<rparr>)
      (Inr \<lparr>cp_old = ''longenough'', cp_new = ''evenlonger''\<rparr>, TailEof) demo_server"
  have "fst ?c = Inr ()" by code_simp
  then have "?c = (Inr (), snd ?c)" by (simp add: prod_eq_iff)
  from password_change_takes_effect [OF demo_bcrypt this] show ?thesis by (auto simp: decode_json_def demo_member_def)
qed

end
