(* ===== verification/AdminApi.thy ===== *)
theory AdminApi
  imports UserApi CreditRequests
begin

text \<open>
  The admin API, internal/admin/admin.go and credit_requests.go: the authentication in front of
  it, and its handlers for keys, users, accounts, credits, registration tokens, pricing and
  limits. A handler is a program over the database that fails with the reply to an error;
  \<open>fs i\<close> is the fault plan of its i-th store call. JSON values that may be absent, null or of the wrong type are the
  datatype \<open>raw_json\<close>; time.Parse is a parameter.
\<close>

section \<open>Authentication\<close>

definition admin_key_rate_limit_per_minute :: int where
  "admin_key_rate_limit_per_minute = 10"

record admin_gate =
  ag_tokens :: rat
  ag_last :: gotime
  ag_sessions :: tbuckets

definition new_admin_gate :: "gotime \<Rightarrow> admin_gate" where
  "new_admin_gate now = \<lparr>ag_tokens = f_of_int admin_key_rate_limit_per_minute, ag_last = now, ag_sessions = Map.empty\<rparr>"

definition admin_allow :: "gotime \<Rightarrow> admin_gate \<Rightarrow> bool \<times> admin_gate" where
  "admin_allow now g = (let x = refilled (f_of_int admin_key_rate_limit_per_minute) (bucket_rate admin_key_rate_limit_per_minute)
       (ag_tokens g) (time_sub now (ag_last g)) in
     if 1 \<le> x then (True, g\<lparr>ag_tokens := fsub x 1, ag_last := now\<rparr>) else (False, g\<lparr>ag_tokens := x, ag_last := now\<rparr>))"

definition throttled_after :: "int \<Rightarrow> api_error" where
  "throttled_after n = api_err_retry 429 ''rate_limit_exceeded'' ''rate_limit_exceeded'' n"

definition unauthorized :: "string \<Rightarrow> api_error" where
  "unauthorized code = api_err 401 code ''invalid_api_key''"

text \<open>On success the session, None for the admin key.\<close>

definition admin_auth ::
  "(string \<Rightarrow> string) \<Rightarrow> string \<Rightarrow> (nat \<Rightarrow> faults) \<Rightarrow> gotime \<Rightarrow> string \<Rightarrow> string \<Rightarrow> admin_gate \<Rightarrow> db \<Rightarrow> (api_error + session option) \<times> admin_gate \<times> db" where
  "admin_auth hash admin_key fs now key_header auth_header g s =
     (if key_header \<noteq> [] then
        if key_header \<noteq> admin_key then (Inl (unauthorized ''invalid_admin_key''), g, s)
        else (case admin_allow now g of (False, g') \<Rightarrow> (Inl (throttled_after 6), g', s) | (True, g') \<Rightarrow> (Inr None, g', s))
      else let token = extract_bearer auth_header in
      if token = [] then (Inl (unauthorized ''missing_admin_key''), g, s) else
      (case get_session_by_token_hash (fs 0) (hash token) s of
         Inl e \<Rightarrow> (Inl internal_error, g, s)
       | Inr None \<Rightarrow> (Inl (unauthorized ''invalid_session''), g, s)
       | Inr (Some x) \<Rightarrow>
           if se_expires x < now then (Inl (unauthorized ''session_expired''), g, snd (delete_session (fs 1) (hash token) s)) else
           (case get_user_by_id (fs 2) (se_user x) s of
              Inl e \<Rightarrow> (Inl internal_error, g, s)
            | Inr None \<Rightarrow> (Inl (unauthorized ''user_not_found''), g, s)
            | Inr (Some u) \<Rightarrow>
                if \<not> us_active u then (Inl account_disabled, g, s)
                else if us_role u \<noteq> ''admin'' then (Inl (api_err 403 ''not_admin'' ''invalid_request_error''), g, s)
                else (case session_allow (ag_sessions g) now (hash token) of
                    (False, l) \<Rightarrow> (Inl (throttled_after 1), g\<lparr>ag_sessions := l\<rparr>, s)
                  | (True, l) \<Rightarrow> (Inr (Some x), g\<lparr>ag_sessions := l\<rparr>, s)))))"

section \<open>Handlers as programs\<close>

type_synonym 'a admin_prog = "(db, api_error, 'a) prog"

definition checked :: "api_error + 'a \<Rightarrow> 'a admin_prog" where
  [prog_simps]: "checked r = (case r of Inl e \<Rightarrow> failp e | Inr a \<Rightarrow> retp a)"

definition stored :: "(store_error \<Rightarrow> api_error) \<Rightarrow> 'a store_prog \<Rightarrow> 'a admin_prog" where
  [prog_simps]: "stored h m = (\<lambda>s. case m s of (Inl e, s') \<Rightarrow> (Inl (h e), s') | (Inr a, s') \<Rightarrow> (Inr a, s'))"

definition reading :: "(db \<Rightarrow> store_error + 'a) \<Rightarrow> 'a admin_prog" where
  [prog_simps]: "reading q = (\<lambda>s. (case q s of Inl e \<Rightarrow> Inl internal_error | Inr a \<Rightarrow> Inr a, s))"

definition any_error :: "store_error \<Rightarrow> api_error" where
  "any_error e = internal_error"

definition missing :: "store_error \<Rightarrow> store_error \<Rightarrow> api_error" where
  "missing x e = (if e = x then not_found else internal_error)"

definition found :: "'a option \<Rightarrow> api_error \<Rightarrow> 'a admin_prog" where
  [prog_simps]: "found r e = (case r of None \<Rightarrow> failp e | Some a \<Rightarrow> retp a)"

definition path_id :: "string \<Rightarrow> api_error + int" where
  "path_id p = (case parse_int64 p of None \<Rightarrow> Inl (bad_request ''invalid_id'') | Some i \<Rightarrow> Inr i)"

definition positive_id :: "string \<Rightarrow> api_error + int" where
  "positive_id p = (case parse_int64 p of None \<Rightarrow> Inl (bad_request ''invalid_id'') | Some i \<Rightarrow> if i \<le> 0 then Inl (bad_request ''invalid_id'') else Inr i)"

section \<open>Keys\<close>

record admin_key_request =
  aq_name :: string
  aq_rate_limit :: int
  aq_account :: "int option"

record admin_key_response =
  ar_id :: int
  ar_key :: string
  ar_prefix :: string
  ar_rate_limit :: int
  ar_account :: int

text \<open>The checks the two key-creating handlers share: the rate limit and the random key.\<close>

definition new_key_parts :: "string option \<Rightarrow> admin_key_request body \<Rightarrow> (admin_key_request \<times> int \<times> string) admin_prog" where
  "new_key_parts rnd b = bindp (checked (decode_json b)) (\<lambda>req.
     if aq_name req = [] then failp (bad_request ''missing_name'') else
     bindp (found (apply_config_defaults_and_cap (aq_rate_limit req)) (bad_request ''rate_limit_too_high'')) (\<lambda>rl.
     bindp (found rnd internal_error) (\<lambda>hex. retp (req, rl, raw_key hex))))"

definition insert_admin_key :: "crypto \<Rightarrow> faults \<Rightarrow> gotime \<Rightarrow> int \<Rightarrow> admin_key_request \<Rightarrow> int \<Rightarrow> string \<Rightarrow> admin_key_response admin_prog" where
  "insert_admin_key cy f now acc req rl raw =
     bindp (stored any_error (create_key_for_account_only f now acc (aq_name req) (cy_hash cy raw) (take 11 raw) rl)) (\<lambda>i.
     retp \<lparr>ar_id = i, ar_key = raw, ar_prefix = take 11 raw, ar_rate_limit = rl, ar_account = acc\<rparr>)"

definition create_admin_key ::
  "crypto \<Rightarrow> (nat \<Rightarrow> faults) \<Rightarrow> (db \<Rightarrow> db) \<Rightarrow> rat \<Rightarrow> gotime \<Rightarrow> string option \<Rightarrow> admin_key_request body \<Rightarrow> admin_key_response admin_prog" where
  "create_admin_key cy fs env grant now rnd b = bindp (new_key_parts rnd b) (\<lambda>(req, rl, raw).
     bindp (case aq_account req of
         Some a \<Rightarrow> bindp (reading (get_account_by_id (fs 0) a)) (\<lambda>row.
           bindp (found row (api_err 404 ''account_not_found'' ''invalid_request_error'')) (\<lambda>ac. retp (ac_id ac)))
       | None \<Rightarrow> stored any_error (ensure_admin_service_account (fs 0) now env grant)) (\<lambda>acc.
     insert_admin_key cy (fs 1) now acc req rl raw))"

definition create_account_key ::
  "crypto \<Rightarrow> (nat \<Rightarrow> faults) \<Rightarrow> gotime \<Rightarrow> string option \<Rightarrow> string \<Rightarrow> admin_key_request body \<Rightarrow> admin_key_response admin_prog" where
  "create_account_key cy fs now rnd p b = bindp (checked (path_id p)) (\<lambda>acc.
     bindp (new_key_parts rnd b) (\<lambda>(req, rl, raw). insert_admin_key cy (fs 0) now acc req rl raw))"

definition admin_revoke_key :: "(nat \<Rightarrow> faults) \<Rightarrow> string \<Rightarrow> unit admin_prog" where
  "admin_revoke_key fs p = bindp (checked (path_id p)) (\<lambda>i. stored (missing KeyNotFound) (revoke_key (fs 0) i))"

definition admin_get_key :: "(nat \<Rightarrow> faults) \<Rightarrow> string \<Rightarrow> (api_key \<times> gotime option) admin_prog" where
  "admin_get_key fs p = bindp (checked (positive_id p)) (\<lambda>i. bindp (reading (get_key_by_id (fs 0) i)) (\<lambda>k. found k not_found))"

definition admin_update_key_rate_limit :: "(nat \<Rightarrow> faults) \<Rightarrow> string \<Rightarrow> int option body \<Rightarrow> (api_key \<times> gotime option) admin_prog" where
  "admin_update_key_rate_limit fs p b = bindp (checked (positive_id p)) (\<lambda>i. bindp (checked (decode_json b)) (\<lambda>rl.
     bindp (found rl (bad_request ''missing_rate_limit'')) (\<lambda>n.
     if n \<le> 0 then failp (bad_request ''invalid_rate_limit'') else
     bindp (found (apply_config_defaults_and_cap n) (bad_request ''rate_limit_too_high'')) (\<lambda>r.
     bindp (stored (missing KeyNotFound) (update_key_rate_limit (fs 0) i r)) (\<lambda>_.
     bindp (reading (get_key_by_id (fs 1) i)) (\<lambda>k. found k internal_error))))))"

definition admin_set_session_limit :: "(nat \<Rightarrow> faults) \<Rightarrow> string \<Rightarrow> int option body \<Rightarrow> int option admin_prog" where
  "admin_set_session_limit fs p b = bindp (checked (path_id p)) (\<lambda>i. bindp (checked (decode_json b)) (\<lambda>l.
     bindp (stored (missing KeyNotFound) (set_session_token_limit (fs 0) i l)) (\<lambda>_. retp l)))"

definition admin_set_trust_user_headers :: "(nat \<Rightarrow> faults) \<Rightarrow> string \<Rightarrow> bool option body \<Rightarrow> bool admin_prog" where
  "admin_set_trust_user_headers fs p b = bindp (checked (path_id p)) (\<lambda>i. bindp (checked (decode_json b)) (\<lambda>t.
     bindp (found t (bad_request ''missing_field'')) (\<lambda>trust.
     bindp (stored (missing KeyNotFound) (set_trust_user_headers (fs 0) i trust)) (\<lambda>_. retp trust))))"

section \<open>Users\<close>

definition guarded_error :: "store_error \<Rightarrow> api_error" where
  "guarded_error e = (if e = InvalidRole then bad_request ''invalid_role'' else if e = UserNotFound then not_found
     else if e = LastActiveAdmin then api_err 409 ''last_admin'' ''invalid_request_error'' else internal_error)"

definition admin_activate_user :: "(nat \<Rightarrow> faults) \<Rightarrow> string \<Rightarrow> unit admin_prog" where
  "admin_activate_user fs p = bindp (checked (path_id p)) (\<lambda>i. stored (missing UserNotFound) (set_user_active (fs 0) i True))"

definition admin_deactivate_user :: "(nat \<Rightarrow> faults) \<Rightarrow> string \<Rightarrow> unit admin_prog" where
  "admin_deactivate_user fs p = bindp (checked (path_id p)) (\<lambda>i. stored guarded_error (deactivate_user_guarded (fs 0) i))"

definition admin_get_user :: "(nat \<Rightarrow> faults) \<Rightarrow> string \<Rightarrow> user admin_prog" where
  "admin_get_user fs p = bindp (checked (positive_id p)) (\<lambda>i. bindp (reading (get_user_by_id (fs 0) i)) (\<lambda>u. found u not_found))"

definition admin_update_user_role :: "(nat \<Rightarrow> faults) \<Rightarrow> string \<Rightarrow> string body \<Rightarrow> user admin_prog" where
  "admin_update_user_role fs p b = bindp (checked (positive_id p)) (\<lambda>i. bindp (checked (decode_json b)) (\<lambda>role.
     bindp (stored guarded_error (update_user_role_guarded (fs 0) i role)) (\<lambda>_.
     bindp (reading (get_user_by_id (fs 1) i)) (\<lambda>u. found u internal_error))))"

section \<open>Accounts\<close>

text \<open>
  The balance is read after the grant and its error is dropped, so a failed read leaves a nil
  pointer that the reply dereferences. The panic is recovered by net/http, which writes no
  response and closes the connection: \<open>connection_dropped\<close> is all the client learns.
\<close>

definition connection_dropped :: api_error where
  "connection_dropped = api_err 0 ''panic'' ''panic''"

definition grant_credits :: "(nat \<Rightarrow> faults) \<Rightarrow> string \<Rightarrow> rat body \<Rightarrow> (rat \<times> rat) admin_prog" where
  "grant_credits fs p b = bindp (checked (path_id p)) (\<lambda>acc. bindp (checked (decode_json b)) (\<lambda>amount.
     if amount = 0 then failp (bad_request ''invalid_amount'') else
     bindp (stored any_error (add_credits (fs 0) acc amount)) (\<lambda>_.
     bindp (getp (get_credit_balance (fs 1) acc)) (\<lambda>r. case r of
         Inr (Some (bal, res)) \<Rightarrow> retp (amount, bal) | _ \<Rightarrow> failp connection_dropped))))"

text \<open>A json.RawMessage field: absent, null, a value, or something that does not decode.\<close>

datatype 'a raw_json = Absent | Null | Value 'a | Undecodable

definition raw_option :: "string \<Rightarrow> 'a raw_json \<Rightarrow> 'a option admin_prog" where
  "raw_option code r = (case r of Absent \<Rightarrow> failp (bad_request ''missing_field'') | Undecodable \<Rightarrow> failp (bad_request code)
     | Null \<Rightarrow> retp None | Value v \<Rightarrow> retp (Some v))"

definition set_account_allowance :: "(nat \<Rightarrow> faults) \<Rightarrow> string \<Rightarrow> rat raw_json body \<Rightarrow> rat option admin_prog" where
  "set_account_allowance fs p b = bindp (checked (path_id p)) (\<lambda>i. bindp (checked (decode_json b)) (\<lambda>raw.
     bindp (raw_option ''invalid_amount'' raw) (\<lambda>grant.
     if (\<exists>g \<in> set_option grant. g < 0) then failp (bad_request ''invalid_amount'') else
     bindp (stored (missing AccountNotFound) (set_monthly_grant (fs 0) i grant)) (\<lambda>_. retp grant))))"

definition admin_set_account_rate_limit :: "(nat \<Rightarrow> faults) \<Rightarrow> string \<Rightarrow> int raw_json body \<Rightarrow> int option admin_prog" where
  "admin_set_account_rate_limit fs p b = bindp (checked (path_id p)) (\<lambda>i. bindp (checked (decode_json b)) (\<lambda>raw.
     bindp (raw_option ''invalid_rate_limit'' raw) (\<lambda>r.
     if (\<exists>n \<in> set_option r. n < 1 \<or> max_config_per_minute < n) then failp (bad_request ''invalid_rate_limit'') else
     bindp (stored (missing AccountNotFound) (set_account_rate_limit (fs 0) i r)) (\<lambda>_. retp r))))"

record account_listing =
  al_account :: account
  al_balance :: rat
  al_reserved :: rat
  al_email :: "string option"

definition list_accounts_with_balances :: "faults \<Rightarrow> db \<Rightarrow> store_error + account_listing list" where
  "list_accounts_with_balances f s = (if f 0 then Inl SqlFault else Inr (map (\<lambda>a.
     let cb = balances s (ac_id a) in
     \<lparr>al_account = a, al_balance = (case cb of None \<Rightarrow> 0 | Some c \<Rightarrow> f_of_micros (cb_balance c)),
      al_reserved = (case cb of None \<Rightarrow> 0 | Some c \<Rightarrow> f_of_micros (cb_reserved c)),
      al_email = map_option fi_email (find (\<lambda>x. fi_account x = ac_id a) (identities s))\<rparr>) (sort_key ac_id (accounts s))))"

section \<open>Registration tokens\<close>

record token_request =
  tq_name :: string
  tq_grant :: rat
  tq_max_uses :: int
  tq_expires :: "string option"

definition admin_create_registration_token ::
  "crypto \<Rightarrow> (string \<Rightarrow> gotime option) \<Rightarrow> (nat \<Rightarrow> faults) \<Rightarrow> string option \<Rightarrow> token_request body \<Rightarrow> (int \<times> string \<times> rat \<times> int) admin_prog" where
  "admin_create_registration_token cy rfc3339 fs rnd b = bindp (checked (decode_json b)) (\<lambda>req.
     if tq_name req = [] then failp (bad_request ''missing_name'') else
     let n = (if tq_max_uses req \<le> 0 then 1 else tq_max_uses req) in
     bindp (found rnd internal_error) (\<lambda>hex. let raw = ''reg-'' @ hex in
     bindp (case tq_expires req of None \<Rightarrow> retp None
        | Some txt \<Rightarrow> bindp (found (rfc3339 txt) (bad_request ''invalid_expires_at'')) (\<lambda>t. retp (Some t))) (\<lambda>expires.
     bindp (stored any_error (create_registration_token (fs 0) (cy_hash cy raw) (tq_grant req) n expires)) (\<lambda>i.
     retp (i, raw, tq_grant req, n)))))"

definition admin_revoke_registration_token :: "(nat \<Rightarrow> faults) \<Rightarrow> string \<Rightarrow> unit admin_prog" where
  "admin_revoke_registration_token fs p = bindp (checked (path_id p)) (\<lambda>i. stored (missing TokenNotFound) (revoke_registration_token (fs 0) i))"

section \<open>Pricing\<close>

record pricing_request =
  pq_model :: string
  pq_prompt :: rat
  pq_completion :: rat
  pq_typical :: int

text \<open>DecodeJSONStrict fails on an unknown field; that failure is part of the body.\<close>

definition admin_upsert_pricing :: "(nat \<Rightarrow> faults) \<Rightarrow> pricing_request body \<Rightarrow> unit admin_prog" where
  "admin_upsert_pricing fs b = bindp (checked (decode_json b)) (\<lambda>req.
     if pq_model req = [] then failp (bad_request ''missing_model_id'')
     else if pq_prompt req \<le> 0 \<or> pq_completion req \<le> 0 then failp (bad_request ''invalid_rates'')
     else stored any_error (upsert_pricing (fs 0) (pq_model req) (pq_prompt req) (pq_completion req)
        (if pq_typical req \<le> 0 then 500 else pq_typical req)))"

definition admin_delete_pricing :: "(nat \<Rightarrow> faults) \<Rightarrow> string \<Rightarrow> unit admin_prog" where
  "admin_delete_pricing fs p = bindp (checked (path_id p)) (\<lambda>i. stored (missing PricingNotFound) (delete_pricing (fs 0) i))"

section \<open>Lists\<close>

text \<open>
  The rows of a list handler come from one store call on the current database; a filter of the
  query that is absent keeps every row.
\<close>

definition rows_of :: "(db \<Rightarrow> store_error + 'a list) \<Rightarrow> ('a \<Rightarrow> bool) \<Rightarrow> ('a \<Rightarrow> 'b) \<Rightarrow> db \<Rightarrow> store_error + 'b list" where
  "rows_of q keep row s = (case q s of Inl e \<Rightarrow> Inl e | Inr xs \<Rightarrow> Inr (map row (filter keep xs)))"

definition kept :: "bool option \<Rightarrow> bool \<Rightarrow> bool" where
  "kept f b = (case f of None \<Rightarrow> True | Some x \<Rightarrow> b = x)"

definition kept_text :: "string \<Rightarrow> string \<Rightarrow> bool" where
  "kept_text f x = (f = [] \<or> x = f)"

definition both_filters :: "api_error + 'a \<Rightarrow> api_error + 'b \<Rightarrow> api_error + 'a \<times> 'b" where
  "both_filters a b = (case a of Inl e \<Rightarrow> Inl e | Inr x \<Rightarrow> (case b of Inl e \<Rightarrow> Inl e | Inr y \<Rightarrow> Inr (x, y)))"

record key_dto =
  kd_id :: int
  kd_name :: string
  kd_prefix :: string
  kd_rate_limit :: int
  kd_created :: gotime
  kd_revoked :: bool
  kd_last_used :: "gotime option"
  kd_trust :: bool

definition key_row :: "api_key \<times> gotime option \<Rightarrow> key_dto" where
  "key_row r = (case r of (k, used) \<Rightarrow> \<lparr>kd_id = ak_id k, kd_name = ak_name k, kd_prefix = ak_prefix k, kd_rate_limit = ak_rate_limit k,
     kd_created = ak_created k, kd_revoked = ak_revoked k, kd_last_used = used, kd_trust = ak_trust_headers k\<rparr>)"

definition admin_list_keys :: "(nat \<Rightarrow> faults) \<Rightarrow> query \<Rightarrow> db \<Rightarrow> api_error + key_dto listing" where
  "admin_list_keys fs q s = list_handler q (parse_is_active_filter q) (\<lambda>act.
     rows_of (list_keys (fs 0)) (\<lambda>r. kept act (\<not> ak_revoked (fst r))) key_row s)"

record user_dto =
  ud_id :: int
  ud_email :: string
  ud_name :: string
  ud_role :: string
  ud_active :: bool

definition user_listed :: "user \<Rightarrow> user_dto" where
  "user_listed u = \<lparr>ud_id = us_id u, ud_email = us_email u, ud_name = us_name u, ud_role = us_role u, ud_active = us_active u\<rparr>"

definition admin_list_users :: "(nat \<Rightarrow> faults) \<Rightarrow> query \<Rightarrow> db \<Rightarrow> api_error + user_dto listing" where
  "admin_list_users fs q s = list_handler q (both_filters (parse_role_filter q) (parse_is_active_filter q)) (\<lambda>(role, act).
     rows_of (list_users (fs 0)) (\<lambda>u. kept_text role (us_role u) \<and> kept act (us_active u)) user_listed s)"

record account_dto =
  ad_listing :: account_listing
  ad_available :: rat
  ad_effective_grant :: "rat option"
  ad_effective_rate :: int

definition account_listed :: "rat \<Rightarrow> limits \<Rightarrow> account_listing \<Rightarrow> account_dto" where
  "account_listed env_grant l x = (let a = al_account x in
     \<lparr>ad_listing = x, ad_available = fsub (al_balance x) (al_reserved x),
      ad_effective_grant = (if ac_managed a then Some (case ac_monthly_grant a of None \<Rightarrow> env_grant | Some g \<Rightarrow> f_of_micros g) else None),
      ad_effective_rate = effective_limit (ac_rate_per_min a) (ac_managed a) l\<rparr>)"

definition admin_list_accounts :: "rat \<Rightarrow> limits \<Rightarrow> (nat \<Rightarrow> faults) \<Rightarrow> query \<Rightarrow> db \<Rightarrow> api_error + account_dto listing" where
  "admin_list_accounts env_grant l fs q s =
     list_handler q (both_filters (parse_account_type_filter q) (parse_is_active_filter q)) (\<lambda>(ty, act).
       rows_of (list_accounts_with_balances (fs 0))
         (\<lambda>x. kept_text ty (ac_type (al_account x)) \<and> kept act (ac_active (al_account x))) (account_listed env_grant l) s)"

record token_dto =
  td_id :: int
  td_grant :: rat
  td_max_uses :: int
  td_uses :: int
  td_expires :: "gotime option"
  td_revoked :: bool

definition token_row :: "registration_token \<Rightarrow> token_dto" where
  "token_row t = \<lparr>td_id = rt_id t, td_grant = f_of_micros (rt_grant t), td_max_uses = rt_max_uses t, td_uses = rt_uses t,
     td_expires = rt_expires t, td_revoked = rt_revoked t\<rparr>"

definition admin_list_registration_tokens :: "(nat \<Rightarrow> faults) \<Rightarrow> query \<Rightarrow> db \<Rightarrow> api_error + token_dto listing" where
  "admin_list_registration_tokens fs q s = list_handler q (parse_is_active_filter q) (\<lambda>act.
     rows_of (list_registration_tokens (fs 0)) (\<lambda>t. kept act (\<not> rt_revoked t)) token_row s)"

definition admin_list_pricing :: "(string \<Rightarrow> string \<Rightarrow> bool) \<Rightarrow> (nat \<Rightarrow> faults) \<Rightarrow> query \<Rightarrow> db \<Rightarrow> api_error + credit_pricing listing" where
  "admin_list_pricing le fs q s = list_handler q (Inr ()) (\<lambda>_. list_active_pricing le (fs 0) s)"

text \<open>Listing the cap-hit requests first expires the stale ones: the handler writes.\<close>

record request_dto =
  qd_row :: credit_request_row
  qd_effective_grant :: rat

definition request_listed :: "rat \<Rightarrow> credit_request_row \<Rightarrow> request_dto" where
  "request_listed env_grant r = \<lparr>qd_row = r, qd_effective_grant = (case crr_monthly_grant r of None \<Rightarrow> env_grant | Some g \<Rightarrow> g)\<rparr>"

definition admin_list_credit_requests :: "rat \<Rightarrow> (nat \<Rightarrow> faults) \<Rightarrow> gotime \<Rightarrow> query \<Rightarrow> request_dto listing admin_prog" where
  "admin_list_credit_requests env_grant fs now q =
     bindp (checked (want_envelope q)) (\<lambda>env. bindp (checked (parse_credit_request_status (q ''status''))) (\<lambda>status.
     bindp (checked (parse_pagination q)) (\<lambda>(l, off).
     bindp (stored any_error (list_credit_requests (fs 0) status now)) (\<lambda>rows.
     retp (list_reply env l off (map (request_listed env_grant) rows))))))"

section \<open>Usage by key, model and status\<close>

definition id_param :: "query \<Rightarrow> string \<Rightarrow> string \<Rightarrow> api_error + int option" where
  "id_param q name code = (if q name = [] then Inr None else
     (case parse_int64 (q name) of None \<Rightarrow> Inl (bad_request code) | Some i \<Rightarrow> Inr (Some i)))"

definition since_param :: "(string \<Rightarrow> gotime option) \<Rightarrow> (string \<Rightarrow> gotime option) \<Rightarrow> query \<Rightarrow> api_error + gotime option" where
  "since_param rfc3339 date q = (let v = q ''since'' in if v = [] then Inr None else
     (case rfc3339 v of Some t \<Rightarrow> Inr (Some t) | None \<Rightarrow>
       (case date v of Some t \<Rightarrow> Inr (Some t) | None \<Rightarrow> Inl (bad_request ''invalid_since''))))"

definition admin_get_usage ::
  "(string \<Rightarrow> gotime option) \<Rightarrow> (string \<Rightarrow> gotime option) \<Rightarrow> (string \<Rightarrow> string \<Rightarrow> bool) \<Rightarrow> (nat \<Rightarrow> faults) \<Rightarrow> query \<Rightarrow> usage_stat listing admin_prog" where
  "admin_get_usage rfc3339 date le fs q =
     bindp (checked (want_envelope q)) (\<lambda>env. bindp (checked (parse_pagination q)) (\<lambda>(l, off).
     bindp (checked (id_param q ''key_id'' ''invalid_key_id'')) (\<lambda>key. bindp (checked (id_param q ''node_id'' ''invalid_node_id'')) (\<lambda>node.
     bindp (checked (since_param rfc3339 date q)) (\<lambda>since.
     bindp (reading (get_usage_stats le (fs 0) key since node)) (\<lambda>xs. retp (list_reply env l off xs)))))))"

section \<open>The registration feed\<close>

text \<open>
  ListRegistrationEvents, newest first, joined with users and accounts. An event's id is its
  place in the table; \<open>stamp\<close> is the created_at column, which the event rows of the model do
  not carry. The count and the page are two statements; \<open>env\<close> is what commits in between.
\<close>

record event_row =
  ev_event :: registration_event
  ev_user :: "(string \<times> string) option"
  ev_account :: "(string \<times> string) option"

definition event_joined :: "db \<Rightarrow> registration_event \<Rightarrow> event_row" where
  "event_joined s e = \<lparr>ev_event = e,
     ev_user = map_option (\<lambda>u. (us_email u, us_name u)) (Option.bind (re_user e) (\<lambda>i. row_of us_id i (users s))),
     ev_account = map_option (\<lambda>a. (ac_name a, ac_type a)) (Option.bind (re_account e) (\<lambda>i. row_of ac_id i (accounts s)))\<rparr>"

definition newest_events :: "(nat \<Rightarrow> gotime) \<Rightarrow> db \<Rightarrow> (nat \<times> registration_event) list" where
  "newest_events stamp s = rev (sort_key (\<lambda>(i, e). stamp i) (enumerate 1 (reg_events s)))"

definition list_registration_events ::
  "(nat \<Rightarrow> gotime) \<Rightarrow> faults \<Rightarrow> (db \<Rightarrow> db) \<Rightarrow> int \<Rightarrow> int \<Rightarrow> db \<Rightarrow> store_error + (nat \<times> event_row) list \<times> int" where
  "list_registration_events stamp f env l off s = (if f 0 \<or> f 1 then Inl SqlFault else
     Inr (map (\<lambda>(i, e). (i, event_joined (env s) e)) (take (nat l) (drop (nat off) (newest_events stamp (env s)))), int (length (reg_events s))))"

definition admin_list_registrations ::
  "(nat \<Rightarrow> gotime) \<Rightarrow> (nat \<Rightarrow> faults) \<Rightarrow> (db \<Rightarrow> db) \<Rightarrow> query \<Rightarrow> (nat \<times> event_row) listing admin_prog" where
  "admin_list_registrations stamp fs env q = bindp (checked (parse_pagination q)) (\<lambda>(l, off).
     bindp (reading (list_registration_events stamp (fs 0) env l off)) (\<lambda>(evs, total).
     retp (Enveloped evs \<lparr>pg_limit = l, pg_offset = off, pg_total = total\<rparr>)))"

end
