(* ===== verification/Nodes.thy ===== *)
theory Nodes
  imports GoStrings GoTime Prelude
begin

text \<open>
  internal/store/nodes.go, the backend nodes table with its validation and the masking of
  secrets, and internal/nodesource, which reconciles the statically declared nodes into it.
  url.Parse is a parameter, as the parts of the parsed URL the code looks at; the decoded
  NODES_FILE document and the environment are inputs.
\<close>

section \<open>Rows and errors\<close>

record node_row =
  nr_id :: int
  nr_name :: string
  nr_base_url :: string
  nr_backend :: string
  nr_auth :: "string option"
  nr_static :: "string list option"
  nr_health_path :: "string option"
  nr_timeout :: "int option"
  nr_enabled :: bool
  nr_source :: string
  nr_created :: gotime
  nr_updated :: gotime

datatype node_error = BadName | BadBaseUrl | BadBackend | BadAuthHeader | BadHealthPath | BadTimeout
  | BadSource | NodeNameExists | NodeNotFound | NodeSql | NodeCollision | DuplicateNode
  | BadNodesFile | BadReference

record url_parts =
  up_scheme :: string
  up_opaque :: string
  up_host :: string
  up_user :: bool
  up_query :: string
  up_force_query :: bool
  up_fragment :: string
  up_path :: string

type_synonym url_parser = "string \<Rightarrow> url_parts option"

record node_table =
  nt_rows :: "node_row list"
  nt_next :: int

type_synonym 'a node_prog = "(node_table, node_error, 'a) prog"

section \<open>Validation\<close>

definition canonicalize_base_url :: "url_parser \<Rightarrow> string \<Rightarrow> node_error + string" where
  "canonicalize_base_url parse raw0 = (let raw = trim_space raw0 in
     if raw = [] then Inl BadBaseUrl else
     case parse raw of None \<Rightarrow> Inl BadBaseUrl | Some u \<Rightarrow>
     if up_scheme u \<noteq> ''http'' \<and> up_scheme u \<noteq> ''https'' then Inl BadBaseUrl
     else if up_opaque u \<noteq> [] then Inl BadBaseUrl
     else if up_host u = [] then Inl BadBaseUrl
     else if up_user u then Inl BadBaseUrl
     else if up_query u \<noteq> [] \<or> up_force_query u then Inl BadBaseUrl
     else if up_fragment u \<noteq> [] then Inl BadBaseUrl
     else let path = trim_right_char CHR ''/'' (up_path u) in
       if has_suffix ''/v1'' path then Inl BadBaseUrl
       else Inr (up_scheme u @ ''://'' @ to_lower (up_host u) @ path))"

definition validate_auth_header :: "string \<Rightarrow> bool" where
  "validate_auth_header v \<longleftrightarrow> v \<noteq> [] \<and> (\<forall>c \<in> set v. \<not> (byte c < 32 \<or> 126 < byte c))"

definition validate_health_path :: "url_parser \<Rightarrow> string \<Rightarrow> bool" where
  "validate_health_path parse p \<longleftrightarrow> p \<noteq> [] \<and> has_prefix ''/'' p \<and> \<not> has_prefix ''//'' p \<and>
     (\<forall>c \<in> set p. \<not> (byte c \<le> 32 \<or> 126 < byte c)) \<and>
     (case parse p of None \<Rightarrow> False | Some u \<Rightarrow>
        up_scheme u = [] \<and> up_host u = [] \<and> \<not> up_user u \<and> up_query u = [] \<and> \<not> up_force_query u \<and>
        up_fragment u = [])"

text \<open>The ellipsis U+2026 in UTF-8.\<close>

definition ellipsis :: string where
  "ellipsis = [char_of (226::nat), char_of (128::nat), char_of (166::nat)]"

definition mask_auth_header :: "string \<Rightarrow> string" where
  "mask_auth_header v = (if length v \<le> 10 + 4 then ellipsis
     else take 10 v @ ellipsis @ drop (length v - 4) v)"

definition validate_node :: "url_parser \<Rightarrow> node_row \<Rightarrow> node_error + node_row" where
  "validate_node parse n = (let name = trim_space (nr_name n) in
     if name = [] then Inl BadName else
     case canonicalize_base_url parse (nr_base_url n) of Inl e \<Rightarrow> Inl e | Inr base \<Rightarrow>
     if nr_backend n \<notin> {[], ''ollama'', ''openai_compat''} then Inl BadBackend else
     let backend = (if nr_backend n = [] then ''ollama'' else nr_backend n) in
     if (\<exists>v \<in> set_option (nr_auth n). \<not> validate_auth_header v) then Inl BadAuthHeader
     else if (\<exists>p \<in> set_option (nr_health_path n). \<not> validate_health_path parse p) then Inl BadHealthPath
     else if (\<exists>t \<in> set_option (nr_timeout n). t \<le> 0) then Inl BadTimeout
     else Inr (n\<lparr>nr_name := name, nr_base_url := base, nr_backend := backend\<rparr>))"

section \<open>Store operations\<close>

definition create_node :: "bool \<Rightarrow> url_parser \<Rightarrow> gotime \<Rightarrow> node_row \<Rightarrow> int node_prog" where
  "create_node fault parse now n = (\<lambda>s. case validate_node parse n of Inl e \<Rightarrow> (Inl e, s) | Inr n \<Rightarrow>
     if nr_source n \<notin> {[], ''api'', ''config''} then (Inl BadSource, s) else
     let src = (if nr_source n = [] then ''api'' else nr_source n) in
     if fault then (Inl NodeSql, s)
     else if nr_name n \<in> nr_name ` set (nt_rows s) then (Inl NodeNameExists, s)
     else (Inr (nt_next s), s\<lparr>nt_rows := nt_rows s @ [n\<lparr>nr_id := nt_next s, nr_source := src,
             nr_enabled := True, nr_created := now, nr_updated := now\<rparr>], nt_next := nt_next s + 1\<rparr>))"

definition get_node_with_secrets :: "int \<Rightarrow> node_table \<Rightarrow> node_row option" where
  "get_node_with_secrets i s = row_of nr_id i (nt_rows s)"

definition mask_node_secret :: "node_row \<Rightarrow> node_row" where
  "mask_node_secret n = n\<lparr>nr_auth := map_option mask_auth_header (nr_auth n)\<rparr>"

definition get_node :: "int \<Rightarrow> node_table \<Rightarrow> node_row option" where
  "get_node i s = map_option mask_node_secret (get_node_with_secrets i s)"

text \<open>SELECT ... ORDER BY id: ids are assigned in increasing order.\<close>

definition list_nodes_with_secrets :: "bool \<Rightarrow> node_table \<Rightarrow> node_error + node_row list" where
  "list_nodes_with_secrets fault s = (if fault then Inl NodeSql else Inr (sort_key nr_id (nt_rows s)))"

definition list_nodes :: "bool \<Rightarrow> node_table \<Rightarrow> node_error + node_row list" where
  "list_nodes fault s = map_sum id (map mask_node_secret) (list_nodes_with_secrets fault s)"

definition update_node :: "bool \<Rightarrow> url_parser \<Rightarrow> gotime \<Rightarrow> node_row \<Rightarrow> unit node_prog" where
  "update_node fault parse now n = (\<lambda>s. case validate_node parse n of Inl e \<Rightarrow> (Inl e, s) | Inr n \<Rightarrow>
     if fault then (Inl NodeSql, s)
     else if nr_id n \<notin> nr_id ` set (nt_rows s) then (Inl NodeNotFound, s)
     else if (\<exists>r \<in> set (nt_rows s). nr_id r \<noteq> nr_id n \<and> nr_name r = nr_name n) then (Inl NodeNameExists, s)
     else (Inr (), s\<lparr>nt_rows := upd_where (\<lambda>r. nr_id r = nr_id n)
       (\<lambda>r. r\<lparr>nr_name := nr_name n, nr_base_url := nr_base_url n, nr_backend := nr_backend n,
          nr_auth := nr_auth n, nr_static := nr_static n, nr_health_path := nr_health_path n,
          nr_timeout := nr_timeout n, nr_enabled := nr_enabled n, nr_updated := now\<rparr>) (nt_rows s)\<rparr>))"

definition disable_node :: "bool \<Rightarrow> gotime \<Rightarrow> int \<Rightarrow> unit node_prog" where
  "disable_node fault now i = (\<lambda>s. if fault then (Inl NodeSql, s)
     else if i \<notin> nr_id ` set (nt_rows s) then (Inl NodeNotFound, s)
     else (Inr (), s\<lparr>nt_rows := upd_where (\<lambda>r. nr_id r = i)
       (\<lambda>r. r\<lparr>nr_enabled := False, nr_updated := now\<rparr>) (nt_rows s)\<rparr>))"

section \<open>Environment references\<close>

definition valid_env_name :: "string \<Rightarrow> bool" where
  "valid_env_name name \<longleftrightarrow> name \<noteq> [] \<and>
     (\<forall>i < length name. let c = name ! i in
        c = CHR ''_'' \<or> (65 \<le> byte c \<and> byte c \<le> 90) \<or> (97 \<le> byte c \<and> byte c \<le> 122) \<or>
        (48 \<le> byte c \<and> byte c \<le> 57 \<and> i \<noteq> 0))"

text \<open>
  The loop of expandEnv: \<open>s\<close> is the part not yet consumed. \<open>split_ref\<close> is
  strings.Index(s, "${"): the text before the first reference and the text after its opening.
\<close>

fun split_ref :: "string \<Rightarrow> (string \<times> string) option" where
  "split_ref [] = None"
| "split_ref (c # cs) =
     (if c = CHR ''$'' \<and> cs \<noteq> [] \<and> hd cs = CHR ''{'' then Some ([], tl cs)
      else map_option (\<lambda>(a, b). (c # a, b)) (split_ref cs))"

lemma split_ref_length: "split_ref s = Some (a, b) \<Longrightarrow> length b < length s"
  by (induction s arbitrary: a) (auto split: if_splits)

function expand_env :: "(string \<Rightarrow> string option) \<Rightarrow> string \<Rightarrow> node_error + string" where
  "expand_env env s = (case split_ref s of None \<Rightarrow> Inr s
   | Some (pre, rest) \<Rightarrow>
       if CHR ''}'' \<notin> set rest then Inl BadReference
       else let name = takeWhile (\<lambda>c. c \<noteq> CHR ''}'') rest in
         if \<not> valid_env_name name then Inl BadReference
         else case env name of None \<Rightarrow> Inl BadReference
           | Some v \<Rightarrow> map_sum id (\<lambda>t. pre @ v @ t) (expand_env env (drop (length name + 1) rest)))"
  by pat_completeness auto
termination
  by (relation "measure (\<lambda>(env, s). length s)") (auto dest: split_ref_length)

declare expand_env.simps [simp del]

section \<open>Declared nodes\<close>

record declared_node =
  dn_name :: string
  dn_base_url :: string
  dn_backend :: string
  dn_auth :: "string option"
  dn_static :: "string list option"
  dn_health_path :: "string option"
  dn_timeout :: "int option"

fun expand_list :: "(string \<Rightarrow> string option) \<Rightarrow> string list \<Rightarrow> node_error + string list" where
  "expand_list env [] = Inr []"
| "expand_list env (x # xs) = (case expand_env env x of Inl e \<Rightarrow> Inl e
     | Inr y \<Rightarrow> map_sum id (\<lambda>ys. y # ys) (expand_list env xs))"

definition expand_opt :: "(string \<Rightarrow> string option) \<Rightarrow> string option \<Rightarrow> node_error + string option" where
  "expand_opt env x = (case x of None \<Rightarrow> Inr None | Some s \<Rightarrow> map_sum id Some (expand_env env s))"

definition expand_declared :: "(string \<Rightarrow> string option) \<Rightarrow> declared_node \<Rightarrow> node_error + declared_node" where
  "expand_declared env d =
     (case expand_list env [dn_name d, dn_base_url d, dn_backend d] of
        Inr [name, base, backend] \<Rightarrow>
          (case expand_opt env (dn_auth d) of Inl e \<Rightarrow> Inl e | Inr auth \<Rightarrow>
          (case expand_opt env (dn_health_path d) of Inl e \<Rightarrow> Inl e | Inr hp \<Rightarrow>
          (case (case dn_static d of None \<Rightarrow> Inr None | Some ms \<Rightarrow> map_sum id Some (expand_list env ms)) of
             Inl e \<Rightarrow> Inl e
           | Inr st \<Rightarrow> Inr (d\<lparr>dn_name := name, dn_base_url := base, dn_backend := backend,
               dn_auth := auth, dn_health_path := hp, dn_static := st\<rparr>))))
      | Inr _ \<Rightarrow> Inl BadReference
      | Inl e \<Rightarrow> Inl e)"

definition to_node :: "url_parser \<Rightarrow> (string \<Rightarrow> string option) \<Rightarrow> declared_node \<Rightarrow> node_error + node_row" where
  "to_node parse env d0 = (case expand_declared env d0 of Inl e \<Rightarrow> Inl e | Inr d \<Rightarrow>
     let name = trim_space (dn_name d) in
     if name = [] then Inl BadName else
     case canonicalize_base_url parse (dn_base_url d) of Inl e \<Rightarrow> Inl e | Inr base \<Rightarrow>
     if dn_backend d \<notin> {[], ''ollama'', ''openai_compat''} then Inl BadBackend else
     let backend = (if dn_backend d = [] then ''ollama'' else dn_backend d) in
     if (\<exists>v \<in> set_option (dn_auth d). \<not> validate_auth_header v) then Inl BadAuthHeader
     else if (\<exists>p \<in> set_option (dn_health_path d). \<not> validate_health_path parse p) then Inl BadHealthPath
     else if (\<exists>t \<in> set_option (dn_timeout d). t \<le> 0) then Inl BadTimeout
     else Inr \<lparr>nr_id = 0, nr_name = name, nr_base_url = base, nr_backend = backend, nr_auth = dn_auth d,
       nr_static = dn_static d, nr_health_path = dn_health_path d, nr_timeout = dn_timeout d,
       nr_enabled = True, nr_source = ''config'', nr_created = zero_time, nr_updated = zero_time\<rparr>)"

text \<open>loadNodesFile after decoding; \<open>seen\<close> holds the names so far.\<close>

fun load_nodes :: "url_parser \<Rightarrow> (string \<Rightarrow> string option) \<Rightarrow> string list \<Rightarrow> declared_node list \<Rightarrow>
    node_error + node_row list" where
  "load_nodes parse env seen [] = Inr []"
| "load_nodes parse env seen (d # ds) = (case to_node parse env d of Inl e \<Rightarrow> Inl e | Inr n \<Rightarrow>
     if nr_name n \<in> set seen then Inl DuplicateNode
     else map_sum id (\<lambda>ns. n # ns) (load_nodes parse env (nr_name n # seen) ds))"

text \<open>
  loadDeclared. \<open>file\<close> is None when NODES_FILE is not set, Some None when it cannot be read or
  decoded; \<open>ollama\<close> is OLLAMA_URL when it was set.
\<close>

definition load_declared :: "url_parser \<Rightarrow> (string \<Rightarrow> string option) \<Rightarrow> declared_node list option option \<Rightarrow>
    string option \<Rightarrow> node_error + node_row list" where
  "load_declared parse env file ollama =
     (case (case file of None \<Rightarrow> Inr [] | Some None \<Rightarrow> Inl BadNodesFile
            | Some (Some ds) \<Rightarrow> load_nodes parse env [] ds) of
        Inl e \<Rightarrow> Inl e
      | Inr declared \<Rightarrow>
          (case ollama of None \<Rightarrow> Inr declared
           | Some raw \<Rightarrow> (case canonicalize_base_url parse raw of Inl e \<Rightarrow> Inl e | Inr base \<Rightarrow>
               if ''default'' \<in> nr_name ` set declared then Inl DuplicateNode
               else Inr (declared @ [\<lparr>nr_id = 0, nr_name = ''default'', nr_base_url = base,
                 nr_backend = ''ollama'', nr_auth = None, nr_static = None, nr_health_path = None,
                 nr_timeout = None, nr_enabled = True, nr_source = ''config'',
                 nr_created = zero_time, nr_updated = zero_time\<rparr>]))))"

text \<open>
  SyncDeclaredNodes. The map byName keeps the last row of a name; statement k runs under
  fault plan f.
\<close>

fun apply_declared :: "(nat \<Rightarrow> bool) \<Rightarrow> nat \<Rightarrow> url_parser \<Rightarrow> gotime \<Rightarrow> node_row list \<Rightarrow> node_row list \<Rightarrow> unit node_prog" where
  "apply_declared f k parse now existing [] = retp ()"
| "apply_declared f k parse now existing (d # ds) =
     bindp (case row_of nr_name (nr_name d) (rev existing) of
              Some ex \<Rightarrow> update_node (f k) parse now (d\<lparr>nr_id := nr_id ex\<rparr>)
            | None \<Rightarrow> bindp (create_node (f k) parse now d) (\<lambda>_. retp ()))
       (\<lambda>_. apply_declared f (k + 1) parse now existing ds)"

fun disable_undeclared :: "(nat \<Rightarrow> bool) \<Rightarrow> nat \<Rightarrow> gotime \<Rightarrow> string list \<Rightarrow> node_row list \<Rightarrow> unit node_prog" where
  "disable_undeclared f k now names [] = retp ()"
| "disable_undeclared f k now names (ex # exs) =
     (if nr_source ex = ''config'' \<and> nr_enabled ex \<and> nr_name ex \<notin> set names
      then (\<lambda>s. case disable_node (f k) now (nr_id ex) s of
              (Inl e, s') \<Rightarrow> if e = NodeNotFound then disable_undeclared f (k + 1) now names exs s' else (Inl e, s')
            | (Inr _, s') \<Rightarrow> disable_undeclared f (k + 1) now names exs s')
      else disable_undeclared f k now names exs)"

definition sync_declared_nodes :: "(nat \<Rightarrow> bool) \<Rightarrow> url_parser \<Rightarrow> (string \<Rightarrow> string option) \<Rightarrow> gotime \<Rightarrow>
    declared_node list option option \<Rightarrow> string option \<Rightarrow> unit node_prog" where
  "sync_declared_nodes f parse env now file ollama = (\<lambda>s.
     case load_declared parse env file ollama of Inl e \<Rightarrow> (Inl e, s) | Inr declared \<Rightarrow>
     case list_nodes_with_secrets (f 0) s of Inl e \<Rightarrow> (Inl e, s) | Inr existing \<Rightarrow>
     if (\<exists>d \<in> set declared. \<exists>ex \<in> set_option (row_of nr_name (nr_name d) (rev existing)). nr_source ex \<noteq> ''config'')
     then (Inl NodeCollision, s)
     else bindp (apply_declared f 1 parse now existing declared)
       (\<lambda>_. disable_undeclared f (1 + length declared) now (map nr_name declared) existing) s)"


section \<open>Stored nodes are valid\<close>

definition canonical_url :: "string \<Rightarrow> bool" where
  "canonical_url b \<longleftrightarrow> (\<exists>scheme host path. b = scheme @ ''://'' @ host @ path \<and>
     scheme \<in> {''http'', ''https''} \<and> host \<noteq> [] \<and> to_lower host = host \<and>
     \<not> has_suffix ''/v1'' path \<and> (path = [] \<or> last path \<noteq> CHR ''/''))"

definition valid_row :: "url_parser \<Rightarrow> node_row \<Rightarrow> bool" where
  "valid_row parse r \<longleftrightarrow> nr_name r \<noteq> [] \<and> trim_space (nr_name r) = nr_name r \<and>
     canonical_url (nr_base_url r) \<and> nr_backend r \<in> {''ollama'', ''openai_compat''} \<and>
     (\<forall>v. nr_auth r = Some v \<longrightarrow> validate_auth_header v) \<and>
     (\<forall>q. nr_health_path r = Some q \<longrightarrow> validate_health_path parse q) \<and>
     (\<forall>t. nr_timeout r = Some t \<longrightarrow> 0 < t)"

definition nodes_inv :: "url_parser \<Rightarrow> node_table \<Rightarrow> bool" where
  "nodes_inv parse s \<longleftrightarrow> distinct (map nr_id (nt_rows s)) \<and> distinct (map nr_name (nt_rows s)) \<and>
     (\<forall>r \<in> set (nt_rows s). valid_row parse r \<and> nr_source r \<in> {''api'', ''config''} \<and> nr_id r < nt_next s)"

lemma canonicalize_canonical: "canonicalize_base_url parse raw = Inr b \<Longrightarrow> canonical_url b"
  unfolding canonical_url_def canonicalize_base_url_def Let_def
  by (auto split: if_splits option.splits intro!: exI trim_right_char_last)
     (metis trim_right_char_last to_lower_idem to_lower_def map_is_Nil_conv)+


lemma validate_node_Inr:
  assumes "validate_node parse n = Inr n'"
  shows "valid_row parse n'" "nr_id n' = nr_id n" "nr_source n' = nr_source n"
  using assms canonicalize_canonical [of parse "nr_base_url n"]
  by (auto simp: validate_node_def valid_row_def Let_def split: if_splits sum.splits)

lemma create_node_Inr:
  assumes "create_node fault parse now n s = (Inr i, s')"
  obtains n' where "validate_node parse n = Inr n'" "nr_name n' \<notin> nr_name ` set (nt_rows s)" "i = nt_next s"
    "s' = s\<lparr>nt_rows := nt_rows s @ [n'\<lparr>nr_id := nt_next s,
       nr_source := (if nr_source n' = [] then ''api'' else nr_source n'),
       nr_enabled := True, nr_created := now, nr_updated := now\<rparr>], nt_next := nt_next s + 1\<rparr>"
    "nr_source n' \<in> {[], ''api'', ''config''}"
  using assms by (auto simp: create_node_def Let_def split: sum.splits if_splits)

lemma create_node_inv:
  assumes inv: "nodes_inv parse s" shows "nodes_inv parse (snd (create_node fault parse now n s))"
proof (cases "create_node fault parse now n s")
  case (Pair r s')
  show ?thesis
  proof (cases r)
    case (Inl e)
    then have "s' = s" using Pair by (auto simp: create_node_def Let_def split: sum.splits if_splits)
    then show ?thesis using inv Pair by simp
  next
    case (Inr i)
    then obtain n' where n': "validate_node parse n = Inr n'" "nr_name n' \<notin> nr_name ` set (nt_rows s)"
      "s' = s\<lparr>nt_rows := nt_rows s @ [n'\<lparr>nr_id := nt_next s,
         nr_source := (if nr_source n' = [] then ''api'' else nr_source n'),
         nr_enabled := True, nr_created := now, nr_updated := now\<rparr>], nt_next := nt_next s + 1\<rparr>"
      "nr_source n' \<in> {[], ''api'', ''config''}"
      using Pair by (auto elim: create_node_Inr)
    define r where "r = n'\<lparr>nr_id := nt_next s, nr_source := (if nr_source n' = [] then ''api'' else nr_source n'),
       nr_enabled := True, nr_created := now, nr_updated := now\<rparr>"
    have "valid_row parse n'" by (rule validate_node_Inr [OF n'(1)])
    then have "valid_row parse r" "nr_source r \<in> {''api'', ''config''}" "nr_id r = nt_next s" "nr_name r = nr_name n'"
      using n'(4) by (auto simp: valid_row_def r_def)
    moreover have "s' = s\<lparr>nt_rows := nt_rows s @ [r], nt_next := nt_next s + 1\<rparr>" using n'(3) by (simp add: r_def)
    moreover have "nt_next s \<notin> nr_id ` set (nt_rows s)" using inv by (force simp: nodes_inv_def)
    ultimately show ?thesis using inv n'(2) Pair unfolding nodes_inv_def by fastforce
  qed
qed

lemma map_upd_where_same:
  "(\<And>r. r \<in> set rs \<Longrightarrow> p r \<Longrightarrow> f (g r) = f r) \<Longrightarrow> map f (upd_where p g rs) = map f rs"
  by (auto simp: upd_where_def)

lemma update_node_Inr:
  assumes "update_node fault parse now n s = (Inr u, s')"
  obtains n' where "validate_node parse n = Inr n'"
    "\<forall>r \<in> set (nt_rows s). nr_id r \<noteq> nr_id n \<longrightarrow> nr_name r \<noteq> nr_name n'"
    "s' = s\<lparr>nt_rows := upd_where (\<lambda>r. nr_id r = nr_id n)
       (\<lambda>r. r\<lparr>nr_name := nr_name n', nr_base_url := nr_base_url n', nr_backend := nr_backend n',
          nr_auth := nr_auth n', nr_static := nr_static n', nr_health_path := nr_health_path n',
          nr_timeout := nr_timeout n', nr_enabled := nr_enabled n', nr_updated := now\<rparr>) (nt_rows s)\<rparr>"
proof -
  obtain n' where n': "validate_node parse n = Inr n'"
    using assms by (cases "validate_node parse n") (simp_all add: update_node_def)
  then have "nr_id n' = nr_id n" by (rule validate_node_Inr)
  then show thesis using that [OF n'] assms n' by (auto simp: update_node_def split: if_splits)
qed

lemma upd_where_simps:
  "upd_where p g [] = []" "upd_where p g (a # rs) = (if p a then g a else a) # upd_where p g rs"
  by (simp_all add: upd_where_def)

lemma distinct_name_upd:
  assumes "distinct (map nr_id rs)" "distinct (map nr_name rs)"
    and "\<forall>r \<in> set rs. nr_id r \<noteq> i \<longrightarrow> nr_name r \<noteq> nm" "\<And>r. nr_name (g r) = nm"
  shows "distinct (map nr_name (upd_where (\<lambda>r. nr_id r = i) g rs))"
  using assms
proof (induction rs)
  case (Cons a rs)
  have n: "nm \<notin> nr_name ` set (upd_where (\<lambda>r. nr_id r = i) g rs)" if "nr_id a = i"
    using that Cons.prems by (auto simp: set_upd_where image_iff)
  have m: "nr_name a \<notin> nr_name ` set (upd_where (\<lambda>r. nr_id r = i) g rs)" if "nr_id a \<noteq> i"
    using that Cons.prems by (auto simp: set_upd_where image_iff)
  have d: "distinct (map nr_name (upd_where (\<lambda>r. nr_id r = i) g rs))"
    using Cons.prems by (intro Cons.IH) auto
  show ?case
  proof (cases "nr_id a = i")
    case True
    then show ?thesis using n d Cons.prems(4) by (simp add: upd_where_simps)
  next
    case False
    then show ?thesis using m d by (simp add: upd_where_simps)
  qed
qed (simp add: upd_where_simps)

lemma update_node_inv:
  assumes inv: "nodes_inv parse s" shows "nodes_inv parse (snd (update_node fault parse now n s))"
proof (cases "update_node fault parse now n s")
  case (Pair r s')
  show ?thesis
  proof (cases r)
    case (Inl e)
    then have "s' = s" using Pair by (auto simp: update_node_def split: sum.splits if_splits)
    then show ?thesis using inv Pair by simp
  next
    case (Inr u)
    let ?g = "\<lambda>n' r. r\<lparr>nr_name := nr_name n', nr_base_url := nr_base_url n', nr_backend := nr_backend n',
          nr_auth := nr_auth n', nr_static := nr_static n', nr_health_path := nr_health_path n',
          nr_timeout := nr_timeout n', nr_enabled := nr_enabled n', nr_updated := now\<rparr>"
    obtain n' where n': "validate_node parse n = Inr n'"
      "\<forall>r \<in> set (nt_rows s). nr_id r \<noteq> nr_id n \<longrightarrow> nr_name r \<noteq> nr_name n'"
      "s' = s\<lparr>nt_rows := upd_where (\<lambda>r. nr_id r = nr_id n) (?g n') (nt_rows s)\<rparr>"
      using Pair Inr by (auto elim: update_node_Inr)
    have v: "valid_row parse n'" by (rule validate_node_Inr [OF n'(1)])
    have "distinct (map nr_name (nt_rows s'))" unfolding n'(3)
      using inv n'(2) by (simp add: nodes_inv_def distinct_name_upd)
    moreover have "map nr_id (nt_rows s') = map nr_id (nt_rows s)" unfolding n'(3)
      by (simp add: map_upd_where_same)
    moreover have "\<forall>r \<in> set (nt_rows s'). valid_row parse r \<and> nr_source r \<in> {''api'', ''config''} \<and> nr_id r < nt_next s'"
      unfolding n'(3) using inv v by (auto simp: nodes_inv_def set_upd_where valid_row_def)
    ultimately show ?thesis using inv Pair by (simp add: nodes_inv_def)
  qed
qed

lemma disable_node_inv:
  assumes inv: "nodes_inv parse s" shows "nodes_inv parse (snd (disable_node fault now i s))"
proof -
  let ?rs = "upd_where (\<lambda>r. nr_id r = i) (\<lambda>r. r\<lparr>nr_enabled := False, nr_updated := now\<rparr>) (nt_rows s)"
  have "map nr_id ?rs = map nr_id (nt_rows s)" "map nr_name ?rs = map nr_name (nt_rows s)"
    by (simp_all add: map_upd_where_same)
  moreover have "\<forall>r \<in> set ?rs. valid_row parse r \<and> nr_source r \<in> {''api'', ''config''} \<and> nr_id r < nt_next s"
    using inv by (auto simp: nodes_inv_def set_upd_where valid_row_def)
  ultimately have "nodes_inv parse (s\<lparr>nt_rows := ?rs\<rparr>)" using inv by (simp add: nodes_inv_def)
  then show ?thesis using inv by (simp add: disable_node_def)
qed

text \<open>No caller can store an invalid node: whatever CreateNode, UpdateNode and DisableNode are
  given, every stored row keeps a canonical base URL not ending in /v1, a known backend, a printable
  auth header, a path-only health path, a positive timeout, and a unique trimmed name.\<close>

theorem stored_nodes_valid:
  assumes "nodes_inv parse s"
  shows "nodes_inv parse (snd (create_node fault parse now n s)) \<and>
    nodes_inv parse (snd (update_node fault parse now n s)) \<and>
    nodes_inv parse (snd (disable_node fault now i s))"
  using assms create_node_inv update_node_inv disable_node_inv by blast

definition no_nodes :: node_table where
  "no_nodes = \<lparr>nt_rows = [], nt_next = 1\<rparr>"

lemma no_nodes_inv [simp]: "nodes_inv parse no_nodes"
  by (simp add: nodes_inv_def no_nodes_def)

lemma stored_nodes_valid_witness:
  "nodes_inv (\<lambda>_. None) (snd (disable_node False 0 1 no_nodes))"
  using stored_nodes_valid [OF no_nodes_inv] by blast

section \<open>Secrets\<close>

lemma ellipsis_not_printable: "set ellipsis \<subseteq> set v \<Longrightarrow> \<not> validate_auth_header v"
proof
  assume "set ellipsis \<subseteq> set v" "validate_auth_header v"
  then have "\<not> 126 < byte (char_of (226::nat))" by (simp add: ellipsis_def validate_auth_header_def)
  then show False by (simp add: byte_def)
qed

text \<open>A masked auth header can never be written back over the real one: it fails validation, so
  an UpdateNode with the value a listing returned changes nothing.\<close>

theorem masked_header_rejected:
  assumes "get_node i s = Some n" "nr_auth n = Some v"
  shows "\<not> validate_auth_header v \<and> isl (fst (update_node fault parse now n s)) \<and>
    snd (update_node fault parse now n s) = s"
proof -
  obtain w where "v = mask_auth_header w"
    using assms by (auto simp: get_node_def mask_node_secret_def)
  then have v: "\<not> validate_auth_header v"
    by (intro ellipsis_not_printable) (auto simp: mask_auth_header_def)
  then have "isl (validate_node parse n)"
    using assms(2) by (auto simp: validate_node_def Let_def split: sum.split)
  then show ?thesis using v by (auto simp: update_node_def split: sum.split)
qed

definition sample_row :: node_row where
  "sample_row = \<lparr>nr_id = 1, nr_name = ''n'', nr_base_url = ''http://h'', nr_backend = ''ollama'',
     nr_auth = Some ''Bearer sk-123456789'', nr_static = None, nr_health_path = None, nr_timeout = None,
     nr_enabled = True, nr_source = ''config'', nr_created = 0, nr_updated = 0\<rparr>"

lemma masked_header_rejected_witness:
  "\<exists>n v. get_node 1 \<lparr>nt_rows = [sample_row], nt_next = 2\<rparr> = Some n \<and> nr_auth n = Some v \<and> \<not> validate_auth_header v"
proof -
  have "get_node 1 \<lparr>nt_rows = [sample_row], nt_next = 2\<rparr> = Some (mask_node_secret sample_row)"
    by (simp add: get_node_def get_node_with_secrets_def row_of_def sample_row_def)
  moreover have "nr_auth (mask_node_secret sample_row) = Some (mask_auth_header ''Bearer sk-123456789'')"
    by (simp add: mask_node_secret_def sample_row_def)
  ultimately show ?thesis using masked_header_rejected by blast
qed


section \<open>Environment expansion\<close>

lemma split_ref_none: "split_ref s = None \<Longrightarrow> expand_env env s = Inr s"
  by (simp add: expand_env.simps)

lemma split_ref_append:
  "split_ref a = None \<Longrightarrow> (a = [] \<or> last a \<noteq> CHR ''$'') \<Longrightarrow>
   split_ref (a @ ''${'' @ b) = Some (a, b)"
proof (induction a)
  case (Cons c a)
  have h: "\<not> (c = CHR ''$'' \<and> a @ ''${'' @ b \<noteq> [] \<and> hd (a @ ''${'' @ b) = CHR ''{'')"
    using Cons.prems by (cases a) auto
  have "split_ref a = None" "a = [] \<or> last a \<noteq> CHR ''$''"
    using Cons.prems by (auto split: if_splits)
  then have "split_ref (a @ ''${'' @ b) = Some (a, b)" by (rule Cons.IH)
  then show ?case using h by auto
qed simp

text \<open>A braced reference is replaced by the value of its variable and the text around it is kept;
  text without references is unchanged, and an undefined variable is an error.\<close>

theorem expand_env_reference:
  assumes "split_ref a = None" "a = [] \<or> last a \<noteq> CHR ''$''" "valid_env_name x" "CHR ''}'' \<notin> set x"
  shows "expand_env env a = Inr a \<and>
    expand_env env (a @ ''${'' @ x @ ''}'' @ b) =
      (case env x of None \<Rightarrow> Inl BadReference | Some v \<Rightarrow> map_sum id (\<lambda>t. a @ v @ t) (expand_env env b))"
proof
  show "expand_env env a = Inr a" by (rule split_ref_none [OF assms(1)])
  have s: "split_ref (a @ ''${'' @ x @ ''}'' @ b) = Some (a, x @ ''}'' @ b)"
    by (rule split_ref_append [OF assms(1,2)])
  have t: "takeWhile (\<lambda>c. c \<noteq> CHR ''}'') (x @ ''}'' @ b) = x"
    using assms(4) by (induction x) auto
  have d: "drop (Suc (length x)) (x @ ''}'' @ b) = b" by simp
  show "expand_env env (a @ ''${'' @ x @ ''}'' @ b) =
      (case env x of None \<Rightarrow> Inl BadReference | Some v \<Rightarrow> map_sum id (\<lambda>t. a @ v @ t) (expand_env env b))"
    by (subst expand_env.simps) (cases "env x"; simp add: s t d assms(3) Let_def del: append_Cons drop_append)
qed

lemma expand_env_reference_witness:
  "expand_env [''A'' \<mapsto> ''1''] (''x='' @ ''${'' @ ''A'' @ ''}'' @ ''!'') = Inr ''x=1!''"
proof -
  have "split_ref ''x='' = None" "valid_env_name ''A''" by code_simp+
  then show ?thesis using expand_env_reference [of "''x=''" "''A''" "[''A'' \<mapsto> ''1'']" "''!''"]
    by (simp add: split_ref_none)
qed

section \<open>Declared nodes are valid before the first write\<close>

text \<open>
  The behaviour of url.Parse the reconciliation rests on: parsing scheme://host/path, put
  together from the parts of a parsed absolute URL, gives these parts back.
\<close>

definition url_law :: "url_parser \<Rightarrow> bool" where
  "url_law parse \<longleftrightarrow> (\<forall>raw u. parse raw = Some u \<and> up_scheme u \<in> {''http'', ''https''} \<and> up_host u \<noteq> [] \<longrightarrow>
     (let path = trim_right_char CHR ''/'' (up_path u);
          b = up_scheme u @ ''://'' @ to_lower (up_host u) @ path
      in trim_space b = b \<and>
         parse b = Some \<lparr>up_scheme = up_scheme u, up_opaque = [], up_host = to_lower (up_host u),
           up_user = False, up_query = [], up_force_query = False, up_fragment = [], up_path = path\<rparr>))"

lemma canonicalize_idem:
  assumes law: "url_law parse" and b: "canonicalize_base_url parse raw = Inr b"
  shows "canonicalize_base_url parse b = Inr b"
proof -
  from b obtain u where u: "parse (trim_space raw) = Some u" "up_scheme u \<in> {''http'', ''https''}" "up_host u \<noteq> []"
    "\<not> has_suffix ''/v1'' (trim_right_char CHR ''/'' (up_path u))"
    "b = up_scheme u @ ''://'' @ to_lower (up_host u) @ trim_right_char CHR ''/'' (up_path u)"
    by (auto simp: canonicalize_base_url_def Let_def split: if_splits option.splits)
  have "trim_space b = b" "parse b = Some \<lparr>up_scheme = up_scheme u, up_opaque = [], up_host = to_lower (up_host u),
      up_user = False, up_query = [], up_force_query = False, up_fragment = [],
      up_path = trim_right_char CHR ''/'' (up_path u)\<rparr>"
    using law u unfolding url_law_def by (fastforce simp: Let_def)+
  moreover have "b \<noteq> []" "to_lower (up_host u) \<noteq> []" using u by (auto simp: to_lower_def)
  ultimately show ?thesis using u by (auto simp: canonicalize_base_url_def Let_def)
qed

definition ready :: "url_parser \<Rightarrow> node_row \<Rightarrow> bool" where
  "ready parse n \<longleftrightarrow> validate_node parse n = Inr n \<and> nr_source n = ''config'' \<and> nr_enabled n"

lemma to_node_ready:
  assumes "url_law parse" "to_node parse env d = Inr n" shows "ready parse n"
proof -
  obtain d' where d': "expand_declared env d = Inr d'"
    using assms(2) by (cases "expand_declared env d") (simp_all add: to_node_def)
  obtain base where base: "canonicalize_base_url parse (dn_base_url d') = Inr base"
    using assms(2) d' by (cases "canonicalize_base_url parse (dn_base_url d')")
      (auto simp: to_node_def Let_def split: if_splits)
  have "canonicalize_base_url parse base = Inr base" by (rule canonicalize_idem [OF assms(1) base])
  then show ?thesis using assms(2) d' base
    by (auto simp: to_node_def ready_def validate_node_def Let_def split: if_splits)
qed

lemma load_nodes_ready:
  assumes "url_law parse" "load_nodes parse env seen ds = Inr ns"
  shows "(\<forall>n \<in> set ns. ready parse n) \<and> distinct (map nr_name ns) \<and> nr_name ` set ns \<inter> set seen = {}"
  using assms(2)
proof (induction ds arbitrary: seen ns)
  case (Cons d ds)
  from Cons.prems obtain n ns' where n: "to_node parse env d = Inr n" "nr_name n \<notin> set seen"
    "load_nodes parse env (nr_name n # seen) ds = Inr ns'" "ns = n # ns'"
    by (auto split: sum.splits if_splits simp: map_sum_def)
  have "(\<forall>n \<in> set ns'. ready parse n) \<and> distinct (map nr_name ns') \<and>
      nr_name ` set ns' \<inter> set (nr_name n # seen) = {}"
    by (rule Cons.IH [OF n(3)])
  then show ?case using n to_node_ready [OF assms(1) n(1)] by auto
qed simp

lemma load_declared_ready:
  assumes law: "url_law parse" and l: "load_declared parse env file ollama = Inr ns"
  shows "\<forall>n \<in> set ns. ready parse n" "distinct (map nr_name ns)"
proof -
  let ?dflt = "\<lambda>base. \<lparr>nr_id = 0, nr_name = ''default'', nr_base_url = base, nr_backend = ''ollama'',
        nr_auth = None, nr_static = None, nr_health_path = None, nr_timeout = None, nr_enabled = True,
        nr_source = ''config'', nr_created = zero_time, nr_updated = zero_time\<rparr>"
  obtain declared where f: "(case file of None \<Rightarrow> Inr [] | Some None \<Rightarrow> Inl BadNodesFile
      | Some (Some ds) \<Rightarrow> load_nodes parse env [] ds) = Inr declared"
    using l unfolding load_declared_def by (auto split: sum.splits)
  then have d: "(\<forall>n \<in> set declared. ready parse n) \<and> distinct (map nr_name declared)"
    using load_nodes_ready [OF law] by (auto split: option.splits)
  have "ns = declared \<or> (\<exists>raw base. canonicalize_base_url parse raw = Inr base \<and>
      ''default'' \<notin> nr_name ` set declared \<and> ns = declared @ [?dflt base])"
    using l f unfolding load_declared_def by (auto split: sum.splits option.splits if_splits)
  then consider "ns = declared"
    | raw base where "canonicalize_base_url parse raw = Inr base" "''default'' \<notin> nr_name ` set declared"
        "ns = declared @ [?dflt base]" by blast
  then have "(\<forall>n \<in> set ns. ready parse n) \<and> distinct (map nr_name ns)"
  proof cases
    case 1
    then show ?thesis using d by simp
  next
    case (2 raw base)
    have "canonicalize_base_url parse base = Inr base" by (rule canonicalize_idem [OF law 2(1)])
    moreover have "trim_space ''default'' = ''default''" by code_simp
    ultimately have "ready parse (?dflt base)" by (simp add: ready_def validate_node_def)
    then show ?thesis using d 2 by auto
  qed
  then show "\<forall>n \<in> set ns. ready parse n" "distinct (map nr_name ns)" by simp_all
qed


section \<open>Reconciliation\<close>

text \<open>What the row of a declared node looks like afterwards.\<close>

definition declared_as :: "node_row \<Rightarrow> node_row \<Rightarrow> bool" where
  "declared_as d r \<longleftrightarrow> nr_name r = nr_name d \<and> nr_base_url r = nr_base_url d \<and>
     nr_backend r = nr_backend d \<and> nr_auth r = nr_auth d \<and> nr_static r = nr_static d \<and>
     nr_health_path r = nr_health_path d \<and> nr_timeout r = nr_timeout d \<and> nr_enabled r \<and>
     nr_source r = ''config''"

text \<open>
  The state of the loop over the declared nodes: s0 is the table at the start, \<open>ds\<close> are the
  nodes handled so far. Rows of s0 keep id, name and source, and are unchanged unless declared.
\<close>

definition sync_inv :: "url_parser \<Rightarrow> node_table \<Rightarrow> node_row list \<Rightarrow> node_table \<Rightarrow> bool" where
  "sync_inv parse s0 ds s \<longleftrightarrow> nodes_inv parse s \<and>
     (\<forall>r0 \<in> set (nt_rows s0). \<exists>r \<in> set (nt_rows s). nr_id r = nr_id r0 \<and> nr_name r = nr_name r0 \<and>
        nr_source r = nr_source r0 \<and> (nr_name r0 \<notin> nr_name ` set ds \<longrightarrow> r = r0)) \<and>
     nr_name ` set (nt_rows s) \<subseteq> nr_name ` set (nt_rows s0) \<union> nr_name ` set ds \<and>
     (\<forall>d \<in> set ds. \<exists>r \<in> set (nt_rows s). declared_as d r)"

lemma validate_node_fields:
  assumes "validate_node parse n = Inr n'"
  shows "trim_space (nr_name n) = nr_name n'" "nr_name n' \<noteq> []"
    "canonicalize_base_url parse (nr_base_url n) = Inr (nr_base_url n')"
    "nr_backend n \<noteq> [] \<Longrightarrow> nr_backend n' = nr_backend n" "nr_backend n' \<in> {''ollama'', ''openai_compat''}"
    "\<not> (\<exists>v. nr_auth n = Some v \<and> \<not> validate_auth_header v)"
    "\<not> (\<exists>q. nr_health_path n = Some q \<and> \<not> validate_health_path parse q)"
    "\<not> (\<exists>t. nr_timeout n = Some t \<and> t \<le> 0)"
  using assms by (auto simp: validate_node_def Let_def split: if_splits sum.splits)

lemma node_row_same:
  "n\<lparr>nr_name := nr_name n, nr_base_url := nr_base_url n, nr_backend := nr_backend n\<rparr> = (n :: node_row)"
  by simp

lemma validate_node_id:
  assumes v: "validate_node parse n = Inr n"
  shows "validate_node parse (n\<lparr>nr_id := i\<rparr>) = Inr (n\<lparr>nr_id := i\<rparr>)"
proof -
  note f = validate_node_fields [OF v]
  define m where "m = n\<lparr>nr_id := i\<rparr>"
  have e: "nr_name m = nr_name n" "nr_base_url m = nr_base_url n" "nr_backend m = nr_backend n"
    "nr_auth m = nr_auth n" "nr_health_path m = nr_health_path n" "nr_timeout m = nr_timeout n"
    by (simp_all add: m_def)
  have b: "nr_backend n \<noteq> []" using f(5) by auto
  have "validate_node parse m = Inr (m\<lparr>nr_name := nr_name m, nr_base_url := nr_base_url m, nr_backend := nr_backend m\<rparr>)"
    unfolding validate_node_def Let_def e f(1) f(3) using f(2,5-8) b by simp
  then show ?thesis by (simp only: node_row_same flip: m_def)
qed

lemma upd_where_key:
  assumes "distinct (map key rs)" "e \<in> set rs"
  shows "r \<in> set (upd_where (\<lambda>r. key r = key e) g rs) \<longleftrightarrow> r = g e \<or> (r \<in> set rs \<and> key r \<noteq> key e)"
proof -
  have "x = e" if "x \<in> set rs" "key x = key e" for x
    using assms that by (auto simp: distinct_map dest: inj_onD)
  then show ?thesis using assms(2) by (auto simp: set_upd_where image_iff)
qed

lemma name_unique:
  "nodes_inv parse s \<Longrightarrow> r \<in> set (nt_rows s) \<Longrightarrow> r' \<in> set (nt_rows s) \<Longrightarrow> nr_name r = nr_name r' \<Longrightarrow> r = r'"
  by (auto simp: nodes_inv_def distinct_map dest: inj_onD)

lemma id_unique:
  "nodes_inv parse s \<Longrightarrow> r \<in> set (nt_rows s) \<Longrightarrow> r' \<in> set (nt_rows s) \<Longrightarrow> nr_id r = nr_id r' \<Longrightarrow> r = r'"
  by (auto simp: nodes_inv_def distinct_map dest: inj_onD)

lemma sync_create:
  assumes i: "sync_inv parse s0 ds s" and d: "ready parse d" "nr_name d \<notin> nr_name ` set (nt_rows s0)"
    "nr_name d \<notin> nr_name ` set ds"
  obtains k s' where "create_node False parse now d s = (Inr k, s')" "sync_inv parse s0 (ds @ [d]) s'"
proof -
  let ?r = "d\<lparr>nr_id := nt_next s, nr_enabled := True, nr_created := now, nr_updated := now\<rparr>"
  let ?s = "s\<lparr>nt_rows := nt_rows s @ [?r], nt_next := nt_next s + 1\<rparr>"
  have fresh: "nr_name d \<notin> nr_name ` set (nt_rows s)" using i d(2,3) by (auto simp: sync_inv_def)
  have "d\<lparr>nr_id := nt_next s, nr_source := ''config'', nr_enabled := True, nr_created := now, nr_updated := now\<rparr> = ?r"
    using d(1) by (simp add: ready_def)
  then have c: "create_node False parse now d s = (Inr (nt_next s), ?s)"
    using d(1) fresh by (simp add: create_node_def ready_def)
  have "nodes_inv parse ?s"
    using create_node_inv [of parse s False now d] c i by (simp add: sync_inv_def)
  moreover have "declared_as d ?r" using d(1) by (simp add: declared_as_def ready_def)
  ultimately have "sync_inv parse s0 (ds @ [d]) ?s"
    using i d(2) unfolding sync_inv_def by (auto 0 3)
  with c show thesis by (rule that)
qed

lemma sync_update:
  assumes i: "sync_inv parse s0 ds s" and d: "ready parse d" "nr_name d \<notin> nr_name ` set ds"
    and ex: "ex \<in> set (nt_rows s0)" "nr_name ex = nr_name d" "nr_source ex = ''config''" and inv0: "nodes_inv parse s0"
  obtains s' where "update_node False parse now (d\<lparr>nr_id := nr_id ex\<rparr>) s = (Inr (), s')"
    "sync_inv parse s0 (ds @ [d]) s'"
proof -
  let ?g = "\<lambda>r. r\<lparr>nr_name := nr_name d, nr_base_url := nr_base_url d, nr_backend := nr_backend d,
          nr_auth := nr_auth d, nr_static := nr_static d, nr_health_path := nr_health_path d,
          nr_timeout := nr_timeout d, nr_enabled := nr_enabled d, nr_updated := now\<rparr>"
  define s1 where "s1 = s\<lparr>nt_rows := upd_where (\<lambda>r. nr_id r = nr_id ex) ?g (nt_rows s)\<rparr>"
  have inv: "nodes_inv parse s" using i by (simp add: sync_inv_def)
  obtain r1 where "r1 \<in> set (nt_rows s)" "nr_name ex \<notin> nr_name ` set ds \<longrightarrow> r1 = ex"
    using i ex(1) unfolding sync_inv_def by blast
  then have ex': "ex \<in> set (nt_rows s)" using ex(2) d(2) by simp
  have v: "validate_node parse (d\<lparr>nr_id := nr_id ex\<rparr>) = Inr (d\<lparr>nr_id := nr_id ex\<rparr>)"
    using d(1) by (intro validate_node_id) (simp add: ready_def)
  have u: "update_node False parse now (d\<lparr>nr_id := nr_id ex\<rparr>) s = (Inr (), s1)"
  proof -
    have "nr_id ex \<in> nr_id ` set (nt_rows s)" using ex' by simp
    moreover have "\<not> (\<exists>r \<in> set (nt_rows s). nr_id r \<noteq> nr_id ex \<and> nr_name r = nr_name d)"
      using name_unique [OF inv ex'] ex(2) by metis
    ultimately show ?thesis unfolding update_node_def v s1_def by simp
  qed
  have inv': "nodes_inv parse s1"
    using update_node_inv [OF inv, of False now "d\<lparr>nr_id := nr_id ex\<rparr>"] u by simp
  have rows: "r \<in> set (nt_rows s1) \<longleftrightarrow> r = ?g ex \<or> (r \<in> set (nt_rows s) \<and> nr_id r \<noteq> nr_id ex)" for r
  proof -
    have d: "distinct (map nr_id (nt_rows s))" using inv by (simp add: nodes_inv_def)
    have "nt_rows s1 = upd_where (\<lambda>r. nr_id r = nr_id ex) ?g (nt_rows s)" by (simp add: s1_def)
    then show ?thesis by (simp only: upd_where_key [OF d ex'])
  qed
  have da: "declared_as d (?g ex)" using d(1) ex(3) by (simp add: declared_as_def ready_def)
  have "sync_inv parse s0 (ds @ [d]) s1"
    unfolding sync_inv_def
  proof (intro conjI ballI)
    fix r0 assume r0: "r0 \<in> set (nt_rows s0)"
    show "\<exists>r \<in> set (nt_rows s1). nr_id r = nr_id r0 \<and> nr_name r = nr_name r0 \<and> nr_source r = nr_source r0 \<and>
        (nr_name r0 \<notin> nr_name ` set (ds @ [d]) \<longrightarrow> r = r0)"
    proof (cases "nr_id r0 = nr_id ex")
      case True
      then have "r0 = ex" using id_unique [OF inv0 r0 ex(1)] by simp
      then show ?thesis using rows ex(2) by (intro bexI [of _ "?g ex"]) auto
    next
      case False
      obtain r where "r \<in> set (nt_rows s)" "nr_id r = nr_id r0" "nr_name r = nr_name r0" "nr_source r = nr_source r0"
          "nr_name r0 \<notin> nr_name ` set ds \<longrightarrow> r = r0" using i r0 by (fastforce simp: sync_inv_def)
      then show ?thesis using False rows by (intro bexI [of _ r]) auto
    qed
  next
    have "nr_name ` set (nt_rows s) \<subseteq> nr_name ` set (nt_rows s0) \<union> nr_name ` set ds"
      using i by (simp add: sync_inv_def)
    note sub = this
    have "nr_name r \<in> nr_name ` set (nt_rows s0) \<union> nr_name ` set (ds @ [d])" if "r \<in> set (nt_rows s1)" for r
    proof (cases "r = ?g ex")
      case False
      then have "r \<in> set (nt_rows s)" using rows [of r] that by blast
      then have "nr_name r \<in> nr_name ` set (nt_rows s0) \<union> nr_name ` set ds" using sub by blast
      then show ?thesis by simp
    qed simp
    then show "nr_name ` set (nt_rows s1) \<subseteq> nr_name ` set (nt_rows s0) \<union> nr_name ` set (ds @ [d])"
      by blast
  next
    fix x assume x: "x \<in> set (ds @ [d])"
    show "\<exists>r \<in> set (nt_rows s1). declared_as x r"
    proof (cases "x = d")
      case True
      then show ?thesis using da rows by blast
    next
      case False
      then have "x \<in> set ds" using x by simp
      then obtain r where r: "r \<in> set (nt_rows s)" "declared_as x r" using i by (auto simp: sync_inv_def)
      have "nr_name x \<noteq> nr_name d" using d(2) \<open>x \<in> set ds\<close> by (metis imageI)
      then have "nr_id r \<noteq> nr_id ex" using id_unique [OF inv r(1) ex'] ex(2) r(2) by (auto simp: declared_as_def)
      then show ?thesis using r rows by blast
    qed
  qed (rule inv')
  with u show thesis by (rule that)
qed


lemma row_of_name:
  assumes "nodes_inv parse s0" "set existing = set (nt_rows s0)" "distinct (map nr_name existing)"
  shows "row_of nr_name nm (rev existing) = Some ex \<longleftrightarrow> ex \<in> set (nt_rows s0) \<and> nr_name ex = nm"
    "row_of nr_name nm (rev existing) = None \<longleftrightarrow> nm \<notin> nr_name ` set (nt_rows s0)"
  using row_of_Some [of nr_name nm "rev existing" ex] row_of_distinct [of nr_name "rev existing" ex] assms(2,3)
  by (auto simp: row_of_None rev_map [symmetric])

lemma bindp_run: "m s = (Inr a, s1) \<Longrightarrow> k a s1 = r \<Longrightarrow> bindp m k s = r"
  by (simp add: bindp_def)

lemma sync_inv_start: "nodes_inv parse s0 \<Longrightarrow> sync_inv parse s0 [] s0"
  by (auto simp: sync_inv_def)

lemma apply_declared_ok:
  assumes inv0: "nodes_inv parse s0" and ex: "set existing = set (nt_rows s0)" "distinct (map nr_name existing)"
    and nocoll: "\<forall>d \<in> set rest. \<forall>r \<in> set (nt_rows s0). nr_name r = nr_name d \<longrightarrow> nr_source r = ''config''"
    and "sync_inv parse s0 ds s" "\<forall>d \<in> set rest. ready parse d" "distinct (map nr_name (ds @ rest))"
  shows "\<exists>s'. apply_declared no_faults k parse now existing rest s = (Inr (), s') \<and> sync_inv parse s0 (ds @ rest) s'"
  using assms(4-7)
proof (induction rest arbitrary: ds s k)
  case (Cons d rest)
  have d: "ready parse d" "nr_name d \<notin> nr_name ` set ds" using Cons.prems by auto
  note r = row_of_name [OF inv0 ex]
  obtain s1 where s1: "sync_inv parse s0 (ds @ [d]) s1"
    "(case row_of nr_name (nr_name d) (rev existing) of
        Some ex \<Rightarrow> update_node (no_faults k) parse now (d\<lparr>nr_id := nr_id ex\<rparr>)
      | None \<Rightarrow> bindp (create_node (no_faults k) parse now d) (\<lambda>_. retp ())) s = (Inr (), s1)"
  proof (cases "row_of nr_name (nr_name d) (rev existing)")
    case None
    then obtain i s1 where "create_node False parse now d s = (Inr i, s1)" "sync_inv parse s0 (ds @ [d]) s1"
      using sync_create [OF Cons.prems(2) d(1) _ d(2)] r(2) by blast
    then show thesis using None that by (simp add: bindp_def retp_def)
  next
    case (Some x)
    then have x: "x \<in> set (nt_rows s0)" "nr_name x = nr_name d" "nr_source x = ''config''"
      using r(1) Cons.prems(1) by auto
    show thesis by (rule sync_update [OF Cons.prems(2) d x inv0]) (use Some that in simp)
  qed
  have "\<exists>s'. apply_declared no_faults (k + 1) parse now existing rest s1 = (Inr (), s') \<and>
      sync_inv parse s0 ((ds @ [d]) @ rest) s'"
    using Cons.prems by (intro Cons.IH s1(1)) auto
  then obtain s' where s': "apply_declared no_faults (k + 1) parse now existing rest s1 = (Inr (), s')"
      "sync_inv parse s0 (ds @ d # rest) s'" by auto
  have "apply_declared no_faults k parse now existing (d # rest) s = (Inr (), s')"
    unfolding apply_declared.simps by (rule bindp_run, rule s1(2), rule s'(1))
  then show ?case using s'(2) by blast
qed (simp add: retp_def)

text \<open>The rows after the disabling loop over exs.\<close>

lemma disable_undeclared_ok:
  assumes "nodes_inv parse s" "\<forall>x \<in> set exs. \<exists>r \<in> set (nt_rows s). nr_id r = nr_id x \<and> nr_name r = nr_name x"
  shows "\<exists>s'. disable_undeclared no_faults k now names exs s = (Inr (), s') \<and> nodes_inv parse s' \<and>
    (\<forall>r \<in> set (nt_rows s). (\<forall>x \<in> set exs. nr_id x = nr_id r \<longrightarrow>
       \<not> (nr_source x = ''config'' \<and> nr_enabled x \<and> nr_name x \<notin> set names)) \<longrightarrow> r \<in> set (nt_rows s')) \<and>
    (\<forall>r \<in> set (nt_rows s'). \<exists>r0 \<in> set (nt_rows s). nr_id r = nr_id r0 \<and> nr_name r = nr_name r0 \<and> nr_source r = nr_source r0 \<and>
       (nr_enabled r \<longrightarrow> nr_enabled r0) \<and>
       (nr_enabled r \<longrightarrow> (\<forall>x \<in> set exs. nr_id x = nr_id r \<longrightarrow> \<not> (nr_source x = ''config'' \<and> nr_enabled x \<and> nr_name x \<notin> set names))))"
  using assms
proof (induction exs arbitrary: s k)
  case (Cons x exs)
  show ?case
  proof (cases "nr_source x = ''config'' \<and> nr_enabled x \<and> nr_name x \<notin> set names")
    case False
    have "\<forall>x \<in> set exs. \<exists>r \<in> set (nt_rows s). nr_id r = nr_id x \<and> nr_name r = nr_name x" using Cons.prems(2) by simp
    from Cons.IH [OF Cons.prems(1) this, of k] False show ?thesis by (auto 0 4)
  next
    case True
    let ?g = "\<lambda>r. r\<lparr>nr_enabled := False, nr_updated := now\<rparr>"
    define s1 where "s1 = s\<lparr>nt_rows := upd_where (\<lambda>r. nr_id r = nr_id x) ?g (nt_rows s)\<rparr>"
    obtain e where e: "e \<in> set (nt_rows s)" "nr_id e = nr_id x" "nr_name e = nr_name x" using Cons.prems(2) by auto
    have dis: "disable_node False now (nr_id x) s = (Inr (), s1)"
    proof -
      have "nr_id x \<in> nr_id ` set (nt_rows s)" using e by (metis image_eqI)
      then show ?thesis by (simp add: disable_node_def s1_def)
    qed
    have inv1: "nodes_inv parse s1" using disable_node_inv [OF Cons.prems(1), of False now "nr_id x"] dis by simp
    have rows: "r \<in> set (nt_rows s1) \<longleftrightarrow> r = ?g e \<or> (r \<in> set (nt_rows s) \<and> nr_id r \<noteq> nr_id e)" for r
    proof -
      have d: "distinct (map nr_id (nt_rows s))" using Cons.prems(1) by (simp add: nodes_inv_def)
      have "nt_rows s1 = upd_where (\<lambda>r. nr_id r = nr_id e) ?g (nt_rows s)" by (simp add: s1_def e(2))
      then show ?thesis by (simp only: upd_where_key [OF d e(1)])
    qed
    have keep: "\<exists>r' \<in> set (nt_rows s1). nr_id r' = nr_id r \<and> nr_name r' = nr_name r" if "r \<in> set (nt_rows s)" for r
    proof (cases "nr_id r = nr_id e")
      case True
      then have "r = e" using id_unique [OF Cons.prems(1) that e(1)] by simp
      then show ?thesis using rows by (intro bexI [of _ "?g e"]) auto
    qed (use that rows in blast)
    have pre: "\<forall>x \<in> set exs. \<exists>r \<in> set (nt_rows s1). nr_id r = nr_id x \<and> nr_name r = nr_name x"
      using Cons.prems(2) keep by (metis list.set_intros(2))
    from Cons.IH [OF inv1 pre, of "k + 1"] obtain s' where s':
      "disable_undeclared no_faults (k + 1) now names exs s1 = (Inr (), s')" "nodes_inv parse s'"
      "\<forall>r \<in> set (nt_rows s1). (\<forall>x \<in> set exs. nr_id x = nr_id r \<longrightarrow>
        \<not> (nr_source x = ''config'' \<and> nr_enabled x \<and> nr_name x \<notin> set names)) \<longrightarrow> r \<in> set (nt_rows s')"
      "\<forall>r \<in> set (nt_rows s'). \<exists>r0 \<in> set (nt_rows s1). nr_id r = nr_id r0 \<and> nr_name r = nr_name r0 \<and> nr_source r = nr_source r0 \<and>
        (nr_enabled r \<longrightarrow> nr_enabled r0) \<and> (nr_enabled r \<longrightarrow> (\<forall>x \<in> set exs. nr_id x = nr_id r \<longrightarrow>
          \<not> (nr_source x = ''config'' \<and> nr_enabled x \<and> nr_name x \<notin> set names)))" by blast
    have run: "disable_undeclared no_faults k now names (x # exs) s = (Inr (), s')"
      using True dis s'(1) by simp
    have A: "r \<in> set (nt_rows s')" if "r \<in> set (nt_rows s)" "\<forall>y \<in> set (x # exs). nr_id y = nr_id r \<longrightarrow>
        \<not> (nr_source y = ''config'' \<and> nr_enabled y \<and> nr_name y \<notin> set names)" for r
    proof -
      have "nr_id r \<noteq> nr_id e" using that(2) e(2) True by auto
      then show ?thesis using s'(3) that rows by simp
    qed
    have B: "\<exists>r0 \<in> set (nt_rows s). nr_id r = nr_id r0 \<and> nr_name r = nr_name r0 \<and> nr_source r = nr_source r0 \<and>
        (nr_enabled r \<longrightarrow> nr_enabled r0) \<and> (nr_enabled r \<longrightarrow> (\<forall>y \<in> set (x # exs). nr_id y = nr_id r \<longrightarrow>
          \<not> (nr_source y = ''config'' \<and> nr_enabled y \<and> nr_name y \<notin> set names)))" if "r \<in> set (nt_rows s')" for r
    proof -
      obtain r1 where r1: "r1 \<in> set (nt_rows s1)" "nr_id r = nr_id r1" "nr_name r = nr_name r1" "nr_source r = nr_source r1"
        "nr_enabled r \<longrightarrow> nr_enabled r1"
        "nr_enabled r \<longrightarrow> (\<forall>y \<in> set exs. nr_id y = nr_id r \<longrightarrow>
          \<not> (nr_source y = ''config'' \<and> nr_enabled y \<and> nr_name y \<notin> set names))" using s'(4) \<open>r \<in> set (nt_rows s')\<close> by blast
      show ?thesis
      proof (cases "r1 = ?g e")
        case True
        then have "\<not> nr_enabled r" using r1(5) by simp
        then show ?thesis using r1 True e(1) by (intro bexI [of _ e]) auto
      next
        case False
        then have "r1 \<in> set (nt_rows s)" "nr_id r1 \<noteq> nr_id x" using r1(1) rows e(2) by auto
        then show ?thesis using r1 by (intro bexI [of _ r1]) auto
      qed
    qed
    show ?thesis using run s'(2) A B by blast
  qed
qed (auto simp: retp_def)


definition no_collision :: "node_table \<Rightarrow> node_row list \<Rightarrow> bool" where
  "no_collision s declared \<longleftrightarrow>
     (\<forall>d \<in> set declared. \<forall>r \<in> set (nt_rows s). nr_name r = nr_name d \<longrightarrow> nr_source r = ''config'')"

text \<open>When the declared set loads and no declared name belongs to an API node, a sync without
  database failures succeeds; afterwards every declared node is stored as declared and enabled, no
  other config node is enabled, and every API node is untouched.\<close>

theorem sync_declared_nodes_correct:
  assumes law: "url_law parse" and inv: "nodes_inv parse s"
    and load: "load_declared parse env file ollama = Inr declared" and nocoll: "no_collision s declared"
  shows "\<exists>s'. sync_declared_nodes no_faults parse env now file ollama s = (Inr (), s') \<and> nodes_inv parse s' \<and>
    (\<forall>d \<in> set declared. \<exists>r \<in> set (nt_rows s'). declared_as d r) \<and>
    (\<forall>r \<in> set (nt_rows s'). nr_source r = ''config'' \<and> nr_enabled r \<longrightarrow> nr_name r \<in> nr_name ` set declared) \<and>
    (\<forall>r \<in> set (nt_rows s). nr_source r \<noteq> ''config'' \<longrightarrow> r \<in> set (nt_rows s'))"
proof -
  define existing where "existing = sort_key nr_id (nt_rows s)"
  have ex: "set existing = set (nt_rows s)" "distinct (map nr_name existing)"
    using inv by (auto simp: existing_def nodes_inv_def distinct_map)
  note ready = load_declared_ready [OF law load]
  obtain s1 where s1: "apply_declared no_faults 1 parse now existing declared s = (Inr (), s1)"
      "sync_inv parse s declared s1"
    using apply_declared_ok [OF inv ex _ sync_inv_start [OF inv], of declared 1 now] ready nocoll
    by (auto simp: no_collision_def)
  have pre: "\<forall>x \<in> set existing. \<exists>r \<in> set (nt_rows s1). nr_id r = nr_id x \<and> nr_name r = nr_name x"
    using s1(2) ex(1) unfolding sync_inv_def by metis
  have inv1: "nodes_inv parse s1" using s1(2) by (simp add: sync_inv_def)
  let ?off = "\<lambda>x. nr_source x = ''config'' \<and> nr_enabled x \<and> nr_name x \<notin> set (map nr_name declared)"
  obtain s' where s': "disable_undeclared no_faults (1 + length declared) now (map nr_name declared) existing s1 = (Inr (), s')"
      "nodes_inv parse s'"
      "\<forall>r \<in> set (nt_rows s1). (\<forall>x \<in> set existing. nr_id x = nr_id r \<longrightarrow> \<not> ?off x) \<longrightarrow> r \<in> set (nt_rows s')"
      "\<forall>r \<in> set (nt_rows s'). \<exists>r0 \<in> set (nt_rows s1). nr_id r = nr_id r0 \<and> nr_name r = nr_name r0 \<and> nr_source r = nr_source r0 \<and>
        (nr_enabled r \<longrightarrow> nr_enabled r0) \<and> (nr_enabled r \<longrightarrow> (\<forall>x \<in> set existing. nr_id x = nr_id r \<longrightarrow> \<not> ?off x))"
    using disable_undeclared_ok [OF inv1 pre, of "1 + length declared" now "map nr_name declared"] by blast
  have nc: "\<not> (\<exists>d \<in> set declared. \<exists>ex \<in> set_option (row_of nr_name (nr_name d) (rev existing)). nr_source ex \<noteq> ''config'')"
    using nocoll row_of_name(1) [OF inv ex] by (auto simp: no_collision_def)
  have run: "sync_declared_nodes no_faults parse env now file ollama s = (Inr (), s')"
    unfolding sync_declared_nodes_def load sum.case list_nodes_with_secrets_def no_faults_def if_False
      existing_def [symmetric] if_not_P [OF nc]
    by (rule bindp_run, rule s1(1) [unfolded no_faults_def], rule s'(1) [unfolded no_faults_def])
  have "\<exists>r \<in> set (nt_rows s'). declared_as d r" if d: "d \<in> set declared" for d
  proof -
    obtain r where r: "r \<in> set (nt_rows s1)" "declared_as d r" using s1(2) d by (auto simp: sync_inv_def)
    have "\<not> ?off x" if x: "x \<in> set existing" "nr_id x = nr_id r" for x
    proof -
      obtain r' where r': "r' \<in> set (nt_rows s1)" "nr_id r' = nr_id x" "nr_name r' = nr_name x"
        using pre x(1) by blast
      have "r' = r" by (rule id_unique [OF inv1 r'(1) r(1)]) (simp add: r'(2) x(2))
      then have "nr_name x = nr_name d" using r'(3) r(2) by (simp add: declared_as_def)
      then show ?thesis using d by simp
    qed
    then show ?thesis using s'(3) r by blast
  qed
  moreover have "nr_name r \<in> nr_name ` set declared"
    if r: "r \<in> set (nt_rows s')" "nr_source r = ''config''" "nr_enabled r" for r
  proof (rule ccontr)
    assume n: "nr_name r \<notin> nr_name ` set declared"
    obtain r1 where r1: "r1 \<in> set (nt_rows s1)" "nr_id r = nr_id r1" "nr_name r = nr_name r1" "nr_source r = nr_source r1"
        "nr_enabled r1" "\<forall>x \<in> set existing. nr_id x = nr_id r \<longrightarrow> \<not> ?off x" using s'(4) r by blast
    have "nr_name ` set (nt_rows s1) \<subseteq> nr_name ` set (nt_rows s) \<union> nr_name ` set declared"
      using s1(2) by (simp add: sync_inv_def)
    then have "nr_name r1 \<in> nr_name ` set (nt_rows s)" using r1(1,3) n by auto
    then obtain r0 where r0: "r0 \<in> set (nt_rows s)" "nr_name r0 = nr_name r1" by auto
    then have "r0 \<in> set (nt_rows s1)" using s1(2) n r1(3) unfolding sync_inv_def by metis
    then have "r0 = r1" using name_unique [OF inv1] r0(2) r1(1) by blast
    then have "?off r0" using r(2) r1(3-5) n by simp
    moreover have "r0 \<in> set existing" "nr_id r0 = nr_id r" using r0(1) ex(1) r1(2) \<open>r0 = r1\<close> by simp_all
    ultimately show False using r1(6) by blast
  qed
  moreover have "r \<in> set (nt_rows s')" if r: "r \<in> set (nt_rows s)" "nr_source r \<noteq> ''config''" for r
  proof -
    have "nr_name r \<notin> nr_name ` set declared" using nocoll r by (auto simp: no_collision_def)
    then have "r \<in> set (nt_rows s1)" using s1(2) r(1) unfolding sync_inv_def by metis
    moreover have "\<not> ?off x" if "x \<in> set existing" "nr_id x = nr_id r" for x
    proof -
      have "x = r" using id_unique [OF inv _ r(1) that(2)] that(1) ex(1) by blast
      then show ?thesis using r(2) by simp
    qed
    ultimately show ?thesis using s'(3) by blast
  qed
  ultimately show ?thesis using run s'(2) by blast
qed


definition one_url_parser :: url_parser where
  "one_url_parser x = (if x = ''http://h'' then Some \<lparr>up_scheme = ''http'', up_opaque = [], up_host = ''h'',
     up_user = False, up_query = [], up_force_query = False, up_fragment = [], up_path = []\<rparr> else None)"

lemma one_url_law: "url_law one_url_parser"
proof -
  have "trim_space ''http://h'' = ''http://h''" "to_lower ''h'' = ''h''" by code_simp+
  then show ?thesis by (simp add: url_law_def one_url_parser_def trim_right_char_def)
qed

lemma sync_declared_nodes_correct_witness:
  "\<exists>s'. sync_declared_nodes no_faults one_url_parser (\<lambda>_. None) 5 None (Some ''http://h'') no_nodes = (Inr (), s') \<and>
     (\<exists>r \<in> set (nt_rows s'). nr_name r = ''default'' \<and> nr_base_url r = ''http://h'' \<and> nr_enabled r)"
proof -
  have c: "canonicalize_base_url one_url_parser ''http://h'' = Inr ''http://h''" by code_simp
  have l: "load_declared one_url_parser (\<lambda>_. None) None (Some ''http://h'') =
      Inr [\<lparr>nr_id = 0, nr_name = ''default'', nr_base_url = ''http://h'', nr_backend = ''ollama'',
        nr_auth = None, nr_static = None, nr_health_path = None, nr_timeout = None, nr_enabled = True,
        nr_source = ''config'', nr_created = zero_time, nr_updated = zero_time\<rparr>]"
    by (simp add: load_declared_def c)
  have "no_collision no_nodes [\<lparr>nr_id = 0, nr_name = ''default'', nr_base_url = ''http://h'', nr_backend = ''ollama'',
        nr_auth = None, nr_static = None, nr_health_path = None, nr_timeout = None, nr_enabled = True,
        nr_source = ''config'', nr_created = zero_time, nr_updated = zero_time\<rparr>]"
    by (simp add: no_collision_def no_nodes_def)
  from sync_declared_nodes_correct [OF one_url_law no_nodes_inv l this, of 5]
  show ?thesis by (auto simp: declared_as_def)
qed

end
