(* ===== verification/Poller.thy ===== *)
theory Poller
  imports Registry Nodes
begin

unbundle bit_operations_syntax

text \<open>
  internal/poller: loading the enabled nodes into the registry, the probe itself, the
  hysteresis of the health state machine, and the schedule. The HTTP exchange, the JSON
  decoding and the printing and joining of URLs are parameters. The metrics gauges are not
  modelled. The parallel probes of a cycle are applied one after the other: each runs under
  the poller's mutex and touches its own node only.
\<close>

section \<open>Options and specs\<close>

record options =
  op_interval :: duration
  op_jitter :: rat
  op_probe_timeout :: duration
  op_sweep_budget :: duration
  op_max_body :: int

definition failure_threshold :: int where "failure_threshold = 2"
definition min_wait :: duration where "min_wait = 100 * millisecond"

text \<open>New: zero or negative options take the defaults.\<close>

definition new_options :: "options \<Rightarrow> options" where
  "new_options o1 = \<lparr>op_interval = (if op_interval o1 \<le> 0 then 15 * second else op_interval o1),
     op_jitter = (if op_jitter o1 \<le> 0 then rnd64 (1 / 5) else op_jitter o1),
     op_probe_timeout = (if op_probe_timeout o1 \<le> 0 then 5 * second else op_probe_timeout o1),
     op_sweep_budget = (if op_sweep_budget o1 \<le> 0 then 6 * second else op_sweep_budget o1),
     op_max_body = (if op_max_body o1 \<le> 0 then 2 ^ 20 else op_max_body o1)\<rparr>"

record node_spec =
  sp_id :: int
  sp_name :: string
  sp_url :: string
  sp_backend :: string
  sp_auth :: string
  sp_static :: "string list option"
  sp_health_path :: string

definition discovery_probe :: "node_spec \<Rightarrow> bool" where
  "discovery_probe s \<longleftrightarrow> sp_static s = None"

definition probe_url :: "(string \<Rightarrow> string \<Rightarrow> string) \<Rightarrow> node_spec \<Rightarrow> string" where
  "probe_url join_path s =
     (if \<not> discovery_probe s \<and> sp_health_path s \<noteq> [] then join_path (sp_url s) (sp_health_path s)
      else if sp_backend s = ''ollama'' then join_path (sp_url s) ''api/tags''
      else join_path (sp_url s) ''v1/models'')"

definition unit_sep :: string where
  "unit_sep = [char_of (31::nat)]"

definition spec_identity :: "node_spec \<Rightarrow> string" where
  "spec_identity s = (let i = sp_url s @ unit_sep @ sp_backend s @ unit_sep @ sp_auth s @ unit_sep @
       sp_health_path s @ unit_sep
     in case sp_static s of None \<Rightarrow> i @ ''discovery''
        | Some ms \<Rightarrow> i @ ''static'' @ unit_sep @ join_with unit_sep ms)"

section \<open>State\<close>

record node_runtime =
  rn_name :: string
  rn_identity :: string
  rn_health :: health
  rn_failures :: int
  rn_models :: "string list option"
  rn_last_probe :: gotime

record poller =
  pl_reg :: registry
  pl_state :: "int \<rightharpoonup> node_runtime"
  pl_specs :: "node_spec list"

text \<open>The environment: url.Parse and URL.String.\<close>

record url_env =
  ue_parse :: url_parser
  ue_string :: "url_parts \<Rightarrow> string"

section \<open>Loading\<close>

definition spec_of_row :: "url_env \<Rightarrow> node_row \<Rightarrow> (node_spec \<times> node) option" where
  "spec_of_row env n = (if \<not> nr_enabled n then None else
     case ue_parse env (nr_base_url n) of None \<Rightarrow> None | Some u \<Rightarrow>
     if up_scheme u = [] \<or> up_host u = [] then None else
     let url = ue_string env u; auth = (case nr_auth n of None \<Rightarrow> [] | Some a \<Rightarrow> a) in
     Some (\<lparr>sp_id = nr_id n, sp_name = nr_name n, sp_url = url, sp_backend = nr_backend n, sp_auth = auth,
             sp_static = nr_static n,
             sp_health_path = (case nr_health_path n of None \<Rightarrow> [] | Some p \<Rightarrow> p)\<rparr>,
           \<lparr>nd_id = nr_id n, nd_name = nr_name n, nd_url = Some url, nd_auth = auth,
             nd_timeout = (case nr_timeout n of None \<Rightarrow> 0 | Some t \<Rightarrow> wrap64 (t * second))\<rparr>))"

definition fresh_runtime :: "node_spec \<Rightarrow> node_runtime" where
  "fresh_runtime s = \<lparr>rn_name = sp_name s, rn_identity = spec_identity s, rn_health = HealthUnknown,
     rn_failures = 0, rn_models = None, rn_last_probe = zero_time\<rparr>"

definition unknown_result :: probe_result where
  "unknown_result = \<lparr>pb_health = HealthUnknown, pb_models = None, pb_last_error = [], pb_last_checked = zero_time\<rparr>"

definition reconcile_spec :: "node_spec \<Rightarrow> poller \<Rightarrow> poller" where
  "reconcile_spec s p = (case pl_state p (sp_id s) of
     None \<Rightarrow> p\<lparr>pl_state := (pl_state p)(sp_id s \<mapsto> fresh_runtime s)\<rparr>
   | Some st \<Rightarrow>
       let changed = (rn_identity st \<noteq> spec_identity s);
           st1 = (if changed then fresh_runtime s else st\<lparr>rn_name := sp_name s\<rparr>)
       in p\<lparr>pl_state := (pl_state p)(sp_id s \<mapsto> st1),
            pl_reg := (if changed then set_node_probe (sp_id s) unknown_result (pl_reg p) else pl_reg p)\<rparr>)"

definition reconcile :: "node_spec list \<Rightarrow> poller \<Rightarrow> poller" where
  "reconcile specs p = (let p1 = fold reconcile_spec specs p in
     p1\<lparr>pl_state := (\<lambda>i. if i \<in> sp_id ` set specs then pl_state p1 i else None), pl_specs := specs\<rparr>)"

text \<open>
  load: None when the node list cannot be read. It holds no lock across its three parts (the
  rows as they were when they were listed, SetNodes, the reconciliation), so Run, RefreshNode and
  the admin handlers can interleave there; \<open>load\<close> is one load on its own, and theory NodeRaces takes the
  parts as separate steps.
\<close>

definition listed_nodes :: "url_env \<Rightarrow> node_row list \<Rightarrow> (node_spec \<times> node) list" where
  "listed_nodes env rs = List.map_filter (spec_of_row env) rs"

definition publish_nodes :: "(node_spec \<times> node) list \<Rightarrow> poller \<Rightarrow> poller" where
  "publish_nodes both p = p\<lparr>pl_reg := set_nodes (map snd both) (pl_reg p)\<rparr>"

definition load :: "url_env \<Rightarrow> node_row list option \<Rightarrow> poller \<Rightarrow> node_spec list option \<times> poller" where
  "load env rows p = (case rows of None \<Rightarrow> (None, p)
     | Some rs \<Rightarrow> let both = listed_nodes env rs; specs = map fst both in
         (Some specs, reconcile specs (publish_nodes both p)))"

section \<open>Probing\<close>

text \<open>
  The outcome of the HTTP request: a transport error (redirects are refused, so following
  one is such an error), or a status with the body, None when reading it failed.
\<close>

datatype http_outcome = TransportError string | Response int "string option"

type_synonym probe_outcome = "string + string list"

text \<open>json.Unmarshal into the tags, respectively the list document: the names in order.\<close>

record decoders =
  dc_tags :: "string \<Rightarrow> string list option"
  dc_list :: "string \<Rightarrow> string list option"

definition parse_models :: "decoders \<Rightarrow> string \<Rightarrow> string \<Rightarrow> probe_outcome" where
  "parse_models dc backend body =
     (case (if backend = ''ollama'' then dc_tags dc body else dc_list dc body) of
        None \<Rightarrow> Inl ''parse response''
      | Some names \<Rightarrow> Inr (filter (\<lambda>n. n \<noteq> []) names))"

text \<open>io.LimitReader(r, limit + 1) keeps at most limit + 1 bytes.\<close>

definition read_capped :: "string option \<Rightarrow> int \<Rightarrow> string + string" where
  "read_capped body limit = (case body of None \<Rightarrow> Inl ''read probe response''
     | Some b \<Rightarrow> let b1 = take (nat (limit + 1)) b in
         if limit < int (length b1) then Inl ''probe response body exceeds limit'' else Inr b1)"

definition probe :: "decoders \<Rightarrow> options \<Rightarrow> node_spec \<Rightarrow> http_outcome \<Rightarrow> probe_outcome" where
  "probe dc opts s out = (case out of
     TransportError e \<Rightarrow> Inl e
   | Response status body \<Rightarrow>
       if status < 200 \<or> 299 < status then Inl ''probe returned status''
       else if \<not> discovery_probe s then Inr (the (sp_static s))
       else (case read_capped body (op_max_body opts) of Inl e \<Rightarrow> Inl e
             | Inr b \<Rightarrow> parse_models dc (sp_backend s) b))"

text \<open>apply: the state machine on one probe outcome.\<close>

definition next_runtime :: "gotime \<Rightarrow> bool \<Rightarrow> probe_outcome \<Rightarrow> node_runtime \<Rightarrow> node_runtime" where
  "next_runtime now sweep out st = (case out of
     Inr models \<Rightarrow> st\<lparr>rn_failures := 0, rn_health := HealthHealthy, rn_models := Some models, rn_last_probe := now\<rparr>
   | Inl e \<Rightarrow> let f = rn_failures st + 1 in
       st\<lparr>rn_failures := f,
          rn_health := (if sweep \<or> failure_threshold \<le> f then HealthUnhealthy else rn_health st),
          rn_last_probe := now\<rparr>)"

definition apply_probe :: "gotime \<Rightarrow> bool \<Rightarrow> node_spec \<Rightarrow> probe_outcome \<Rightarrow> poller \<Rightarrow> poller" where
  "apply_probe now sweep s out p = (case pl_state p (sp_id s) of None \<Rightarrow> p
   | Some st \<Rightarrow> let st1 = next_runtime now sweep out st in
       p\<lparr>pl_state := (pl_state p)(sp_id s \<mapsto> st1),
         pl_reg := set_node_probe (sp_id s) \<lparr>pb_health = rn_health st1, pb_models = rn_models st1,
           pb_last_error = (case out of Inl e \<Rightarrow> e | Inr _ \<Rightarrow> []), pb_last_checked = now\<rparr> (pl_reg p)\<rparr>)"

text \<open>
  A cycle is given, per node, the time at which its probe is applied and the HTTP outcome.
\<close>

record world =
  w_clock :: "int \<Rightarrow> gotime"
  w_http :: "int \<Rightarrow> http_outcome"

definition probe_specs :: "decoders \<Rightarrow> options \<Rightarrow> world \<Rightarrow> bool \<Rightarrow> node_spec list \<Rightarrow> poller \<Rightarrow> poller" where
  "probe_specs dc opts w sweep specs p =
     fold (\<lambda>s. apply_probe (w_clock w (sp_id s)) sweep s (probe dc opts s (w_http w (sp_id s)))) specs p"

definition sweep_once :: "url_env \<Rightarrow> decoders \<Rightarrow> options \<Rightarrow> world \<Rightarrow> node_row list option \<Rightarrow> poller \<Rightarrow> bool \<times> poller" where
  "sweep_once env dc opts w rows p = (case load env rows p of (None, p1) \<Rightarrow> (False, p1)
     | (Some specs, p1) \<Rightarrow> (True, probe_specs dc opts w True specs p1))"

definition refresh_node :: "url_env \<Rightarrow> decoders \<Rightarrow> options \<Rightarrow> world \<Rightarrow> node_row list option \<Rightarrow> int \<Rightarrow> poller \<Rightarrow> bool \<times> poller" where
  "refresh_node env dc opts w rows i p = (case load env rows p of (None, p1) \<Rightarrow> (False, p1)
     | (Some specs, p1) \<Rightarrow> (True, case find (\<lambda>s. sp_id s = i) specs of None \<Rightarrow> p1
         | Some s \<Rightarrow> apply_probe (w_clock w i) True s (probe dc opts s (w_http w i)) p1))"

section \<open>Scheduling\<close>

definition fnv_offset :: "64 word" where "fnv_offset = 14695981039346656037"
definition fnv_prime :: "64 word" where "fnv_prime = 1099511628211"

text \<open>fnv.New64a over the eight little-endian bytes of the id.\<close>

definition id_bytes :: "int \<Rightarrow> 64 word list" where
  "id_bytes i = map (\<lambda>k. drop_bit (8 * k) (word_of_int i) AND 255) [0..<8]"

definition fnv1a :: "64 word list \<Rightarrow> 64 word" where
  "fnv1a bs = fold (\<lambda>b h. (h XOR b) * fnv_prime) bs fnv_offset"

text \<open>The conversion of a float64 to int64 truncates.\<close>

definition trunc :: "rat \<Rightarrow> int" where
  "trunc q = (if 0 \<le> q then \<lfloor>q\<rfloor> else \<lceil>q\<rceil>)"

definition jitter_frac :: "int \<Rightarrow> rat" where
  "jitter_frac i = fsub (fdivc (f_of_int (uint (fnv1a (id_bytes i) mod 2048))) (2047 / 2)) 1"

definition interval_for :: "options \<Rightarrow> int \<Rightarrow> duration" where
  "interval_for opts i = trunc (fmul (f_of_int (op_interval opts)) (fadd 1 (fmul (op_jitter opts) (jitter_frac i))))"

definition next_due :: "options \<Rightarrow> poller \<Rightarrow> int \<Rightarrow> gotime" where
  "next_due opts p i = (case pl_state p i of None \<Rightarrow> zero_time
     | Some st \<Rightarrow> if rn_last_probe st = zero_time then zero_time else rn_last_probe st + interval_for opts i)"

text \<open>
  pollCycle. The clock is read at the start of the cycle (t0), twice after the probes
  (t1, t2); \<open>rows\<close> is the result of the reload.
\<close>

definition due_specs :: "options \<Rightarrow> poller \<Rightarrow> gotime \<Rightarrow> node_spec list \<Rightarrow> node_spec list" where
  "due_specs opts p t0 specs = filter (\<lambda>s. \<not> t0 < next_due opts p (sp_id s)) specs"

definition poll_cycle :: "url_env \<Rightarrow> decoders \<Rightarrow> options \<Rightarrow> world \<Rightarrow> node_row list option \<Rightarrow>
    gotime \<Rightarrow> gotime \<Rightarrow> gotime \<Rightarrow> poller \<Rightarrow> duration \<times> poller" where
  "poll_cycle env dc opts w rows t0 t1 t2 p =
     (let (res, p1) = load env rows p;
          specs = (case res of Some ss \<Rightarrow> ss | None \<Rightarrow> pl_specs p1);
          p2 = probe_specs dc opts w False (due_specs opts p1 t0 specs) p1;
          wake = fold (\<lambda>s n. min n (next_due opts p2 (sp_id s))) specs (t1 + op_interval opts)
      in (max min_wait (time_sub wake t2), p2))"


section \<open>The registry shows the poller's state\<close>

text \<open>
  The agreement kept by every operation: the poller tracks exactly the declared nodes, and the
  registry entry of each carries the health and the models of the state machine.
\<close>

definition agrees :: "poller \<Rightarrow> bool" where
  "agrees p \<longleftrightarrow> registry_inv (pl_reg p) \<and> dom (pl_state p) = known_ids (pl_reg p) \<and>
     (\<forall>e \<in> set (rg_entries (pl_reg p)). \<forall>st. pl_state p (entry_id e) = Some st \<longrightarrow>
        ns_health e = rn_health st \<and> ns_models e = rn_models st)"

lemma set_node_probe_entries:
  "i \<in> known_ids r \<Longrightarrow> set (rg_entries (set_node_probe i q r)) =
     (\<lambda>e. if entry_id e = i then e\<lparr>ns_health := pb_health q, ns_models := pb_models q,
        ns_last_error := pb_last_error q, ns_last_checked := pb_last_checked q\<rparr> else e) ` set (rg_entries r)"
  by (simp add: set_node_probe_def upd_entry_entries set_upd_where del: entry_id_def)

lemma agrees_probe:
  assumes "agrees p" "i \<in> dom (pl_state p)"
    and "pl_reg p' = set_node_probe i q (pl_reg p)" "pl_state p' = (pl_state p)(i \<mapsto> st)"
    and "pb_health q = rn_health st" "pb_models q = rn_models st"
  shows "agrees p'"
proof -
  have inv: "registry_inv (pl_reg p)" and known: "i \<in> known_ids (pl_reg p)"
    using assms(1,2) by (simp_all add: agrees_def)
  have "registry_inv (pl_reg p')" unfolding assms(3) by (rule reg.ok_report [OF inv])
  moreover have "known_ids (pl_reg p') = known_ids (pl_reg p)" unfolding assms(3) by (rule reg.known_report)
  moreover have "ns_health e = rn_health x \<and> ns_models e = rn_models x"
    if e: "e \<in> set (rg_entries (pl_reg p'))" "pl_state p' (entry_id e) = Some x" for e x
  proof -
    obtain e0 where e0: "e0 \<in> set (rg_entries (pl_reg p))" "e = (if entry_id e0 = i then e0\<lparr>ns_health := pb_health q,
        ns_models := pb_models q, ns_last_error := pb_last_error q, ns_last_checked := pb_last_checked q\<rparr> else e0)"
      using e(1) unfolding assms(3) set_node_probe_entries [OF known] by blast
    show ?thesis
    proof (cases "entry_id e0 = i")
      case True
      then show ?thesis using e(2) e0(2) assms(4-6) by simp
    next
      case False
      then have "pl_state p (entry_id e0) = Some x" using e(2) e0(2) assms(4) by simp
      then show ?thesis using assms(1) e0 False by (auto simp: agrees_def simp del: entry_id_def)
    qed
  qed
  moreover have "dom (pl_state p') = dom (pl_state p)" using assms(2,4) by auto
  ultimately show ?thesis using assms(1) unfolding agrees_def by simp
qed

lemma apply_probe_Some:
  "pl_state p (sp_id s) = Some st \<Longrightarrow> apply_probe now sweep s out p =
     p\<lparr>pl_state := (pl_state p)(sp_id s \<mapsto> next_runtime now sweep out st),
       pl_reg := set_node_probe (sp_id s) \<lparr>pb_health = rn_health (next_runtime now sweep out st),
         pb_models = rn_models (next_runtime now sweep out st),
         pb_last_error = (case out of Inl e \<Rightarrow> e | Inr _ \<Rightarrow> []), pb_last_checked = now\<rparr> (pl_reg p)\<rparr>"
  by (simp add: apply_probe_def Let_def)

lemma apply_probe_None: "pl_state p (sp_id s) = None \<Longrightarrow> apply_probe now sweep s out p = p"
  by (simp add: apply_probe_def)

lemma apply_probe_agrees: assumes a: "agrees p" shows "agrees (apply_probe now sweep s out p)"
proof (cases "pl_state p (sp_id s)")
  case (Some st)
  have d: "sp_id s \<in> dom (pl_state p)" using Some by (simp add: domIff)
  show ?thesis unfolding apply_probe_Some [OF Some]
    by (rule agrees_probe [OF a d], simp, simp, simp, simp)
qed (simp add: apply_probe_None a)

lemma probe_specs_agrees: "agrees p \<Longrightarrow> agrees (probe_specs dc opts w sweep specs p)"
  unfolding probe_specs_def by (induction specs arbitrary: p) (simp_all add: apply_probe_agrees)

text \<open>URL.String never yields a raw control character, so an identity determines its URL.\<close>

definition url_string_law :: "url_env \<Rightarrow> bool" where
  "url_string_law env \<longleftrightarrow> (\<forall>u. char_of (31::nat) \<notin> set (ue_string env u))"

lemma append_sep_inj:
  "a @ c # x = b @ c # y \<Longrightarrow> c \<notin> set a \<Longrightarrow> c \<notin> set b \<Longrightarrow> a = b"
  by (induction a arbitrary: b) (auto simp: Cons_eq_append_conv append_eq_Cons_conv)

lemma identity_url:
  assumes "spec_identity s = spec_identity t"
    and "char_of (31::nat) \<notin> set (sp_url s)" "char_of (31::nat) \<notin> set (sp_url t)"
  shows "sp_url s = sp_url t"
proof -
  have i: "\<exists>x. spec_identity s = sp_url s @ unit_sep @ x" for s
    by (cases "sp_static s") (simp_all only: spec_identity_def Let_def option.case append_assoc, blast+)
  obtain x where x: "spec_identity s = sp_url s @ unit_sep @ x" using i by blast
  obtain y where y: "spec_identity t = sp_url t @ unit_sep @ y" using i by blast
  have "sp_url s @ char_of (31::nat) # x = sp_url t @ char_of (31::nat) # y"
    using assms(1) unfolding x y unit_sep_def by (simp only: append_Cons append_Nil)
  then show ?thesis by (rule append_sep_inj [OF _ assms(2,3)])
qed

text \<open>
  What relates the runtime of a node to its registry node: the identity is that of a spec with
  the URL the registry has.
\<close>

definition urls_agree :: "poller \<Rightarrow> bool" where
  "urls_agree p \<longleftrightarrow> (\<forall>e \<in> set (rg_entries (pl_reg p)). \<forall>st. pl_state p (entry_id e) = Some st \<longrightarrow>
     (\<exists>s. rn_identity st = spec_identity s \<and> char_of (31::nat) \<notin> set (sp_url s) \<and>
          nd_url (ns_node e) = Some (sp_url s)))"

definition poller_ok :: "poller \<Rightarrow> bool" where
  "poller_ok p \<longleftrightarrow> agrees p \<and> urls_agree p"

lemma apply_probe_urls: "agrees p \<Longrightarrow> urls_agree p \<Longrightarrow> urls_agree (apply_probe now sweep s out p)"
proof (cases "pl_state p (sp_id s)")
  case (Some st)
  assume a: "agrees p" and u: "urls_agree p"
  have known: "sp_id s \<in> known_ids (pl_reg p)" using a Some by (auto simp: agrees_def)
  have i: "rn_identity (next_runtime now sweep out st) = rn_identity st"
    by (simp add: next_runtime_def Let_def split: sum.split)
  show ?thesis unfolding urls_agree_def
  proof (intro ballI allI impI)
    fix e x assume e: "e \<in> set (rg_entries (pl_reg (apply_probe now sweep s out p)))"
      "pl_state (apply_probe now sweep s out p) (entry_id e) = Some x"
    then obtain e0 where e0: "e0 \<in> set (rg_entries (pl_reg p))" "ns_node e = ns_node e0"
      using Some by (auto simp: apply_probe_def Let_def set_node_probe_entries [OF known])
    obtain y where y: "pl_state p (entry_id e0) = Some y" "rn_identity y = rn_identity x"
      using e(2) e0(2) Some i by (auto simp: apply_probe_def Let_def split: if_splits)
    have "\<exists>s. rn_identity y = spec_identity s \<and> char_of (31::nat) \<notin> set (sp_url s) \<and> nd_url (ns_node e0) = Some (sp_url s)"
      using u e0(1) y(1) unfolding urls_agree_def by blast
    then show "\<exists>s. rn_identity x = spec_identity s \<and> char_of (31::nat) \<notin> set (sp_url s) \<and> nd_url (ns_node e) = Some (sp_url s)"
      unfolding y(2) e0(2) .
  qed
qed (simp add: apply_probe_def)


definition entry_ok :: "node_state \<Rightarrow> node_runtime \<Rightarrow> bool" where
  "entry_ok e st \<longleftrightarrow> ns_health e = rn_health st \<and> ns_models e = rn_models st \<and>
     (\<exists>s. rn_identity st = spec_identity s \<and> char_of (31::nat) \<notin> set (sp_url s) \<and>
        nd_url (ns_node e) = Some (sp_url s))"

definition id_ok :: "poller \<Rightarrow> int \<Rightarrow> bool" where
  "id_ok p i \<longleftrightarrow> (\<exists>st. pl_state p i = Some st \<and>
     (\<forall>e \<in> set (rg_entries (pl_reg p)). entry_id e = i \<longrightarrow> entry_ok e st))"

lemma poller_ok_iff:
  "poller_ok p \<longleftrightarrow> registry_inv (pl_reg p) \<and> dom (pl_state p) = known_ids (pl_reg p) \<and>
     (\<forall>i \<in> known_ids (pl_reg p). id_ok p i)"
proof
  assume "poller_ok p"
  then show "registry_inv (pl_reg p) \<and> dom (pl_state p) = known_ids (pl_reg p) \<and>
      (\<forall>i \<in> known_ids (pl_reg p). id_ok p i)"
    unfolding poller_ok_def agrees_def urls_agree_def id_ok_def entry_ok_def by (metis domIff not_None_eq)
next
  assume a: "registry_inv (pl_reg p) \<and> dom (pl_state p) = known_ids (pl_reg p) \<and>
      (\<forall>i \<in> known_ids (pl_reg p). id_ok p i)"
  have "entry_ok e st" if "e \<in> set (rg_entries (pl_reg p))" "pl_state p (entry_id e) = Some st" for e st
  proof -
    have "entry_id e \<in> known_ids (pl_reg p)" using that(1) unfolding known_ids_def by (rule imageI)
    then have "id_ok p (entry_id e)" using a by blast
    then show ?thesis using that unfolding id_ok_def by simp
  qed
  then show "poller_ok p" using a unfolding poller_ok_def agrees_def urls_agree_def entry_ok_def by blast
qed

text \<open>What SetNodes leaves for the reconciliation of one spec.\<close>

definition spec_pre :: "poller \<Rightarrow> node_spec \<Rightarrow> bool" where
  "spec_pre p s \<longleftrightarrow> sp_id s \<in> known_ids (pl_reg p) \<and> char_of (31::nat) \<notin> set (sp_url s) \<and>
     (\<forall>e \<in> set (rg_entries (pl_reg p)). entry_id e = sp_id s \<longrightarrow> nd_url (ns_node e) = Some (sp_url s) \<and>
        (case pl_state p (sp_id s) of None \<Rightarrow> ns_health e = HealthUnknown \<and> ns_models e = None
         | Some st \<Rightarrow> rn_identity st = spec_identity s \<longrightarrow> ns_health e = rn_health st \<and> ns_models e = rn_models st))"

lemma fresh_entry_ok:
  "ns_health e = HealthUnknown \<Longrightarrow> ns_models e = None \<Longrightarrow> nd_url (ns_node e) = Some (sp_url s) \<Longrightarrow>
   char_of (31::nat) \<notin> set (sp_url s) \<Longrightarrow> entry_ok e (fresh_runtime s)"
  unfolding entry_ok_def fresh_runtime_def by auto

lemma reconcile_spec_same:
  "pl_state p (sp_id s) = Some st \<Longrightarrow> rn_identity st = spec_identity s \<Longrightarrow>
   reconcile_spec s p = p\<lparr>pl_state := (pl_state p)(sp_id s \<mapsto> st\<lparr>rn_name := sp_name s\<rparr>)\<rparr>"
  by (simp add: reconcile_spec_def Let_def)

lemma reconcile_spec_changed:
  "pl_state p (sp_id s) = Some st \<Longrightarrow> rn_identity st \<noteq> spec_identity s \<Longrightarrow>
   reconcile_spec s p = p\<lparr>pl_state := (pl_state p)(sp_id s \<mapsto> fresh_runtime s),
     pl_reg := set_node_probe (sp_id s) unknown_result (pl_reg p)\<rparr>"
  by (simp add: reconcile_spec_def Let_def)

lemma reconcile_spec_new:
  "pl_state p (sp_id s) = None \<Longrightarrow>
   reconcile_spec s p = p\<lparr>pl_state := (pl_state p)(sp_id s \<mapsto> fresh_runtime s)\<rparr>"
  by (simp add: reconcile_spec_def)

lemma reconcile_spec_ok:
  assumes inv: "registry_inv (pl_reg p)" and pre: "spec_pre p s"
  shows "registry_inv (pl_reg (reconcile_spec s p))" "known_ids (pl_reg (reconcile_spec s p)) = known_ids (pl_reg p)"
    "id_ok (reconcile_spec s p) (sp_id s)"
    "i \<noteq> sp_id s \<Longrightarrow> id_ok (reconcile_spec s p) i = id_ok p i"
    "sp_id t \<noteq> sp_id s \<Longrightarrow> spec_pre (reconcile_spec s p) t = spec_pre p t"
proof -
  have known: "sp_id s \<in> known_ids (pl_reg p)" using pre by (simp add: spec_pre_def)
  let ?f = "\<lambda>e. if entry_id e = sp_id s then e\<lparr>ns_health := HealthUnknown, ns_models := None,
      ns_last_error := [], ns_last_checked := zero_time\<rparr> else e"
  have r: "registry_inv (set_node_probe (sp_id s) unknown_result (pl_reg p))"
    "known_ids (set_node_probe (sp_id s) unknown_result (pl_reg p)) = known_ids (pl_reg p)"
    by (rule reg.ok_report [OF inv], rule reg.known_report)
  have es: "set (rg_entries (set_node_probe (sp_id s) unknown_result (pl_reg p))) = ?f ` set (rg_entries (pl_reg p))"
    by (simp add: set_node_probe_entries [OF known] unknown_result_def)
  consider (new) "pl_state p (sp_id s) = None"
    | (same) st where "pl_state p (sp_id s) = Some st" "rn_identity st = spec_identity s"
    | (changed) st where "pl_state p (sp_id s) = Some st" "rn_identity st \<noteq> spec_identity s"
    by (cases "pl_state p (sp_id s)") auto
  note cs = this
  show "registry_inv (pl_reg (reconcile_spec s p))" "known_ids (pl_reg (reconcile_spec s p)) = known_ids (pl_reg p)"
    using cs by (cases; simp add: reconcile_spec_new reconcile_spec_same reconcile_spec_changed inv r)+
  show "id_ok (reconcile_spec s p) (sp_id s)"
    using cs
  proof cases
    case new
    then show ?thesis using pre unfolding reconcile_spec_new [OF new]
      by (auto simp: id_ok_def spec_pre_def intro: fresh_entry_ok)
  next
    case (same st)
    then show ?thesis using pre unfolding reconcile_spec_same [OF same]
      by (auto simp: id_ok_def spec_pre_def entry_ok_def)
  next
    case (changed st)
    show ?thesis using pre unfolding reconcile_spec_changed [OF changed] id_ok_def
      by (auto simp: spec_pre_def es intro!: fresh_entry_ok)
  qed
  show "id_ok (reconcile_spec s p) i = id_ok p i" if "i \<noteq> sp_id s"
    using cs that by (cases; simp add: reconcile_spec_new reconcile_spec_same reconcile_spec_changed id_ok_def es ball_simps)
       (fastforce)?
  show "spec_pre (reconcile_spec s p) t = spec_pre p t" if "sp_id t \<noteq> sp_id s"
    using cs that by (cases; simp add: reconcile_spec_new reconcile_spec_same reconcile_spec_changed spec_pre_def r es ball_simps)
       (fastforce)?
qed


lemma fold_reconcile_ok:
  assumes "registry_inv (pl_reg p)" "\<forall>s \<in> set specs. spec_pre p s" "distinct (map sp_id specs)"
  shows "registry_inv (pl_reg (fold reconcile_spec specs p))"
    "known_ids (pl_reg (fold reconcile_spec specs p)) = known_ids (pl_reg p)"
    "i \<in> sp_id ` set specs \<or> id_ok p i \<Longrightarrow> id_ok (fold reconcile_spec specs p) i"
proof -
  have "registry_inv (pl_reg (fold reconcile_spec specs p)) \<and>
      known_ids (pl_reg (fold reconcile_spec specs p)) = known_ids (pl_reg p) \<and>
      (\<forall>i. i \<in> sp_id ` set specs \<or> id_ok p i \<longrightarrow> id_ok (fold reconcile_spec specs p) i)"
    using assms
  proof (induction specs arbitrary: p)
    case (Cons s specs)
    note step = reconcile_spec_ok [OF Cons.prems(1), of s]
    have pre: "spec_pre p s" using Cons.prems(2) by simp
    have neq: "sp_id t \<noteq> sp_id s" if "t \<in> set specs" for t
      using Cons.prems(3) imageI [OF that, of sp_id] by auto
    have "\<forall>t \<in> set specs. spec_pre (reconcile_spec s p) t"
      using Cons.prems(2) step(5) [OF pre] neq by simp
    from Cons.IH [OF step(1) [OF pre] this] Cons.prems(3)
    have ih: "registry_inv (pl_reg (fold reconcile_spec specs (reconcile_spec s p)))"
      "known_ids (pl_reg (fold reconcile_spec specs (reconcile_spec s p))) = known_ids (pl_reg (reconcile_spec s p))"
      "\<forall>i. i \<in> sp_id ` set specs \<or> id_ok (reconcile_spec s p) i \<longrightarrow> id_ok (fold reconcile_spec specs (reconcile_spec s p)) i"
      by simp_all
    have "id_ok (reconcile_spec s p) i" if "i = sp_id s \<or> id_ok p i" for i
      using step(3) [OF pre] step(4) [OF pre, of i] that by (cases "i = sp_id s") simp_all
    then have k: "id_ok (fold reconcile_spec specs (reconcile_spec s p)) i"
      if "i \<in> sp_id ` set (s # specs) \<or> id_ok p i" for i
      using ih(3) that by auto
    show ?case using ih(1,2) step(2) [OF pre] k by simp
  qed simp
  then show "registry_inv (pl_reg (fold reconcile_spec specs p))"
    "known_ids (pl_reg (fold reconcile_spec specs p)) = known_ids (pl_reg p)"
    "i \<in> sp_id ` set specs \<or> id_ok p i \<Longrightarrow> id_ok (fold reconcile_spec specs p) i" by blast+
qed

lemma spec_of_row_Some:
  assumes "spec_of_row env n = Some (s, nd)"
  shows "nd_id nd = sp_id s" "nd_url nd = Some (sp_url s)" "sp_id s = nr_id n" "\<exists>u. sp_url s = ue_string env u"
  using assms by (auto simp: spec_of_row_def Let_def split: if_splits option.splits)

lemma map_filter_rows:
  "distinct (map nr_id rs) \<Longrightarrow> distinct (map (\<lambda>x. sp_id (fst x)) (List.map_filter (spec_of_row env) rs)) \<and>
     (\<forall>x \<in> set (List.map_filter (spec_of_row env) rs). \<exists>n \<in> set rs. spec_of_row env n = Some x)"
proof (induction rs)
  case (Cons n rs)
  then have ih: "distinct (map (\<lambda>x. sp_id (fst x)) (List.map_filter (spec_of_row env) rs))"
      "\<forall>x \<in> set (List.map_filter (spec_of_row env) rs). \<exists>n \<in> set rs. spec_of_row env n = Some x" by auto
  show ?case
  proof (cases "spec_of_row env n")
    case None
    then show ?thesis using ih by (auto simp: map_filter_simps)
  next
    case (Some x)
    have "sp_id (fst y) \<noteq> sp_id (fst x)" if y: "y \<in> set (List.map_filter (spec_of_row env) rs)" for y
    proof -
      obtain m where m: "m \<in> set rs" "spec_of_row env m = Some y" using ih(2) y by blast
      have "nr_id m \<noteq> nr_id n" using Cons.prems imageI [OF m(1), of nr_id] by auto
      moreover have "sp_id (fst y) = nr_id m" by (rule spec_of_row_Some(3) [of env m _ "snd y"]) (simp add: m(2))
      moreover have "sp_id (fst x) = nr_id n" by (rule spec_of_row_Some(3) [of env n _ "snd x"]) (simp add: Some)
      ultimately show ?thesis by simp
    qed
    then have "sp_id (fst x) \<notin> (\<lambda>x. sp_id (fst x)) ` set (List.map_filter (spec_of_row env) rs)"
      by (metis (no_types, lifting) imageE)
    then show ?thesis using ih Some by (simp add: map_filter_simps)
  qed
qed (simp add: map_filter_simps)

lemma load_ok:
  assumes law: "url_string_law env" and ok: "poller_ok p"
    and rows: "\<forall>rs. rows = Some rs \<longrightarrow> distinct (map nr_id rs)"
  shows "poller_ok (snd (load env rows p))"
proof (cases rows)
  case None
  then show ?thesis using ok by (simp add: load_def listed_nodes_def publish_nodes_def)
next
  case (Some rs)
  define both where "both = List.map_filter (spec_of_row env) rs"
  define specs where "specs = map fst both"
  define p0 where "p0 = p\<lparr>pl_reg := set_nodes (map snd both) (pl_reg p)\<rparr>"
  define p1 where "p1 = fold reconcile_spec specs p0"
  have b: "distinct (map sp_id specs)" "\<forall>x \<in> set both. \<exists>n. spec_of_row env n = Some x"
    using map_filter_rows [of rs env] rows Some by (auto simp: both_def specs_def comp_def)
  have sx: "nd_id (snd x) = sp_id (fst x)" "nd_url (snd x) = Some (sp_url (fst x))"
    "char_of (31::nat) \<notin> set (sp_url (fst x))" if x: "x \<in> set both" for x
  proof -
    obtain n where n: "spec_of_row env n = Some (fst x, snd x)" using b(2) x by auto
    show "nd_id (snd x) = sp_id (fst x)" "nd_url (snd x) = Some (sp_url (fst x))"
      using spec_of_row_Some [OF n] by simp_all
    show "char_of (31::nat) \<notin> set (sp_url (fst x))"
      using spec_of_row_Some(4) [OF n] law unfolding url_string_law_def by metis
  qed
  have ids: "nd_id ` set (map snd both) = sp_id ` set specs"
    using sx(1) by (force simp: specs_def image_iff)
  have inv0: "registry_inv (pl_reg p0)" unfolding p0_def by (simp add: set_nodes_inv)
  have known0: "known_ids (pl_reg p0) = sp_id ` set specs"
    using reg.known_declare [of "map snd both" "pl_reg p"] ids by (simp add: p0_def)
  have pre: "spec_pre p0 s" if s: "s \<in> set specs" for s
  proof -
    obtain x where x: "x \<in> set both" "s = fst x" using s by (auto simp: specs_def)
    have uniq: "y = x" if y: "y \<in> set both" "sp_id (fst y) = sp_id s" for y
    proof -
      have "inj_on (\<lambda>x. sp_id (fst x)) (set both)" using b(1) by (simp add: specs_def distinct_map comp_def)
      then show ?thesis using y x by (auto dest: inj_onD)
    qed
    have "nd_url (ns_node e) = Some (sp_url s) \<and>
        (case pl_state p0 (sp_id s) of None \<Rightarrow> ns_health e = HealthUnknown \<and> ns_models e = None
         | Some st \<Rightarrow> rn_identity st = spec_identity s \<longrightarrow> ns_health e = rn_health st \<and> ns_models e = rn_models st)"
      if e: "e \<in> set (rg_entries (pl_reg p0))" "entry_id e = sp_id s" for e
    proof -
      have "e \<in> set (rg_entries (set_nodes (map snd both) (pl_reg p)))" using e(1) by (simp add: p0_def)
      from set_nodes_entries [OF this] obtain y where y: "y \<in> set both" "e = declared_entry (rg_entries (pl_reg p)) (snd y)" by auto
      have "sp_id (fst y) = sp_id s" using e(2) y sx(1) [OF y(1)] by simp
      then have yx: "y = x" using uniq y(1) by blast
      have u: "nd_url (ns_node e) = Some (sp_url s)" using y yx x sx(2) by simp
      show ?thesis
      proof (cases "pl_state p (sp_id s)")
        case None
        then have "sp_id s \<notin> known_ids (pl_reg p)" using ok by (auto simp: poller_ok_def agrees_def)
        then have "row_of entry_id (sp_id s) (rg_entries (pl_reg p)) = None"
          unfolding row_of_None known_ids_def by (metis imageI)
        then show ?thesis using y yx x sx(1) [OF x(1)] u None by (simp add: declared_entry_def p0_def)
      next
        case (Some st)
        then have k: "sp_id s \<in> known_ids (pl_reg p)" using ok by (auto simp: poller_ok_def agrees_def)
        then obtain prev where prev: "prev \<in> set (rg_entries (pl_reg p))" "entry_id prev = sp_id s"
          by (auto simp: known_ids_def)
        have eo: "entry_ok prev st" using ok k Some prev by (auto simp: poller_ok_iff id_ok_def)
        have row: "row_of entry_id (sp_id s) (rg_entries (pl_reg p)) = Some prev"
          using row_of_entry [of "pl_reg p"] ok prev by (auto simp: poller_ok_iff)
        have "ns_health e = rn_health st \<and> ns_models e = rn_models st" if i: "rn_identity st = spec_identity s"
        proof -
          obtain t where t: "rn_identity st = spec_identity t" "char_of (31::nat) \<notin> set (sp_url t)"
            "nd_url (ns_node prev) = Some (sp_url t)" using eo by (auto simp: entry_ok_def)
          have "sp_url t = sp_url s" using identity_url [of t s] i t sx(3) [OF x(1)] x(2) by simp
          then have "e = prev\<lparr>ns_node := snd x\<rparr>"
            using y yx x sx(1,2) [OF x(1)] row t(3) by (simp add: declared_entry_def)
          then show ?thesis using eo by (simp add: entry_ok_def)
        qed
        then show ?thesis using u Some by (simp add: p0_def)
      qed
    qed
    then show ?thesis using s known0 x sx(3) by (auto simp: spec_pre_def)
  qed
  note f = fold_reconcile_ok [OF inv0 _ b(1), folded p1_def]
  have q: "snd (load env rows p) = p1\<lparr>pl_state := (\<lambda>i. if i \<in> sp_id ` set specs then pl_state p1 i else None), pl_specs := specs\<rparr>"
    unfolding load_def listed_nodes_def publish_nodes_def Some p1_def p0_def specs_def both_def by (simp add: Let_def reconcile_def)
  have ok1: "id_ok p1 i" if "i \<in> sp_id ` set specs" for i using f(3) pre that by blast
  let ?q = "p1\<lparr>pl_state := (\<lambda>i. if i \<in> sp_id ` set specs then pl_state p1 i else None), pl_specs := specs\<rparr>"
  have k: "known_ids (pl_reg ?q) = sp_id ` set specs" using f(2) pre known0 by simp
  have "id_ok ?q i" if "i \<in> sp_id ` set specs" for i
    using ok1 [OF that] that by (simp add: id_ok_def)
  moreover have "dom (pl_state ?q) = sp_id ` set specs"
  proof -
    have "pl_state p1 i \<noteq> None" if "i \<in> sp_id ` set specs" for i
      using ok1 [OF that] unfolding id_ok_def by auto
    then show ?thesis by (auto simp: dom_def split: if_splits)
  qed
  ultimately show ?thesis unfolding q poller_ok_iff k using f(1) pre by simp
qed



definition new_poller :: poller where
  "new_poller = \<lparr>pl_reg = new_registry, pl_state = Map.empty, pl_specs = []\<rparr>"

lemma new_poller_ok [simp]: "poller_ok new_poller"
  by (simp add: poller_ok_def agrees_def urls_agree_def new_poller_def new_registry_def registry_inv_def
      snapshot_of_def known_ids_def)

definition one_url_env :: url_env where
  "one_url_env = \<lparr>ue_parse = one_url_parser, ue_string = (\<lambda>_. ''http://h'')\<rparr>"

lemma one_url_string_law: "url_string_law one_url_env"
proof -
  have "char_of (31::nat) \<notin> set ''http://h''" by code_simp
  then show ?thesis by (simp only: url_string_law_def one_url_env_def url_env.simps simp_thms)
qed

definition one_world :: world where
  "one_world = \<lparr>w_clock = (\<lambda>_. 1), w_http = (\<lambda>_. Response 200 (Some ''b''))\<rparr>"

definition one_decoder :: decoders where
  "one_decoder = \<lparr>dc_tags = (\<lambda>_. Some [''m'']), dc_list = (\<lambda>_. None)\<rparr>"

definition default_options :: options where
  "default_options = new_options \<lparr>op_interval = 0, op_jitter = 0, op_probe_timeout = 0, op_sweep_budget = 0, op_max_body = 0\<rparr>"


section \<open>Hysteresis\<close>

definition trailing_failures :: "probe_outcome list \<Rightarrow> nat" where
  "trailing_failures os = length (takeWhile isl (rev os))"

text \<open>In the running loop a healthy node is demoted exactly when its last two probes (or more) failed,
  and any success makes it healthy at once.\<close>

theorem hysteresis:
  assumes "rn_health st = HealthHealthy" "rn_failures st = 0"
  shows "rn_health (fold (next_runtime now False) os st) =
      (if 2 \<le> trailing_failures os then HealthUnhealthy else HealthHealthy)"
proof -
  have "rn_health (fold (next_runtime now False) os st) =
      (if 2 \<le> trailing_failures os then HealthUnhealthy else HealthHealthy) \<and>
    rn_failures (fold (next_runtime now False) os st) = int (trailing_failures os)"
  proof (induction os rule: rev_induct)
    case Nil
    then show ?case using assms by (simp add: trailing_failures_def)
  next
    case (snoc x os)
    show ?case
    proof (cases x)
      case (Inl e)
      then have "trailing_failures (os @ [x]) = trailing_failures os + 1" by (simp add: trailing_failures_def)
      then show ?thesis using snoc Inl by (simp add: next_runtime_def failure_threshold_def)
    next
      case (Inr ms)
      then show ?thesis by (simp add: trailing_failures_def next_runtime_def)
    qed
  qed
  then show ?thesis by simp
qed

lemma hysteresis_witness:
  "rn_health (fold (next_runtime 0 False) [Inl ''e'', Inl ''e'']
     \<lparr>rn_name = ''n'', rn_identity = [], rn_health = HealthHealthy, rn_failures = 0, rn_models = None, rn_last_probe = 0\<rparr>)
     = HealthUnhealthy"
  by (subst hysteresis) (simp_all add: trailing_failures_def)

text \<open>A node whose startup or forced probe fails, or whose two last probes fail, is not a candidate
  for any model afterwards.\<close>

theorem failing_node_not_routed:
  assumes ok: "poller_ok p" and nn: "\<forall>st. pl_state p (sp_id s) = Some st \<longrightarrow> 0 \<le> rn_failures st"
  shows "sp_id s \<notin> routed_ids (pl_reg (apply_probe t1 True s (Inl e1) p)) m \<and>
    sp_id s \<notin> routed_ids (pl_reg (apply_probe t2 False s (Inl e2) (apply_probe t1 False s (Inl e1) p))) m"
proof (cases "pl_state p (sp_id s)")
  case None
  then have "sp_id s \<notin> known_ids (pl_reg p)" "registry_inv (pl_reg p)"
    using ok by (auto simp: poller_ok_def agrees_def)
  then have "sp_id s \<notin> routed_ids (pl_reg p) m" using reg.routes_known by blast
  then show ?thesis using None by (simp add: apply_probe_None)
next
  case (Some st)
  have inv: "registry_inv (pl_reg p)" using ok by (simp add: poller_ok_def agrees_def)
  let ?p1 = "apply_probe t1 False s (Inl e1) p"
  let ?st1 = "next_runtime t1 False (Inl e1) st"
  have inv1: "registry_inv (pl_reg ?p1)" unfolding apply_probe_Some [OF Some]
    by (simp add: reg.ok_report [OF inv])
  have s1: "pl_state ?p1 (sp_id s) = Some ?st1" unfolding apply_probe_Some [OF Some] by simp
  have h: "rn_health (next_runtime t2 False (Inl e2) ?st1) = HealthUnhealthy"
    using nn Some by (simp add: next_runtime_def Let_def failure_threshold_def)
  have h1: "rn_health (next_runtime t1 True (Inl e1) st) = HealthUnhealthy"
    by (simp add: next_runtime_def Let_def)
  show ?thesis unfolding apply_probe_Some [OF s1] unfolding apply_probe_Some [OF Some, where sweep = True]
    by (simp add: h h1) (intro conjI reg.not_routed_unless_healthy; simp add: inv inv1)
qed

lemma failing_node_not_routed_witness:
  "sp_id (fst (the (spec_of_row one_url_env sample_row))) \<notin>
     routed_ids (pl_reg (apply_probe 1 True (fst (the (spec_of_row one_url_env sample_row))) (Inl ''refused'') new_poller)) ''m''"
  using failing_node_not_routed [OF new_poller_ok] by (simp add: new_poller_def)

section \<open>A changed node starts over\<close>

lemma reconcile_spec_other:
  "i \<noteq> sp_id s \<Longrightarrow> pl_state (reconcile_spec s p) i = pl_state p i"
  by (simp add: reconcile_spec_def Let_def split: option.split)

lemma fold_reconcile_other:
  "i \<notin> sp_id ` set specs \<Longrightarrow> pl_state (fold reconcile_spec specs p) i = pl_state p i"
  by (induction specs arbitrary: p) (simp_all add: reconcile_spec_other)

lemma fold_reconcile_state:
  assumes "distinct (map sp_id specs)" "s \<in> set specs" "pl_state p (sp_id s) = Some st" "rn_identity st \<noteq> spec_identity s"
  shows "pl_state (fold reconcile_spec specs p) (sp_id s) = Some (fresh_runtime s)"
  using assms
proof (induction specs arbitrary: p)
  case (Cons t specs)
  show ?case
  proof (cases "t = s")
    case True
    then have "sp_id s \<notin> sp_id ` set specs" using Cons.prems(1) by auto
    then show ?thesis using True Cons.prems(3,4)
      by (simp add: fold_reconcile_other reconcile_spec_changed)
  next
    case False
    then have sm: "s \<in> set specs" using Cons.prems(2) by simp
    have "sp_id s \<noteq> sp_id t" using Cons.prems(1) imageI [OF sm, of sp_id] by auto
    note this sm
    then show ?thesis using Cons by (simp add: reconcile_spec_other)
  qed
qed simp

text \<open>When a reload finds that anything a probe depends on has changed (URL, backend, credentials,
  health path, static models), the node is a candidate for no model and is due at once.\<close>

theorem identity_change_resets:
  assumes law: "url_string_law env" and ok: "poller_ok p" and ids: "distinct (map nr_id rs)"
    and load: "load env (Some rs) p = (Some specs, p')" and s: "s \<in> set specs"
    and st: "pl_state p (sp_id s) = Some st" "rn_identity st \<noteq> spec_identity s"
  shows "(\<forall>m. sp_id s \<notin> routed_ids (pl_reg p') m) \<and> next_due opts p' (sp_id s) = zero_time"
proof -
  have ok': "poller_ok p'" using load_ok [OF law ok, of "Some rs"] ids load by simp
  have sp: "specs = map fst (List.map_filter (spec_of_row env) rs)"
    and p': "p' = reconcile specs (p\<lparr>pl_reg := set_nodes (map snd (List.map_filter (spec_of_row env) rs)) (pl_reg p)\<rparr>)"
    using load by (auto simp: load_def listed_nodes_def publish_nodes_def Let_def)
  have d: "distinct (map sp_id specs)" using map_filter_rows [OF ids] by (simp add: sp comp_def)
  have state: "pl_state p' (sp_id s) = Some (fresh_runtime s)"
    using fold_reconcile_state [OF d s, of "p\<lparr>pl_reg := set_nodes (map snd (List.map_filter (spec_of_row env) rs)) (pl_reg p)\<rparr>" st]
      st s by (simp add: p' reconcile_def Let_def)
  have "sp_id s \<notin> routed_ids (pl_reg p') m" for m
  proof
    assume "sp_id s \<in> routed_ids (pl_reg p') m"
    then obtain e where e: "e \<in> set (rg_entries (pl_reg p'))" "entry_id e = sp_id s" "ns_health e = HealthHealthy"
      using routed_ids_iff ok' unfolding poller_ok_iff by blast
    then have "ns_health e = rn_health (fresh_runtime s)"
      using ok' state unfolding poller_ok_def agrees_def by metis
    then show False using e(3) by (simp add: fresh_runtime_def)
  qed
  then show ?thesis using state by (simp add: next_due_def fresh_runtime_def)
qed


definition runtime_of :: "node_spec \<Rightarrow> health \<Rightarrow> string list \<Rightarrow> node_runtime" where
  "runtime_of s h ms = \<lparr>rn_name = sp_name s, rn_identity = spec_identity s, rn_health = h, rn_failures = 0,
     rn_models = Some ms, rn_last_probe = 1\<rparr>"

definition sample_spec :: "string \<Rightarrow> node_spec" where
  "sample_spec auth = \<lparr>sp_id = 1, sp_name = ''n'', sp_url = ''http://h'', sp_backend = ''ollama'', sp_auth = auth,
     sp_static = None, sp_health_path = []\<rparr>"

text \<open>A poller with the one node of \<open>sample_spec auth\<close>, healthy and serving m.\<close>

definition one_poller :: "string \<Rightarrow> poller" where
  "one_poller auth = \<lparr>pl_reg = publish (new_registry\<lparr>rg_entries := [healthy_entry 1 [''m'']]\<rparr>),
     pl_state = [1 \<mapsto> runtime_of (sample_spec auth) HealthHealthy [''m'']], pl_specs = [sample_spec auth]\<rparr>"

lemma one_poller_ok: "poller_ok (one_poller auth)"
proof -
  have c: "char_of (31::nat) \<notin> set ''http://h''" by code_simp
  have e: "entry_ok (healthy_entry 1 [''m'']) (runtime_of (sample_spec auth) HealthHealthy [''m''])"
    using c unfolding entry_ok_def
    by (auto simp: healthy_entry_def plain_node_def runtime_of_def sample_spec_def intro!: exI [of _ "sample_spec auth"])
  have "registry_inv (pl_reg (one_poller auth))" unfolding one_poller_def
    by (simp add: publish_inv new_registry_def)
  moreover have "known_ids (pl_reg (one_poller auth)) = {1}"
    by (simp add: known_ids_def one_poller_def healthy_entry_def plain_node_def)
  moreover have "id_ok (one_poller auth) 1" using e by (simp add: id_ok_def one_poller_def)
  ultimately show ?thesis unfolding poller_ok_iff by (auto simp: one_poller_def)
qed

lemma sample_load:
  "\<exists>p'. load one_url_env (Some [sample_row]) p = (Some [sample_spec ''Bearer sk-123456789''], p')"
proof -
  have "spec_of_row one_url_env sample_row = Some (sample_spec ''Bearer sk-123456789'',
      \<lparr>nd_id = 1, nd_name = ''n'', nd_url = Some ''http://h'', nd_auth = ''Bearer sk-123456789'', nd_timeout = 0\<rparr>)"
    by (simp add: spec_of_row_def one_url_env_def sample_row_def one_url_parser_def Let_def sample_spec_def)
  then show ?thesis by (simp add: load_def listed_nodes_def publish_nodes_def map_filter_simps Let_def)
qed

lemma identity_change_resets_witness:
  "\<exists>p'. load one_url_env (Some [sample_row]) (one_poller ''Bearer old'') = (Some [sample_spec ''Bearer sk-123456789''], p') \<and>
     1 \<notin> routed_ids (pl_reg p') ''m''"
proof -
  obtain p' where l: "load one_url_env (Some [sample_row]) (one_poller ''Bearer old'') =
      (Some [sample_spec ''Bearer sk-123456789''], p')" using sample_load by blast
  have n: "spec_identity (sample_spec ''Bearer old'') \<noteq> spec_identity (sample_spec ''Bearer sk-123456789'')" by code_simp
  have st: "pl_state (one_poller ''Bearer old'') (sp_id (sample_spec ''Bearer sk-123456789'')) =
      Some (runtime_of (sample_spec ''Bearer old'') HealthHealthy [''m''])"
    by (simp add: one_poller_def sample_spec_def)
  have "\<forall>m. sp_id (sample_spec ''Bearer sk-123456789'') \<notin> routed_ids (pl_reg p') m"
    using identity_change_resets [OF one_url_string_law one_poller_ok _ l _ st] n by (simp add: runtime_of_def)
  then show ?thesis using l by (simp add: sample_spec_def)
qed

text \<open>The result of a probe that was in flight when the node's identity changed is not discarded:
  applying it makes the node a candidate, under its new identity, for every model the old target
  reported.\<close>

theorem stale_probe_revives_node:
  assumes ok: "poller_ok p" and st: "pl_state p (sp_id old) = Some st" "rn_identity st \<noteq> spec_identity old"
    and m: "m \<in> set models"
  shows "sp_id old \<in> routed_ids (pl_reg (apply_probe now sweep old (Inr models) p)) m"
proof -
  have inv: "registry_inv (pl_reg p)" "sp_id old \<in> known_ids (pl_reg p)"
    using ok st(1) by (auto simp: poller_ok_def agrees_def)
  show ?thesis unfolding apply_probe_Some [OF st(1)]
    using reg.routes_report [OF inv] m by (simp add: next_runtime_def)
qed

lemma stale_probe_revives_node_witness:
  "1 \<in> routed_ids (pl_reg (apply_probe 5 False (sample_spec ''Bearer old'') (Inr [''k'']) (one_poller ''Bearer new''))) ''k''"
proof -
  have n: "spec_identity (sample_spec ''Bearer new'') \<noteq> spec_identity (sample_spec ''Bearer old'')" by code_simp
  have "pl_state (one_poller ''Bearer new'') (sp_id (sample_spec ''Bearer old'')) =
      Some (runtime_of (sample_spec ''Bearer new'') HealthHealthy [''m''])"
    by (simp add: one_poller_def sample_spec_def)
  from stale_probe_revives_node [OF one_poller_ok this, of "''k''" "[''k'']" 5 False] n
  show ?thesis by (simp add: runtime_of_def sample_spec_def)
qed

section \<open>The schedule\<close>

lemma jitter_frac_bounds: "- 1 \<le> jitter_frac i" "jitter_frac i \<le> 1"
proof -
  define n where "n = uint (fnv1a (id_bytes i) mod 2048)"
  have "fnv1a (id_bytes i) mod 2048 < (2048 :: 64 word)" by (rule word_mod_less_divisor) simp
  then have n: "0 \<le> n" "n \<le> 2047" by (simp_all add: n_def word_less_def)
  have "rnd64 (of_int n / (2047 / 2)) \<le> of_int 2"
    using n by (intro f64.rd_le_int) (simp_all add: field_simps)
  moreover have "0 \<le> rnd64 (of_int n / (2047 / 2))" using n by (intro f64.rd_nonneg) simp
  ultimately have "of_int (- 1) \<le> rnd64 (rnd64 (of_int n / (2047 / 2)) - 1)"
    "rnd64 (rnd64 (of_int n / (2047 / 2)) - 1) \<le> of_int 1"
    by (intro f64.rd_ge_int f64.rd_le_int; simp)+
  moreover have "jitter_frac i = rnd64 (rnd64 (of_int n / (2047 / 2)) - 1)"
    using n by (simp add: jitter_frac_def fsub_def fdivc_def n_def)
  ultimately show "- 1 \<le> jitter_frac i" "jitter_frac i \<le> 1" by simp_all
qed

lemma default_factor:
  "rnd64 (1 - rnd64 (1 / 5)) * 15000000000 \<ge> 12000000000"
  "rnd64 (rnd64 (1 + rnd64 (1 / 5)) * 15000000000) = 18000000000"
  by code_simp+

text \<open>With the default options every node's poll interval is between 12 and 18 seconds, whatever
  its id.\<close>

theorem interval_bounds:
  shows "12 * second \<le> interval_for default_options i \<and> interval_for default_options i \<le> 18 * second"
proof -
  let ?J = "rnd64 (1 / 5)"
  have J: "0 \<le> ?J" by (intro f64.rd_nonneg) simp
  have "?J * jitter_frac i \<le> ?J" "- ?J \<le> ?J * jitter_frac i"
    using mult_left_mono [OF jitter_frac_bounds(2) J, of i] mult_left_mono [OF jitter_frac_bounds(1) J, of i] by simp_all
  then have p: "rnd64 (?J * jitter_frac i) \<le> rnd64 ?J" "rnd64 (- ?J) \<le> rnd64 (?J * jitter_frac i)"
    by (intro rnd64_mono; simp)+
  have jj: "rnd64 ?J = ?J" by code_simp
  define x where "x = rnd64 (1 + rnd64 (?J * jitter_frac i))"
  have x: "rnd64 (1 - ?J) \<le> x" "x \<le> rnd64 (1 + ?J)"
    unfolding x_def using p jj by (intro rnd64_mono; simp add: rnd64_minus)+
  have "12000000000 \<le> x * 15000000000" using x(1) default_factor(1) by linarith
  then have lo: "of_int 12000000000 \<le> rnd64 (x * 15000000000)" by (intro f64.rd_ge_int) simp_all
  have "rnd64 (x * 15000000000) \<le> rnd64 (rnd64 (1 + ?J) * 15000000000)"
    using x(2) by (intro rnd64_mono) simp
  then have hi: "rnd64 (x * 15000000000) \<le> of_int 18000000000" unfolding default_factor(2) by simp
  have "interval_for default_options i = trunc (rnd64 (x * 15000000000))"
    by (simp add: interval_for_def default_options_def new_options_def fmul_def fadd_def x_def second_def mult.commute)
  moreover have "0 \<le> rnd64 (x * 15000000000)" using lo by simp
  ultimately have "interval_for default_options i = \<lfloor>rnd64 (x * 15000000000)\<rfloor>" by (simp add: trunc_def)
  moreover have "12000000000 \<le> \<lfloor>rnd64 (x * 15000000000)\<rfloor>" using lo by (simp only: le_floor_iff)
  moreover have "\<lfloor>rnd64 (x * 15000000000)\<rfloor> \<le> 18000000000" using hi by linarith
  ultimately show ?thesis by (simp add: second_def)
qed

lemma fold_min_le: "fold (\<lambda>s n. min n (f s)) xs a \<le> (a :: int)"
proof (induction xs arbitrary: a)
  case (Cons x xs)
  have "fold (\<lambda>s n. min n (f s)) xs (min a (f x)) \<le> min a (f x)" by (rule Cons.IH)
  then show ?case by simp
qed simp

text \<open>A poll cycle whose reload fails still probes the last known nodes that are due, and every
  cycle waits at least 100 ms and at most the base interval (or the 100 ms) before the next one.\<close>

theorem poll_cycle_fallback:
  assumes "t1 \<le> t2" "0 \<le> op_interval opts"
  shows "snd (poll_cycle env dc opts w None t0 t1 t2 p) = probe_specs dc opts w False (due_specs opts p t0 (pl_specs p)) p \<and>
    min_wait \<le> fst (poll_cycle env dc opts w rows t0 t1 t2 p) \<and>
    fst (poll_cycle env dc opts w rows t0 t1 t2 p) \<le> max min_wait (op_interval opts)"
proof -
  have b: "time_sub (fold (\<lambda>s n. min n (f s)) xs (t1 + op_interval opts)) t2 \<le> op_interval opts" for f and xs :: "node_spec list"
    using fold_min_le [of f xs "t1 + op_interval opts"] assms by (simp add: time_sub_def sat64_def)
  have "fst (poll_cycle env dc opts w rows t0 t1 t2 p) \<le> max min_wait (op_interval opts)"
    by (simp add: poll_cycle_def Let_def b max.coboundedI2 split: prod.split)
  moreover have "min_wait \<le> fst (poll_cycle env dc opts w rows t0 t1 t2 p)"
    by (simp add: poll_cycle_def Let_def split: prod.split)
  ultimately show ?thesis by (simp add: poll_cycle_def load_def listed_nodes_def publish_nodes_def Let_def)
qed

lemma poll_cycle_fallback_witness:
  "min_wait \<le> fst (poll_cycle one_url_env one_decoder default_options one_world None 5 5 5 (one_poller ''a'')) \<and>
   fst (poll_cycle one_url_env one_decoder default_options one_world None 5 5 5 (one_poller ''a'')) \<le> max min_wait (15 * second)"
proof -
  have "op_interval default_options = 15 * second" by (simp add: default_options_def new_options_def)
  then show ?thesis
    using poll_cycle_fallback [of 5 5 default_options one_url_env one_decoder one_world 5 "one_poller ''a''" None]
    by (simp add: second_def)
qed

end
