(* ===== verification/AdminNodes.thy ===== *)
theory AdminNodes
  imports AdminApi Poller
begin

text \<open>
  The node endpoints of the admin API, internal/admin/nodes.go: creation, listing, patching,
  soft deletion and forced refresh of backend nodes, over the node table and the poller with its
  registry. \<open>f i\<close> says whether the handler's i-th store call fails, \<open>env\<close> is what others commit
  between its read and its write (in a deletion: what they do to table and poller at each of its
  steps), and the world gives the clock and the HTTP outcome of the probe. Without a poller (zero Options) a refresh does nothing and the live state is empty.
\<close>

section \<open>State, requests, replies\<close>

record node_admin =
  na_table :: node_table
  na_poller :: "poller option"

record node_conf =
  nc_urls :: url_env
  nc_decoders :: decoders
  nc_options :: options

record node_dto =
  nv_node :: node_row
  nv_health :: health
  nv_models :: "string list"
  nv_last_error :: string
  nv_last_checked :: "gotime option"

record create_node_request =
  cn_name :: string
  cn_base_url :: string
  cn_backend :: string
  cn_auth :: "string option"
  cn_static :: "string list option"
  cn_health_path :: "string option"
  cn_timeout :: "int option"

record update_node_request =
  un_name :: "string option"
  un_base_url :: "string option"
  un_backend :: "string option"
  un_auth :: "string option"
  un_static :: "string list option"
  un_health_path :: "string option"
  un_timeout :: "int option"
  un_enabled :: "bool option"

text \<open>A reply with the status of its success.\<close>

type_synonym 'a node_reply = "(api_error + nat \<times> 'a) \<times> node_admin"

section \<open>Live state\<close>

text \<open>The map built from the registry snapshot: the last entry of an id wins.\<close>

definition node_live_states :: "node_admin \<Rightarrow> int \<Rightarrow> node_state option" where
  "node_live_states st i = (case na_poller st of None \<Rightarrow> None
     | Some p \<Rightarrow> row_of entry_id i (rev (sn_nodes (registry_snapshot (pl_reg p)))))"

definition to_node_dto :: "node_row \<Rightarrow> (int \<Rightarrow> node_state option) \<Rightarrow> node_dto" where
  "to_node_dto n states = (case states (nr_id n) of
     None \<Rightarrow> \<lparr>nv_node = n, nv_health = HealthUnknown, nv_models = [], nv_last_error = [], nv_last_checked = None\<rparr>
   | Some e \<Rightarrow> \<lparr>nv_node = n, nv_health = ns_health e, nv_models = (case ns_models e of None \<Rightarrow> [] | Some ms \<Rightarrow> ms),
       nv_last_error = ns_last_error e,
       nv_last_checked = (if ns_last_checked e = zero_time then None else Some (ns_last_checked e))\<rparr>)"

definition run_node_refresh :: "node_conf \<Rightarrow> bool \<Rightarrow> world \<Rightarrow> int \<Rightarrow> node_admin \<Rightarrow> bool \<times> node_admin" where
  "run_node_refresh c fault w i st = (case na_poller st of None \<Rightarrow> (True, st)
     | Some p \<Rightarrow> (case refresh_node (nc_urls c) (nc_decoders c) (nc_options c) w
           (case list_nodes_with_secrets fault (na_table st) of Inl e \<Rightarrow> None | Inr rows \<Rightarrow> Some rows) i p of
         (good, p') \<Rightarrow> (good, st\<lparr>na_poller := Some p'\<rparr>)))"

text \<open>
  The same refresh with the others at work: \<open>env k\<close> acts before the listing (1), before SetNodes
  (2), before the reconciliation (3) and before the probe is applied (4).
\<close>

definition on_poller :: "(poller \<Rightarrow> poller) \<Rightarrow> 'z node_admin_scheme \<Rightarrow> 'z node_admin_scheme" where
  "on_poller g st = st\<lparr>na_poller := map_option g (na_poller st)\<rparr>"

definition run_refresh_amid ::
  "node_conf \<Rightarrow> bool \<Rightarrow> world \<Rightarrow> (nat \<Rightarrow> 'z node_admin_scheme \<Rightarrow> 'z node_admin_scheme) \<Rightarrow> int \<Rightarrow>
     'z node_admin_scheme \<Rightarrow> bool \<times> 'z node_admin_scheme" where
  "run_refresh_amid c fault w env i st = (if na_poller st = None then (True, st) else
     let st0 = env 1 st in
     (case list_nodes_with_secrets fault (na_table st0) of Inl e \<Rightarrow> (False, st0)
      | Inr rows \<Rightarrow>
          let both = listed_nodes (nc_urls c) rows; specs = map fst both;
              st1 = on_poller (publish_nodes both) (env 2 st0);
              st2 = on_poller (reconcile specs) (env 3 st1)
          in (True, case find (\<lambda>s. sp_id s = i) specs of None \<Rightarrow> st2
               | Some s \<Rightarrow> on_poller (apply_probe (w_clock w i) True s (probe (nc_decoders c) (nc_options c) s (w_http w i)))
                   (env 4 st2))))"

definition node_read :: "bool \<Rightarrow> (node_table \<Rightarrow> 'a) \<Rightarrow> 'z node_admin_scheme \<Rightarrow> api_error + 'a" where
  "node_read fault q st = (if fault then Inl internal_error else Inr (q (na_table st)))"

definition node_write :: "'a node_prog \<Rightarrow> 'z node_admin_scheme \<Rightarrow> (node_error + 'a) \<times> 'z node_admin_scheme" where
  "node_write m st = (case m (na_table st) of (r, t) \<Rightarrow> (r, st\<lparr>na_table := t\<rparr>))"

definition config_sourced_node :: api_error where
  "config_sourced_node = api_err 409 ''config_sourced_node'' ''invalid_request_error''"

definition write_node_response :: "bool \<Rightarrow> int \<Rightarrow> nat \<Rightarrow> node_admin \<Rightarrow> node_dto node_reply" where
  "write_node_response fault i status st = (case node_read fault (get_node i) st of
     Inr (Some n) \<Rightarrow> (Inr (status, to_node_dto n (node_live_states st)), st) | _ \<Rightarrow> (Inl internal_error, st))"

section \<open>Handlers\<close>

definition node_of_request :: "create_node_request \<Rightarrow> node_row" where
  "node_of_request q = \<lparr>nr_id = 0, nr_name = cn_name q, nr_base_url = cn_base_url q, nr_backend = cn_backend q, nr_auth = cn_auth q,
     nr_static = cn_static q, nr_health_path = cn_health_path q, nr_timeout = cn_timeout q, nr_enabled = False, nr_source = [],
     nr_created = zero_time, nr_updated = zero_time\<rparr>"

definition node_store_error :: "node_error \<Rightarrow> api_error" where
  "node_store_error e = (if e = NodeNameExists then api_err 409 ''node_name_exists'' ''invalid_request_error''
     else if e = NodeNotFound then not_found else internal_error)"

definition admin_create_node ::
  "node_conf \<Rightarrow> (nat \<Rightarrow> bool) \<Rightarrow> gotime \<Rightarrow> world \<Rightarrow> create_node_request body \<Rightarrow> node_admin \<Rightarrow> node_dto node_reply" where
  "admin_create_node c f now w b st = (case decode_json b of Inl e \<Rightarrow> (Inl e, st) | Inr q \<Rightarrow>
     (case validate_node (ue_parse (nc_urls c)) (node_of_request q) of Inl e \<Rightarrow> (Inl (bad_request ''invalid_node''), st) | Inr n \<Rightarrow>
     (case node_write (create_node (f 0) (ue_parse (nc_urls c)) now n) st of
        (Inl e, st1) \<Rightarrow> (Inl (if e = NodeNameExists then node_store_error e else internal_error), st1)
      | (Inr i, st1) \<Rightarrow> write_node_response (f 2) i 201 (snd (run_node_refresh c (f 1) w i st1)))))"

definition admin_list_nodes :: "(nat \<Rightarrow> bool) \<Rightarrow> query \<Rightarrow> node_admin \<Rightarrow> api_error + node_dto listing" where
  "admin_list_nodes f q st = (case want_envelope q of Inl e \<Rightarrow> Inl e | Inr env \<Rightarrow>
     (case parse_pagination q of Inl e \<Rightarrow> Inl e | Inr (l, off) \<Rightarrow>
     (case list_nodes (f 0) (na_table st) of Inl e \<Rightarrow> Inl internal_error
      | Inr ns \<Rightarrow> Inr (list_reply env l off (map (\<lambda>n. to_node_dto n (node_live_states st)) ns)))))"

definition admin_get_node :: "(nat \<Rightarrow> bool) \<Rightarrow> string \<Rightarrow> node_admin \<Rightarrow> api_error + node_dto" where
  "admin_get_node f p st = (case positive_id p of Inl e \<Rightarrow> Inl e | Inr i \<Rightarrow>
     (case node_read (f 0) (get_node i) st of Inl e \<Rightarrow> Inl e | Inr None \<Rightarrow> Inl not_found
      | Inr (Some n) \<Rightarrow> Inr (to_node_dto n (node_live_states st))))"

text \<open>
  The patch of updateNode: an absent field keeps the value; the empty string, the empty list
  and the timeout 0 clear it.
\<close>

definition patched :: "'a \<Rightarrow> 'a option \<Rightarrow> 'a option \<Rightarrow> 'a option" where
  "patched clear new old = (case new of None \<Rightarrow> old | Some v \<Rightarrow> if v = clear then None else Some v)"

definition replaced :: "'a option \<Rightarrow> 'a \<Rightarrow> 'a" where
  "replaced new old = (case new of None \<Rightarrow> old | Some v \<Rightarrow> v)"

definition apply_patch :: "update_node_request \<Rightarrow> node_row \<Rightarrow> node_row" where
  "apply_patch q n = n\<lparr>nr_name := replaced (un_name q) (nr_name n), nr_base_url := replaced (un_base_url q) (nr_base_url n),
     nr_backend := replaced (un_backend q) (nr_backend n), nr_auth := patched [] (un_auth q) (nr_auth n),
     nr_static := patched [] (un_static q) (nr_static n), nr_health_path := patched [] (un_health_path q) (nr_health_path n),
     nr_timeout := patched 0 (un_timeout q) (nr_timeout n), nr_enabled := replaced (un_enabled q) (nr_enabled n)\<rparr>"

definition admin_update_node ::
  "node_conf \<Rightarrow> (nat \<Rightarrow> bool) \<Rightarrow> (node_table \<Rightarrow> node_table) \<Rightarrow> gotime \<Rightarrow> world \<Rightarrow> string \<Rightarrow> update_node_request body \<Rightarrow> node_admin \<Rightarrow> node_dto node_reply" where
  "admin_update_node c f env now w p b st = (case positive_id p of Inl e \<Rightarrow> (Inl e, st) | Inr i \<Rightarrow>
     (case node_read (f 0) (get_node_with_secrets i) st of Inl e \<Rightarrow> (Inl e, st) | Inr None \<Rightarrow> (Inl not_found, st)
      | Inr (Some cur) \<Rightarrow> if nr_source cur = ''config'' then (Inl config_sourced_node, st) else
     (case decode_json b of Inl e \<Rightarrow> (Inl e, st) | Inr q \<Rightarrow>
     (case validate_node (ue_parse (nc_urls c)) (apply_patch q cur) of Inl e \<Rightarrow> (Inl (bad_request ''invalid_node''), st) | Inr n \<Rightarrow>
     (case node_write (update_node (f 1) (ue_parse (nc_urls c)) now n) (st\<lparr>na_table := env (na_table st)\<rparr>) of
        (Inl e, st1) \<Rightarrow> (Inl (node_store_error e), st1)
      | (Inr _, st1) \<Rightarrow> write_node_response (f 3) i 200 (snd (run_node_refresh c (f 2) w i st1)))))))"

definition admin_delete_node ::
  "node_conf \<Rightarrow> (nat \<Rightarrow> bool) \<Rightarrow> (nat \<Rightarrow> 'z node_admin_scheme \<Rightarrow> 'z node_admin_scheme) \<Rightarrow> gotime \<Rightarrow> world \<Rightarrow> string \<Rightarrow>
     'z node_admin_scheme \<Rightarrow> (api_error + nat \<times> unit) \<times> 'z node_admin_scheme" where
  "admin_delete_node c f env now w p st = (case positive_id p of Inl e \<Rightarrow> (Inl e, st) | Inr i \<Rightarrow>
     (case node_read (f 0) (get_node i) st of Inl e \<Rightarrow> (Inl e, st) | Inr None \<Rightarrow> (Inl not_found, st)
      | Inr (Some n) \<Rightarrow> if nr_source n = ''config'' then (Inl config_sourced_node, st) else
     (case node_write (disable_node (f 1) now i) (env 0 st) of
        (Inl e, st1) \<Rightarrow> (Inl (if e = NodeNotFound then not_found else internal_error), st1)
      | (Inr _, st1) \<Rightarrow> (case run_refresh_amid c (f 2) w env i st1 of
            (False, st2) \<Rightarrow> (Inl internal_error, st2) | (True, st2) \<Rightarrow> (Inr (204, ()), env 5 st2)))))"

text \<open>Alone, the two refreshes are the same.\<close>

definition table_only :: "(node_table \<Rightarrow> node_table) \<Rightarrow> nat \<Rightarrow> 'z node_admin_scheme \<Rightarrow> 'z node_admin_scheme" where
  "table_only env k st = (if k = 0 then st\<lparr>na_table := env (na_table st)\<rparr> else st)"

lemma refresh_alone: "run_refresh_amid c fault w (table_only env) i st = run_node_refresh c fault w i st"
proof (cases "na_poller st")
  case None
  then show ?thesis by (simp add: run_refresh_amid_def run_node_refresh_def)
next
  case (Some p)
  have st: "st\<lparr>na_poller := Some p\<rparr> = st" using Some by (cases st) simp
  show ?thesis
    by (auto simp: run_refresh_amid_def run_node_refresh_def Some table_only_def on_poller_def refresh_node_def load_def Let_def st
        list_nodes_with_secrets_def split: option.split)
qed

definition admin_refresh_node ::
  "node_conf \<Rightarrow> (nat \<Rightarrow> bool) \<Rightarrow> world \<Rightarrow> string \<Rightarrow> node_admin \<Rightarrow> node_dto node_reply" where
  "admin_refresh_node c f w p st = (case positive_id p of Inl e \<Rightarrow> (Inl e, st) | Inr i \<Rightarrow>
     (case node_read (f 0) (get_node i) st of Inl e \<Rightarrow> (Inl e, st) | Inr None \<Rightarrow> (Inl not_found, st)
      | Inr (Some n) \<Rightarrow> (case run_node_refresh c (f 1) w i st of
            (False, st1) \<Rightarrow> (Inl internal_error, st1) | (True, st1) \<Rightarrow> write_node_response (f 2) i 200 st1)))"

section \<open>The endpoints as one step\<close>

text \<open>Any request to a node endpoint: the node objects its reply carries and the state after it.\<close>

datatype node_op = CreateNode "create_node_request body" | ListNodes query | GetNode string
  | UpdateNode string "update_node_request body" | DeleteNode string | RefreshNode string

definition reply_dtos :: "api_error + nat \<times> node_dto \<Rightarrow> node_dto list" where
  "reply_dtos r = (case r of Inl e \<Rightarrow> [] | Inr (k, d) \<Rightarrow> [d])"

definition listing_dtos :: "api_error + node_dto listing \<Rightarrow> node_dto list" where
  "listing_dtos r = (case r of Inr (Enveloped xs pg) \<Rightarrow> xs | Inr (Plain xs) \<Rightarrow> xs | _ \<Rightarrow> [])"

fun node_request ::
  "node_conf \<Rightarrow> (nat \<Rightarrow> bool) \<Rightarrow> (node_table \<Rightarrow> node_table) \<Rightarrow> gotime \<Rightarrow> world \<Rightarrow> node_op \<Rightarrow> node_admin \<Rightarrow> node_dto list \<times> node_admin" where
  "node_request c f env now w (CreateNode b) st = map_prod reply_dtos id (admin_create_node c f now w b st)"
| "node_request c f env now w (ListNodes q) st = (listing_dtos (admin_list_nodes f q st), st)"
| "node_request c f env now w (GetNode p) st = (case admin_get_node f p st of Inl e \<Rightarrow> [] | Inr d \<Rightarrow> [d], st)"
| "node_request c f env now w (UpdateNode p b) st = map_prod reply_dtos id (admin_update_node c f env now w p b st)"
| "node_request c f env now w (DeleteNode p) st = ([], snd (admin_delete_node c f (table_only env) now w p st))"
| "node_request c f env now w (RefreshNode p) st = map_prod reply_dtos id (admin_refresh_node c f w p st)"

section \<open>Secrets stay in the table\<close>

lemma reply_dtos_simps [simp]: "reply_dtos (Inl e) = []" "reply_dtos (Inr (k, d)) = [d]"
  by (simp_all add: reply_dtos_def)

lemma to_node_dto_node [simp]: "nv_node (to_node_dto n states) = n"
  by (simp add: to_node_dto_def split: option.split)

definition masked_dto :: "node_dto \<Rightarrow> bool" where
  "masked_dto d \<longleftrightarrow> (\<exists>r. nv_node d = mask_node_secret r)"

lemma get_node_masked: "get_node i t = Some n \<Longrightarrow> masked_dto (to_node_dto n states)"
  by (auto simp: get_node_def masked_dto_def)

lemma write_node_response_masked: "d \<in> set (reply_dtos (fst (write_node_response fault i k st))) \<Longrightarrow> masked_dto d"
  by (auto simp: write_node_response_def node_read_def get_node_masked split: option.splits if_splits)

lemma listing_reply_dtos: "set (listing_dtos (Inr (list_reply env l off xs))) \<subseteq> set xs"
  by (auto simp: listing_dtos_def list_reply_def slice_window_def go_slice_def Let_def split: if_splits option.splits)
     (meson in_set_dropD in_set_takeD)+

lemma node_request_masked: "d \<in> set (fst (node_request c f env now w op st)) \<Longrightarrow> masked_dto d"
proof (cases op)
  case (CreateNode b)
  assume "d \<in> set (fst (node_request c f env now w op st))"
  then show ?thesis using CreateNode
    by (auto simp: admin_create_node_def intro: write_node_response_masked split: sum.splits prod.splits)
next
  case (ListNodes q)
  assume d: "d \<in> set (fst (node_request c f env now w op st))"
  then obtain ns l off e where ns: "list_nodes (f 0) (na_table st) = Inr ns"
    and m: "d \<in> set (listing_dtos (Inr (list_reply e l off (map (\<lambda>n. to_node_dto n (node_live_states st)) ns))))"
    using ListNodes by (cases "list_nodes (f 0) (na_table st)") (auto simp: admin_list_nodes_def listing_dtos_def split: sum.splits)
  from m listing_reply_dtos obtain n where n: "n \<in> set ns" "d = to_node_dto n (node_live_states st)" by fastforce
  then show ?thesis using ns by (auto simp: list_nodes_def list_nodes_with_secrets_def masked_dto_def split: if_splits)
next
  case (UpdateNode p b)
  assume "d \<in> set (fst (node_request c f env now w op st))"
  then show ?thesis using UpdateNode
    by (auto simp: admin_update_node_def intro: write_node_response_masked split: sum.splits prod.splits option.splits if_splits)
next
  case (RefreshNode p)
  assume "d \<in> set (fst (node_request c f env now w op st))"
  then show ?thesis using RefreshNode
    by (auto simp: admin_refresh_node_def intro: write_node_response_masked split: sum.splits prod.splits option.splits bool.splits)
qed (auto simp: admin_get_node_def node_read_def get_node_masked split: sum.splits option.splits if_splits)

text \<open>
  C22: No reply of the admin API carries a usable secret. Whatever the request, an auth header in
  a node object of the reply is the masked form of the stored one, never a header that would pass
  validation, so never the header itself; and sending it back in a patch is refused.
\<close>
theorem node_secrets_never_served:
  assumes "d \<in> set (fst (node_request c f env now w op st))" "nr_auth (nv_node d) = Some v"
  shows "(\<exists>raw. v = mask_auth_header raw) \<and> \<not> validate_auth_header v \<and>
    isl (fst (admin_update_node c' f' env' now' w' p (Inr (q\<lparr>un_auth := Some v\<rparr>), TailEof) st'))"
proof -
  obtain raw where raw: "v = mask_auth_header raw"
    using node_request_masked [OF assms(1)] assms(2) by (auto simp: masked_dto_def mask_node_secret_def)
  have v: "\<not> validate_auth_header v" unfolding raw
    by (intro ellipsis_not_printable) (auto simp: mask_auth_header_def)
  have "v \<noteq> []" unfolding raw by (simp add: mask_auth_header_def ellipsis_def)
  with v have "isl (validate_node ps (apply_patch (q\<lparr>un_auth := Some v\<rparr>) n))" for ps n
    by (auto simp: validate_node_def apply_patch_def patched_def Let_def split: sum.split)
  then have "validate_node ps (apply_patch (q\<lparr>un_auth := Some v\<rparr>) n) \<noteq> Inr x" for ps n x by (metis sum.disc(2))
  then show ?thesis using raw v
    by (auto simp: admin_update_node_def decode_json_def split: sum.split option.split)
qed

section \<open>Patching\<close>

lemma validate_node_keeps:
  "validate_node parse n = Inr n' \<Longrightarrow> nr_auth n' = nr_auth n \<and> nr_static n' = nr_static n \<and> nr_health_path n' = nr_health_path n \<and>
     nr_timeout n' = nr_timeout n \<and> nr_enabled n' = nr_enabled n \<and> nr_id n' = nr_id n"
  by (auto simp: validate_node_def Let_def split: if_splits sum.splits)

lemma admin_update_node_Inr:
  assumes "admin_update_node c f env now w p (Inr q, TailEof) st = (Inr r, st')"
  shows "\<exists>i cur n t1. positive_id p = Inr i \<and> row_of nr_id i (nt_rows (na_table st)) = Some cur \<and> nr_source cur \<noteq> ''config'' \<and>
    validate_node (ue_parse (nc_urls c)) (apply_patch q cur) = Inr n \<and>
    update_node (f 1) (ue_parse (nc_urls c)) now n (env (na_table st)) = (Inr (), t1) \<and> na_table st' = t1"
proof -
  have ref: "na_table (snd (run_node_refresh c b w i s)) = na_table s" for b i s
    by (simp add: run_node_refresh_def split: option.split prod.split)
  have wr: "snd (write_node_response b i k s) = s" for b i k s
    by (simp add: write_node_response_def split: sum.split option.split)
  obtain i where i: "positive_id p = Inr i" using assms by (auto simp: admin_update_node_def split: sum.splits)
  obtain cur where cur: "get_node_with_secrets i (na_table st) = Some cur" "nr_source cur \<noteq> ''config''" "\<not> f 0"
    using assms i by (auto simp: admin_update_node_def node_read_def split: sum.splits option.splits if_splits)
  obtain n where n: "validate_node (ue_parse (nc_urls c)) (apply_patch q cur) = Inr n"
    using assms i cur by (auto simp: admin_update_node_def node_read_def decode_json_def split: sum.splits)
  obtain u t1 where up: "update_node (f 1) (ue_parse (nc_urls c)) now n (env (na_table st)) = (u, t1)" by fastforce
  have "u = Inr () \<and> na_table st' = t1"
  proof (cases u)
    case (Inl e)
    then show ?thesis using assms i cur n up by (simp add: admin_update_node_def node_read_def decode_json_def node_write_def)
  next
    case (Inr x)
    then have "write_node_response (f 3) i 200 (snd (run_node_refresh c (f 2) w i (st\<lparr>na_table := t1\<rparr>))) = (Inr r, st')"
      using assms i cur n up by (simp add: admin_update_node_def node_read_def decode_json_def node_write_def)
    then have "st' = snd (run_node_refresh c (f 2) w i (st\<lparr>na_table := t1\<rparr>))" using wr by (metis snd_conv)
    then show ?thesis using Inr ref by simp
  qed
  then show ?thesis using i cur n up by (auto simp: get_node_with_secrets_def)
qed

text \<open>
  A patch changes what it names. After a successful update the node has the named values,
  cleared where the patch says so, and keeps every field the patch leaves out, the stored secret
  above all; its origin and creation time are kept, and every other node is untouched.
\<close>
theorem patch_keeps_unnamed:
  assumes "admin_update_node c f env now w p (Inr q, TailEof) st = (Inr r, st')"
  shows "\<exists>i old mid new. positive_id p = Inr i \<and> row_of nr_id i (nt_rows (na_table st)) = Some old \<and> nr_source old \<noteq> ''config'' \<and>
    row_of nr_id i (nt_rows (env (na_table st))) = Some mid \<and> row_of nr_id i (nt_rows (na_table st')) = Some new \<and>
    nr_auth new = patched [] (un_auth q) (nr_auth old) \<and> nr_static new = patched [] (un_static q) (nr_static old) \<and>
    nr_health_path new = patched [] (un_health_path q) (nr_health_path old) \<and> nr_timeout new = patched 0 (un_timeout q) (nr_timeout old) \<and>
    nr_enabled new = replaced (un_enabled q) (nr_enabled old) \<and> nr_source new = nr_source mid \<and> nr_created new = nr_created mid \<and>
    (\<forall>j. j \<noteq> i \<longrightarrow> row_of nr_id j (nt_rows (na_table st')) = row_of nr_id j (nt_rows (env (na_table st))))"
proof -
  obtain i cur n t1 where i: "positive_id p = Inr i" "row_of nr_id i (nt_rows (na_table st)) = Some cur" "nr_source cur \<noteq> ''config''"
    and n: "validate_node (ue_parse (nc_urls c)) (apply_patch q cur) = Inr n"
    and up: "update_node (f 1) (ue_parse (nc_urls c)) now n (env (na_table st)) = (Inr (), t1)" and t: "na_table st' = t1"
    using admin_update_node_Inr [OF assms(1)] by blast
  have id: "nr_id n = i" using validate_node_keeps [OF n] row_of_Some [OF i(2)] by (simp add: apply_patch_def)
  have mem: "i \<in> nr_id ` set (nt_rows (env (na_table st)))"
  proof (rule ccontr)
    assume "i \<notin> nr_id ` set (nt_rows (env (na_table st)))"
    then have "isl (fst (update_node (f 1) (ue_parse (nc_urls c)) now n (env (na_table st))))"
      using validate_node_Inr(2) id by (simp add: update_node_def split: sum.split)
    then show False using up by simp
  qed
  obtain n' where n': "validate_node (ue_parse (nc_urls c)) n = Inr n'"
    "t1 = (env (na_table st))\<lparr>nt_rows := upd_where (\<lambda>r. nr_id r = i) (\<lambda>r. r\<lparr>nr_name := nr_name n', nr_base_url := nr_base_url n',
       nr_backend := nr_backend n', nr_auth := nr_auth n', nr_static := nr_static n', nr_health_path := nr_health_path n',
       nr_timeout := nr_timeout n', nr_enabled := nr_enabled n', nr_updated := now\<rparr>) (nt_rows (env (na_table st)))\<rparr>"
    using update_node_Inr [OF up] id by metis
  obtain mid where mid: "row_of nr_id i (nt_rows (env (na_table st))) = Some mid"
    using mem row_of_None [of nr_id i "nt_rows (env (na_table st))"] by (cases "row_of nr_id i (nt_rows (env (na_table st)))") auto
  have new: "row_of nr_id j (nt_rows t1) = map_option (\<lambda>r. if nr_id r = i then r\<lparr>nr_name := nr_name n', nr_base_url := nr_base_url n',
       nr_backend := nr_backend n', nr_auth := nr_auth n', nr_static := nr_static n', nr_health_path := nr_health_path n',
       nr_timeout := nr_timeout n', nr_enabled := nr_enabled n', nr_updated := now\<rparr> else r) (row_of nr_id j (nt_rows (env (na_table st))))" for j
    by (simp add: n'(2) row_of_upd_id)
  have others: "row_of nr_id j (nt_rows t1) = row_of nr_id j (nt_rows (env (na_table st)))" if "j \<noteq> i" for j
    using that row_of_Some [of nr_id j "nt_rows (env (na_table st))"] unfolding new by (cases "row_of nr_id j (nt_rows (env (na_table st)))") auto
  define row where "row = mid\<lparr>nr_name := nr_name n', nr_base_url := nr_base_url n',
       nr_backend := nr_backend n', nr_auth := nr_auth n', nr_static := nr_static n', nr_health_path := nr_health_path n',
       nr_timeout := nr_timeout n', nr_enabled := nr_enabled n', nr_updated := now\<rparr>"
  have nw: "row_of nr_id i (nt_rows t1) = Some row" using new [of i] mid row_of_Some [OF mid] by (simp add: row_def)
  have f: "nr_auth row = patched [] (un_auth q) (nr_auth cur)" "nr_static row = patched [] (un_static q) (nr_static cur)"
    "nr_health_path row = patched [] (un_health_path q) (nr_health_path cur)" "nr_timeout row = patched 0 (un_timeout q) (nr_timeout cur)"
    "nr_enabled row = replaced (un_enabled q) (nr_enabled cur)" "nr_source row = nr_source mid" "nr_created row = nr_created mid"
    using validate_node_keeps [OF n] validate_node_keeps [OF n'(1)] by (simp_all add: row_def apply_patch_def)
  show ?thesis unfolding t
    by (intro exI [of _ i] exI [of _ cur] exI [of _ mid] exI [of _ row] conjI allI impI) (fact i mid nw f | rule others, assumption)+
qed

section \<open>Declared nodes are read-only\<close>

definition config_rows :: "node_table \<Rightarrow> node_row set" where
  "config_rows t = {r \<in> set (nt_rows t). nr_source r = ''config''}"

lemma refresh_table [simp]: "na_table (snd (run_node_refresh c b w i s)) = na_table s"
  by (simp add: run_node_refresh_def split: option.split prod.split)

lemma response_state [simp]: "snd (write_node_response b i k s) = s"
  by (simp add: write_node_response_def split: sum.split option.split)

lemma node_write_table [simp]: "na_table (snd (node_write m st)) = snd (m (na_table st))" "fst (node_write m st) = fst (m (na_table st))"
  by (simp_all add: node_write_def split: prod.split)

text \<open>What a request does to the table: nothing, or one store operation on a node that is not declared.\<close>

lemma node_request_table:
  "na_table (snd (node_request c f id now w op st)) = na_table st \<or>
   (\<exists>b n. nr_source n = [] \<and> na_table (snd (node_request c f id now w op st)) = snd (create_node b (ue_parse (nc_urls c)) now n (na_table st))) \<or>
   (\<exists>b n r. row_of nr_id (nr_id n) (nt_rows (na_table st)) = Some r \<and> nr_source r \<noteq> ''config'' \<and>
      na_table (snd (node_request c f id now w op st)) = snd (update_node b (ue_parse (nc_urls c)) now n (na_table st))) \<or>
   (\<exists>b i r. row_of nr_id i (nt_rows (na_table st)) = Some r \<and> nr_source r \<noteq> ''config'' \<and>
      na_table (snd (node_request c f id now w op st)) = snd (disable_node b now i (na_table st)))"
proof (cases op)
  case (CreateNode b)
  have s: "nr_source n = []" if "validate_node ps (node_of_request q) = Inr n" for ps q n
    using validate_node_Inr(3) [OF that] by (simp add: node_of_request_def)
  show ?thesis
  proof (cases "\<exists>q n. decode_json b = Inr q \<and> validate_node (ue_parse (nc_urls c)) (node_of_request q) = Inr n")
    case True
    then obtain q n where q: "decode_json b = Inr q" "validate_node (ue_parse (nc_urls c)) (node_of_request q) = Inr n" by blast
    have "na_table (snd (node_request c f id now w op st)) = snd (create_node (f 0) (ue_parse (nc_urls c)) now n (na_table st))"
      using CreateNode q by (cases "create_node (f 0) (ue_parse (nc_urls c)) now n (na_table st)")
        (auto simp: admin_create_node_def node_write_def split: sum.split)
    then show ?thesis using s [OF q(2)] by blast
  next
    case False
    then show ?thesis using CreateNode by (auto simp: admin_create_node_def split: sum.splits)
  qed
next
  case (UpdateNode p b)
  show ?thesis
  proof (cases "\<exists>i cur q n. positive_id p = Inr i \<and> \<not> f 0 \<and> get_node_with_secrets i (na_table st) = Some cur \<and> nr_source cur \<noteq> ''config'' \<and>
      decode_json b = Inr q \<and> validate_node (ue_parse (nc_urls c)) (apply_patch q cur) = Inr n")
    case True
    then obtain i cur q n where q: "positive_id p = Inr i" "\<not> f 0" "get_node_with_secrets i (na_table st) = Some cur" "nr_source cur \<noteq> ''config''"
      "decode_json b = Inr q" "validate_node (ue_parse (nc_urls c)) (apply_patch q cur) = Inr n" by blast
    have "nr_id n = i" using validate_node_keeps [OF q(6)] row_of_Some q(3) by (fastforce simp: apply_patch_def get_node_with_secrets_def)
    moreover have "na_table (snd (node_request c f id now w op st)) = snd (update_node (f 1) (ue_parse (nc_urls c)) now n (na_table st))"
      using UpdateNode q by (cases "update_node (f 1) (ue_parse (nc_urls c)) now n (na_table st)")
        (auto simp: admin_update_node_def node_read_def node_write_def split: sum.split)
    ultimately show ?thesis using q(3,4) unfolding get_node_with_secrets_def by blast
  next
    case False
    then show ?thesis using UpdateNode by (auto simp: admin_update_node_def node_read_def split: sum.splits option.splits if_splits)
  qed
next
  case (DeleteNode p)
  show ?thesis
  proof (cases "\<exists>i n. positive_id p = Inr i \<and> \<not> f 0 \<and> get_node i (na_table st) = Some n \<and> nr_source n \<noteq> ''config''")
    case True
    then obtain i n where n: "positive_id p = Inr i" "\<not> f 0" "get_node i (na_table st) = Some n" "nr_source n \<noteq> ''config''" by blast
    then obtain r where r: "row_of nr_id i (nt_rows (na_table st)) = Some r" "nr_source r \<noteq> ''config''"
      by (auto simp: get_node_def get_node_with_secrets_def mask_node_secret_def)
    have rf: "snd (case run_node_refresh c b w i s of (True, st2) \<Rightarrow> (x, table_only env 5 st2) | (False, st2) \<Rightarrow> (y, st2)) = snd (run_node_refresh c b w i s)"
      for b s and x y :: "api_error + nat \<times> unit" and env by (simp add: table_only_def split: prod.split bool.split)
    have "na_table (snd (node_request c f id now w op st)) = snd (disable_node (f 1) now i (na_table st))"
      using DeleteNode n refresh_table [of c "f 2" w i] by (cases "disable_node (f 1) now i (na_table st)")
        (auto simp: admin_delete_node_def node_read_def node_write_def refresh_alone rf table_only_def [of id 0] split: sum.split)
    then show ?thesis using r by blast
  next
    case False
    then show ?thesis using DeleteNode by (auto simp: admin_delete_node_def node_read_def split: sum.splits option.splits if_splits)
  qed
next
  case (RefreshNode p)
  have rf: "snd (case run_node_refresh c b w i s of (True, st2) \<Rightarrow> write_node_response b' i k st2 | (False, st2) \<Rightarrow> (x, st2)) = snd (run_node_refresh c b w i s)"
    for b b' i k x s by (simp split: prod.split bool.split)
  show ?thesis using RefreshNode by (auto simp: admin_refresh_node_def node_read_def rf split: sum.splits option.splits)
qed auto

lemma config_rows_upd:
  assumes "distinct (map nr_id rs)" "row_of nr_id i rs = Some r" "nr_source r \<noteq> ''config''" "\<And>x. nr_source (g x) = nr_source x"
  shows "{x \<in> set (upd_where (\<lambda>x. nr_id x = i) g rs). nr_source x = ''config''} = {x \<in> set rs. nr_source x = ''config''}"
proof -
  have r: "r \<in> set rs" "nr_id r = i" using row_of_Some [OF assms(2)] by simp_all
  have "x = r" if "x \<in> set rs" "nr_id x = i" for x using assms(1) that r by (auto simp: distinct_map dest: inj_onD)
  then have "nr_source x \<noteq> ''config''" if "x \<in> set rs" "nr_id x = i" for x using that assms(3) by blast
  then show ?thesis using assms(4) by (fastforce simp: set_upd_where image_iff)
qed

lemma node_request_safe:
  assumes "nodes_inv (ue_parse (nc_urls c)) (na_table st)"
  shows "nodes_inv (ue_parse (nc_urls c)) (na_table (snd (node_request c f id now w op st))) \<and>
    config_rows (na_table (snd (node_request c f id now w op st))) = config_rows (na_table st)"
proof -
  let ?t = "na_table st" and ?p = "ue_parse (nc_urls c)"
  have d: "distinct (map nr_id (nt_rows ?t))" using assms by (simp add: nodes_inv_def)
  have cr: "config_rows (snd (create_node b ?p now n ?t)) = config_rows ?t" if "nr_source n = []" for b n
    using that by (auto simp: create_node_def config_rows_def Let_def dest: validate_node_Inr(3) split: sum.split)
  have up: "config_rows (snd (update_node b ?p now n ?t)) = config_rows ?t"
    if "row_of nr_id (nr_id n) (nt_rows ?t) = Some r" "nr_source r \<noteq> ''config''" for b n r
  proof (cases "update_node b ?p now n ?t")
    case (Pair res t')
    show ?thesis
    proof (cases res)
      case (Inl e)
      then have "t' = ?t" using Pair by (auto simp: update_node_def split: sum.splits if_splits)
      then show ?thesis using Pair by simp
    next
      case (Inr u)
      have "update_node b ?p now n ?t = (Inr u, t')" using Pair Inr by simp
      then obtain n' where "validate_node ?p n = Inr n'" "\<forall>r \<in> set (nt_rows ?t). nr_id r \<noteq> nr_id n \<longrightarrow> nr_name r \<noteq> nr_name n'"
        and t': "t' = ?t\<lparr>nt_rows := upd_where (\<lambda>r. nr_id r = nr_id n) (\<lambda>r. r\<lparr>nr_name := nr_name n', nr_base_url := nr_base_url n',
           nr_backend := nr_backend n', nr_auth := nr_auth n', nr_static := nr_static n', nr_health_path := nr_health_path n',
           nr_timeout := nr_timeout n', nr_enabled := nr_enabled n', nr_updated := now\<rparr>) (nt_rows ?t)\<rparr>" by (rule update_node_Inr)
      show ?thesis using Pair config_rows_upd [OF d that] by (simp add: config_rows_def t')
    qed
  qed
  have di: "config_rows (snd (disable_node b now i ?t)) = config_rows ?t"
    if "row_of nr_id i (nt_rows ?t) = Some r" "nr_source r \<noteq> ''config''" for b i r
    using config_rows_upd [OF d that] by (simp add: disable_node_def config_rows_def)
  show ?thesis using node_request_table [of c f now w op st] assms cr up di create_node_inv update_node_inv disable_node_inv
    by (elim disjE exE conjE) simp_all
qed

definition serve_nodes :: "node_conf \<Rightarrow> ((nat \<Rightarrow> bool) \<times> gotime \<times> world \<times> node_op) list \<Rightarrow> node_admin \<Rightarrow> node_admin" where
  "serve_nodes c = fold (\<lambda>(f, now, w, op) st. snd (node_request c f id now w op st))"

text \<open>
  C23: The node endpoints keep the table sound and the declared nodes as declared. After any
  sequence of requests, whatever fails, ids and names are unique and every row passes
  validation, and the nodes that come from the configuration are exactly as they were.
\<close>
theorem declared_nodes_read_only:
  assumes "nodes_inv (ue_parse (nc_urls c)) (na_table st)"
  shows "nodes_inv (ue_parse (nc_urls c)) (na_table (serve_nodes c ops st)) \<and>
    config_rows (na_table (serve_nodes c ops st)) = config_rows (na_table st)"
  using assms
proof (induction ops arbitrary: st)
  case (Cons x ops)
  obtain f now w op where x: "x = (f, now, w, op)" by (cases x)
  show ?case using Cons.IH node_request_safe [OF Cons.prems] by (simp add: serve_nodes_def x)
qed (simp add: serve_nodes_def)

section \<open>Witnesses\<close>

definition api_row :: node_row where
  "api_row = sample_row\<lparr>nr_source := ''api''\<rparr>"

definition demo_parts :: url_parts where
  "demo_parts = \<lparr>up_scheme = ''http'', up_opaque = [], up_host = ''h'', up_user = False, up_query = [], up_force_query = False,
     up_fragment = [], up_path = []\<rparr>"

definition demo_node_conf :: node_conf where
  "demo_node_conf = \<lparr>nc_urls = \<lparr>ue_parse = (\<lambda>_. Some demo_parts), ue_string = (\<lambda>_. ''http://h'')\<rparr>, nc_decoders = one_decoder,
     nc_options = default_options\<rparr>"

definition demo_node_admin :: node_admin where
  "demo_node_admin = \<lparr>na_table = \<lparr>nt_rows = [api_row], nt_next = 2\<rparr>, na_poller = Some new_poller\<rparr>"

lemma demo_nodes_inv: "nodes_inv ps (na_table demo_node_admin)"
proof -
  have "canonical_url ''http://h''" unfolding canonical_url_def
    by (intro exI [of _ "''http''"] exI [of _ "''h''"] exI [of _ "[]"]) (simp add: to_lower_def has_suffix_def lower_char_def)
  moreover have "validate_auth_header ''Bearer sk-123456789''" "trim_space ''n'' = ''n''" by code_simp+
  ultimately show ?thesis
    by (simp add: nodes_inv_def demo_node_admin_def api_row_def sample_row_def valid_row_def)
qed

text \<open>The same table without a poller.\<close>

definition demo_quiet_admin :: node_admin where
  "demo_quiet_admin = demo_node_admin\<lparr>na_poller := None\<rparr>"

definition no_patch :: update_node_request where
  "no_patch = \<lparr>un_name = None, un_base_url = None, un_backend = None, un_auth = None, un_static = None, un_health_path = None,
     un_timeout = Some 0, un_enabled = None\<rparr>"

theorem node_secrets_never_served_witness:
  "\<exists>d v. fst (node_request demo_node_conf (\<lambda>_. False) id 5 one_world (GetNode ''1'') demo_node_admin) = [d] \<and>
     nr_auth (nv_node d) = Some v \<and> \<not> validate_auth_header v"
proof -
  let ?r = "fst (node_request demo_node_conf (\<lambda>_. False) id 5 one_world (GetNode ''1'') demo_node_admin)"
  have l: "map (\<lambda>d. nr_auth (nv_node d)) ?r = [Some (mask_auth_header ''Bearer sk-123456789'')]" by code_simp
  then obtain d where d: "?r = [d]" "nr_auth (nv_node d) = Some (mask_auth_header ''Bearer sk-123456789'')" by (cases ?r) auto
  then have "d \<in> set ?r" by simp
  from node_secrets_never_served [OF this d(2)] d show ?thesis by blast
qed

theorem patch_keeps_unnamed_witness:
  "\<exists>new. row_of nr_id 1 (nt_rows (na_table (snd (admin_update_node demo_node_conf (\<lambda>_. False) id 5 one_world ''1'' (Inr no_patch, TailEof) demo_quiet_admin)))) = Some new \<and>
     nr_auth new = Some ''Bearer sk-123456789''"
proof -
  let ?d = "admin_update_node demo_node_conf (\<lambda>_. False) id 5 one_world ''1'' (Inr no_patch, TailEof) demo_quiet_admin"
  have "\<not> isl (fst ?d)" by code_simp
  then obtain r where "fst ?d = Inr r" by (cases "fst ?d") auto
  then have r: "?d = (Inr r, snd ?d)" by (simp add: prod_eq_iff)
  have "positive_id ''1'' = Inr 1" by code_simp
  moreover have "row_of nr_id 1 (nt_rows (na_table demo_quiet_admin)) = Some api_row"
    by (simp add: row_of_def demo_quiet_admin_def demo_node_admin_def api_row_def sample_row_def)
  ultimately show ?thesis using patch_keeps_unnamed [OF r] by (auto simp: no_patch_def patched_def api_row_def sample_row_def)
qed

theorem declared_nodes_read_only_witness:
  "config_rows (na_table (serve_nodes demo_node_conf [(\<lambda>_. False, 5, one_world, DeleteNode ''1'')] demo_node_admin)) = {}"
proof -
  have "config_rows (na_table demo_node_admin) = {}" by (simp add: config_rows_def demo_node_admin_def api_row_def)
  then show ?thesis using declared_nodes_read_only [OF demo_nodes_inv, of demo_node_conf] by simp
qed

end
