(* ===== verification/NodeRaces.thy ===== *)
theory NodeRaces
  imports AdminNodes
begin

text \<open>
  The deletion of a node amid everything else that touches nodes: the poll cycles of
  internal/poller and the other node requests, each of which lists the rows, publishes them to the
  registry and reconciles the poller in separate steps, holding no lock across them. A step
  relation gives every interleaving; the handler runs between its own steps whatever the others do.
\<close>

section \<open>The others\<close>

text \<open>
  The loads in flight: those that have listed their rows (mapped to specs and registry nodes) but
  not yet called SetNodes, and those that have called SetNodes but not yet reconciled.
\<close>

record racing = node_admin +
  ra_listed :: "(node_spec \<times> node) list list"
  ra_published :: "node_spec list list"

text \<open>
  One step of one of them: a committed change of the node table (within \<open>ok\<close>), a listing, a
  SetNodes, a reconciliation, or the result of a probe, of whatever spec, applied.
\<close>

inductive other_step :: "url_env \<Rightarrow> (node_table \<Rightarrow> bool) \<Rightarrow> racing \<Rightarrow> racing \<Rightarrow> bool" for urls ok where
  commit: "ok t \<Longrightarrow> other_step urls ok st (st\<lparr>na_table := t\<rparr>)"
| listing: "other_step urls ok st
     (st\<lparr>ra_listed := listed_nodes urls (sort_key nr_id (nt_rows (na_table st))) # ra_listed st\<rparr>)"
| publish: "both \<in> set (ra_listed st) \<Longrightarrow> other_step urls ok st
     ((on_poller (publish_nodes both) st)\<lparr>ra_listed := remove1 both (ra_listed st), ra_published := map fst both # ra_published st\<rparr>)"
| reconcile: "specs \<in> set (ra_published st) \<Longrightarrow> other_step urls ok st
     ((on_poller (reconcile specs) st)\<lparr>ra_published := remove1 specs (ra_published st)\<rparr>)"
| probed: "other_step urls ok st (on_poller (apply_probe now sweep s out) st)"

inductive_cases other_stepE: "other_step urls ok st st'"

abbreviation others_run :: "url_env \<Rightarrow> (node_table \<Rightarrow> bool) \<Rightarrow> racing \<Rightarrow> racing \<Rightarrow> bool" where
  "others_run urls ok \<equiv> (other_step urls ok)\<^sup>*\<^sup>*"

text \<open>An interference: from every state it takes some steps of the others.\<close>

definition others :: "url_env \<Rightarrow> (node_table \<Rightarrow> bool) \<Rightarrow> (racing \<Rightarrow> racing) \<Rightarrow> bool" where
  "others urls ok e \<longleftrightarrow> (\<forall>st. others_run urls ok st (e st))"

section \<open>What they keep\<close>

lemma on_poller_simps [simp]:
  "na_table (on_poller g st) = na_table st" "na_poller (on_poller g st) = map_option g (na_poller st)"
  "ra_listed (on_poller g st) = ra_listed st" "ra_published (on_poller g st) = ra_published st"
  by (simp_all add: on_poller_def)

lemma known_reconcile_spec: "known_ids (pl_reg (reconcile_spec s p)) = known_ids (pl_reg p)"
  by (auto simp: reconcile_spec_def Let_def reg.known_report split: option.split)

lemma known_reconcile: "known_ids (pl_reg (reconcile specs p)) = known_ids (pl_reg p)"
proof -
  have "known_ids (pl_reg (fold reconcile_spec specs p)) = known_ids (pl_reg p)"
    by (induction specs arbitrary: p) (simp_all add: known_reconcile_spec)
  then show ?thesis by (simp add: reconcile_def Let_def)
qed

lemma inv_reconcile_spec: "registry_inv (pl_reg p) \<Longrightarrow> registry_inv (pl_reg (reconcile_spec s p))"
  by (auto simp: reconcile_spec_def Let_def reg.ok_report split: option.split)

lemma inv_reconcile: "registry_inv (pl_reg p) \<Longrightarrow> registry_inv (pl_reg (reconcile specs p))"
proof -
  have "registry_inv (pl_reg p) \<Longrightarrow> registry_inv (pl_reg (fold reconcile_spec specs p))" for p
    by (induction specs arbitrary: p) (simp_all add: inv_reconcile_spec)
  then show "registry_inv (pl_reg p) \<Longrightarrow> ?thesis" by (simp add: reconcile_def Let_def)
qed

lemma probe_registry:
  "known_ids (pl_reg (apply_probe now sw s out p)) = known_ids (pl_reg p)"
  "registry_inv (pl_reg p) \<Longrightarrow> registry_inv (pl_reg (apply_probe now sw s out p))"
  by (auto simp: apply_probe_def Let_def reg.known_report reg.ok_report split: option.split)

lemma publish_registry:
  "known_ids (pl_reg (publish_nodes both p)) = nd_id ` snd ` set both" "registry_inv (pl_reg (publish_nodes both p))"
  by (simp_all add: publish_nodes_def reg.known_declare reg.ok_declare)

definition sound :: "racing \<Rightarrow> bool" where
  "sound st \<longleftrightarrow> (\<exists>pl. na_poller st = Some pl \<and> registry_inv (pl_reg pl))"

lemma sound_on_poller: "sound st \<Longrightarrow> (\<And>pl. registry_inv (pl_reg pl) \<Longrightarrow> registry_inv (pl_reg (g pl))) \<Longrightarrow> sound (on_poller g st)"
  by (auto simp: sound_def)

lemma sound_more: "na_poller st' = na_poller st \<Longrightarrow> sound st' = sound st"
  by (simp add: sound_def)

lemma other_step_sound: "other_step urls ok st st' \<Longrightarrow> sound st \<Longrightarrow> sound st'"
  by (erule other_stepE)
    (auto simp: sound_def publish_registry inv_reconcile probe_registry)

lemma others_sound: "others_run urls ok st st' \<Longrightarrow> sound st \<Longrightarrow> sound st'"
  by (induction rule: rtranclp_induct) (simp_all add: other_step_sound)

section \<open>A node that is off stays out\<close>

definition off :: "int \<Rightarrow> node_table \<Rightarrow> bool" where
  "off i t \<longleftrightarrow> (\<forall>r \<in> set (nt_rows t). nr_id r = i \<longrightarrow> \<not> nr_enabled r)"

text \<open>A load in flight that read its rows while the node was on.\<close>

definition carries :: "int \<Rightarrow> (node_spec \<times> node) list \<Rightarrow> bool" where
  "carries i both \<longleftrightarrow> i \<in> nd_id ` snd ` set both"

lemma listed_off: "off i t \<Longrightarrow> \<not> carries i (listed_nodes urls (sort_key nr_id (nt_rows t)))"
proof
  assume t: "off i t" "carries i (listed_nodes urls (sort_key nr_id (nt_rows t)))"
  then obtain x where x: "x \<in> set (List.map_filter (spec_of_row urls) (sort_key nr_id (nt_rows t)))" "nd_id (snd x) = i"
    by (auto simp: carries_def listed_nodes_def)
  then obtain r where r: "r \<in> set (nt_rows t)" "spec_of_row urls r = Some x"
    by (auto simp: List.map_filter_def)
  have "nr_id r = i" using spec_of_row_Some [of urls r "fst x" "snd x"] r(2) x(2) by simp
  then show False using t(1) r by (auto simp: off_def spec_of_row_def split: if_splits)
qed

definition barred :: "int \<Rightarrow> racing \<Rightarrow> bool" where
  "barred i st \<longleftrightarrow> sound st \<and> off i (na_table st) \<and> (\<forall>both \<in> set (ra_listed st). \<not> carries i both)"

definition gone :: "int \<Rightarrow> racing \<Rightarrow> bool" where
  "gone i st \<longleftrightarrow> barred i st \<and> i \<notin> known_ids (pl_reg (the (na_poller st)))"

lemma other_step_barred: "other_step urls (off i) st st' \<Longrightarrow> barred i st \<Longrightarrow> barred i st'"
proof -
  assume s: "other_step urls (off i) st st'" and b: "barred i st"
  have "sound st'" using other_step_sound [OF s] b by (simp add: barred_def)
  then show ?thesis using s b listed_off [of i "na_table st" urls]
    by (elim other_stepE) (auto simp: barred_def dest: notin_set_remove1 set_remove1_subset [THEN subsetD])
qed

lemma other_step_gone: "other_step urls (off i) st st' \<Longrightarrow> gone i st \<Longrightarrow> gone i st'"
proof -
  assume s: "other_step urls (off i) st st'" and g: "gone i st"
  have b: "barred i st'" using other_step_barred [OF s] g by (simp add: gone_def)
  obtain pl where pl: "na_poller st = Some pl" using g by (auto simp: gone_def barred_def sound_def)
  have "i \<notin> known_ids (pl_reg (the (na_poller st')))"
    using s g pl by (elim other_stepE) (auto simp: gone_def barred_def publish_registry known_reconcile probe_registry carries_def)
  then show ?thesis using b by (simp add: gone_def)
qed

lemma others_barred: "others_run urls (off i) st st' \<Longrightarrow> barred i st \<Longrightarrow> barred i st'"
  by (induction rule: rtranclp_induct) (simp_all add: other_step_barred)

lemma others_gone: "others_run urls (off i) st st' \<Longrightarrow> gone i st \<Longrightarrow> gone i st'"
  by (induction rule: rtranclp_induct) (simp_all add: other_step_gone)

text \<open>The steps of the deleting request itself.\<close>

lemma publish_gone: "barred i st \<Longrightarrow> \<not> carries i both \<Longrightarrow> gone i (on_poller (publish_nodes both) st)"
  by (auto simp: gone_def barred_def sound_def publish_registry carries_def)

lemma reconcile_gone: "gone i st \<Longrightarrow> gone i (on_poller (reconcile specs) st)"
  by (auto simp: gone_def barred_def sound_def inv_reconcile known_reconcile)

lemma probe_gone: "gone i st \<Longrightarrow> gone i (on_poller (apply_probe now sw s out) st)"
  by (auto simp: gone_def barred_def sound_def probe_registry)

lemma refresh_gone:
  assumes r: "run_refresh_amid c fault w env i st = (True, st')" and b: "barred i st"
    and e: "\<And>k. 1 \<le> k \<Longrightarrow> others (nc_urls c) (off i) (env k)"
  shows "gone i st'"
proof -
  have run: "others_run (nc_urls c) (off i) s (env k s)" if "1 \<le> k" for k s
    using e [OF that] by (simp add: others_def)
  note ob = others_barred [OF run] and og = others_gone [OF run]
  have np: "na_poller st \<noteq> None" using b by (auto simp: barred_def sound_def)
  let ?rows = "sort_key nr_id (nt_rows (na_table (env 1 st)))"
  let ?both = "listed_nodes (nc_urls c) ?rows"
  let ?st2 = "on_poller (reconcile (map fst ?both)) (env 3 (on_poller (publish_nodes ?both) (env 2 (env 1 st))))"
  have b1: "barred i (env 1 st)" by (rule ob [OF _ b]) simp
  have "\<not> carries i ?both" using b1 by (intro listed_off) (simp add: barred_def)
  moreover have "barred i (env 2 (env 1 st))" by (rule ob [OF _ b1]) simp
  ultimately have "gone i (env 3 (on_poller (publish_nodes ?both) (env 2 (env 1 st))))"
    by (intro og publish_gone) simp_all
  then have g2: "gone i ?st2" by (rule reconcile_gone)
  then have g4: "gone i (env 4 ?st2)" by (intro og) simp_all
  have "st' = ?st2 \<or> (\<exists>now sw s out. st' = on_poller (apply_probe now sw s out) (env 4 ?st2))"
    using r np by (auto simp: run_refresh_amid_def list_nodes_with_secrets_def Let_def split: sum.splits if_splits option.splits)
  then show ?thesis using g2 probe_gone [OF g4] by auto
qed

section \<open>Deleted means no longer routable\<close>

lemma disable_off:
  assumes "disable_node fault now i t = (Inr u, t')"
  shows "off i t'"
proof -
  have "t' = t\<lparr>nt_rows := upd_where (\<lambda>r. nr_id r = i) (\<lambda>r. r\<lparr>nr_enabled := False, nr_updated := now\<rparr>) (nt_rows t)\<rparr>"
    using assms by (auto simp: disable_node_def split: if_splits)
  then have t': "nt_rows t' = upd_where (\<lambda>r. nr_id r = i) (\<lambda>r. r\<lparr>nr_enabled := False, nr_updated := now\<rparr>) (nt_rows t)" by simp
  show ?thesis unfolding off_def
  proof (intro ballI impI)
    fix row assume row: "row \<in> set (nt_rows t')" "nr_id row = i"
    obtain x where x: "row = (if nr_id x = i then x\<lparr>nr_enabled := False, nr_updated := now\<rparr> else x)"
      using row(1) unfolding t' set_upd_where by blast
    then show "\<not> nr_enabled row" using row(2) by (cases "nr_id x = i") simp_all
  qed
qed

text \<open>
  C21: Deleted means no longer routable. When a deletion is answered with 204, then, however the
  poll cycles and other node requests interleave with the handler's own steps, at the reply and at
  every moment after it no model resolves to the node and its row is off: provided nobody
  re-enables the row, and no load was in flight at the deletion that had listed the node
  before it and not yet published its list.
\<close>
theorem deleted_node_unroutable:
  assumes del: "admin_delete_node c f env now w p st = (Inr r, st')" and i: "positive_id p = Inr i"
    and st: "na_poller st = Some pl" "registry_inv (pl_reg pl)"
    and before: "others (nc_urls c) (\<lambda>t. True) (env 0)"
    and during: "\<forall>k. 1 \<le> k \<longrightarrow> others (nc_urls c) (off i) (env k)"
    and fresh: "\<forall>both \<in> set (ra_listed (env 0 st)). \<not> carries i both"
    and later: "others_run (nc_urls c) (off i) st' st''"
  shows "\<exists>pl''. na_poller st'' = Some pl'' \<and> i \<notin> known_ids (pl_reg pl'') \<and> off i (na_table st'') \<and>
    (\<forall>m. i \<notin> routed_ids (pl_reg pl'') m \<and> (\<forall>n. fst (resolve m (pl_reg pl'')) = Some n \<longrightarrow> nd_id n \<noteq> i))"
proof -
  have "sound st" using st by (simp add: sound_def)
  then have s0: "sound (env 0 st)" using before others_sound unfolding others_def by blast
  obtain t where t: "disable_node (f 1) now i (na_table (env 0 st)) = (Inr (), t)"
    and rf: "\<exists>st2. run_refresh_amid c (f 2) w env i ((env 0 st)\<lparr>na_table := t\<rparr>) = (True, st2) \<and> st' = env 5 st2"
    using del i by (auto simp: admin_delete_node_def node_write_def split: sum.splits option.splits if_splits prod.splits bool.splits)
  obtain st2 where st2: "run_refresh_amid c (f 2) w env i ((env 0 st)\<lparr>na_table := t\<rparr>) = (True, st2)" "st' = env 5 st2"
    using rf by blast
  have "barred i ((env 0 st)\<lparr>na_table := t\<rparr>)"
    using s0 fresh disable_off [OF t] by (simp add: barred_def sound_def)
  then have "gone i st2" using refresh_gone [OF st2(1)] during by blast
  moreover have "others_run (nc_urls c) (off i) st2 st'" unfolding st2(2) using during by (simp add: others_def)
  ultimately have "gone i st'" using others_gone by blast
  then have g: "gone i st''" using others_gone [OF later] by blast
  then obtain pl'' where p: "na_poller st'' = Some pl''" "registry_inv (pl_reg pl'')" "i \<notin> known_ids (pl_reg pl'')" "off i (na_table st'')"
    by (auto simp: gone_def barred_def sound_def)
  have "routed_ids (pl_reg pl'') m \<subseteq> known_ids (pl_reg pl'')" for m by (rule reg.routes_known [OF p(2)])
  then have nr: "i \<notin> routed_ids (pl_reg pl'') m" for m using p(3) by blast
  have "nd_id n \<noteq> i" if "fst (resolve m (pl_reg pl'')) = Some n" for m n
  proof -
    have "resolve_pick m (resolve_load m (pl_reg pl'')) (pl_reg pl'') = (Some n, snd (resolve m (pl_reg pl'')))"
      using that by (simp add: resolve_def prod_eq_iff)
    then have "n \<in> set (resolve_load m (pl_reg pl''))" by (rule resolve_pick_mem)
    then show ?thesis using nr [of m] by (auto simp: routed_ids_def)
  qed
  then show ?thesis using p nr by blast
qed

text \<open>A deletion with a poll cycle in progress: the cycle lists while the handler reloads.\<close>

definition demo_racing :: racing where
  "demo_racing = node_admin.extend demo_node_admin \<lparr>ra_listed = [], ra_published = []\<rparr>"

definition cycle_lists :: "racing \<Rightarrow> racing" where
  "cycle_lists st = st\<lparr>ra_listed := listed_nodes (nc_urls demo_node_conf) (sort_key nr_id (nt_rows (na_table st))) # ra_listed st\<rparr>"

definition demo_amid :: "nat \<Rightarrow> racing \<Rightarrow> racing" where
  "demo_amid k st = (if k = 2 then cycle_lists st else st)"

lemma demo_amid_others: "others (nc_urls demo_node_conf) ok (demo_amid k)"
  using other_step.listing [of "nc_urls demo_node_conf" ok] by (auto simp: others_def demo_amid_def cycle_lists_def)

theorem deleted_node_unroutable_witness:
  "\<exists>pl. na_poller (snd (admin_delete_node demo_node_conf (\<lambda>_. False) demo_amid 5 one_world ''1'' demo_racing)) = Some pl \<and>
     (\<forall>m. 1 \<notin> routed_ids (pl_reg pl) m)"
proof -
  let ?d = "admin_delete_node demo_node_conf (\<lambda>_. False) demo_amid 5 one_world ''1'' demo_racing"
  have "fst ?d = Inr (204, ()) \<and> positive_id ''1'' = Inr 1" by code_simp
  then have r: "?d = (Inr (204, ()), snd ?d)" "positive_id ''1'' = Inr 1" by (simp_all add: prod_eq_iff)
  have p: "na_poller demo_racing = Some new_poller" "ra_listed (demo_amid 0 demo_racing) = []"
    by (simp_all add: demo_racing_def demo_node_admin_def node_admin.defs demo_amid_def)
  have "registry_inv (pl_reg new_poller)" using new_poller_ok by (simp add: poller_ok_def agrees_def)
  then show ?thesis
    using deleted_node_unroutable [OF r p(1) _ demo_amid_others _ _ rtranclp.rtrancl_refl] demo_amid_others p(2) by fastforce
qed

section \<open>A load in flight undoes a deletion\<close>

text \<open>
  Without the proviso the promise fails. A poll cycle that listed the node before the deletion and
  publishes after it puts the node back into the registry, and the probe of that cycle makes
  it routable, although the deletion was answered with 204 and nobody enabled the row.
\<close>
theorem stale_reload_undoes_deletion:
  "\<exists>st st2. admin_delete_node demo_node_conf (\<lambda>_. False) (\<lambda>k s. s) 5 one_world ''1'' (cycle_lists demo_racing) = (Inr (204, ()), st) \<and>
     others_run (nc_urls demo_node_conf) (off 1) st st2 \<and> off 1 (na_table st2) \<and>
     1 \<in> routed_ids (pl_reg (the (na_poller st2))) ''m''"
proof -
  let ?d = "admin_delete_node demo_node_conf (\<lambda>_. False) (\<lambda>k s. s) 5 one_world ''1'' (cycle_lists demo_racing)"
  define st where "st = snd ?d"
  define both where "both = listed_nodes (nc_urls demo_node_conf) [api_row]"
  define s where "s = fst (hd both)"
  define a where "a = (on_poller (publish_nodes both) st)\<lparr>ra_listed := remove1 both (ra_listed st), ra_published := map fst both # ra_published st\<rparr>"
  define b where "b = (on_poller (reconcile (map fst both)) a)\<lparr>ra_published := remove1 (map fst both) (ra_published a)\<rparr>"
  define st2 where "st2 = on_poller (apply_probe 9 False s (Inr [''m''])) b"
  have d: "fst ?d = Inr (204, ())" by code_simp
  have l: "ra_listed st = [both]" unfolding st_def both_def by code_simp
  have r1: "other_step (nc_urls demo_node_conf) (off 1) st a" unfolding a_def by (rule other_step.publish) (simp add: l)
  have r2: "other_step (nc_urls demo_node_conf) (off 1) a b" unfolding b_def by (rule other_step.reconcile) (simp add: a_def)
  have r3: "other_step (nc_urls demo_node_conf) (off 1) b st2" unfolding st2_def by (rule other_step.probed)
  have "others_run (nc_urls demo_node_conf) (off 1) st st2"
    by (intro rtranclp.rtrancl_into_rtrancl [where r = "other_step (nc_urls demo_node_conf) (off 1)", OF _ r3]
      rtranclp.rtrancl_into_rtrancl [where r = "other_step (nc_urls demo_node_conf) (off 1)", OF _ r2]
      rtranclp.rtrancl_into_rtrancl [where r = "other_step (nc_urls demo_node_conf) (off 1)", OF _ r1] rtranclp.rtrancl_refl)
  moreover have "off 1 (na_table st2) \<and> 1 \<in> routed_ids (pl_reg (the (na_poller st2))) ''m''"
    unfolding st2_def b_def a_def s_def st_def both_def off_def routed_ids_def by code_simp
  ultimately show ?thesis using d st_def by (metis prod.collapse)
qed

end
