(* ===== verification/Config.thy ===== *)
theory Config
  imports AdminNodes
begin

text \<open>
  internal/config/config.go: the process configuration read from the environment, and the
  snapshot of it that the admin API shows (internal/admin/config_health.go). The environment is
  the function of os.Getenv, empty for an unset variable; an error is the name of the variable
  at fault. strconv.ParseFloat and url.Parse are parameters, the former with the NaN and the
  infinities it accepts.
\<close>

section \<open>Reading variables\<close>

type_synonym environment = "string \<Rightarrow> string"

definition and_then :: "'e + 'a \<Rightarrow> ('a \<Rightarrow> 'e + 'b) \<Rightarrow> 'e + 'b" where
  "and_then r k = (case r of Inl e \<Rightarrow> Inl e | Inr a \<Rightarrow> k a)"

lemma and_then_Inr [simp]: "and_then r k = Inr b \<longleftrightarrow> (\<exists>a. r = Inr a \<and> k a = Inr b)"
  by (cases r) (auto simp: and_then_def)

definition env_or_default :: "environment \<Rightarrow> string \<Rightarrow> string \<Rightarrow> string" where
  "env_or_default env key fallback = (if env key \<noteq> [] then env key else fallback)"

definition required :: "environment \<Rightarrow> string \<Rightarrow> string + string" where
  "required env key = (if env key = [] then Inl key else Inr (env key))"

definition int_env_or_default :: "environment \<Rightarrow> string \<Rightarrow> int \<Rightarrow> string + int" where
  "int_env_or_default env key fallback = (if env key = [] then Inr fallback else
     (case parse_int64 (env key) of None \<Rightarrow> Inl key | Some n \<Rightarrow> if n \<le> 0 then Inl key else Inr n))"

definition bounded_int_env_or_default :: "environment \<Rightarrow> string \<Rightarrow> int \<Rightarrow> int \<Rightarrow> string + int" where
  "bounded_int_env_or_default env key fallback upper =
     and_then (int_env_or_default env key fallback) (\<lambda>n. if upper < n then Inl key else Inr n)"

definition max_rate_limit_per_min :: int where "max_rate_limit_per_min = 10000"
definition max_concurrent_cap :: int where "max_concurrent_cap = 100"

text \<open>strconv.ParseBool.\<close>

definition parse_bool :: "string \<Rightarrow> bool option" where
  "parse_bool v = (if v \<in> {''1'', ''t'', ''T'', ''TRUE'', ''true'', ''True''} then Some True
     else if v \<in> {''0'', ''f'', ''F'', ''FALSE'', ''false'', ''False''} then Some False else None)"

text \<open>Comparing a float64 with zero: a NaN is neither.\<close>

definition negative :: "f64 \<Rightarrow> bool" where
  "negative x = (case x of Fin q \<Rightarrow> q < 0 | NegInf \<Rightarrow> True | _ \<Rightarrow> False)"

definition float_env :: "(string \<Rightarrow> f64 option) \<Rightarrow> environment \<Rightarrow> string \<Rightarrow> (f64 \<Rightarrow> bool) \<Rightarrow> f64 \<Rightarrow> string + f64" where
  "float_env parse_float env key bad fallback = (if env key = [] then Inr fallback else
     (case parse_float (env key) of None \<Rightarrow> Inl key | Some x \<Rightarrow> if bad x then Inl key else Inr x))"

definition not_finite :: "f64 \<Rightarrow> bool" where
  "not_finite x = (case x of Fin q \<Rightarrow> False | _ \<Rightarrow> True)"

section \<open>The configuration\<close>

record config =
  cf_ollama_url :: string
  cf_ollama_set :: bool
  cf_models_list_all :: bool
  cf_nodes_file :: string
  cf_admin_key :: string
  cf_bootstrap_token :: string
  cf_database_url :: string
  cf_port :: string
  cf_cors_origins :: string
  cf_max_request_body :: int
  cf_max_json_body :: int
  cf_default_grant :: f64
  cf_log_level :: string
  cf_admin_grant :: f64
  cf_monthly_grant :: f64
  cf_webhook_url :: string
  cf_auth :: auth_limits
  cf_limits :: limits

definition body_env :: "environment \<Rightarrow> string \<Rightarrow> int \<Rightarrow> (int \<Rightarrow> bool) \<Rightarrow> string + int" where
  "body_env env key fallback bad = (if env key = [] then Inr fallback else
     (case parse_int64 (env key) of None \<Rightarrow> Inl key | Some n \<Rightarrow> if bad n then Inl key else Inr n))"

definition webhook_env :: "url_parser \<Rightarrow> environment \<Rightarrow> string + string" where
  "webhook_env parse env = (let v = env ''CREDIT_ALERT_WEBHOOK_URL'' in if v = [] then Inr [] else
     (case parse v of None \<Rightarrow> Inl ''CREDIT_ALERT_WEBHOOK_URL''
      | Some u \<Rightarrow> if up_scheme u \<noteq> ''http'' \<and> up_scheme u \<noteq> ''https'' \<or> up_host u = [] then Inl ''CREDIT_ALERT_WEBHOOK_URL'' else Inr v))"

definition bool_env :: "environment \<Rightarrow> string \<Rightarrow> string + bool" where
  "bool_env env key = (if env key = [] then Inr False else (case parse_bool (env key) of None \<Rightarrow> Inl key | Some b \<Rightarrow> Inr b))"

definition load_limits :: "environment \<Rightarrow> string + auth_limits \<times> limits" where
  "load_limits env =
     and_then (int_env_or_default env ''AUTH_RATELIMIT_LOGIN_PER_MIN'' 5) (\<lambda>login_ip.
     and_then (int_env_or_default env ''AUTH_RATELIMIT_LOGIN_EMAIL_PER_MIN'' 5) (\<lambda>login_email.
     and_then (int_env_or_default env ''AUTH_RATELIMIT_REGISTER_PER_MIN'' 3) (\<lambda>register_ip.
     and_then (int_env_or_default env ''AUTH_RATELIMIT_GENERAL_PER_MIN'' 120) (\<lambda>general_ip.
     and_then (int_env_or_default env ''AUTH_BCRYPT_MAX_CONCURRENT'' 8) (\<lambda>bcrypt.
     and_then (bounded_int_env_or_default env ''ACCOUNT_RATELIMIT_PER_MIN'' 300 max_rate_limit_per_min) (\<lambda>service.
     and_then (bounded_int_env_or_default env ''END_USER_RATELIMIT_PER_MIN'' 30 max_rate_limit_per_min) (\<lambda>end_user.
     and_then (bounded_int_env_or_default env ''ACCOUNT_MAX_CONCURRENT'' 8 max_concurrent_cap) (\<lambda>service_conc.
     and_then (bounded_int_env_or_default env ''END_USER_MAX_CONCURRENT'' 5 max_concurrent_cap) (\<lambda>end_user_conc.
     Inr (\<lparr>al_login_ip = login_ip, al_login_email = login_email, al_register_ip = register_ip, al_general_ip = general_ip, al_bcrypt = bcrypt\<rparr>,
          \<lparr>lm_end_user = end_user, lm_service = service, lm_end_user_conc = end_user_conc, lm_service_conc = service_conc\<rparr>))))))))))"

definition load_config :: "(string \<Rightarrow> f64 option) \<Rightarrow> url_parser \<Rightarrow> environment \<Rightarrow> string + config" where
  "load_config parse_float parse_url env =
     and_then (required env ''ADMIN_KEY'') (\<lambda>admin_key.
     and_then (required env ''DATABASE_URL'') (\<lambda>database_url.
     and_then (body_env env ''MAX_REQUEST_BODY'' 52428800 (\<lambda>n. False)) (\<lambda>max_body.
     and_then (body_env env ''MAX_JSON_REQUEST_BODY'' 1048576 (\<lambda>n. n \<le> 0)) (\<lambda>max_json.
     and_then (float_env parse_float env ''DEFAULT_CREDIT_GRANT'' (\<lambda>x. False) (Fin 0)) (\<lambda>dflt.
     and_then (float_env parse_float env ''ADMIN_SERVICE_CREDIT_GRANT'' negative (Fin 1000000)) (\<lambda>admin_grant.
     and_then (float_env parse_float env ''END_USER_MONTHLY_GRANT'' (\<lambda>x. not_finite x \<or> negative x) (Fin 5)) (\<lambda>monthly.
     and_then (load_limits env) (\<lambda>(auth, lim).
     and_then (bool_env env ''MODELS_LIST_ALL'') (\<lambda>list_all_models.
     and_then (webhook_env parse_url env) (\<lambda>webhook.
     Inr \<lparr>cf_ollama_url = env ''OLLAMA_URL'', cf_ollama_set = (env ''OLLAMA_URL'' \<noteq> []), cf_models_list_all = list_all_models,
       cf_nodes_file = env ''NODES_FILE'', cf_admin_key = admin_key, cf_bootstrap_token = env ''ADMIN_BOOTSTRAP_TOKEN'',
       cf_database_url = database_url, cf_port = env_or_default env ''PORT'' ''8080'', cf_cors_origins = env_or_default env ''CORS_ORIGINS'' ''*'',
       cf_max_request_body = max_body, cf_max_json_body = max_json, cf_default_grant = dflt,
       cf_log_level = env_or_default env ''LOG_LEVEL'' ''info'', cf_admin_grant = admin_grant, cf_monthly_grant = monthly,
       cf_webhook_url = webhook, cf_auth = auth, cf_limits = lim\<rparr>))))))))))"

section \<open>What the admin API shows of it\<close>

record config_snapshot =
  cs_ollama_url :: string
  cs_port :: string
  cs_log_level :: string
  cs_max_request_body :: int
  cs_max_json_body :: int
  cs_default_grant :: f64
  cs_cors_origins :: string
  cs_admin_rate :: int
  cs_auth :: auth_limits
  cs_limits :: limits
  cs_usage_capacity :: int
  cs_admin_session_hours :: int
  cs_user_session_hours :: int
  cs_models_list_all :: bool
  cs_nodes_file :: string

definition usage_channel_capacity :: nat where "usage_channel_capacity = 1000"

text \<open>The snapshot built in main; the version fields are not modelled.\<close>

definition snapshot_config :: "config \<Rightarrow> config_snapshot" where
  "snapshot_config c = \<lparr>cs_ollama_url = cf_ollama_url c, cs_port = cf_port c, cs_log_level = cf_log_level c,
     cs_max_request_body = cf_max_request_body c, cs_max_json_body = cf_max_json_body c, cs_default_grant = cf_default_grant c,
     cs_cors_origins = cf_cors_origins c, cs_admin_rate = admin_key_rate_limit_per_minute, cs_auth = cf_auth c, cs_limits = cf_limits c,
     cs_usage_capacity = int usage_channel_capacity, cs_admin_session_hours = go_div (session_duration_for ''admin'') hour,
     cs_user_session_hours = go_div (session_duration_for ''user'') hour, cs_models_list_all = cf_models_list_all c,
     cs_nodes_file = cf_nodes_file c\<rparr>"

section \<open>What a configuration that loads guarantees\<close>

lemma int_env_positive: "int_env_or_default env key d = Inr n \<Longrightarrow> 0 < d \<Longrightarrow> 0 < n"
  by (auto simp: int_env_or_default_def split: if_splits option.splits)

lemma bounded_int_env_in_range:
  "bounded_int_env_or_default env key d u = Inr n \<Longrightarrow> 0 < d \<Longrightarrow> 0 < n \<and> n \<le> u"
  by (auto simp: bounded_int_env_or_default_def dest: int_env_positive split: if_splits)

definition auth_limits_ok :: "auth_limits \<Rightarrow> bool" where
  "auth_limits_ok a \<longleftrightarrow> 1 \<le> al_login_ip a \<and> 1 \<le> al_login_email a \<and> 1 \<le> al_register_ip a \<and> 1 \<le> al_general_ip a \<and> 1 \<le> al_bcrypt a"

definition chat_limits_ok :: "limits \<Rightarrow> bool" where
  "chat_limits_ok l \<longleftrightarrow> lm_end_user l \<in> {1..10000} \<and> lm_service l \<in> {1..10000}
     \<and> lm_end_user_conc l \<in> {1..100} \<and> lm_service_conc l \<in> {1..100}"

definition finite_nonneg :: "f64 \<Rightarrow> bool" where
  "finite_nonneg x \<longleftrightarrow> \<not> not_finite x \<and> \<not> negative x"

lemma int_env_upd:
  "k \<noteq> k' \<Longrightarrow> int_env_or_default (env(k' := v)) k d = int_env_or_default env k d"
  "k \<noteq> k' \<Longrightarrow> bounded_int_env_or_default (env(k' := v)) k d u = bounded_int_env_or_default env k d u"
  by (simp_all add: int_env_or_default_def bounded_int_env_or_default_def)

lemma load_limits_ok:
  assumes "load_limits env = Inr (a, l)" shows "auth_limits_ok a \<and> chat_limits_ok l"
proof -
  obtain n1 n2 n3 n4 n5 n6 n7 n8 n9 where
    "int_env_or_default env ''AUTH_RATELIMIT_LOGIN_PER_MIN'' 5 = Inr n1"
    "int_env_or_default env ''AUTH_RATELIMIT_LOGIN_EMAIL_PER_MIN'' 5 = Inr n2"
    "int_env_or_default env ''AUTH_RATELIMIT_REGISTER_PER_MIN'' 3 = Inr n3"
    "int_env_or_default env ''AUTH_RATELIMIT_GENERAL_PER_MIN'' 120 = Inr n4"
    "int_env_or_default env ''AUTH_BCRYPT_MAX_CONCURRENT'' 8 = Inr n5"
    and caps: "bounded_int_env_or_default env ''ACCOUNT_RATELIMIT_PER_MIN'' 300 max_rate_limit_per_min = Inr n6"
    "bounded_int_env_or_default env ''END_USER_RATELIMIT_PER_MIN'' 30 max_rate_limit_per_min = Inr n7"
    "bounded_int_env_or_default env ''ACCOUNT_MAX_CONCURRENT'' 8 max_concurrent_cap = Inr n8"
    "bounded_int_env_or_default env ''END_USER_MAX_CONCURRENT'' 5 max_concurrent_cap = Inr n9"
    and "a = \<lparr>al_login_ip = n1, al_login_email = n2, al_register_ip = n3, al_general_ip = n4, al_bcrypt = n5\<rparr>"
    "l = \<lparr>lm_end_user = n7, lm_service = n6, lm_end_user_conc = n9, lm_service_conc = n8\<rparr>"
    using assms unfolding load_limits_def and_then_Inr by (elim exE conjE) (rule that, assumption+, simp_all)
  thus ?thesis
    using caps[THEN bounded_int_env_in_range]
    by (auto simp: auth_limits_ok_def chat_limits_ok_def max_rate_limit_per_min_def max_concurrent_cap_def dest!: int_env_positive)
qed

lemma chat_limits_caps: "chat_limits_ok l \<Longrightarrow> caps_positive l"
  by (simp add: chat_limits_ok_def caps_positive_def)

lemma load_config_parts:
  assumes "load_config pf pu env = Inr c"
  shows "env ''ADMIN_KEY'' \<noteq> [] \<and> cf_admin_key c = env ''ADMIN_KEY''"
    and "env ''DATABASE_URL'' \<noteq> [] \<and> cf_database_url c = env ''DATABASE_URL''"
    and "load_limits env = Inr (cf_auth c, cf_limits c)"
    and "body_env env ''MAX_JSON_REQUEST_BODY'' 1048576 (\<lambda>n. n \<le> 0) = Inr (cf_max_json_body c)"
    and "float_env pf env ''ADMIN_SERVICE_CREDIT_GRANT'' negative (Fin 1000000) = Inr (cf_admin_grant c)"
    and "float_env pf env ''END_USER_MONTHLY_GRANT'' (\<lambda>x. not_finite x \<or> negative x) (Fin 5) = Inr (cf_monthly_grant c)"
  using assms by (auto simp: load_config_def required_def split: if_splits)

text \<open>A load that fails names a required setting that is empty, or one that is set and refused.\<close>

lemma and_then_Inl: "and_then m k = Inl e \<longleftrightarrow> m = Inl e \<or> (\<exists>x. m = Inr x \<and> k x = Inl e)"
  by (cases m) (simp_all add: and_then_def)

lemma setting_refused:
  "required env k = Inl e \<Longrightarrow> e = k \<and> env e = []"
  "int_env_or_default env k d = Inl e \<Longrightarrow> e = k \<and> env e \<noteq> []"
  "bounded_int_env_or_default env k d u = Inl e \<Longrightarrow> d \<le> u \<Longrightarrow> e = k \<and> env e \<noteq> []"
  "body_env env k d bad = Inl e \<Longrightarrow> e = k \<and> env e \<noteq> []"
  "float_env pf env k refuses x = Inl e \<Longrightarrow> e = k \<and> env e \<noteq> []"
  "bool_env env k = Inl e \<Longrightarrow> e = k \<and> env e \<noteq> []"
  "webhook_env pu env = Inl e \<Longrightarrow> env e \<noteq> []"
  by (auto simp: required_def int_env_or_default_def bounded_int_env_or_default_def body_env_def float_env_def bool_env_def
      webhook_env_def Let_def and_then_Inl split: if_splits option.splits sum.splits)

lemma load_limits_refused: "load_limits env = Inl e \<Longrightarrow> env e \<noteq> []"
  unfolding load_limits_def and_then_Inl
  by (elim disjE exE conjE) (auto dest!: setting_refused simp: max_rate_limit_per_min_def max_concurrent_cap_def)

lemma load_config_refused:
  assumes "load_config pf pu env = Inl e"
  shows "e \<in> {''ADMIN_KEY'', ''DATABASE_URL''} \<and> env e = [] \<or> env e \<noteq> []"
  using assms unfolding load_config_def and_then_Inl
  by (auto dest!: setting_refused load_limits_refused simp: and_then_Inl)

text \<open>
  C25: What a start-up may rely on once the configuration loads: the admin key and the database
  URL are not empty; each authentication limit admits at least one request (it has no upper
  bound); the chat limits lie in 1..10000 and the concurrency caps in 1..100; JSON bodies have a
  positive cap; the monthly allowance is finite and not negative; and the grant of the admin
  service account is not negative (but may be NaN). Nothing is checked of MAX_REQUEST_BODY and
  DEFAULT_CREDIT_GRANT beyond their syntax. And a load fails only on account of an empty
  required setting or of a setting that is set: defaults always load.
\<close>

theorem config_well_typed:
  "case load_config parse_float parse_url env of
     Inr c \<Rightarrow> cf_admin_key c \<noteq> [] \<and> cf_database_url c \<noteq> [] \<and> auth_limits_ok (cf_auth c) \<and> chat_limits_ok (cf_limits c)
       \<and> caps_positive (cf_limits c) \<and> 0 < cf_max_json_body c \<and> finite_nonneg (cf_monthly_grant c) \<and> \<not> negative (cf_admin_grant c)
   | Inl key \<Rightarrow> key \<in> {''ADMIN_KEY'', ''DATABASE_URL''} \<and> env key = [] \<or> env key \<noteq> []"
proof (cases "load_config parse_float parse_url env")
  case (Inl key)
  then show ?thesis using load_config_refused by simp
next
  case (Inr c)
  note p = load_config_parts[OF Inr]
  have "auth_limits_ok (cf_auth c)" "chat_limits_ok (cf_limits c)" using load_limits_ok[OF p(3)] by simp_all
  moreover have "0 < cf_max_json_body c" using p(4) by (auto simp: body_env_def split: if_splits option.splits)
  moreover have "finite_nonneg (cf_monthly_grant c)"
    using p(6) by (auto simp: float_env_def finite_nonneg_def split: if_splits option.splits)
      (auto simp: not_finite_def negative_def dest!: sym[where t = "cf_monthly_grant c"])
  moreover have "\<not> negative (cf_admin_grant c)" using p(5) by (auto simp: float_env_def split: if_splits option.splits)
      (auto simp: negative_def dest!: sym[where t = "cf_admin_grant c"])
  ultimately show ?thesis using Inr p(1,2) chat_limits_caps by auto
qed

definition demo_env :: environment where
  "demo_env key = (if key = ''ADMIN_KEY'' then ''k'' else if key = ''DATABASE_URL'' then ''d''
     else if key = ''END_USER_MAX_CONCURRENT'' then ''7'' else [])"

lemma config_well_typed_witness:
  "(\<exists>c. load_config (\<lambda>v. None) (\<lambda>v. None) demo_env = Inr c \<and> chat_limits_ok (cf_limits c) \<and> lm_end_user_conc (cf_limits c) = 7) \<and>
   load_config (\<lambda>v. None) (\<lambda>v. None) (demo_env(''END_USER_MAX_CONCURRENT'' := ''101'')) = Inl ''END_USER_MAX_CONCURRENT''"
proof
  have "case load_config (\<lambda>v. None) (\<lambda>v. None) demo_env of Inl e \<Rightarrow> False | Inr c \<Rightarrow> lm_end_user_conc (cf_limits c) = 7" by code_simp
  then obtain c where c: "load_config (\<lambda>v. None) (\<lambda>v. None) demo_env = Inr c" "lm_end_user_conc (cf_limits c) = 7"
    by (auto split: sum.splits)
  have "chat_limits_ok (cf_limits c)" using config_well_typed [where parse_float = "\<lambda>v. None" and parse_url = "\<lambda>v. None" and env = demo_env] by (simp add: c)
  then show "\<exists>c. load_config (\<lambda>v. None) (\<lambda>v. None) demo_env = Inr c \<and> chat_limits_ok (cf_limits c) \<and> lm_end_user_conc (cf_limits c) = 7"
    using c by blast
  show "load_config (\<lambda>v. None) (\<lambda>v. None) (demo_env(''END_USER_MAX_CONCURRENT'' := ''101'')) = Inl ''END_USER_MAX_CONCURRENT''"
    by code_simp
qed

text \<open>
  The initial grants are not held to the standard of the monthly one: for every rejected
  spelling of END_USER_MONTHLY_GRANT that parses to NaN, the same value is accepted for
  ADMIN_SERVICE_CREDIT_GRANT and for DEFAULT_CREDIT_GRANT.
\<close>

theorem config_accepts_nan:
  assumes "parse_float v = Some NaN" "v \<noteq> []" "load_config parse_float parse_url env = Inr c"
  shows "(\<exists>c'. load_config parse_float parse_url (env(''ADMIN_SERVICE_CREDIT_GRANT'' := v, ''DEFAULT_CREDIT_GRANT'' := v)) = Inr c'
      \<and> cf_admin_grant c' = NaN \<and> cf_default_grant c' = NaN)
    \<and> (\<exists>e. load_config parse_float parse_url (env(''END_USER_MONTHLY_GRANT'' := v)) = Inl e)"
proof
  let ?env = "env(''ADMIN_SERVICE_CREDIT_GRANT'' := v, ''DEFAULT_CREDIT_GRANT'' := v)"
  have lim: "load_limits ?env = load_limits env"
    by (simp add: load_limits_def int_env_upd)
  have same: "required ?env ''ADMIN_KEY'' = required env ''ADMIN_KEY''" "required ?env ''DATABASE_URL'' = required env ''DATABASE_URL''"
    "body_env ?env ''MAX_REQUEST_BODY'' d bad = body_env env ''MAX_REQUEST_BODY'' d bad"
    "body_env ?env ''MAX_JSON_REQUEST_BODY'' d bad = body_env env ''MAX_JSON_REQUEST_BODY'' d bad"
    "float_env parse_float ?env ''END_USER_MONTHLY_GRANT'' b x = float_env parse_float env ''END_USER_MONTHLY_GRANT'' b x"
    "bool_env ?env ''MODELS_LIST_ALL'' = bool_env env ''MODELS_LIST_ALL''" "webhook_env parse_url ?env = webhook_env parse_url env"
    for d bad b x
    by (simp_all add: required_def body_env_def float_env_def bool_env_def webhook_env_def)
  have nan: "float_env parse_float ?env ''DEFAULT_CREDIT_GRANT'' (\<lambda>x. False) d = Inr NaN"
    "float_env parse_float ?env ''ADMIN_SERVICE_CREDIT_GRANT'' negative d = Inr NaN" for d
    using assms(1,2) by (simp_all add: float_env_def negative_def)
  obtain r1 r2 r3 r4 r5 r6 r7 r8 where
    "required env ''ADMIN_KEY'' = Inr r1" "required env ''DATABASE_URL'' = Inr r2"
    "body_env env ''MAX_REQUEST_BODY'' 52428800 (\<lambda>n. False) = Inr r3" "body_env env ''MAX_JSON_REQUEST_BODY'' 1048576 (\<lambda>n. n \<le> 0) = Inr r4"
    "float_env parse_float env ''END_USER_MONTHLY_GRANT'' (\<lambda>x. not_finite x \<or> negative x) (Fin 5) = Inr r5"
    "load_limits env = Inr r6" "bool_env env ''MODELS_LIST_ALL'' = Inr r7" "webhook_env parse_url env = Inr r8"
    using assms(3) unfolding load_config_def and_then_Inr by (auto split: prod.splits)
  note loaded = this
  show "\<exists>c'. load_config parse_float parse_url ?env = Inr c' \<and> cf_admin_grant c' = NaN \<and> cf_default_grant c' = NaN"
    unfolding load_config_def same lim nan loaded by (simp add: and_then_def split: prod.split)
next
  show "\<exists>e. load_config parse_float parse_url (env(''END_USER_MONTHLY_GRANT'' := v)) = Inl e"
  proof (rule ccontr)
    assume "\<not> ?thesis"
    then obtain c' where "load_config parse_float parse_url (env(''END_USER_MONTHLY_GRANT'' := v)) = Inr c'"
      by (metis sum.exhaust)
    from load_config_parts(6)[OF this] show False by (auto simp: float_env_def assms(1,2) not_finite_def)
  qed
qed

lemma config_accepts_nan_witness:
  "\<exists>c'. load_config (\<lambda>v. if v = ''NaN'' then Some NaN else None) (\<lambda>v. None)
      (demo_env(''ADMIN_SERVICE_CREDIT_GRANT'' := ''NaN'', ''DEFAULT_CREDIT_GRANT'' := ''NaN'')) = Inr c' \<and> cf_admin_grant c' = NaN"
proof -
  have "\<not> isl (load_config (\<lambda>v. if v = ''NaN'' then Some NaN else None) (\<lambda>v. None) demo_env)" by code_simp
  then obtain c where c: "load_config (\<lambda>v. if v = ''NaN'' then Some NaN else None) (\<lambda>v. None) demo_env = Inr c"
    by (metis isl_def sum.exhaust)
  show ?thesis using config_accepts_nan[where v = "''NaN''" and parse_float = "\<lambda>v. if v = ''NaN'' then Some NaN else None", OF _ _ c]
    by auto
qed

end
