(* ===== verification/Edge.thy ===== *)
theory Edge
  imports Config
begin

text \<open>
  The HTTP edge: the request ids (internal/requestid), the CORS and body-size middleware
  (internal/middleware), and the routing tables of cmd/proxy/main.go, internal/user/handler.go
  and internal/admin/admin.go with the matching of net/http's ServeMux. A request path is the
  list of its unescaped segments; the last one is empty when the path ends in a slash.
\<close>

section \<open>Request ids\<close>

definition id_char :: "char \<Rightarrow> bool" where
  "id_char c \<longleftrightarrow> (let n = byte c in 48 \<le> n \<and> n \<le> 57 \<or> 65 \<le> n \<and> n \<le> 90 \<or> 97 \<le> n \<and> n \<le> 122 \<or> n = 95 \<or> n = 46 \<or> n = 45)"

definition valid_request_id :: "string \<Rightarrow> bool" where
  "valid_request_id i \<longleftrightarrow> i \<noteq> [] \<and> length i \<le> 128 \<and> (\<forall>c \<in> set i. id_char c)"

definition hex_digit :: "nat \<Rightarrow> char" where
  "hex_digit n = (if n < 10 then char_of (48 + n) else char_of (87 + n))"

definition hex_encode :: "nat list \<Rightarrow> string" where
  "hex_encode bs = concat (map (\<lambda>b. [hex_digit (b div 16), hex_digit (b mod 16)]) bs)"

text \<open>The middleware: the id of the reply header and of the context.\<close>

definition generate_id :: "nat list \<Rightarrow> string" where
  "generate_id rnd = ''req_'' @ hex_encode rnd"

definition request_id :: "string \<Rightarrow> nat list \<Rightarrow> string" where
  "request_id header rnd = (if valid_request_id header then header else generate_id rnd)"

lemma hex_digit_ok: "n < 16 \<Longrightarrow> id_char (hex_digit n)"
  by (simp add: hex_digit_def id_char_def byte_def Let_def)

lemma hex_encode_ok: "\<forall>b \<in> set bs. b < 256 \<Longrightarrow> length (hex_encode bs) = 2 * length bs \<and> (\<forall>c \<in> set (hex_encode bs). id_char c)"
  by (induction bs) (auto simp: hex_encode_def intro!: hex_digit_ok)

text \<open>
  Every request gets an id that is safe to log and to echo in a header: at most 128
  characters out of letters, digits, underscore, dot and dash, whatever the client sent. An id
  of the client that is valid is kept, so requests stay traceable.
\<close>
theorem request_id_safe:
  assumes "length rnd = 16" "\<forall>b \<in> set rnd. b < 256"
  shows "valid_request_id (request_id header rnd) \<and> (valid_request_id header \<longrightarrow> request_id header rnd = header)"
proof -
  have "\<forall>c \<in> set ''req_''. id_char c" by code_simp
  then have "valid_request_id (generate_id rnd)"
    using hex_encode_ok [OF assms(2)] assms(1) by (auto simp: valid_request_id_def generate_id_def)
  then show ?thesis by (simp add: request_id_def)
qed

theorem request_id_safe_witness:
  "valid_request_id (request_id ''bad id'' (replicate 16 171)) \<and> request_id ''bad id'' (replicate 16 171) = ''req_abababababababababababababababab''"
proof -
  have "request_id ''bad id'' (replicate 16 171) = ''req_abababababababababababababababab''" by code_simp
  moreover have "valid_request_id (request_id ''bad id'' (replicate 16 171))" using request_id_safe [of "replicate 16 171" "''bad id''"] by simp
  ultimately show ?thesis by blast
qed

section \<open>CORS and body caps\<close>

definition cors_headers :: "string \<Rightarrow> (string \<times> string) list" where
  "cors_headers origins = [(''Access-Control-Allow-Origin'', origins), (''Access-Control-Allow-Methods'', ''GET, POST, OPTIONS''),
     (''Access-Control-Allow-Headers'', ''Authorization, Content-Type''), (''Access-Control-Max-Age'', ''86400'')]"

text \<open>The reply headers, and what the wrapped handler gives; a preflight (None) is answered 204.\<close>

definition cors :: "string \<Rightarrow> string \<Rightarrow> ('s \<Rightarrow> 'a \<times> 's) \<Rightarrow> 's \<Rightarrow> ((string \<times> string) list \<times> 'a option) \<times> 's" where
  "cors origins verb next s = (if verb = ''OPTIONS'' then ((cors_headers origins, None), s)
     else (case next s of (a, s') \<Rightarrow> ((cors_headers origins, Some a), s')))"

text \<open>
  http.MaxBytesReader read to its end: a negative limit is zero, and the failure of the
  connection is seen only within the limit.
\<close>

definition max_bytes :: "int \<Rightarrow> string \<Rightarrow> bool \<Rightarrow> body_read" where
  "max_bytes cap bs broken = (if max 0 cap < int (length bs) then TooLarge else if broken then ReadFailed else Body bs)"

section \<open>Routing\<close>

datatype seg = Lit string | Wild | Rest

fun match_path :: "(seg list \<times> 'h) list \<Rightarrow> string list \<Rightarrow> 'h option" where
  "match_path ps [] = map_option snd (find (\<lambda>(p, h). p = []) ps)"
| "match_path ps (x # xs) =
     (case match_path (List.map_filter (\<lambda>(p, h). case p of Lit y # p' \<Rightarrow> if y = x then Some (p', h) else None | _ \<Rightarrow> None) ps) xs of
        Some h \<Rightarrow> Some h
      | None \<Rightarrow> (case (if x = [] then None else
              match_path (List.map_filter (\<lambda>(p, h). case p of Wild # p' \<Rightarrow> Some (p', h) | _ \<Rightarrow> None) ps) xs) of
            Some h \<Rightarrow> Some h
          | None \<Rightarrow> map_option snd (find (\<lambda>(p, h). p = [Rest]) ps)))"

type_synonym 'h routes = "(string option \<times> seg list \<times> 'h) list"

datatype 'h routed = Matched 'h | MethodNotAllowed | NoRoute

definition of_verb :: "string option \<Rightarrow> 'h routes \<Rightarrow> (seg list \<times> 'h) list" where
  "of_verb v rs = map snd (filter (\<lambda>(v', r). v' = v) rs)"

text \<open>
  The routing tree looks for the method first, then HEAD as GET, then any method. A path that
  only other methods serve is answered 405.
\<close>

definition route_of :: "'h routes \<Rightarrow> string \<Rightarrow> string list \<Rightarrow> 'h option" where
  "route_of rs verb path = (case match_path (of_verb (Some verb) rs) path of Some h \<Rightarrow> Some h
     | None \<Rightarrow> (case (if verb = ''HEAD'' then match_path (of_verb (Some ''GET'') rs) path else None) of Some h \<Rightarrow> Some h
         | None \<Rightarrow> match_path (of_verb None rs) path))"

definition mux :: "'h routes \<Rightarrow> string \<Rightarrow> string list \<Rightarrow> 'h routed" where
  "mux rs verb path = (case route_of rs verb path of Some h \<Rightarrow> Matched h
     | None \<Rightarrow> if match_path (map snd rs) path \<noteq> None then MethodNotAllowed else NoRoute)"

definition url_path :: "string list \<Rightarrow> string" where
  "url_path path = concat (map (\<lambda>x. ''/'' @ x) path)"

subsection \<open>The tables\<close>

datatype mount = LiveProbe | ReadyProbe | ClientApi | MetricsPage | BootstrapApi | AdminMount | UserMount

definition main_routes :: "mount routes" where
  "main_routes = [
     (Some ''GET'', [Lit ''api'', Lit ''healthz'', Lit ''live''], LiveProbe),
     (Some ''GET'', [Lit ''api'', Lit ''healthz'', Lit ''ready''], ReadyProbe),
     (Some ''GET'', [Lit ''api'', Lit ''healthz''], LiveProbe),
     (None, [Lit ''api'', Lit ''v1'', Rest], ClientApi),
     (Some ''GET'', [Lit ''metrics''], MetricsPage),
     (Some ''POST'', [Lit ''api'', Lit ''admin'', Lit ''bootstrap''], BootstrapApi),
     (None, [Lit ''api'', Lit ''admin'', Rest], AdminMount),
     (None, [Lit ''api'', Lit ''auth'', Rest], UserMount),
     (None, [Lit ''api'', Lit ''users'', Rest], UserMount),
     (None, [Lit ''api'', Lit ''accounts'', Rest], UserMount)]"

text \<open>The flag says whether SessionMiddleware is in front of the handler.\<close>

datatype user_handler = Register | Login | RegisterServiceAccount | Logout | GetProfile | UpdateProfile | ChangePassword
  | CreateUserKey | ListUserKeys | RevokeUserKey | GetUserUsage | GetUserCredits | GetUserTransactions

definition user_routes :: "(bool \<times> user_handler) routes" where
  "user_routes = [
     (Some ''POST'', [Lit ''api'', Lit ''auth'', Lit ''register''], False, Register),
     (Some ''POST'', [Lit ''api'', Lit ''auth'', Lit ''login''], False, Login),
     (Some ''POST'', [Lit ''api'', Lit ''accounts'', Lit ''register''], False, RegisterServiceAccount),
     (Some ''POST'', [Lit ''api'', Lit ''auth'', Lit ''logout''], True, Logout),
     (Some ''GET'', [Lit ''api'', Lit ''users'', Lit ''profile''], True, GetProfile),
     (Some ''PUT'', [Lit ''api'', Lit ''users'', Lit ''profile''], True, UpdateProfile),
     (Some ''PUT'', [Lit ''api'', Lit ''users'', Lit ''password''], True, ChangePassword),
     (Some ''POST'', [Lit ''api'', Lit ''users'', Lit ''keys''], True, CreateUserKey),
     (Some ''GET'', [Lit ''api'', Lit ''users'', Lit ''keys''], True, ListUserKeys),
     (Some ''DELETE'', [Lit ''api'', Lit ''users'', Lit ''keys'', Wild], True, RevokeUserKey),
     (Some ''GET'', [Lit ''api'', Lit ''users'', Lit ''usage''], True, GetUserUsage),
     (Some ''GET'', [Lit ''api'', Lit ''users'', Lit ''credits''], True, GetUserCredits),
     (Some ''GET'', [Lit ''api'', Lit ''users'', Lit ''credits'', Lit ''transactions''], True, GetUserTransactions)]"

datatype admin_handler = CreateKey | ListKeys | RevokeKey | GetUsage | GetUsageSummary | GetUsageByModel | GetUsageByUser
  | GetUsageByAccount | GetUsageTimeseries | GetUsageTimeseriesByModel | ListUsers | GetUser | ActivateUser | DeactivateUser
  | UpdateUserRole | GetKey | UpdateKeyRateLimit | ListRegistrations | ListAccounts | GrantCredits | CreateAccountKey
  | SetAccountAllowance | SetAccountRateLimit | ListCreditRequests | ResolveCreditRequest | CreateRegistrationToken
  | ListRegistrationTokens | RevokeRegistrationToken | ListPricing | UpsertPricing | DeletePricing | SetSessionLimit
  | SetTrustUserHeaders | GetConfig | GetHealth | CreateNode | ListNodes | GetNode | UpdateNode | DeleteNode | RefreshNode

definition admin_routes :: "admin_handler routes" where
  "admin_routes = map (\<lambda>(verb, p, h). (Some verb, Lit ''api'' # Lit ''admin'' # p, h)) [
     (''POST'', [Lit ''keys''], CreateKey),
     (''GET'', [Lit ''keys''], ListKeys),
     (''DELETE'', [Lit ''keys'', Wild], RevokeKey),
     (''GET'', [Lit ''usage''], GetUsage),
     (''GET'', [Lit ''usage'', Lit ''summary''], GetUsageSummary),
     (''GET'', [Lit ''usage'', Lit ''by-model''], GetUsageByModel),
     (''GET'', [Lit ''usage'', Lit ''by-user''], GetUsageByUser),
     (''GET'', [Lit ''usage'', Lit ''by-account''], GetUsageByAccount),
     (''GET'', [Lit ''usage'', Lit ''timeseries''], GetUsageTimeseries),
     (''GET'', [Lit ''usage'', Lit ''timeseries-by-model''], GetUsageTimeseriesByModel),
     (''GET'', [Lit ''users''], ListUsers),
     (''GET'', [Lit ''users'', Wild], GetUser),
     (''PUT'', [Lit ''users'', Wild, Lit ''activate''], ActivateUser),
     (''PUT'', [Lit ''users'', Wild, Lit ''deactivate''], DeactivateUser),
     (''PUT'', [Lit ''users'', Wild, Lit ''role''], UpdateUserRole),
     (''GET'', [Lit ''keys'', Wild], GetKey),
     (''PUT'', [Lit ''keys'', Wild, Lit ''rate-limit''], UpdateKeyRateLimit),
     (''GET'', [Lit ''registrations''], ListRegistrations),
     (''GET'', [Lit ''accounts''], ListAccounts),
     (''POST'', [Lit ''accounts'', Wild, Lit ''credits''], GrantCredits),
     (''POST'', [Lit ''accounts'', Wild, Lit ''keys''], CreateAccountKey),
     (''PUT'', [Lit ''accounts'', Wild, Lit ''allowance''], SetAccountAllowance),
     (''PUT'', [Lit ''accounts'', Wild, Lit ''rate-limit''], SetAccountRateLimit),
     (''GET'', [Lit ''credit-requests''], ListCreditRequests),
     (''PUT'', [Lit ''credit-requests'', Wild], ResolveCreditRequest),
     (''POST'', [Lit ''registration-tokens''], CreateRegistrationToken),
     (''GET'', [Lit ''registration-tokens''], ListRegistrationTokens),
     (''DELETE'', [Lit ''registration-tokens'', Wild], RevokeRegistrationToken),
     (''GET'', [Lit ''pricing''], ListPricing),
     (''POST'', [Lit ''pricing''], UpsertPricing),
     (''DELETE'', [Lit ''pricing'', Wild], DeletePricing),
     (''PUT'', [Lit ''keys'', Wild, Lit ''session-limit''], SetSessionLimit),
     (''PUT'', [Lit ''keys'', Wild, Lit ''trust-user-headers''], SetTrustUserHeaders),
     (''GET'', [Lit ''config''], GetConfig),
     (''GET'', [Lit ''health''], GetHealth),
     (''POST'', [Lit ''nodes''], CreateNode),
     (''GET'', [Lit ''nodes''], ListNodes),
     (''GET'', [Lit ''nodes'', Wild], GetNode),
     (''PUT'', [Lit ''nodes'', Wild], UpdateNode),
     (''DELETE'', [Lit ''nodes'', Wild], DeleteNode),
     (''POST'', [Lit ''nodes'', Wild, Lit ''refresh''], RefreshNode)]"

text \<open>The whole admin mount: the authentication comes before the routing.\<close>

definition admin_serve ::
  "(string \<Rightarrow> string) \<Rightarrow> string \<Rightarrow> (nat \<Rightarrow> faults) \<Rightarrow> gotime \<Rightarrow> string \<Rightarrow> string \<Rightarrow> string \<Rightarrow> string list \<Rightarrow> admin_gate \<Rightarrow> db \<Rightarrow>
     (api_error + session option \<times> admin_handler routed) \<times> admin_gate \<times> db" where
  "admin_serve hash admin_key fs now key_header auth_header verb path g s =
     (case admin_auth hash admin_key fs now key_header auth_header g s of
        (Inl e, g', s') \<Rightarrow> (Inl e, g', s')
      | (Inr x, g', s') \<Rightarrow> (Inr (x, mux admin_routes verb path), g', s'))"

section \<open>The matching is sound\<close>

fun seg_match :: "seg list \<Rightarrow> string list \<Rightarrow> bool" where
  "seg_match [] xs \<longleftrightarrow> xs = []"
| "seg_match (Lit y # p) xs \<longleftrightarrow> (case xs of [] \<Rightarrow> False | x # xs' \<Rightarrow> y = x \<and> seg_match p xs')"
| "seg_match (Wild # p) xs \<longleftrightarrow> (case xs of [] \<Rightarrow> False | x # xs' \<Rightarrow> x \<noteq> [] \<and> seg_match p xs')"
| "seg_match (Rest # p) xs \<longleftrightarrow> p = [] \<and> xs \<noteq> []"

lemma match_path_Nil [simp]: "match_path [] path = None"
  by (induction path) (simp_all add: List.map_filter_simps)

lemma match_path_sound: "match_path ps path = Some h \<Longrightarrow> \<exists>p. (p, h) \<in> set ps \<and> seg_match p path"
proof (induction ps path rule: match_path.induct)
  case (1 ps)
  then show ?case by (auto simp: find_Some_iff) (metis nth_mem seg_match.simps(1))
next
  case (2 ps x xs)
  let ?lit = "List.map_filter (\<lambda>(p, h). case p of Lit y # p' \<Rightarrow> if y = x then Some (p', h) else None | _ \<Rightarrow> None) ps"
  let ?wild = "List.map_filter (\<lambda>(p, h). case p of Wild # p' \<Rightarrow> Some (p', h) | _ \<Rightarrow> None) ps"
  show ?case
  proof (cases "match_path ?lit xs")
    case (Some h')
    then have "h' = h" using 2(3) by simp
    then obtain p where p: "(p, h) \<in> set ?lit" "seg_match p xs" using 2(1) Some \<open>h' = h\<close> by auto
    then have "(Lit x # p, h) \<in> set ps" by (auto simp: List.map_filter_def split: list.splits seg.splits if_splits)
    then show ?thesis using p(2) by force
  next
    case None
    show ?thesis
    proof (cases "x \<noteq> [] \<and> match_path ?wild xs = Some h")
      case True
      then obtain p where p: "(p, h) \<in> set ?wild" "seg_match p xs" using 2(2) None by auto
      then have "(Wild # p, h) \<in> set ps" by (auto simp: List.map_filter_def split: list.splits seg.splits)
      then show ?thesis using p(2) True by force
    next
      case False
      then have "map_option snd (find (\<lambda>(p, h). p = [Rest]) ps) = Some h" using 2(3) None by (auto split: option.splits if_splits)
      then have "([Rest], h) \<in> set ps" by (auto simp: find_Some_iff) (metis nth_mem)
      then show ?thesis by (metis list.distinct(1) seg_match.simps(4))
    qed
  qed
qed

lemma of_verb_iff: "(p, h) \<in> set (of_verb v rs) \<longleftrightarrow> (v, p, h) \<in> set rs"
  by (force simp: of_verb_def)

lemma mux_sound:
  assumes "mux rs verb path = Matched h"
  shows "\<exists>v p. (v, p, h) \<in> set rs \<and> seg_match p path \<and> (v = None \<or> v = Some verb \<or> v = Some ''GET'' \<and> verb = ''HEAD'')"
proof -
  obtain v where "v = None \<or> v = Some verb \<or> v = Some ''GET'' \<and> verb = ''HEAD''" "match_path (of_verb v rs) path = Some h"
    using assms by (auto simp: mux_def route_of_def split: option.splits if_splits)
  then show ?thesis using match_path_sound [of "of_verb v rs" path h] of_verb_iff [of _ h v rs] by blast
qed

section \<open>What stands in front of the handlers\<close>

text \<open>
  Nothing under /api/admin/ escapes the authentication. Whatever the method and the rest of
  the path, the request goes to the admin mount, but for POST /api/admin/bootstrap; and the
  admin mount answers a request without credentials 401 before it looks at the path.
\<close>
theorem admin_mount_guarded:
  "mux main_routes verb (''api'' # ''admin'' # x # xs) =
     (if verb = ''POST'' \<and> x = ''bootstrap'' \<and> xs = [] then Matched BootstrapApi else Matched AdminMount) \<and>
   admin_serve hash admin_key fs now [] [] verb path g s = (Inl (unauthorized ''missing_admin_key''), g, s)"
proof
  show "admin_serve hash admin_key fs now [] [] verb path g s = (Inl (unauthorized ''missing_admin_key''), g, s)"
    by (simp add: admin_serve_def admin_auth_def extract_bearer_def bearer_prefix_def has_prefix_def)
  have verbs: "of_verb (Some verb) main_routes = []" if "verb \<noteq> ''POST''" "verb \<noteq> ''GET''"
    using that by (simp add: of_verb_def main_routes_def)
  have post: "of_verb (Some ''POST'') main_routes = [([Lit ''api'', Lit ''admin'', Lit ''bootstrap''], BootstrapApi)]" by code_simp
  have get: "match_path (of_verb (Some ''GET'') main_routes) (''api'' # ''admin'' # x # xs) = None"
    by (simp add: of_verb_def main_routes_def List.map_filter_simps)
  have all: "match_path (of_verb None main_routes) (''api'' # ''admin'' # x # xs) = Some AdminMount"
    by (simp add: of_verb_def main_routes_def List.map_filter_simps)
  have boot: "match_path (of_verb (Some ''POST'') main_routes) (''api'' # ''admin'' # x # xs) = (if x = ''bootstrap'' \<and> xs = [] then Some BootstrapApi else None)"
    by (cases xs) (auto simp: post List.map_filter_simps)
  show "mux main_routes verb (''api'' # ''admin'' # x # xs) =
     (if verb = ''POST'' \<and> x = ''bootstrap'' \<and> xs = [] then Matched BootstrapApi else Matched AdminMount)"
    by (cases "verb = ''POST''"; cases "verb = ''GET''") (simp_all add: mux_def route_of_def verbs boot get all del: match_path.simps)
qed

text \<open>
  The endpoints of the user API that need no session are exactly registration, login and
  service registration, and each of them is charged to the strict bucket of the client's
  address: whatever request the router hands to one of them, the throttle in front of it took
  the login bucket for the login and the registration bucket for the other two.
\<close>
theorem public_endpoints_throttled:
  assumes "mux user_routes verb path = Matched (False, h)"
    and "ar_method r = verb" "ar_path r = url_path path"
  shows "h \<in> {Login, Register, RegisterServiceAccount} \<and>
    auth_middleware parse_ip split_host g now r =
      (let ((allowed, retry), g') = (if h = Login then allow_login_ip g now (client_ip parse_ip split_host r)
             else allow_register_ip g now (client_ip parse_ip split_host r))
       in (if allowed then Inr () else Inl (api_err_retry 429 ''rate_limit_exceeded'' ''rate_limit_exceeded''
            (case retry of Fin q \<Rightarrow> \<lceil>q\<rceil> | _ \<Rightarrow> 0)), g'))"
proof -
  have "(h, path) \<in> {(Register, [''api'', ''auth'', ''register'']), (Login, [''api'', ''auth'', ''login'']),
      (RegisterServiceAccount, [''api'', ''accounts'', ''register''])} \<and> verb = ''POST''"
    using mux_sound [OF assms(1)] by (auto simp: user_routes_def split: list.splits)
  then show ?thesis using assms(2,3)
    by (auto simp: auth_middleware_def url_path_def Let_def)
qed

text \<open>
  No admin endpoint is shadowed: each route of the table, with any non-empty id in place
  of its wildcard, is served by its own handler.
\<close>
theorem admin_routes_reachable:
  assumes "i \<noteq> []" "(Some verb, p, h) \<in> set admin_routes"
  shows "mux admin_routes verb (map (\<lambda>x. case x of Lit y \<Rightarrow> y | _ \<Rightarrow> i) p) = Matched h"
proof -
  obtain c cs where i: "i = c # cs" using assms(1) by (cases i) auto
  have "list_all (\<lambda>(v, p, h). mux admin_routes (the v) (map (\<lambda>x. case x of Lit y \<Rightarrow> y | _ \<Rightarrow> c # cs) p) = Matched h) admin_routes"
    by code_simp
  then show ?thesis using assms(2) i by (fastforce simp: list_all_iff)
qed

theorem public_endpoints_throttled_witness:
  "mux user_routes ''POST'' [''api'', ''auth'', ''login''] = Matched (False, Login) \<and>
   url_path [''api'', ''auth'', ''login''] = ''/api/auth/login'' \<and>
   fst (auth_middleware (\<lambda>_. None) (\<lambda>_. None) None 0 \<lparr>ar_method = ''POST'', ar_path = ''/api/auth/login'', ar_forwarded_for = [], ar_real_ip = [], ar_remote_addr = ''h''\<rparr>) = Inr ()"
proof -
  have m: "mux user_routes ''POST'' [''api'', ''auth'', ''login''] = Matched (False, Login)" by code_simp
  have u: "''/api/auth/login'' = url_path [''api'', ''auth'', ''login'']" by code_simp
  define r where "r = \<lparr>ar_method = ''POST'', ar_path = ''/api/auth/login'', ar_forwarded_for = [], ar_real_ip = [], ar_remote_addr = ''h''\<rparr>"
  have "fst (auth_middleware (\<lambda>_. None) (\<lambda>_. None) None 0 r) = Inr ()"
    using public_endpoints_throttled [OF m, of r "\<lambda>_. None" "\<lambda>_. None" None 0] u
    by (simp add: r_def allow_login_ip_def)
  then show ?thesis using m u by (simp add: r_def)
qed

theorem admin_routes_reachable_witness:
  "mux admin_routes ''PUT'' [''api'', ''admin'', ''keys'', ''42'', ''rate-limit''] = Matched UpdateKeyRateLimit"
  using admin_routes_reachable [of "''42''" "''PUT''" "[Lit ''api'', Lit ''admin'', Lit ''keys'', Wild, Lit ''rate-limit'']" UpdateKeyRateLimit]
  by (simp add: admin_routes_def)

end
