(* ===== verification/SharedBucket.thy ===== *)
theory SharedBucket
  imports RateLimit
begin

text \<open>
  A single bucket that all callers of an endpoint share, as the admin key (internal/admin) and
  the bootstrap endpoint (internal/bootstrap) have one, is a token bucket with one key.
\<close>

definition shared_at :: "(gotime \<Rightarrow> 'l \<Rightarrow> bool \<times> 'l) \<Rightarrow> 'l \<Rightarrow> gotime \<Rightarrow> unit \<Rightarrow> bool \<times> 'l" where
  "shared_at al l t k = al t l"

locale shared_bucket =
  fixes allow :: "gotime \<Rightarrow> 'l \<Rightarrow> bool \<times> 'l"
    and left :: "'l \<Rightarrow> rat"
    and refilled_at :: "'l \<Rightarrow> gotime"
    and per_minute :: int
  assumes per_minute: "1 \<le> per_minute" "per_minute \<le> 10000"
    and taken: "y = refilled (of_int per_minute) (bucket_rate per_minute) (left l) (time_sub t (refilled_at l)) \<Longrightarrow>
      fst (allow t l) = (1 \<le> y) \<and> left (snd (allow t l)) = (if 1 \<le> y then fsub y 1 else y)"
    and moved: "refilled_at (snd (allow t l)) = t"

sublocale shared_bucket \<subseteq> token_bucket "shared_at allow" "\<lambda>l k. Some (left l)" "\<lambda>l k. refilled_at l"
  "of_int per_minute" "of_int per_minute / (60 * 10 ^ 9)" bucket_err
proof
  fix l :: 'l and t and k k' :: unit and x
  show "0 \<le> (of_int per_minute :: rat) / (60 * 10 ^ 9)" "0 \<le> bucket_err" "1 \<le> (of_int per_minute :: rat)"
    using per_minute by (simp_all add: bucket_err_def)
  show "refilled_at (snd (shared_at allow l t k)) = t" by (simp add: shared_at_def moved)
  show "Some (left l) = None \<Longrightarrow> fst (shared_at allow l t k) \<and> Some (left (snd (shared_at allow l t k))) = Some (of_int per_minute - 1)"
    by simp
  show "k' \<noteq> k \<Longrightarrow> Some (left (snd (shared_at allow l t k))) = Some (left l) \<and> refilled_at (snd (shared_at allow l t k)) = refilled_at l"
    by simp
  assume l: "Some (left l) = Some x" and x: "0 \<le> x" "x \<le> of_int per_minute" and st: "refilled_at l \<le> t"
  define y where "y = refilled (of_int per_minute) (bucket_rate per_minute) x (time_sub t (refilled_at l))"
  note y = refilled_take [OF per_minute x st y_def]
  have s: "fst (allow t l) = (1 \<le> y)" "left (snd (allow t l)) = (if 1 \<le> y then fsub y 1 else y)"
    using taken [of y l t] l by (simp_all add: y_def)
  show "\<exists>z. Some (left (snd (shared_at allow l t k))) = Some z \<and> 0 \<le> z \<and> z \<le> of_int per_minute \<and>
      z + (if fst (shared_at allow l t k) then 1 else 0) \<le> x + of_int per_minute / (60 * 10 ^ 9) * of_int (t - refilled_at l) + bucket_err"
  proof (cases "1 \<le> y")
    case True
    then show ?thesis using s y fsub_one [of y per_minute] per_minute by (simp add: shared_at_def bucket_err_def)
  next
    case False
    then show ?thesis using s y by (simp add: shared_at_def bucket_err_def)
  qed
qed

context shared_bucket begin

text \<open>A full bucket: the bound on the calls that pass from then on.\<close>

lemma burst_full:
  assumes "left l = of_int per_minute" "refilled_at l = t0" "sorted (map fst rs)" "\<forall>r \<in> set rs. t0 \<le> fst r \<and> fst r \<le> T" "t0 \<le> T"
  shows "of_nat (granted () rs (run_limiter (shared_at allow) l rs)) \<le>
    (of_int per_minute + of_int per_minute * of_int (T - t0) / of_int minute + of_nat (length rs) / 10 ^ 9 :: rat)"
  using granted_known [where l = l and k = "()" and x = "of_int per_minute" and rs = rs and T = T] assms per_minute
  by (simp add: bucket_err_def minute_def field_simps)

end

end
