(* ===== verification/AdminSafety.thy ===== *)
theory AdminSafety
  imports AdminApi SharedBucket
begin

text \<open>
  What the admin API guarantees: who is let in and how often, what a reply that is an error has
  left behind, the keys it hands out, and two places where it does not do what it means to.
\<close>

section \<open>Who is let in\<close>

text \<open>
  C12: The admin API is entered with the admin key or as an active administrator. A request is
  let through with the exact key, on a token of the shared bucket; or, when it sends no key
  header at all, on the live session of an active user whose role is admin. A wrong key is
  refused even beside a valid session and takes no token. A refusal is 401, 403, 429 or 500, and
  the only trace it can leave in the database is the removal of the expired session it came with.
\<close>
theorem admin_auth_sound:
  assumes "admin_auth hash admin_key fs now key_header auth_header g s = (res, g', s')"
  shows "case res of
      Inr None \<Rightarrow> key_header \<noteq> [] \<and> key_header = admin_key \<and> admin_allow now g = (True, g') \<and> s' = s
    | Inr (Some x) \<Rightarrow> key_header = [] \<and> s' = s \<and> ag_tokens g' = ag_tokens g \<and> now \<le> se_expires x \<and>
        row_of se_hash (hash (extract_bearer auth_header)) (sessions s) = Some x \<and>
        (\<exists>u. row_of us_id (se_user x) (users s) = Some u \<and> us_active u \<and> us_role u = ''admin'')
    | Inl e \<Rightarrow> ae_status e \<in> {401, 403, 429, 500} \<and> (key_header \<noteq> [] \<and> key_header \<noteq> admin_key \<longrightarrow> g' = g) \<and>
        (s' = s \<or> key_header = [] \<and> s' = s\<lparr>sessions := filter (\<lambda>x. se_hash x \<noteq> hash (extract_bearer auth_header)) (sessions s)\<rparr> \<and>
           (\<exists>x. row_of se_hash (hash (extract_bearer auth_header)) (sessions s) = Some x \<and> se_expires x < now))"
proof (cases "key_header = []")
  case False
  then show ?thesis using assms
    by (auto simp: admin_auth_def unauthorized_def throttled_after_def split: if_splits prod.splits bool.splits)
next
  case True
  have d: "snd (delete_session (fs 1) h s) = s \<or> snd (delete_session (fs 1) h s) = s\<lparr>sessions := filter (\<lambda>x. se_hash x \<noteq> h) (sessions s)\<rparr>" for h
    by (simp add: delete_session_def sql_def stmt_def modp_def)
  show ?thesis using assms True d [of "hash (extract_bearer auth_header)"]
    by (auto simp: admin_auth_def Let_def unauthorized_def internal_error_def account_disabled_def throttled_after_def
        get_session_by_token_hash_def get_user_by_id_def split: if_splits sum.splits option.splits prod.splits bool.splits)
qed

section \<open>How often\<close>

interpretation admin_bucket: shared_bucket admin_allow ag_tokens ag_last 10
  by unfold_locales (auto simp: admin_allow_def Let_def admin_key_rate_limit_per_minute_def)

text \<open>
  The admin key is good for ten calls a minute: from the start of the process on, n attempts
  with it pass at most 10 times plus once per six seconds, up to a billionth per attempt.
\<close>
theorem admin_key_burst:
  assumes "sorted (map fst rs)" "\<forall>r \<in> set rs. t0 \<le> fst r \<and> fst r \<le> t1" "t0 \<le> t1"
  shows "of_nat (granted () rs (run_limiter (shared_at admin_allow) (new_admin_gate t0) rs)) \<le>
    (10 + 10 * of_int (t1 - t0) / of_int minute + of_nat (length rs) / 10 ^ 9 :: rat)"
  using admin_bucket.burst_full [of "new_admin_gate t0" t0 rs t1] assms
  by (simp add: new_admin_gate_def admin_key_rate_limit_per_minute_def)

section \<open>Errors change nothing\<close>

definition failure_atomic :: "('s, 'e, 'a) prog \<Rightarrow> bool" where
  "failure_atomic m \<longleftrightarrow> (\<forall>s e s'. m s = (Inl e, s') \<longrightarrow> s' = s)"

definition read_only :: "('s, 'e, 'a) prog \<Rightarrow> bool" where
  "read_only m \<longleftrightarrow> (\<forall>s. snd (m s) = s)"

named_theorems atomic_intros \<open>which programs leave the state alone when they fail\<close>

lemma read_only_atoms [atomic_intros]:
  "read_only (retp a)" "read_only (failp e)" "read_only (getp g)" "read_only (checked r)" "read_only (reading q)" "read_only (found x e')"
  by (auto simp: read_only_def prog_simps split: sum.split option.split)

lemma read_only_bindp [atomic_intros]: "read_only m \<Longrightarrow> (\<And>a. read_only (k a)) \<Longrightarrow> read_only (bindp m k)"
  by (auto simp: read_only_def bindp_def split: prod.split sum.split) (metis snd_conv)+

lemma read_only_if [atomic_intros]: "(b \<Longrightarrow> read_only m) \<Longrightarrow> (\<not> b \<Longrightarrow> read_only m') \<Longrightarrow> read_only (if b then m else m')"
  by simp

lemma read_only_option [atomic_intros]: "read_only m \<Longrightarrow> (\<And>x. read_only (k x)) \<Longrightarrow> read_only (case y of None \<Rightarrow> m | Some x \<Rightarrow> k x)"
  by (cases y) simp_all

lemma failure_atomic_read_only: "read_only m \<Longrightarrow> failure_atomic m"
  by (auto simp: read_only_def failure_atomic_def) (metis snd_conv)

lemma failure_atomic_first: "read_only m \<Longrightarrow> (\<And>a. failure_atomic (k a)) \<Longrightarrow> failure_atomic (bindp m k)"
  by (auto simp: failure_atomic_def read_only_def bindp_def split: prod.splits sum.splits) (metis snd_conv)+

definition never_fails :: "('s, 'e, 'a) prog \<Rightarrow> bool" where
  "never_fails m \<longleftrightarrow> (\<forall>s. \<not> isl (fst (m s)))"

lemma never_fails_atoms [atomic_intros]:
  "never_fails (retp a)" "never_fails (getp g)" "never_fails m \<Longrightarrow> (\<And>a. never_fails (k a)) \<Longrightarrow> never_fails (bindp m k)"
  by (auto simp: never_fails_def retp_def getp_def bindp_def split: prod.split sum.split) (metis fst_conv isl_def)

lemma failure_atomic_last:
  assumes "failure_atomic m" "\<And>a. never_fails (k a)"
  shows "failure_atomic (bindp m k)"
  unfolding failure_atomic_def
proof (intro allI impI)
  fix s e s' assume b: "bindp m k s = (Inl e, s')"
  obtain r s1 where ms: "m s = (r, s1)" by fastforce
  have k: "k a s1 \<noteq> (Inl e, s')" for a using assms(2) [of a] unfolding never_fails_def by (metis fst_conv isl_def)
  show "s' = s" using b ms k assms(1) by (cases r) (auto simp: bindp_def failure_atomic_def)
qed

lemma failure_atomic_more [atomic_intros]:
  "failure_atomic m \<Longrightarrow> failure_atomic (stored h m)" "failure_atomic (transact m')"
  "failure_atomic m1 \<Longrightarrow> failure_atomic (sql f k m1)" "failure_atomic (failp e)"
  "failure_atomic m2 \<Longrightarrow> failure_atomic n \<Longrightarrow> failure_atomic (if b then m2 else n)"
  by (auto simp: failure_atomic_def stored_def failp_def transact_def sql_def stmt_def split: prod.splits sum.splits if_splits)

text \<open>A handler reads and checks first, then writes, then answers.\<close>

lemma failure_atomic_bind [atomic_intros]:
  "(\<And>a. failure_atomic (k a)) \<Longrightarrow> failure_atomic (bindp (checked r) k)"
  "(\<And>a. failure_atomic (k' a)) \<Longrightarrow> failure_atomic (bindp (found x e) k')"
  "read_only m0 \<Longrightarrow> (\<And>x. read_only (m1 x)) \<Longrightarrow> (\<And>a. failure_atomic (k3 a)) \<Longrightarrow>
     failure_atomic (bindp (case y of None \<Rightarrow> m0 | Some x \<Rightarrow> m1 x) k3)"
  "failure_atomic m \<Longrightarrow> (\<And>a. never_fails (k2 a)) \<Longrightarrow> failure_atomic (bindp (stored h m) k2)"
  by (intro failure_atomic_first failure_atomic_last atomic_intros; assumption)+

lemma update_atomic [atomic_intros]:
  "failure_atomic (update_keys f i e g)" "failure_atomic (update_users f k i e g')" "failure_atomic (update_accounts f i g'')"
  by (auto simp: failure_atomic_def update_keys_def update_users_def update_accounts_def sql_def stmt_def split: if_splits)

lemma store_atomic [atomic_intros]:
  "failure_atomic (revoke_key f i)" "failure_atomic (update_key_rate_limit f i r)" "failure_atomic (set_session_token_limit f i l)"
  "failure_atomic (set_trust_user_headers f i b)" "failure_atomic (set_user_active f i b)" "failure_atomic (set_account_rate_limit f i l)"
  by (simp_all add: revoke_key_def update_key_rate_limit_def set_session_token_limit_def set_trust_user_headers_def
      set_user_active_def set_account_rate_limit_def update_atomic failure_atomic_more)

lemma store_atomic_tx [atomic_intros]:
  "failure_atomic (deactivate_user_guarded f i)" "failure_atomic (update_user_role_guarded f i role)" "failure_atomic (add_credits f i x)"
  by (simp_all add: deactivate_user_guarded_def update_user_role_guarded_def add_credits_def failure_atomic_more)

lemma store_atomic_rows [atomic_intros]:
  "failure_atomic (create_key_for_account_only f now a n h p r)" "failure_atomic (create_registration_token f h' g m x)"
  "failure_atomic (revoke_registration_token f i)" "failure_atomic (upsert_pricing f m' p' c' ty)" "failure_atomic (delete_pricing f i)"
  "failure_atomic (set_monthly_grant f i g')"
  by (auto simp: failure_atomic_def create_key_for_account_only_def insert_key_def create_registration_token_def revoke_registration_token_def
      upsert_pricing_def delete_pricing_def set_monthly_grant_def update_accounts_def prog_simps sql_def split: if_splits option.splits)

lemma new_key_parts_reads [atomic_intros]: "read_only (new_key_parts rnd b)"
  unfolding new_key_parts_def by (intro atomic_intros)

lemma failure_atomic_bind_parts [atomic_intros]:
  "(\<And>a. failure_atomic (k a)) \<Longrightarrow> failure_atomic (bindp (new_key_parts rnd b) k)"
  "(\<And>a. failure_atomic (k' a)) \<Longrightarrow> failure_atomic (bindp (raw_option c r) k')"
proof -
  have "read_only (raw_option c r)" by (cases r) (simp_all add: raw_option_def atomic_intros)
  then show "(\<And>a. failure_atomic (k' a)) \<Longrightarrow> failure_atomic (bindp (raw_option c r) k')" by (rule failure_atomic_first)
qed (rule failure_atomic_first [OF new_key_parts_reads])

lemma insert_admin_key_atomic [atomic_intros]: "failure_atomic (insert_admin_key cy f now a r l raw)"
  unfolding insert_admin_key_def by (intro atomic_intros)

text \<open>
  What an error reply of a handler can have left behind: nothing, or, in the cases \<open>E\<close> lists, what
  its first store call committed before a later one failed.
\<close>

definition error_effect :: "('s \<Rightarrow> 'e \<Rightarrow> 's \<Rightarrow> bool) \<Rightarrow> ('s, 'e, 'a) prog \<Rightarrow> bool" where
  "error_effect E m \<longleftrightarrow> (\<forall>s e s'. m s = (Inl e, s') \<longrightarrow> s' = s \<or> E s e s')"

lemma error_effect_stages:
  assumes "read_only m0" "\<And>a. error_effect E (k a)"
  shows "error_effect E (bindp m0 k)"
proof -
  have "snd (m0 s) = s" for s using assms(1) by (simp add: read_only_def)
  then show ?thesis using assms(2) unfolding error_effect_def bindp_def
    by (auto split: prod.splits sum.splits) (metis snd_conv)+
qed

lemma error_effect_bind:
  "(\<And>a. error_effect E (k a)) \<Longrightarrow> error_effect E (bindp (checked r) k)"
  "(\<And>a. x = Some a \<Longrightarrow> error_effect E (k' a)) \<Longrightarrow> error_effect E (bindp (found x e) k')"
  "error_effect E (failp e')" "error_effect E m \<Longrightarrow> error_effect E m' \<Longrightarrow> error_effect E (if b then m else m')"
  by (intro error_effect_stages atomic_intros; assumption)
     (auto simp: error_effect_def found_def prog_simps split: option.splits)

text \<open>A committed write followed by reads that may fail.\<close>

lemma error_effect_commit:
  assumes "failure_atomic m" "\<And>a. read_only (k a)"
    and "\<And>s s1 s2 a e. m s = (Inr a, s1) \<Longrightarrow> k a s1 = (Inl e, s2) \<Longrightarrow> E s e s1"
  shows "error_effect E (bindp (stored h m) k)"
  unfolding error_effect_def
proof (intro allI impI)
  fix s e s' assume b: "bindp (stored h m) k s = (Inl e, s')"
  obtain r s1 where m: "m s = (r, s1)" by fastforce
  show "s' = s \<or> E s e s'"
  proof (cases r)
    case (Inl x)
    then show ?thesis using b m assms(1) by (auto simp: bindp_def stored_def failure_atomic_def)
  next
    case (Inr a)
    then have "k a s1 = (Inl e, s')" using b m by (simp add: bindp_def stored_def)
    moreover have "snd (k a s1) = s1" using assms(2) by (simp add: read_only_def)
    ultimately show ?thesis using assms(3) [of s a s1 e s'] m Inr by simp
  qed
qed

lemma reread_error:
  "bindp (reading q) (\<lambda>k. found k internal_error) s = (Inl e, s') \<Longrightarrow> e = internal_error"
  by (auto simp: reading_def found_def any_error_def prog_simps split: sum.splits option.splits)

lemma ensure_admin_error:
  "ensure_admin_service_account f now env grant s = (Inl e, s') \<Longrightarrow> s' = s \<or> s' = env s"
  by (auto simp: ensure_admin_service_account_def prog_simps sql_def dest!: transact_Inl split: prod.splits sum.splits option.splits if_splits)

lemma create_admin_key_error:
  assumes "create_admin_key cy fs env grant now rnd b s = (Inl e, s')"
  shows "s' = s \<or> e = internal_error \<and> (s' = env s \<or> (\<exists>acc. ensure_admin_service_account (fs 0) now env grant s = (Inr acc, s')))"
proof (cases "new_key_parts rnd b s")
  case (Pair r s1)
  have s1: "s1 = s" using new_key_parts_reads [of rnd b] Pair by (auto simp: read_only_def dest: spec [of _ s])
  show ?thesis
  proof (cases r)
    case (Inl x)
    then show ?thesis using assms Pair s1 by (simp add: create_admin_key_def bindp_def)
  next
    case (Inr q)
    obtain req rl raw where q: "q = (req, rl, raw)" by (cases q)
    note d = create_admin_key_def bindp_def Pair Inr q s1
    have ia: "insert_admin_key cy (fs 1) now acc req rl raw t = (Inl e, s') \<Longrightarrow> s' = t \<and> e = internal_error" for acc t
      using insert_admin_key_atomic [of cy "fs 1" now acc req rl raw]
      by (auto simp: failure_atomic_def insert_admin_key_def stored_def any_error_def bindp_def retp_def split: prod.splits sum.splits)
    show ?thesis
    proof (cases "aq_account req")
      case (Some a)
      then show ?thesis using assms ia by (auto simp: d reading_def found_def prog_simps split: sum.splits option.splits prod.splits)
    next
      case None
      obtain r2 s2 where en: "ensure_admin_service_account (fs 0) now env grant s = (r2, s2)" by fastforce
      show ?thesis
      proof (cases r2)
        case (Inl x)
        then show ?thesis using assms None en ensure_admin_error by (auto simp: d stored_def any_error_def)
      next
        case (Inr acc)
        then show ?thesis using assms None en ia by (auto simp: d stored_def)
      qed
    qed
  qed
qed

text \<open>The three handlers that read back what they have committed.\<close>

lemma checked_Inr: "(\<And>a. r = Inr a \<Longrightarrow> error_effect E (k a)) \<Longrightarrow> error_effect E (bindp (checked r) k)"
  by (cases r) (simp_all add: error_effect_def checked_def prog_simps)

lemma grant_error:
  "error_effect (\<lambda>s e s'. e = connection_dropped \<and>
     (\<exists>acc amount. path_id p = Inr acc \<and> decode_json gb = Inr amount \<and> add_credits (fs 0) acc amount s = (Inr (), s'))) (grant_credits fs p gb)"
  unfolding grant_credits_def
proof (intro checked_Inr error_effect_bind(3,4) error_effect_commit)
  show "failure_atomic (add_credits (fs 0) acc amount)" for acc amount by (intro atomic_intros)
  show "read_only (bindp (getp (get_credit_balance (fs 1) acc)) (\<lambda>r. case r of
         Inr (Some (bal, res)) \<Rightarrow> retp (amount, bal) | _ \<Rightarrow> failp connection_dropped))" for acc and amount :: rat
    by (auto simp: read_only_def prog_simps split: sum.split option.split prod.split)
qed (auto simp: prog_simps split: sum.splits option.splits)

lemma update_key_error:
  "error_effect (\<lambda>s e s'. e = internal_error \<and>
     (\<exists>i n r. positive_id p = Inr i \<and> decode_json ub = Inr (Some n) \<and> apply_config_defaults_and_cap n = Some r \<and>
        update_key_rate_limit (fs 0) i r s = (Inr (), s'))) (admin_update_key_rate_limit fs p ub)"
  unfolding admin_update_key_rate_limit_def
  by (intro checked_Inr error_effect_bind(2-4) error_effect_commit atomic_intros) (auto dest: reread_error)

lemma update_role_error:
  "error_effect (\<lambda>s e s'. e = internal_error \<and>
     (\<exists>i role x. positive_id p = Inr i \<and> decode_json ob = Inr role \<and>
        update_user_role_guarded (fs 0) i role s = (Inr x, s'))) (admin_update_user_role fs p ob)"
  unfolding admin_update_user_role_def
  by (intro checked_Inr error_effect_commit atomic_intros) (auto dest: reread_error)

text \<open>
  C14: What an error reply of the admin API leaves behind, for every handler that writes keys,
  users, accounts, credits, registration tokens or prices, whatever store call fails. Twelve of
  them have changed nothing. The others can fail after a commit, and then exactly this is left:
  the granted credits of grantCredits, whose client sees a dropped connection; the updated row
  of the two handlers that read it back and answer 500; and, when createKey answers 500, the
  service account it makes sure of (or what others committed meanwhile).
\<close>
theorem admin_error_effects:
  "failure_atomic (create_account_key cy fs now rnd p kb) \<and>
   failure_atomic (admin_revoke_key fs p) \<and>
   failure_atomic (admin_set_session_limit fs p lb) \<and>
   failure_atomic (admin_set_trust_user_headers fs p tb) \<and>
   failure_atomic (admin_activate_user fs p) \<and>
   failure_atomic (admin_deactivate_user fs p) \<and>
   failure_atomic (set_account_allowance fs p ab) \<and>
   failure_atomic (admin_set_account_rate_limit fs p rb) \<and>
   failure_atomic (admin_create_registration_token cy rfc fs rnd xb) \<and>
   failure_atomic (admin_revoke_registration_token fs p) \<and>
   failure_atomic (admin_upsert_pricing fs pb) \<and>
   failure_atomic (admin_delete_pricing fs p) \<and>
   error_effect (\<lambda>s e s'. e = connection_dropped \<and>
     (\<exists>acc amount. path_id p = Inr acc \<and> decode_json gb = Inr amount \<and> add_credits (fs 0) acc amount s = (Inr (), s'))) (grant_credits fs p gb) \<and>
   error_effect (\<lambda>s e s'. e = internal_error \<and>
     (\<exists>i n r. positive_id p = Inr i \<and> decode_json ub = Inr (Some n) \<and> apply_config_defaults_and_cap n = Some r \<and>
        update_key_rate_limit (fs 0) i r s = (Inr (), s'))) (admin_update_key_rate_limit fs p ub) \<and>
   error_effect (\<lambda>s e s'. e = internal_error \<and>
     (\<exists>i role x. positive_id p = Inr i \<and> decode_json ob = Inr role \<and>
        update_user_role_guarded (fs 0) i role s = (Inr x, s'))) (admin_update_user_role fs p ob) \<and>
   error_effect (\<lambda>s e s'. e = internal_error \<and>
     (s' = env s \<or> (\<exists>acc. ensure_admin_service_account (fs 0) now env grant s = (Inr acc, s')))) (create_admin_key cy fs env grant now rnd kb)"
proof (intro conjI)
  show "failure_atomic (create_account_key cy fs now rnd p kb)" unfolding create_account_key_def by (intro atomic_intros) (auto intro: atomic_intros)
  show "failure_atomic (admin_revoke_key fs p)" unfolding admin_revoke_key_def by (intro atomic_intros)
  show "failure_atomic (admin_set_session_limit fs p lb)" unfolding admin_set_session_limit_def by (intro atomic_intros)
  show "failure_atomic (admin_set_trust_user_headers fs p tb)" unfolding admin_set_trust_user_headers_def by (intro atomic_intros)
  show "failure_atomic (admin_activate_user fs p)" unfolding admin_activate_user_def by (intro atomic_intros)
  show "failure_atomic (admin_deactivate_user fs p)" unfolding admin_deactivate_user_def by (intro atomic_intros)
  show "failure_atomic (set_account_allowance fs p ab)" unfolding set_account_allowance_def by (intro atomic_intros)
  show "failure_atomic (admin_set_account_rate_limit fs p rb)" unfolding admin_set_account_rate_limit_def by (intro atomic_intros)
  show "failure_atomic (admin_create_registration_token cy rfc fs rnd xb)" unfolding admin_create_registration_token_def Let_def by (intro atomic_intros)
  show "failure_atomic (admin_revoke_registration_token fs p)" unfolding admin_revoke_registration_token_def by (intro atomic_intros)
  show "failure_atomic (admin_upsert_pricing fs pb)" unfolding admin_upsert_pricing_def by (intro atomic_intros)
  show "failure_atomic (admin_delete_pricing fs p)" unfolding admin_delete_pricing_def by (intro atomic_intros)
  show "error_effect (\<lambda>s e s'. e = connection_dropped \<and>
     (\<exists>acc amount. path_id p = Inr acc \<and> decode_json gb = Inr amount \<and> add_credits (fs 0) acc amount s = (Inr (), s'))) (grant_credits fs p gb)"
    by (rule grant_error)
  show "error_effect (\<lambda>s e s'. e = internal_error \<and>
     (\<exists>i n r. positive_id p = Inr i \<and> decode_json ub = Inr (Some n) \<and> apply_config_defaults_and_cap n = Some r \<and>
        update_key_rate_limit (fs 0) i r s = (Inr (), s'))) (admin_update_key_rate_limit fs p ub)"
    by (rule update_key_error)
  show "error_effect (\<lambda>s e s'. e = internal_error \<and>
     (\<exists>i role x. positive_id p = Inr i \<and> decode_json ob = Inr role \<and>
        update_user_role_guarded (fs 0) i role s = (Inr x, s'))) (admin_update_user_role fs p ob)"
    by (rule update_role_error)
  show "error_effect (\<lambda>s e s'. e = internal_error \<and>
     (s' = env s \<or> (\<exists>acc. ensure_admin_service_account (fs 0) now env grant s = (Inr acc, s')))) (create_admin_key cy fs env grant now rnd kb)"
    unfolding error_effect_def using create_admin_key_error by blast
qed

section \<open>Keys minted by an administrator\<close>

lemma new_key_parts_Inr:
  "new_key_parts rnd b s = (Inr (req, rl, raw), s') \<longleftrightarrow> s' = s \<and> decode_json b = Inr req \<and> aq_name req \<noteq> [] \<and>
     apply_config_defaults_and_cap (aq_rate_limit req) = Some rl \<and> (\<exists>hex. rnd = Some hex \<and> raw = raw_key hex)"
  by (auto simp: new_key_parts_def prog_simps split: sum.splits option.splits if_splits)

lemma insert_admin_key_Inr:
  assumes "insert_admin_key cy f now acc req rl raw s = (Inr r, s')"
  shows "insert_key now (aq_name req) (cy_hash cy raw) (take 11 raw) rl None (Some acc) s = (Inr (ar_id r), s') \<and>
    ar_key r = raw \<and> ar_prefix r = take 11 raw \<and> ar_rate_limit r = rl \<and> ar_account r = acc"
  using assms by (auto simp: insert_admin_key_def create_key_for_account_only_def prog_simps sql_def split: sum.splits prod.splits if_splits)

lemma minted_key:
  assumes "insert_admin_key cy f now acc req rl (raw_key hex) s = (Inr r, s')" "apply_config_defaults_and_cap n = Some rl"
  shows "(\<exists>k. authenticate_key (cy_hash cy) no_faults (bearer_prefix @ ar_key r) s' = Inr k \<and> ak_id (au_key k) = ar_id r \<and>
      ak_user (au_key k) = None \<and> ak_account (au_key k) = Some (ar_account r) \<and> ak_rate_limit (au_key k) = ar_rate_limit r \<and>
      \<not> ak_trust_headers (au_key k)) \<and> 1 \<le> ar_rate_limit r \<and> ar_rate_limit r \<le> 10000 \<and> ar_account r \<in> ac_id ` set (accounts s')"
proof -
  note i = insert_admin_key_Inr [OF assms(1)]
  have "raw_key hex \<noteq> []" by (simp add: raw_key_def)
  moreover have "insert_key now (aq_name req) (cy_hash cy (raw_key hex)) (take 11 (raw_key hex)) rl None (Some acc) s = (Inr (ar_id r), s')"
    using i by simp
  ultimately obtain k where "authenticate_key (cy_hash cy) no_faults (bearer_prefix @ raw_key hex) s' = Inr k \<and> ak_id (au_key k) = ar_id r \<and>
      ak_user (au_key k) = None \<and> ak_account (au_key k) = Some acc \<and> ak_rate_limit (au_key k) = rl \<and> \<not> ak_trust_headers (au_key k)"
    using new_key_authenticates by blast
  moreover have "acc \<in> ac_id ` set (accounts s')"
    using i by (auto simp: insert_key_def fk_missing_def row_of_None split: if_splits option.splits)
  ultimately show ?thesis using i apply_config_bounds [OF assms(2)] by auto
qed

text \<open>
  C13: Every key an administrator mints is metered. Whichever of the two handlers made it, the raw
  key of the reply authenticates at once, belongs to no user, is backed by an existing account
  (the one named in the request or in the path, else the service account), so the credit gate
  applies to it, carries a limit between 1 and 10000 per minute and may not speak for others.
\<close>
theorem admin_keys_metered:
  assumes "create_admin_key cy fs env grant now rnd b s = (Inr r, s') \<or> create_account_key cy fs now rnd p b s = (Inr r, s')"
  shows "(\<exists>k. authenticate_key (cy_hash cy) no_faults (bearer_prefix @ ar_key r) s' = Inr k \<and> ak_id (au_key k) = ar_id r \<and>
      ak_user (au_key k) = None \<and> ak_account (au_key k) = Some (ar_account r) \<and> ak_rate_limit (au_key k) = ar_rate_limit r \<and>
      \<not> ak_trust_headers (au_key k)) \<and> 1 \<le> ar_rate_limit r \<and> ar_rate_limit r \<le> 10000 \<and> ar_account r \<in> ac_id ` set (accounts s')"
  using assms
proof
  assume "create_admin_key cy fs env grant now rnd b s = (Inr r, s')"
  then obtain req rl raw acc s1 where "new_key_parts rnd b s = (Inr (req, rl, raw), s)"
    "insert_admin_key cy (fs 1) now acc req rl raw s1 = (Inr r, s')"
    by (auto simp: create_admin_key_def bindp_Inr new_key_parts_Inr)
  then show ?thesis using minted_key by (auto simp: new_key_parts_Inr)
next
  assume "create_account_key cy fs now rnd p b s = (Inr r, s')"
  then obtain req rl raw acc where "new_key_parts rnd b s = (Inr (req, rl, raw), s)"
    "insert_admin_key cy (fs 0) now acc req rl raw s = (Inr r, s')"
    by (auto simp: create_account_key_def bindp_Inr new_key_parts_Inr checked_def retp_def failp_def split: sum.splits)
  then show ?thesis using minted_key by (auto simp: new_key_parts_Inr)
qed

section \<open>Where the handlers fall short\<close>

text \<open>
  A credit grant whose reply fails is still a grant. The handler drops the error of the balance
  it reads back; when that read fails, the grant is committed and the handler dereferences a nil
  balance. The administrator sees a dropped connection, and a retry grants a second time.
\<close>
theorem grant_panics_after_commit:
  assumes "parse_int64 p = Some acc" "decode_json b = Inr amount" "amount \<noteq> 0"
    and "add_credits (fs 0) acc amount s = (Inr (), s')" "fs 1 0"
  shows "grant_credits fs p b s = (Inl connection_dropped, s') \<and>
    (\<exists>t. transactions s' = transactions s @ [t] \<and> ct_account t = acc \<and> ct_amount t = dec6 amount)"
proof
  show "grant_credits fs p b s = (Inl connection_dropped, s')" using assms
    by (simp add: grant_credits_def path_id_def prog_simps get_credit_balance_def)
  show "\<exists>t. transactions s' = transactions s @ [t] \<and> ct_account t = acc \<and> ct_amount t = dec6 amount"
    using assms(4) by (elim add_credits_Inr) (simp add: add_transaction_def)
qed

theorem grant_panics_after_commit_witness:
  "\<exists>s'. grant_credits (\<lambda>i k. i = 1 \<and> k = 0) ''1'' (Inr 5, TailEof) one_hold_db = (Inl connection_dropped, s') \<and>
     transactions s' \<noteq> transactions one_hold_db"
proof -
  let ?fs = "\<lambda>i k. i = (1 :: nat) \<and> k = (0 :: nat)"
  have ok: "fst (add_credits (?fs 0) 1 5 one_hold_db) = Inr ()" by code_simp
  then obtain s' where s': "add_credits (?fs 0) 1 5 one_hold_db = (Inr (), s')" by (metis prod.collapse)
  have p: "parse_int64 ''1'' = Some 1" "decode_json (Inr (5 :: rat), TailEof) = Inr 5" by code_simp+
  show ?thesis using grant_panics_after_commit [where fs = ?fs, OF p _ s'] by auto
qed

text \<open>
  A positive price can be stored as free. The handler demands rates above zero, but a rate below
  half a millionth rounds to zero in its DECIMAL(15,6) column: the update succeeds, the model is
  priced at 0 and its tokens cost nothing.
\<close>
theorem positive_rate_stored_as_zero:
  assumes "decode_json b = Inr q" "0 < pq_prompt q" "pq_prompt q < 1 / 2000000" "0 < pq_completion q" "pq_completion q < 1 / 2000000"
    and "admin_upsert_pricing fs b s = (Inr (), s')"
  shows "\<exists>r. row_of cp_model (pq_model q) (pricing s') = Some r \<and> cp_active r \<and> estimate_cost (Some (scan_pricing r)) m n = 0"
proof -
  have z: "dec6 x = 0" if "0 < x" "x < 1 / 2000000" for x :: rat using that by (intro dec6_close) simp
  obtain ty where up: "upsert_pricing (fs 0) (pq_model q) (pq_prompt q) (pq_completion q) ty s = (Inr (), s')"
    using assms(1-6) by (auto simp: admin_upsert_pricing_def prog_simps split: if_splits prod.splits sum.splits)
  obtain i where r: "row_of cp_model (pq_model q) (pricing s') = Some (priced_row i (pq_model q) (pq_prompt q) (pq_completion q) ty)"
    using upsert_pricing_row [OF up] by blast
  show ?thesis unfolding r using assms(2-5)
    by (simp add: priced_row_def scan_pricing_def rate_of_def f_of_micros_def estimate_cost_def z fmul_def fadd_def fdivc_def)
qed

theorem positive_rate_stored_as_zero_witness:
  "\<exists>r. row_of cp_model ''m'' (pricing (snd (admin_upsert_pricing (\<lambda>_. no_faults)
      (Inr \<lparr>pq_model = ''m'', pq_prompt = 1 / 10 ^ 7, pq_completion = 1 / 10 ^ 7, pq_typical = 0\<rparr>, TailEof) empty_db))) = Some r \<and>
    cp_active r \<and> estimate_cost (Some (scan_pricing r)) 1000000 1000000 = 0"
proof -
  let ?q = "\<lparr>pq_model = ''m'', pq_prompt = 1 / 10 ^ 7, pq_completion = 1 / 10 ^ 7, pq_typical = 0\<rparr> :: pricing_request"
  let ?r = "admin_upsert_pricing (\<lambda>_. no_faults) (Inr ?q, TailEof) empty_db"
  have "dec6 (1 / 10 ^ 7) = 0" by code_simp
  then have "fst ?r = Inr ()"
    by (simp add: admin_upsert_pricing_def decode_json_def upsert_pricing_def prog_simps sql_def dec_col_def int32_ok_def)
  then have "?r = (Inr (), snd ?r)" by (simp add: prod_eq_iff)
  from positive_rate_stored_as_zero [OF _ _ _ _ _ this, of ?q] show ?thesis by (simp add: decode_json_def)
qed

definition demo_key_request :: "admin_key_request body" where
  "demo_key_request = (Inr \<lparr>aq_name = ''ci'', aq_rate_limit = 0, aq_account = Some 1\<rparr>, TailEof)"

theorem admin_keys_metered_witness:
  "\<exists>s' k. create_admin_key demo_crypto (\<lambda>_. no_faults) id 5 9 (Some ''abcdef0123'') demo_key_request one_hold_db
      = (Inr \<lparr>ar_id = 1, ar_key = ''sk-abcdef0123'', ar_prefix = ''sk-abcdef01'', ar_rate_limit = 60, ar_account = 1\<rparr>, s') \<and>
    authenticate_key (cy_hash demo_crypto) no_faults (bearer_prefix @ ''sk-abcdef0123'') s' = Inr k \<and> ak_account (au_key k) = Some 1"
proof -
  let ?c = "create_admin_key demo_crypto (\<lambda>_. no_faults) id 5 9 (Some ''abcdef0123'') demo_key_request one_hold_db"
  have "fst ?c = Inr \<lparr>ar_id = 1, ar_key = ''sk-abcdef0123'', ar_prefix = ''sk-abcdef01'', ar_rate_limit = 60, ar_account = 1\<rparr>" by code_simp
  then have r: "?c = (Inr \<lparr>ar_id = 1, ar_key = ''sk-abcdef0123'', ar_prefix = ''sk-abcdef01'', ar_rate_limit = 60, ar_account = 1\<rparr>, snd ?c)"
    by (simp add: prod_eq_iff)
  from admin_keys_metered [OF disjI1, OF r] r show ?thesis by auto
qed

definition admin_db :: db where
  "admin_db = empty_db\<lparr>users := [\<lparr>us_id = 1, us_email = ''r@b'', us_password = ''p'', us_name = ''r'', us_role = ''admin'', us_active = True, us_account = None\<rparr>],
     sessions := [\<lparr>se_user = 1, se_hash = ''#t'', se_expires = 50\<rparr>]\<rparr>"

theorem admin_auth_sound_witness:
  "fst (admin_auth (\<lambda>x. ''#'' @ x) ''secret'' (\<lambda>_. no_faults) 9 [] (bearer_prefix @ ''t'') (new_admin_gate 0) admin_db)
     = Inr (Some \<lparr>se_user = 1, se_hash = ''#t'', se_expires = 50\<rparr>) \<and>
   isl (fst (admin_auth (\<lambda>x. ''#'' @ x) ''secret'' (\<lambda>_. no_faults) 9 ''wrong'' (bearer_prefix @ ''t'') (new_admin_gate 0) admin_db))"
proof -
  have a: "fst (admin_auth (\<lambda>x. ''#'' @ x) ''secret'' (\<lambda>_. no_faults) 9 [] (bearer_prefix @ ''t'') (new_admin_gate 0) admin_db)
     = Inr (Some \<lparr>se_user = 1, se_hash = ''#t'', se_expires = 50\<rparr>)" by code_simp
  obtain res g' s' where r: "admin_auth (\<lambda>x. ''#'' @ x) ''secret'' (\<lambda>_. no_faults) 9 ''wrong'' (bearer_prefix @ ''t'') (new_admin_gate 0) admin_db = (res, g', s')"
    by (metis prod.collapse)
  have "isl res" using admin_auth_sound [OF r] by (cases res) (auto split: option.splits)
  then show ?thesis using a r by simp
qed

theorem admin_key_burst_witness:
  "of_nat (granted () [(0, ()), (1, ()), (2, ())] (run_limiter (shared_at admin_allow) (new_admin_gate 0) [(0, ()), (1, ()), (2, ())]))
     \<le> (10 + 20 / of_int minute + 3 / 10 ^ 9 :: rat)"
  using admin_key_burst [of "[(0, ()), (1, ()), (2, ())]" 0 2] by (simp del: run_limiter.simps granted.simps)

end
