(* ===== verification/Bootstrap.thy ===== *)
theory Bootstrap
  imports AdminSafety
begin

text \<open>
  internal/bootstrap/handler.go: the endpoint outside the admin authentication that creates an
  administrator against a pre-shared token, to seed the first one or to recover from a lockout.
  The handler keeps its token and one token bucket; the clock is read once per request.
\<close>

section \<open>The handler\<close>

definition bootstrap_rate_limit_per_minute :: int where
  "bootstrap_rate_limit_per_minute = 5"

record bootstrap =
  bs_token :: string
  bs_tokens :: rat
  bs_last :: gotime

record bootstrap_request =
  bq_token :: string
  bq_email :: string
  bq_password :: string
  bq_name :: string

definition new_bootstrap :: "string \<Rightarrow> gotime \<Rightarrow> bootstrap" where
  "new_bootstrap token now = \<lparr>bs_token = token, bs_tokens = f_of_int bootstrap_rate_limit_per_minute, bs_last = now\<rparr>"

definition bootstrap_allow :: "gotime \<Rightarrow> bootstrap \<Rightarrow> bool \<times> bootstrap" where
  "bootstrap_allow now h = (let x = refilled (f_of_int bootstrap_rate_limit_per_minute) (bucket_rate bootstrap_rate_limit_per_minute)
       (bs_tokens h) (time_sub now (bs_last h)) in
     if 1 \<le> x then (True, h\<lparr>bs_tokens := fsub x 1, bs_last := now\<rparr>) else (False, h\<lparr>bs_tokens := x, bs_last := now\<rparr>))"

definition bootstrap_error :: "store_error \<Rightarrow> api_error" where
  "bootstrap_error e = (if e = EmailExists then api_err 409 ''email_exists'' ''invalid_request_error'' else internal_error)"

text \<open>Everything after the bucket, as a program over the database.\<close>

definition bootstrap_admin :: "crypto \<Rightarrow> faults \<Rightarrow> gotime \<Rightarrow> string \<Rightarrow> bootstrap_request body \<Rightarrow> (int \<times> string) admin_prog" where
  "bootstrap_admin cy f now token b = bindp (checked (decode_json b)) (\<lambda>req.
     if bq_token req = [] \<or> bq_email req = [] \<or> bq_password req = [] \<or> bq_name req = [] then failp (bad_request ''missing_fields'')
     else if length (bq_password req) < 8 then failp (bad_request ''weak_password'')
     else if bq_token req \<noteq> token then failp (unauthorized ''invalid_bootstrap_token'')
     else bindp (found (cy_generate cy (bq_password req)) internal_error) (\<lambda>h.
     bindp (stored bootstrap_error (create_admin_bootstrap f now (bq_email req) h (bq_name req))) (\<lambda>uid.
     retp (uid, bq_email req))))"

definition bootstrap_handler ::
  "crypto \<Rightarrow> faults \<Rightarrow> gotime \<Rightarrow> bootstrap_request body \<Rightarrow> bootstrap \<Rightarrow> db \<Rightarrow> (api_error + int \<times> string) \<times> bootstrap \<times> db" where
  "bootstrap_handler cy f now b h s = (if bs_token h = [] then (Inl not_found, h, s)
     else (case bootstrap_allow now h of
         (False, h') \<Rightarrow> (Inl (throttled_after 12), h', s)
       | (True, h') \<Rightarrow> (case bootstrap_admin cy f now (bs_token h) b s of (r, s') \<Rightarrow> (r, h', s'))))"

section \<open>How often\<close>

interpretation bootstrap_bucket: shared_bucket bootstrap_allow bs_tokens bs_last 5
  by unfold_locales (auto simp: bootstrap_allow_def Let_def bootstrap_rate_limit_per_minute_def)

text \<open>
  Guessing the bootstrap token is slow: of n attempts from the start of the process on, at
  most five plus one per twelve seconds reach the comparison, up to a billionth per attempt.
\<close>
theorem bootstrap_burst:
  assumes "sorted (map fst rs)" "\<forall>r \<in> set rs. t0 \<le> fst r \<and> fst r \<le> t1" "t0 \<le> t1"
  shows "of_nat (granted () rs (run_limiter (shared_at bootstrap_allow) (new_bootstrap token t0) rs)) \<le>
    (5 + 5 * of_int (t1 - t0) / of_int minute + of_nat (length rs) / 10 ^ 9 :: rat)"
  using bootstrap_bucket.burst_full [of "new_bootstrap token t0" t0 rs t1] assms
  by (simp add: new_bootstrap_def bootstrap_rate_limit_per_minute_def)

theorem bootstrap_burst_witness:
  "of_nat (granted () [(0, ()), (1, ()), (2, ())] (run_limiter (shared_at bootstrap_allow) (new_bootstrap ''t'' 0) [(0, ()), (1, ()), (2, ())]))
     \<le> (5 + 10 / of_int minute + 3 / 10 ^ 9 :: rat)"
  using bootstrap_burst [of "[(0, ()), (1, ()), (2, ())]" 0 2] by (simp del: run_limiter.simps granted.simps)

section \<open>Who gets in\<close>

lemma bootstrap_admin_atomic: "failure_atomic (bootstrap_admin cy f now token b)"
proof -
  have "failure_atomic (stored bootstrap_error (create_admin_bootstrap f now email h name))" for email h name
    by (auto simp: failure_atomic_def stored_def create_admin_bootstrap_def dest: transact_Inl split: prod.splits sum.splits)
  then have "failure_atomic (bindp (stored bootstrap_error (create_admin_bootstrap f now email h name)) (\<lambda>uid. retp (uid, x)))" for email h name and x :: string
    by (fastforce simp: failure_atomic_def bindp_def retp_def split: prod.splits sum.splits)
  then have k: "failure_atomic (bindp (found y internal_error) (\<lambda>h. bindp (stored bootstrap_error (create_admin_bootstrap f now email h name)) (\<lambda>uid. retp (uid, x))))"
    for y email name and x :: string by (rule failure_atomic_first [OF read_only_atoms(6)])
  show ?thesis unfolding bootstrap_admin_def
    by (rule failure_atomic_first [OF read_only_atoms(4)]) (simp add: k failure_atomic_read_only read_only_atoms split: if_split)
qed

lemma bootstrap_admin_Inr:
  assumes "bootstrap_admin cy f now token b s = (Inr r, s')" "accounts_wf s"
  shows "\<exists>req h. decode_json b = Inr req \<and> bq_token req = token \<and> token \<noteq> [] \<and> 8 \<le> length (bq_password req) \<and> bq_email req \<noteq> [] \<and>
    cy_generate cy (bq_password req) = Some h \<and> row_of us_email (bq_email req) (users s) = None \<and>
    r = (next_user s, bq_email req) \<and> s' = registered s now (bq_email req) h (bq_name req) ''admin'' ''admin_bootstrap''"
  using assms create_admin_bootstrap_Inr [OF assms(2)]
  by (auto simp: bootstrap_admin_def bindp_Inr checked_def found_def stored_def split: sum.splits option.splits if_splits prod.splits)

text \<open>
  C28: Who bootstraps an administrator: while the token is unset every request is answered 404
  and leaves handler and database alone; no reply but 201 changes the database; and a 201 means
  that the caller knew the token, that the bucket had a token for the call, and that exactly one
  new active administrator with a fresh email and its personal account was stored.
\<close>
theorem bootstrap_gate:
  assumes "bootstrap_handler cy f now b h s = (res, h', s')" "accounts_wf s"
  shows "bs_token h' = bs_token h \<and> (bs_token h = [] \<longrightarrow> res = Inl not_found \<and> h' = h \<and> s' = s) \<and>
    (case res of Inl e \<Rightarrow> s' = s
     | Inr (uid, email) \<Rightarrow> bootstrap_allow now h = (True, h') \<and> (\<exists>req hash. decode_json b = Inr req \<and> bq_token req = bs_token h \<and>
         row_of us_email email (users s) = None \<and> s' = registered s now email hash (bq_name req) ''admin'' ''admin_bootstrap'' \<and>
         (\<exists>u. users s' = users s @ [u] \<and> us_id u = uid \<and> us_email u = email \<and> us_role u = ''admin'' \<and> us_active u)))"
proof (cases "bs_token h = []")
  case True
  then show ?thesis using assms(1) by (auto simp: bootstrap_handler_def)
next
  case False
  obtain ok h1 where a: "bootstrap_allow now h = (ok, h1)" by (metis prod.exhaust)
  have tok: "bs_token h1 = bs_token h" using a by (auto simp: bootstrap_allow_def Let_def split: if_splits)
  show ?thesis
  proof (cases ok)
    case False
    then show ?thesis using assms(1) a tok \<open>bs_token h \<noteq> []\<close> by (auto simp: bootstrap_handler_def)
  next
    case True
    then have r: "bootstrap_admin cy f now (bs_token h) b s = (res, s')" and h': "h' = h1"
      using assms(1) a \<open>bs_token h \<noteq> []\<close> by (auto simp: bootstrap_handler_def split: prod.splits)
    show ?thesis
    proof (cases res)
      case (Inl e)
      then show ?thesis using r h' tok False bootstrap_admin_atomic by (auto simp: failure_atomic_def)
    next
      case (Inr p)
      obtain req hash where "decode_json b = Inr req" "bq_token req = bs_token h" "row_of us_email (bq_email req) (users s) = None"
        "p = (next_user s, bq_email req)" "s' = registered s now (bq_email req) hash (bq_name req) ''admin'' ''admin_bootstrap''"
        using bootstrap_admin_Inr [OF r [unfolded Inr] assms(2)] by blast
      then show ?thesis using h' tok False Inr a True by (auto simp: registered_def fresh_user_def)
    qed
  qed
qed

section \<open>Recovery from a lockout\<close>

lemma new_session_admits:
  assumes "raw \<noteq> []" "row_of se_hash (h raw) (sessions s) = Some x" "t \<le> se_expires x" "row_of us_id (se_user x) (users s) = Some u"
    "us_active u" "us_role u = ''admin''" "ag_sessions g (h raw) = None"
  shows "fst (admin_auth h key (\<lambda>_. no_faults) t [] (bearer_prefix @ raw) g s) = Inr (Some x)"
  using assms by (simp add: admin_auth_def Let_def extract_bearer_def has_prefix_def get_session_by_token_hash_def get_user_by_id_def session_allow_def)

text \<open>
  The bootstrap endpoint recovers from a total lockout. In whatever state the users are, after
  a 201 a login with the new credentials that is not throttled and draws an unused token
  succeeds, and until the session expires the admin API lets the token in (the hash bcrypt
  generated compares equal with its password).
\<close>
theorem bootstrap_recovers:
  assumes bcrypt: "\<And>p h. cy_generate cy p = Some h \<Longrightarrow> cy_compare cy h p"
    and boot: "bootstrap_handler cy f now b h s = (Inr (uid, email), h', s')" "decode_json b = Inr req" "accounts_wf s" "users_ok s"
    and free: "allow_login_email (cy_hash cy) guard now' email = ((True, w), g)" "fst (try_acquire_bcrypt g)"
    and raw: "raw \<noteq> []" "row_of se_hash (cy_hash cy raw) (sessions s') = None" "ag_sessions ag (cy_hash cy raw) = None"
  shows "\<exists>r st'' x. login cy (\<lambda>_. no_faults) id now' (Some raw) (Inr \<lparr>lr_email = email, lr_password = bq_password req\<rparr>, TailEof)
        \<lparr>as_db = s', as_guard = guard\<rparr> = ((Inr r, st''), 1) \<and> se_user x = uid \<and>
    (\<forall>t \<le> now' + session_duration_for ''admin''.
       fst (admin_auth (cy_hash cy) admin_key (\<lambda>_. no_faults) t [] (bearer_prefix @ raw) ag (as_db st'')) = Inr (Some x))"
proof -
  have "bootstrap_admin cy f now (bs_token h) b s = (Inr (uid, email), s')"
    using boot(1) by (auto simp: bootstrap_handler_def split: if_splits prod.splits bool.splits)
  from bootstrap_admin_Inr [OF this boot(3)] boot(2) obtain hash where i:
    "8 \<le> length (bq_password req)" "email \<noteq> []" "cy_generate cy (bq_password req) = Some hash" "row_of us_email email (users s) = None"
    "uid = next_user s" "s' = registered s now email hash (bq_name req) ''admin'' ''admin_bootstrap''" by auto
  define u where "u = fresh_user s email hash (bq_name req) ''admin''"
  have u: "us_id u = uid" "us_email u = email" "us_password u = hash" "us_role u = ''admin''" "us_active u"
    by (simp_all add: u_def fresh_user_def i(5))
  have us: "users s' = users s @ [u]" by (simp add: i(6) registered_def u_def)
  have rows: "row_of us_email email (users s') = Some u" using i(4) u(2) by (simp add: us row_of_snoc)
  have "row_of us_id uid (users s) = None" using boot(4) i(5) by (auto simp: users_ok_def row_of_None)
  then have idrow: "row_of us_id uid (users s') = Some u" using u(1) by (simp add: us row_of_snoc)
  define x where "x = \<lparr>se_user = us_id u, se_hash = cy_hash cy raw, se_expires = now' + session_duration_for (us_role u)\<rparr>"
  define st'' where "st'' = \<lparr>as_db = s'\<lparr>sessions := sessions s' @ [x]\<rparr>, as_guard = g\<rparr>"
  have idrow': "row_of us_id (us_id u) (users s') \<noteq> None" "bq_password req \<noteq> []" using idrow u(1) i(1) by auto
  have l: "login cy (\<lambda>_. no_faults) id now' (Some raw) (Inr \<lparr>lr_email = email, lr_password = bq_password req\<rparr>, TailEof) \<lparr>as_db = s', as_guard = guard\<rparr> =
    ((Inr \<lparr>lg_token = raw, lg_expires_in = session_duration_for (us_role u) div second, lg_user = us_id u, lg_email = us_email u, lg_role = us_role u\<rparr>, st''), 1)"
    using login_ok [of cy "\<lparr>as_db = s', as_guard = guard\<rparr>" now' email w g "bq_password req" u raw] free i(2) rows u(3,5) idrow' raw(2) bcrypt [OF i(3)]
    unfolding st''_def x_def by simp
  have "fst (admin_auth (cy_hash cy) admin_key (\<lambda>_. no_faults) t [] (bearer_prefix @ raw) ag (as_db st'')) = Inr (Some x)"
    if "t \<le> now' + session_duration_for ''admin''" for t
    by (rule new_session_admits [of raw "cy_hash cy" _ x t u]) (use raw u idrow that in \<open>simp_all add: st''_def x_def row_of_snoc\<close>)
  then show ?thesis using l u(1) by (intro exI [of _ "\<lparr>lg_token = raw, lg_expires_in = session_duration_for (us_role u) div second, lg_user = us_id u,
      lg_email = us_email u, lg_role = us_role u\<rparr>"] exI [of _ st''] exI [of _ x]) (simp add: x_def)
qed

section \<open>Instances\<close>

definition demo_bootstrap_body :: "bootstrap_request body" where
  "demo_bootstrap_body = (Inr \<lparr>bq_token = ''t'', bq_email = ''a@b'', bq_password = ''longenough'', bq_name = ''n''\<rparr>, TailEof)"

definition demo_bootstrap :: "(api_error + int \<times> string) \<times> bootstrap \<times> db" where
  "demo_bootstrap = bootstrap_handler demo_crypto no_faults 0 demo_bootstrap_body (new_bootstrap ''t'' 0) empty_db"

lemma demo_bootstrap_facts:
  "fst demo_bootstrap = Inr (1, ''a@b'')" "sessions (snd (snd demo_bootstrap)) = []"
  "demo_bootstrap = (Inr (1, ''a@b''), fst (snd demo_bootstrap), snd (snd demo_bootstrap))"
proof -
  have f: "(\<lambda>d. (fst d, sessions (snd (snd d)))) demo_bootstrap = (Inr (1, ''a@b''), [])" by code_simp
  then show "fst demo_bootstrap = Inr (1, ''a@b'')" "sessions (snd (snd demo_bootstrap)) = []" by simp_all
  then show "demo_bootstrap = (Inr (1, ''a@b''), fst (snd demo_bootstrap), snd (snd demo_bootstrap))" by (simp add: prod_eq_iff)
qed

lemma empty_db_ok: "accounts_wf empty_db" "users_ok empty_db"
  by (simp_all add: accounts_wf_def users_ok_def empty_db_def)

theorem bootstrap_gate_witness:
  "\<exists>u. users (snd (snd demo_bootstrap)) = [u] \<and> us_role u = ''admin''"
proof -
  have "users empty_db = []" by (simp add: empty_db_def)
  then show ?thesis
    using bootstrap_gate [OF demo_bootstrap_facts(3) [unfolded demo_bootstrap_def] empty_db_ok(1)]
    by (fastforce simp: demo_bootstrap_def [symmetric])
qed

theorem bootstrap_recovers_witness:
  "\<exists>(d :: db) x. se_user x = 1 \<and>
     fst (admin_auth (cy_hash demo_crypto) ''k'' (\<lambda>_. no_faults) 7 [] (bearer_prefix @ ''tok'') (new_admin_gate 0) d) = Inr (Some x)"
proof -
  note r = bootstrap_recovers [OF demo_bcrypt demo_bootstrap_facts(3) [unfolded demo_bootstrap_def], of _ None 6 "Fin 0" None "''tok''" "new_admin_gate 0" "''k''"]
  have pre: "decode_json demo_bootstrap_body = Inr \<lparr>bq_token = ''t'', bq_email = ''a@b'', bq_password = ''longenough'', bq_name = ''n''\<rparr>"
    by (simp add: demo_bootstrap_body_def decode_json_def)
  obtain x and d :: db where x: "se_user x = 1"
    "\<forall>t \<le> 6 + session_duration_for ''admin''. fst (admin_auth (cy_hash demo_crypto) ''k'' (\<lambda>_. no_faults) t [] (bearer_prefix @ ''tok'') (new_admin_gate 0) d) = Inr (Some x)"
    using r [OF _ pre empty_db_ok] demo_bootstrap_facts(2) by (fastforce simp: row_of_def new_admin_gate_def demo_bootstrap_def)
  have "7 \<le> 6 + session_duration_for ''admin''" by code_simp
  then show ?thesis using x by blast
qed

end
