(* ===== verification/Operations.thy ===== *)
theory Operations
  imports Edge Bootstrap "HOL-Library.Sublist"
begin

text \<open>
  The process around the handlers: health and configuration endpoints (internal/health,
  internal/admin/config_health.go), the schema migration with its retries (internal/store), the
  start-up sequence, the usage writer and the background tickers of cmd/proxy/main.go,
  internal/credits/sweeper.go and internal/credits/catalog.go.
\<close>

section \<open>Health\<close>

record check_result =
  ck_status :: string
  ck_error :: string
  ck_detail :: string
  ck_depth :: "int option"
  ck_capacity :: "int option"
  ck_total :: "int option"
  ck_healthy :: "int option"

definition check_ok :: check_result where
  "check_ok = \<lparr>ck_status = ''ok'', ck_error = [], ck_detail = [], ck_depth = None, ck_capacity = None, ck_total = None, ck_healthy = None\<rparr>"

text \<open>What the checker is wired to: the result of a ping, the registry, the queue's length and capacity.\<close>

record checker =
  hc_db :: "string option option"
  hc_nodes :: "registry option"
  hc_queue :: "(int \<times> int) option"

definition db_check :: "string option \<Rightarrow> check_result" where
  "db_check ping = (case ping of None \<Rightarrow> check_ok | Some e \<Rightarrow> check_ok\<lparr>ck_status := ''error'', ck_error := e\<rparr>)"

definition healthy_count :: "registry \<Rightarrow> nat" where
  "healthy_count r = length (filter (\<lambda>e. ns_health e = HealthHealthy) (sn_nodes (registry_snapshot r)))"

definition nodes_check :: "registry \<Rightarrow> check_result" where
  "nodes_check r = (let total = length (sn_nodes (registry_snapshot r)); healthy = healthy_count r;
       res = check_ok\<lparr>ck_total := Some (int total), ck_healthy := Some (int healthy)\<rparr> in
     if total = 0 then res\<lparr>ck_detail := ''no nodes configured''\<rparr>
     else if healthy = 0 then res\<lparr>ck_status := ''error'', ck_error := ''no healthy nodes''\<rparr> else res)"

definition queue_check :: "int \<times> int \<Rightarrow> check_result" where
  "queue_check q = (case q of (depth, capacity) \<Rightarrow> let res = check_ok\<lparr>ck_depth := Some depth, ck_capacity := Some capacity\<rparr> in
     if capacity \<le> depth then res\<lparr>ck_status := ''error'', ck_error := ''usage channel full''\<rparr> else res)"

definition run_checks :: "checker \<Rightarrow> bool \<times> (string \<times> check_result) list" where
  "run_checks c = (let cs = (case hc_db c of None \<Rightarrow> [] | Some p \<Rightarrow> [(''db'', db_check p)]) @
       (case hc_nodes c of None \<Rightarrow> [] | Some r \<Rightarrow> [(''nodes'', nodes_check r)]) @
       (case hc_queue c of None \<Rightarrow> [] | Some q \<Rightarrow> [(''usage_writer'', queue_check q)])
     in (\<forall>(k, r) \<in> set cs. ck_status r \<noteq> ''error'', cs))"

definition live_handler :: "nat \<times> string" where
  "live_handler = (200, ''ok'')"

definition ready_handler :: "checker \<Rightarrow> nat \<times> string \<times> (string \<times> check_result) list" where
  "ready_handler c = (case run_checks c of (ok, cs) \<Rightarrow>
     (if ok then 200 else 503, if ok then ''ready'' else ''not_ready'',
      map (\<lambda>(k, r). (if k = ''db'' then ''database'' else k, r)) cs))"

record node_health_dto =
  nh_name :: string
  nh_health :: health
  nh_last_error :: string
  nh_last_checked :: "gotime option"
  nh_model_count :: nat

record health_reply =
  hr_status :: string
  hr_checks :: "(string \<times> check_result) list"
  hr_uptime :: int
  hr_nodes :: "node_health_dto list option"
  hr_warning :: "string option"

definition node_health :: "node_state \<Rightarrow> node_health_dto" where
  "node_health e = \<lparr>nh_name = nd_name (ns_node e), nh_health = ns_health e, nh_last_error = ns_last_error e,
     nh_last_checked = (if ns_last_checked e = zero_time then None else Some (ns_last_checked e)),
     nh_model_count = (case ns_models e of None \<Rightarrow> 0 | Some ms \<Rightarrow> length ms)\<rparr>"

text \<open>Checker, registry and start time are optional; the reply without its version.\<close>

definition get_health :: "checker option \<Rightarrow> registry option \<Rightarrow> gotime \<Rightarrow> gotime \<Rightarrow> nat \<times> health_reply" where
  "get_health hc reg start now = (let (ok, cs) = (case hc of None \<Rightarrow> (True, []) | Some c \<Rightarrow> run_checks c);
       nodes = map_option (\<lambda>r. map node_health (sn_nodes (registry_snapshot r))) reg in
     (if ok then 200 else 503, \<lparr>hr_status = (if ok then ''ok'' else ''degraded''), hr_checks = cs,
        hr_uptime = (if start = zero_time then 0 else \<lfloor>duration_seconds (time_sub now start)\<rfloor>), hr_nodes = nodes,
        hr_warning = (if nodes = Some [] then Some ''no nodes configured'' else None)\<rparr>))"

section \<open>Migration\<close>

text \<open>
  \<open>attempt n\<close> is what the n-th try of the migration gives: None for success, else the error,
  with its SQL state when the server reported one. The result comes with the time slept.
\<close>

definition transient_migrate_error :: "string option \<Rightarrow> bool" where
  "transient_migrate_error e = (case e of None \<Rightarrow> False | Some code \<Rightarrow> code \<in> {''23505'', ''40P01'', ''42710'', ''55000''})"

definition max_migrate_attempts :: nat where "max_migrate_attempts = 5"

function migrate_from :: "(nat \<Rightarrow> string option option) \<Rightarrow> nat \<Rightarrow> string option option \<Rightarrow> duration \<Rightarrow> string option option \<times> duration" where
  "migrate_from attempt n last_err slept = (if max_migrate_attempts \<le> n then (last_err, slept) else
     (case attempt n of None \<Rightarrow> (None, slept)
      | Some e \<Rightarrow> if \<not> transient_migrate_error e then (Some e, slept)
          else migrate_from attempt (Suc n) (Some e) (slept + int (50 * (n + 1)) * millisecond)))"
  by pat_completeness auto

termination migrate_from
  by (relation "measure (\<lambda>(attempt, n, last_err, slept). max_migrate_attempts - n)") auto

declare migrate_from.simps [simp del]

definition migrate :: "(nat \<Rightarrow> string option option) \<Rightarrow> string option option \<times> duration" where
  "migrate attempt = migrate_from attempt 0 None 0"

section \<open>Start-up\<close>

definition warn_if_pricing_empty :: "(string \<Rightarrow> string \<Rightarrow> bool) \<Rightarrow> faults \<Rightarrow> db \<Rightarrow> store_error + bool" where
  "warn_if_pricing_empty le f s = (case list_active_pricing le f s of Inl e \<Rightarrow> Inl e | Inr ps \<Rightarrow> Inr (ps = []))"

text \<open>
  The database steps of main in their order; \<open>fs i\<close> is the fault plan of the i-th, \<open>env\<close> what
  another process commits meanwhile. The first error ends the process; the result says
  whether the catalog is empty.
\<close>

definition startup_db ::
  "(string \<Rightarrow> string \<Rightarrow> bool) \<Rightarrow> (nat \<Rightarrow> faults) \<Rightarrow> (nat \<Rightarrow> faults) \<Rightarrow> (db \<Rightarrow> db) \<Rightarrow> rat \<Rightarrow> gotime \<Rightarrow> bool store_prog" where
  "startup_db le fs user_fs env grant now =
     bindp (backfill_accounts (fs 0) user_fs now) (\<lambda>_.
     bindp (ensure_admin_service_account (fs 1) now env grant) (\<lambda>admin.
     bindp (backfill_admin_key_accounts (fs 2) admin) (\<lambda>_.
     bindp (backfill_credit_balances (fs 3)) (\<lambda>_.
     bindp (backfill_registration_events (fs 4)) (\<lambda>_.
     bindp (getp (warn_if_pricing_empty le (fs 5))) (\<lambda>r.
     (case r of Inl e \<Rightarrow> failp e | Inr none \<Rightarrow> retp none)))))))"

text \<open>The state main builds, and the whole start-up up to the listener.\<close>

record process =
  ps_db :: db
  ps_nodes :: node_table
  ps_poller :: poller

record boot_env =
  be_nodes :: node_conf
  be_getenv :: "string \<Rightarrow> string option"
  be_file :: "declared_node list option option"
  be_world :: world
  be_collate :: "string \<Rightarrow> string \<Rightarrow> bool"

definition startup ::
  "boot_env \<Rightarrow> config \<Rightarrow> (nat \<Rightarrow> bool) \<Rightarrow> (nat \<Rightarrow> faults) \<Rightarrow> (nat \<Rightarrow> faults) \<Rightarrow> bool \<Rightarrow> (db \<Rightarrow> db) \<Rightarrow> rat \<Rightarrow> gotime \<Rightarrow> process \<Rightarrow> bool \<times> process" where
  "startup be cfg node_f fs user_fs list_fault env grant now p =
     (case sync_declared_nodes node_f (ue_parse (nc_urls (be_nodes be))) (be_getenv be) now (be_file be)
         (if cf_ollama_set cfg then Some (cf_ollama_url cfg) else None) (ps_nodes p) of
        (Inl e, t) \<Rightarrow> (False, p\<lparr>ps_nodes := t\<rparr>)
      | (Inr _, t) \<Rightarrow> (case startup_db (be_collate be) fs user_fs env grant now (ps_db p) of
            (Inl e, d) \<Rightarrow> (False, p\<lparr>ps_nodes := t, ps_db := d\<rparr>)
          | (Inr _, d) \<Rightarrow> (case sweep_once (nc_urls (be_nodes be)) (nc_decoders (be_nodes be)) (nc_options (be_nodes be)) (be_world be)
                (case list_nodes_with_secrets list_fault t of Inl e \<Rightarrow> None | Inr rows \<Rightarrow> Some rows) new_poller of
              (ok, pl) \<Rightarrow> (ok, \<lparr>ps_db = d, ps_nodes = t, ps_poller = pl\<rparr>))))"

section \<open>The usage writer\<close>

text \<open>One entry off the channel; a failed insert is logged and the entry dropped.\<close>

definition write_next :: "faults \<Rightarrow> gotime \<Rightarrow> gateway \<Rightarrow> gateway" where
  "write_next f now g = (case gw_queue g of [] \<Rightarrow> g
     | e # q \<Rightarrow> g\<lparr>gw_queue := q, gw_db := snd (log_usage f now e (gw_db g))\<rparr>)"

text \<open>The drain at shutdown: until the channel is empty.\<close>

function drain_usage :: "(nat \<Rightarrow> faults) \<Rightarrow> gotime \<Rightarrow> nat \<Rightarrow> gateway \<Rightarrow> gateway" where
  "drain_usage fs now k g = (if gw_queue g = [] then g else drain_usage fs now (Suc k) (write_next (fs k) now g))"
  by pat_completeness auto

termination drain_usage
  by (relation "measure (\<lambda>(fs, now, k, g). length (gw_queue g))") (auto simp: write_next_def split: list.split)

declare drain_usage.simps [simp del]

section \<open>Background tickers\<close>

definition sweep_interval :: duration where "sweep_interval = 10 * minute"
definition stale_threshold :: duration where "stale_threshold = 10 * minute"
definition cleanup_interval :: duration where "cleanup_interval = 6 * hour"
definition cleanup_age :: duration where "cleanup_age = 30 * (24 * hour)"

text \<open>One tick of each goroutine of StartSweeper; an error is logged.\<close>

definition sweeper_tick :: "faults \<Rightarrow> (nat \<Rightarrow> faults) \<Rightarrow> gotime \<Rightarrow> db \<Rightarrow> db" where
  "sweeper_tick f fs now s = snd (sweep_stale_holds f fs now stale_threshold s)"

definition cleanup_tick :: "faults \<Rightarrow> gotime \<Rightarrow> db \<Rightarrow> db" where
  "cleanup_tick f now s = snd (cleanup_settled_holds f now cleanup_age s)"

section \<open>Readiness means what it says\<close>

lemma resolve_None_iff:
  assumes "registry_inv r"
  shows "fst (resolve m r) = None \<longleftrightarrow> \<not> (\<exists>e \<in> set (rg_entries r). ns_health e = HealthHealthy \<and> (\<exists>ms. ns_models e = Some ms \<and> m \<in> set ms))"
proof -
  have "fst (resolve m r) = None \<longleftrightarrow> resolve_load m r = []" by (auto simp: resolve_def resolve_pick_def Let_def)
  also have "\<dots> \<longleftrightarrow> \<not> (\<exists>n. n \<in> set (resolve_load m r))" by (auto simp: neq_Nil_conv)
  finally show ?thesis using candidates_iff [OF assms] by blast
qed

text \<open>
  C29: The readiness probe and the admin health endpoint agree, and they tell the truth about
  routing. Both answer 200 exactly when the database answers, the usage queue is not full and
  either no node is enabled or some node is healthy; the breakdown lists every node; and when
  the node check fails no model can be routed.
\<close>
theorem readiness_correct:
  assumes "registry_inv r"
  shows "let c = \<lparr>hc_db = Some ping, hc_nodes = Some r, hc_queue = Some (depth, capacity)\<rparr>;
           good = (ping = None \<and> (rg_entries r = [] \<or> (\<exists>e \<in> set (rg_entries r). ns_health e = HealthHealthy)) \<and> depth < capacity)
     in fst (ready_handler c) = (if good then 200 else 503) \<and> fst (get_health (Some c) (Some r) start now) = (if good then 200 else 503) \<and>
        map_option length (hr_nodes (snd (get_health (Some c) (Some r) start now))) = Some (length (rg_entries r)) \<and>
        (ck_status (nodes_check r) = ''error'' \<longrightarrow> fst (resolve m r) = None)"
proof -
  have sn: "sn_nodes (registry_snapshot r) = sort_key entry_id (rg_entries r)"
    using assms by (simp add: registry_inv_def registry_snapshot_def snapshot_of_def)
  have count: "healthy_count r = 0 \<longleftrightarrow> \<not> (\<exists>e \<in> set (rg_entries r). ns_health e = HealthHealthy)"
    by (auto simp: healthy_count_def sn filter_empty_conv)
  have nodes: "ck_status (nodes_check r) = ''error'' \<longleftrightarrow> rg_entries r \<noteq> [] \<and> \<not> (\<exists>e \<in> set (rg_entries r). ns_health e = HealthHealthy)"
    by (simp add: nodes_check_def Let_def sn check_ok_def count)
  have "fst (resolve m r) = None" if "ck_status (nodes_check r) = ''error''"
    using resolve_None_iff [OF assms, of m] that nodes by blast
  moreover have "ck_status (db_check ping) \<noteq> ''error'' \<longleftrightarrow> ping = None" "ck_status (queue_check (depth, capacity)) \<noteq> ''error'' \<longleftrightarrow> depth < capacity"
    by (auto simp: db_check_def queue_check_def check_ok_def Let_def split: option.splits)
  ultimately show ?thesis using nodes
    by (auto simp: Let_def ready_handler_def get_health_def run_checks_def sn)
qed

section \<open>The migration gives up\<close>

lemma migrate_from_spec:
  assumes "n \<le> 5" "migrate_from attempt n l d = (res, slept)"
  shows "d \<le> slept \<and> slept \<le> d + 25 * (int (5 - n) * int (n + 6)) * millisecond \<and>
    (n = 5 \<longrightarrow> res = l) \<and>
    (n < 5 \<longrightarrow> (res = None \<longleftrightarrow> (\<exists>j < 5. n \<le> j \<and> attempt j = None \<and> (\<forall>k < j. n \<le> k \<longrightarrow> (\<exists>e. attempt k = Some e \<and> transient_migrate_error e)))) \<and>
       (\<forall>e. res = Some e \<longrightarrow> (\<exists>j < 5. n \<le> j \<and> attempt j = Some e \<and> (transient_migrate_error e \<longrightarrow> j = 4))))"
  using assms
proof (induction "5 - n" arbitrary: n l d)
  case 0
  then show ?case by (simp add: migrate_from.simps max_migrate_attempts_def)
next
  case (Suc m)
  then have n: "n < 5" "m = 5 - Suc n" "Suc n \<le> 5" by simp_all
  have ms: "0 \<le> (millisecond :: int)" by (simp add: millisecond_def)
  have gauss: "25 * (int (5 - n) * int (n + 6)) = 50 * int (n + 1) + 25 * (int (5 - Suc n) * int (Suc n + 6))"
    using n(1) by (auto simp: of_nat_diff algebra_simps)
  show ?case
  proof (cases "attempt n")
    case None
    then have r: "res = None" "slept = d" using Suc.prems n(1) by (simp_all add: migrate_from.simps [of _ n] max_migrate_attempts_def)
    have "\<exists>j < 5. n \<le> j \<and> attempt j = None \<and> (\<forall>k < j. n \<le> k \<longrightarrow> (\<exists>e. attempt k = Some e \<and> transient_migrate_error e))"
      using None n(1) by (intro exI [of _ n]) simp
    then show ?thesis using r n(1) ms by simp
  next
    case (Some e)
    show ?thesis
    proof (cases "transient_migrate_error e")
      case False
      then have r: "res = Some e" "slept = d" using Suc.prems n(1) Some by (simp_all add: migrate_from.simps [of _ n] max_migrate_attempts_def)
      have "\<not> (\<exists>j < 5. n \<le> j \<and> attempt j = None \<and> (\<forall>k < j. n \<le> k \<longrightarrow> (\<exists>e. attempt k = Some e \<and> transient_migrate_error e)))"
        using False Some by (metis le_neq_implies_less option.distinct(1) option.inject order_refl)
      then show ?thesis using r n(1) ms Some False by auto
    next
      case True
      let ?d = "d + int (50 * (n + 1)) * millisecond"
      have "migrate_from attempt (Suc n) (Some e) ?d = (res, slept)"
        using Suc.prems n(1) Some True by (simp add: migrate_from.simps [of _ n] max_migrate_attempts_def)
      note ih = Suc.hyps(1) [OF n(2) n(3) this]
      have b: "d \<le> slept" "slept \<le> d + 25 * (int (5 - n) * int (n + 6)) * millisecond"
      proof -
        have "0 \<le> int (50 * (n + 1)) * millisecond" using ms by simp
        then show "d \<le> slept" using ih by linarith
        show "slept \<le> d + 25 * (int (5 - n) * int (n + 6)) * millisecond" using ih unfolding gauss by (simp add: algebra_simps)
      qed
      have ex: "(\<exists>j < 5. n \<le> j \<and> attempt j = None \<and> (\<forall>k < j. n \<le> k \<longrightarrow> (\<exists>e. attempt k = Some e \<and> transient_migrate_error e))) \<longleftrightarrow>
          (\<exists>j < 5. Suc n \<le> j \<and> attempt j = None \<and> (\<forall>k < j. Suc n \<le> k \<longrightarrow> (\<exists>e. attempt k = Some e \<and> transient_migrate_error e)))"
        using Some True by (metis Suc_leD Suc_leI le_neq_implies_less option.distinct(1))
      show ?thesis
      proof (cases "Suc n = 5")
        case last: True
        then have "res = Some e" "n = 4" using ih by simp_all
        moreover have "\<not> (\<exists>j < 5. n \<le> j \<and> attempt j = None \<and> (\<forall>k < j. n \<le> k \<longrightarrow> (\<exists>e. attempt k = Some e \<and> transient_migrate_error e)))"
          unfolding ex using last by simp
        moreover have "\<exists>j < 5. n \<le> j \<and> attempt j = Some e \<and> (transient_migrate_error e \<longrightarrow> j = 4)"
          using Some \<open>n = 4\<close> by (intro exI [of _ 4]) simp
        ultimately show ?thesis using b by simp
      next
        case False
        then have "Suc n < 5" using n(1) by simp
        then have "(res = None) = (\<exists>j < 5. Suc n \<le> j \<and> attempt j = None \<and> (\<forall>k < j. Suc n \<le> k \<longrightarrow> (\<exists>e. attempt k = Some e \<and> transient_migrate_error e)))"
          "\<forall>e. res = Some e \<longrightarrow> (\<exists>j < 5. Suc n \<le> j \<and> attempt j = Some e \<and> (transient_migrate_error e \<longrightarrow> j = 4))"
          using ih by blast+
        moreover have "\<exists>j < 5. n \<le> j \<and> attempt j = Some x \<and> (transient_migrate_error x \<longrightarrow> j = 4)" if r: "res = Some x" for x
        proof -
          obtain j where "j < 5" "Suc n \<le> j" "attempt j = Some x" "transient_migrate_error x \<longrightarrow> j = 4"
            using calculation(2) r by blast
          then show ?thesis by (intro exI [of _ j]) simp
        qed
        ultimately show ?thesis using b n(1) unfolding ex by blast
      qed
    qed
  qed
qed

text \<open>
  C26: The migration always returns, after at most five attempts and three quarters of a second
  of waiting: with success exactly when one of the first five attempts succeeds and every one
  before it failed transiently, else with the error of the attempt that ended it.
\<close>
theorem migrate_returns:
  "case migrate attempt of (res, slept) \<Rightarrow> 0 \<le> slept \<and> slept \<le> 750 * millisecond \<and>
     (res = None \<longleftrightarrow> (\<exists>n < 5. attempt n = None \<and> (\<forall>k < n. \<exists>e. attempt k = Some e \<and> transient_migrate_error e))) \<and>
     (\<forall>e. res = Some e \<longrightarrow> (\<exists>n < 5. attempt n = Some e \<and> (transient_migrate_error e \<longrightarrow> n = 4)))"
proof -
  obtain res slept where r: "migrate_from attempt 0 None 0 = (res, slept)" by (metis prod.exhaust)
  show ?thesis using migrate_from_spec [OF _ r] by (simp add: migrate_def r)
qed

theorem migrate_returns_witness:
  "fst (migrate (\<lambda>n. if n < 2 then Some (Some ''40P01'') else None)) = None"
  using migrate_returns [of "\<lambda>n. if n < 2 then Some (Some ''40P01'') else None"]
  by (auto simp: transient_migrate_error_def intro!: exI [of _ "2 :: nat"])

section \<open>The writer loses nothing it can store\<close>

definition storable :: "db \<Rightarrow> usage_entry \<Rightarrow> bool" where
  "storable s e \<longleftrightarrow> row_of ak_id (ue_key e) (api_keys s) \<noteq> None \<and> int32_ok (ue_prompt e) \<and> int32_ok (ue_completion e) \<and>
     int32_ok (ue_total e) \<and> dec_ok (dec6 (ue_charged e))"

definition usage_stored :: "usage_entry \<Rightarrow> usage_entry" where
  "usage_stored e = e\<lparr>ue_charged := micros_val (dec6 (ue_charged e))\<rparr>"

lemma log_usage_cases:
  "snd (log_usage f now e s) = (if \<not> f 0 \<and> storable s e then s\<lparr>usage_logs := usage_logs s @ [(now, usage_stored e)]\<rparr> else s)"
  by (auto simp: log_usage_def sql_def stmt_def storable_def usage_stored_def)

text \<open>The rows the drain adds: those of the entries whose insert meets no failure and no constraint.\<close>

definition drained_rows :: "(nat \<Rightarrow> faults) \<Rightarrow> gotime \<Rightarrow> nat \<Rightarrow> gateway \<Rightarrow> (gotime \<times> usage_entry) list" where
  "drained_rows fs now k g = map (\<lambda>(i, e). (now, usage_stored e))
     (filter (\<lambda>(i, e). \<not> fs i 0 \<and> storable (gw_db g) e) (enumerate k (gw_queue g)))"

lemma drain_usage_rows:
  "drain_usage fs now k g = g\<lparr>gw_queue := [], gw_db := (gw_db g)\<lparr>usage_logs := usage_logs (gw_db g) @ drained_rows fs now k g\<rparr>\<rparr>"
proof (induction fs now k g rule: drain_usage.induct)
  case (1 fs now k g)
  show ?case
  proof (cases "gw_queue g")
    case Nil
    then show ?thesis by (simp add: drain_usage.simps drained_rows_def)
  next
    case (Cons e q)
    let ?g = "write_next (fs k) now g"
    have g: "gw_queue ?g = q" "gw_db ?g = (if \<not> fs k 0 \<and> storable (gw_db g) e
        then (gw_db g)\<lparr>usage_logs := usage_logs (gw_db g) @ [(now, usage_stored e)]\<rparr> else gw_db g)" "gw_reg ?g = gw_reg g"
      using Cons by (simp_all add: write_next_def log_usage_cases)
    have st: "storable (gw_db ?g) x \<longleftrightarrow> storable (gw_db g) x" for x by (simp add: g storable_def)
    have "drained_rows fs now k g = (if \<not> fs k 0 \<and> storable (gw_db g) e then [(now, usage_stored e)] else []) @ drained_rows fs now (Suc k) ?g"
      using Cons by (simp add: drained_rows_def st) (simp add: g)
    then show ?thesis using 1 Cons by (simp add: drain_usage.simps [of fs now k g] g)
  qed
qed

text \<open>
  C27: The drain at shutdown terminates with the queue empty, whatever inserts fail, and logs
  exactly the storable entries: each queued entry that fits its columns and whose key exists, and
  whose own insert does not fail, adds its row, in the order of the queue; an entry that cannot be
  stored is dropped alone and holds up none behind it; nothing else in the database changes.
\<close>
theorem drain_loses_nothing:
  "drain_usage fs now 0 g = g\<lparr>gw_queue := [], gw_db := (gw_db g)\<lparr>usage_logs := usage_logs (gw_db g) @
     map (\<lambda>(i, e). (now, usage_stored e)) (filter (\<lambda>(i, e). \<not> fs i 0 \<and> storable (gw_db g) e) (enumerate 0 (gw_queue g)))\<rparr>\<rparr>"
  unfolding drain_usage_rows [of fs now 0 g] drained_rows_def ..

section \<open>The sweep and requests in flight\<close>

lemma upd_where_other: "r \<in> set rs \<Longrightarrow> \<not> p r \<Longrightarrow> r \<in> set (upd_where p g rs)"
  by (force simp: upd_where_def)

lemma close_hold_keeps:
  assumes "close_hold hid st now s = (Inr oh, s')" "h \<in> set (holds s)" "ch_id h \<noteq> hid"
  shows "h \<in> set (holds s')"
proof (cases oh)
  case None
  then show ?thesis using assms by (auto simp: close_hold_def split: option.splits)
next
  case (Some x)
  note f = close_hold_Some [OF assms(1) [unfolded Some]]
  show ?thesis unfolding f(4) using assms(2,3) f(2) by (simp add: upd_where_other)
qed

lemma release_hold_keeps:
  assumes "release_hold f now hid s = (r, s')" "h \<in> set (holds s)" "ch_id h \<noteq> hid"
  shows "h \<in> set (holds s')"
proof (cases r)
  case (Inl e)
  then show ?thesis using assms ledger_atomic_release by metis
next
  case (Inr u)
  from assms(1) [unfolded Inr] show ?thesis
  proof (cases rule: release_hold_Inr)
    case (2 h' s1)
    then show ?thesis using close_hold_keeps [OF 2(1) assms(2,3)] by simp
  next
    case (3 h' s1 cb)
    then show ?thesis using close_hold_keeps [OF 3(1) assms(2,3)] by simp
  qed (use assms in simp)
qed

lemma release_all_keeps: "h \<in> set (holds s) \<Longrightarrow> ch_id h \<notin> set ids \<Longrightarrow> h \<in> set (holds (snd (release_all fs now ids n s)))"
proof (induction ids arbitrary: n s)
  case (Cons i ids)
  obtain r s1 where r: "release_hold (fs n) now i s = (r, s1)" by (metis prod.exhaust)
  have "h \<in> set (holds s1)" using release_hold_keeps [OF r Cons.prems(1)] Cons.prems(2) by simp
  then show ?case using r Cons by (cases r) simp_all
qed simp

lemma sweep_keeps_young:
  assumes "ledger_inv s" "h \<in> set (holds s)" "now \<le> ch_created h + d"
  shows "h \<in> set (holds (snd (sweep_stale_holds f fs now d s)))"
proof -
  have "inj_on ch_id (set (holds s))" using assms(1) by (simp add: ledger_inv_def holds_wf_def distinct_map)
  then have "x = h" if "x \<in> set (holds s)" "ch_id x = ch_id h" for x using that assms(2) by (simp add: inj_onD)
  then have "ch_id h \<notin> set (stale_holds (now - d) s)" using assms(3) by (force simp: stale_holds_def)
  then show ?thesis using release_all_keeps [OF assms(2)] assms(2) by (simp add: sweep_stale_holds_def)
qed

lemma sweeper_keeps:
  assumes "ledger_inv s" "h \<in> set (holds s)" "t \<le> ch_created h + stale_threshold"
  shows "ledger_inv (sweeper_tick f fs t s) \<and> h \<in> set (holds (sweeper_tick f fs t s))"
  using sweep_keeps_young [OF assms] sweep_stale_holds_inv [OF assms(1)] by (simp add: sweeper_tick_def)

text \<open>Ticks of the sweeper, each after whatever other transactions were committed meanwhile.\<close>

definition sweeper_ticks :: "((db \<Rightarrow> db) \<times> faults \<times> (nat \<Rightarrow> faults) \<times> gotime) list \<Rightarrow> db \<Rightarrow> db" where
  "sweeper_ticks ticks s = fold (\<lambda>(others, f, fs, t) s. sweeper_tick f fs t (others s)) ticks s"

text \<open>Others may do anything but close or remove this hold.\<close>

definition spares :: "credit_hold \<Rightarrow> (db \<Rightarrow> db) \<Rightarrow> bool" where
  "spares h others \<longleftrightarrow> (\<forall>s. ledger_inv s \<and> h \<in> set (holds s) \<longrightarrow> ledger_inv (others s) \<and> h \<in> set (holds (others s)))"

lemma sweeper_ticks_keep:
  assumes "ledger_inv s" "h \<in> set (holds s)"
    and "\<forall>(others, f, fs, t) \<in> set ticks. spares h others \<and> t \<le> ch_created h + stale_threshold"
  shows "h \<in> set (holds (sweeper_ticks ticks s))"
  using assms
proof (induction ticks arbitrary: s)
  case (Cons x ticks)
  obtain others f fs t where x: "x = (others, f, fs, t)" by (cases x)
  have "ledger_inv (others s)" "h \<in> set (holds (others s))" "t \<le> ch_created h + stale_threshold"
    using Cons.prems by (auto simp: x spares_def)
  note k = sweeper_keeps [OF this, of f fs]
  then have "h \<in> set (holds (sweeper_ticks ticks (sweeper_tick f fs t (others s))))"
    using Cons.prems(3) by (intro Cons.IH) auto
  then show ?case by (simp add: sweeper_ticks_def x)
qed (simp add: sweeper_ticks_def)

text \<open>
  C30: The sweeper does not take the hold of a request within its deadline, as long as the request
  was sent soon enough after its reservation. The deadline of an exchange starts when the
  upstream request is made (at \<open>t1\<close>), the age of the hold when the reservation's transaction
  began (ch_created); if the time between the two and the timeout of the node together do not
  exceed the sweeper's ten minutes (so for the default timeout: if it took at most five minutes to
  get from the reservation to the request), then no number of ticks up to the deadline, under whatever
  failures and amid whatever other transactions, touches the hold.
\<close>
theorem sweep_spares_live_requests:
  assumes "ledger_inv s" "h \<in> set (holds s)" "am_hold am = ch_id h"
    and req: "new_upstream_request join (am_node am) body = Some req"
    and slack: "(t1 - ch_created h) + ur_timeout req \<le> stale_threshold"
    and ticks: "\<forall>(others, f, fs, t) \<in> set ticks. spares h others \<and> t \<le> t1 + ur_timeout req"
  shows "h \<in> set (holds (sweeper_ticks ticks s)) \<and> ur_timeout req = upstream_timeout (am_node am) \<and>
    (nd_timeout (am_node am) \<le> 0 \<longrightarrow> ur_timeout req = 5 * minute)"
proof -
  have "\<forall>(others, f, fs, t) \<in> set ticks. spares h others \<and> t \<le> ch_created h + stale_threshold"
    using ticks slack by fastforce
  then show ?thesis using sweeper_ticks_keep [OF assms(1,2)] req
    by (auto simp: new_upstream_request_def upstream_timeout_def default_upstream_timeout_def split: option.splits)
qed

lemma release_keeps_balance:
  assumes "release_hold f now hid s = (r, s')"
  shows "map_option cb_balance (balances s' a) = map_option cb_balance (balances s a)"
proof (cases r)
  case (Inl e)
  then show ?thesis using assms ledger_atomic_release by metis
next
  case (Inr u)
  from assms [unfolded Inr] show ?thesis
  proof (cases rule: release_hold_Inr)
    case (2 h s1)
    then show ?thesis using close_hold_Some(4) [OF 2(1)] by simp
  next
    case (3 h s1 cb)
    then show ?thesis using close_hold_Some(4) [OF 3(1)] by (simp add: set_balance_def)
  qed simp
qed

lemma release_all_keeps_balance: "map_option cb_balance (balances (snd (release_all fs now ids n s)) a) = map_option cb_balance (balances s a)"
proof (induction ids arbitrary: n s)
  case (Cons i ids)
  obtain r s1 where r: "release_hold (fs n) now i s = (r, s1)" by (metis prod.exhaust)
  then show ?case using release_keeps_balance [OF r, of a] Cons [of "n + 1" s1] by (cases r) simp_all
qed simp

lemma settle_closed:
  assumes "\<forall>h \<in> set (holds s). ch_id h = hid \<longrightarrow> ch_status h \<noteq> Pending"
  shows "fst (settle_tokens f now hid bill ud n p s) = 0 \<and> same_ledger (snd (settle_tokens f now hid bill ud n p s)) s"
proof -
  obtain c s' where c: "settle_tokens f now hid bill ud n p s = (c, s')" by (metis prod.exhaust)
  from settle_tokens_ledger [OF c] obtain r s1 amt where r: "settle_hold (f 5) now hid amt s = (r, s1)"
    "same_ledger s' s1" "c = (case r of Inl e \<Rightarrow> 0 | Inr v \<Rightarrow> v)" by metis
  have "s1 = s \<and> c = 0"
  proof (cases r)
    case (Inl e)
    then show ?thesis using r(1,3) ledger_atomic_settle by auto
  next
    case (Inr v)
    from r(1) [unfolded Inr] show ?thesis
    proof (cases rule: settle_hold_Inr)
      case (2 h s2 cb)
      then show ?thesis using close_hold_Some [OF 2(2)] assms by auto
    qed (use r(3) Inr in simp)
  qed
  then show ?thesis using c r(2) by simp
qed

text \<open>
  A request that outlives the threshold of the sweeper is served for free. Validation accepts
  any positive node timeout; after a sweep later than ten minutes into the exchange the
  settlement charges nothing, whatever was generated, and no balance has moved.
\<close>
theorem long_request_is_free:
  assumes "ledger_inv s" "h \<in> set (holds s)" "ch_status h = Pending" "ch_created h + stale_threshold < now"
  shows "fst (settle_tokens f later (ch_id h) bill ud n p (sweeper_tick no_faults (\<lambda>_. no_faults) now s)) = 0 \<and>
    map_option cb_balance (balances (snd (settle_tokens f later (ch_id h) bill ud n p (sweeper_tick no_faults (\<lambda>_. no_faults) now s))) a) =
      map_option cb_balance (balances s a)"
proof -
  let ?s = "sweeper_tick no_faults (\<lambda>_. no_faults) now s"
  have sw: "?s = snd (release_all (\<lambda>_. no_faults) now (stale_holds (now - stale_threshold) s) 0 s)"
    by (simp add: sweeper_tick_def sweep_stale_holds_def)
  obtain s' where s': "release_all (\<lambda>_. no_faults) now (stale_holds (now - stale_threshold) s) 0 s = ((0 + length (stale_holds (now - stale_threshold) s), None), s')"
    "pending_set s' = {x \<in> pending_set s. ch_id x \<notin> set (stale_holds (now - stale_threshold) s)}"
    using release_all_no_faults [OF assms(1)] by blast
  have "h \<in> pending_set s" using assms(2,3) by (simp add: pending_set_def)
  then have st: "ch_id h \<in> set (stale_holds (now - stale_threshold) s)" using stale_ids [OF assms(1)] assms(4) by simp
  have ps: "pending_set ?s = {x \<in> pending_set s. ch_id x \<notin> set (stale_holds (now - stale_threshold) s)}"
    using s' by (simp only: sw snd_conv)
  have "\<forall>x \<in> set (holds ?s). ch_id x = ch_id h \<longrightarrow> ch_status x \<noteq> Pending"
  proof (intro ballI impI notI)
    fix x assume "x \<in> set (holds ?s)" "ch_id x = ch_id h" "ch_status x = Pending"
    then have "x \<in> pending_set ?s" "ch_id x = ch_id h" by (simp_all only: pending_set_def mem_Collect_eq simp_thms)
    then show False using st unfolding ps by simp
  qed
  note closed = settle_closed [OF this, of f later bill ud n p]
  then have "balances (snd (settle_tokens f later (ch_id h) bill ud n p ?s)) = balances ?s" by (simp only: same_ledger_def)
  moreover have "map_option cb_balance (balances ?s a) = map_option cb_balance (balances s a)"
    unfolding sw by (rule release_all_keeps_balance)
  ultimately show ?thesis using closed by (simp only: simp_thms)
qed

section \<open>After a successful start-up\<close>

lemma backfill_balances_all:
  assumes "backfill_credit_balances f s = (Inr u, s')"
  shows "\<forall>a \<in> set (accounts s'). balances s' (ac_id a) \<noteq> None" "accounts s' = accounts s" "users s' = users s" "api_keys s' = api_keys s"
    "reg_events s' = reg_events s"
proof -
  let ?g = "\<lambda>a s. if balances s a = None then set_balance a zero_balance s else s"
  have step: "balances (?g a s) a \<noteq> None" "balances s b \<noteq> None \<Longrightarrow> balances (?g a s) b \<noteq> None" "accounts (?g a s) = accounts s"
    "users (?g a s) = users s" "api_keys (?g a s) = api_keys s" "reg_events (?g a s) = reg_events s" for a b s
    by (simp_all add: set_balance_def)
  have mono: "balances s b \<noteq> None \<Longrightarrow> balances (fold ?g as s) b \<noteq> None" for as s b
  proof (induction as arbitrary: s)
    case (Cons a as)
    show ?case unfolding fold.simps comp_apply by (rule Cons.IH [OF step(2) [OF Cons.prems, of a]])
  qed simp
  have all: "\<forall>a \<in> set as. balances (fold ?g as s) a \<noteq> None" for as s
    by (induction as arbitrary: s) (simp_all add: mono step del: not_None_eq)
  have frame: "accounts (fold ?g as s) = accounts s" "users (fold ?g as s) = users s" "api_keys (fold ?g as s) = api_keys s"
    "reg_events (fold ?g as s) = reg_events s" for as s
    by (induction as arbitrary: s) (simp_all only: fold.simps id_apply comp_apply step)
  have "s' = fold ?g (map ac_id (accounts s)) s" using assms by (simp add: backfill_credit_balances_def sql_Inr)
  then show "\<forall>a \<in> set (accounts s'). balances s' (ac_id a) \<noteq> None" "accounts s' = accounts s" "users s' = users s" "api_keys s' = api_keys s"
    "reg_events s' = reg_events s"
    using all [of "map ac_id (accounts s)" s] frame by (simp_all del: not_None_eq)
qed

lemma backfill_user_wf:
  assumes "backfill_user f now u s = (Inr x, s')" "accounts_wf s" shows "accounts_wf s'"
  using assms by (fastforce simp: backfill_user_def ledger_run new_account_run accounts_wf_def)

lemma backfill_users_wf: "backfill_users fs now us n s = (Inr x, s') \<Longrightarrow> accounts_wf s \<Longrightarrow> accounts_wf s'"
proof (induction us arbitrary: n s)
  case (Cons u us)
  obtain s1 where "backfill_user (fs n) now u s = (Inr (), s1)" "backfill_users fs now us (n + 1) s1 = (Inr x, s')"
    using Cons.prems(1) by (auto simp: bindp_Inr)
  then show ?case using Cons.IH backfill_user_wf Cons.prems(2) by blast
qed simp

lemma backfill_keys_frame:
  assumes "backfill_admin_key_accounts f admin s = (Inr n, s')"
  shows "users s' = users s" "accounts s' = accounts s" "reg_events s' = reg_events s" "balances s' = balances s"
  using assms by (auto simp: backfill_admin_key_accounts_def ledger_run Let_def split: if_splits)

lemma backfill_events_frame:
  assumes "backfill_registration_events f s = (Inr u, s')"
  shows "users s' = users s" "accounts s' = accounts s" "api_keys s' = api_keys s" "balances s' = balances s" "pricing s' = pricing s"
  using assms by (auto simp: backfill_registration_events_def ledger_run)

lemma startup_db_Inr:
  assumes "startup_db le fs user_fs env grant now s = (Inr none, s')"
  obtains s1 admin s2 n s3 s4 where "backfill_accounts (fs 0) user_fs now s = (Inr (), s1)"
    "ensure_admin_service_account (fs 1) now env grant s1 = (Inr admin, s2)"
    "backfill_admin_key_accounts (fs 2) admin s2 = (Inr n, s3)" "backfill_credit_balances (fs 3) s3 = (Inr (), s4)"
    "backfill_registration_events (fs 4) s4 = (Inr (), s')" "warn_if_pricing_empty le (fs 5) s' = Inr none"
proof -
  obtain s1 admin s2 n s3 s4 s5 where st: "backfill_accounts (fs 0) user_fs now s = (Inr (), s1)"
    "ensure_admin_service_account (fs 1) now env grant s1 = (Inr admin, s2)"
    "backfill_admin_key_accounts (fs 2) admin s2 = (Inr n, s3)" "backfill_credit_balances (fs 3) s3 = (Inr (), s4)"
    "backfill_registration_events (fs 4) s4 = (Inr (), s5)"
    "(case warn_if_pricing_empty le (fs 5) s5 of Inl e \<Rightarrow> failp e | Inr none \<Rightarrow> retp none) s5 = (Inr none, s')"
    using assms unfolding startup_db_def bindp_Inr prog_Inr by (metis old.unit.exhaust)
  then show thesis using that [OF st(1-4)] by (cases "warn_if_pricing_empty le (fs 5) s5") auto
qed

lemma foldr_insert_by_Nil: "foldr (insert_by r) xs [] = [] \<longleftrightarrow> xs = []"
proof (cases xs)
  case (Cons x xs')
  have "insert_by r a ys \<noteq> []" for a ys by (cases ys) auto
  then show ?thesis using Cons by simp
qed simp

text \<open>
  C24: A start-up that reaches the listener leaves nothing unmetered: every user and every key
  has an account, every account has a balance row, the admin service account exists, every user
  and service account has its registration event, and the catalog warning is raised exactly
  when no price is active. What other processes commit meanwhile (\<open>env\<close>) may be anything that
  leaves accounts well-formed and no user without an account.
\<close>
theorem startup_meters_everything:
  assumes run: "startup_db le fs user_fs env grant now s = (Inr none, s')" and wf: "accounts_wf s"
    and env: "\<And>d. accounts_wf d \<Longrightarrow> accounts_wf (env d)"
      "\<And>d. \<forall>u \<in> set (users d). us_account u \<noteq> None \<Longrightarrow> \<forall>u \<in> set (users (env d)). us_account u \<noteq> None"
  shows "(\<forall>u \<in> set (users s'). us_account u \<noteq> None \<and> has_event ''user'' re_user (us_id u) s') \<and>
    (\<forall>k \<in> set (api_keys s'). ak_account k \<noteq> None) \<and>
    (\<forall>a \<in> set (accounts s'). balances s' (ac_id a) \<noteq> None \<and> (ac_type a = ''service'' \<longrightarrow> has_event ''service'' re_account (ac_id a) s')) \<and>
    find_admin_service s' \<noteq> None \<and> (none \<longleftrightarrow> (\<forall>p \<in> set (pricing s'). \<not> cp_active p))"
proof -
  from startup_db_Inr [OF run] obtain s1 admin s2 n s3 s4 where st: "backfill_accounts (fs 0) user_fs now s = (Inr (), s1)"
    "ensure_admin_service_account (fs 1) now env grant s1 = (Inr admin, s2)" "backfill_admin_key_accounts (fs 2) admin s2 = (Inr n, s3)"
    "backfill_credit_balances (fs 3) s3 = (Inr (), s4)" "backfill_registration_events (fs 4) s4 = (Inr (), s')"
    "warn_if_pricing_empty le (fs 5) s' = Inr none" by metis
  have b: "backfill_users user_fs now (filter (\<lambda>u. us_account u = None) (users s)) 0 s = (Inr (), s1)"
    using st(1) by (simp add: backfill_accounts_def ledger_run)
  have u1: "\<forall>u \<in> set (users s1). us_account u \<noteq> None" by (rule backfill_users_all [OF b]) auto
  have w1: "accounts_wf (env s1)" by (rule env(1) [OF backfill_users_wf [OF b wf]])
  have e: "(s2 = s1 \<or> s2 = env s1 \<or> users s2 = users (env s1)) \<and> find_admin_service s2 \<noteq> None"
    using ensure_admin_Inr [OF st(2) w1] admin_service_created_find [of "env s1" now grant]
    by (auto simp: admin_service_created_def Let_def add_reg_event_def set_balance_def add_transaction_def)
  then have u2: "\<forall>u \<in> set (users s2). us_account u \<noteq> None" using u1 env(2) [OF u1] by auto
  have k3: "\<forall>k \<in> set (api_keys s3). ak_account k \<noteq> None"
    using backfill_admin_keys_Inr [OF st(3)] by (auto split: option.splits)
  note f3 = backfill_keys_frame [OF st(3)] and f4 = backfill_balances_all [OF st(4)] and f5 = backfill_events_frame [OF st(5)]
  have "find_admin_service s' \<noteq> None" using e f3(2) f4(2) f5(2) by (simp add: find_admin_service_def)
  moreover have "none \<longleftrightarrow> (\<forall>p \<in> set (pricing s'). \<not> cp_active p)"
    using st(6) by (auto simp: warn_if_pricing_empty_def list_active_pricing_def foldr_insert_by_Nil filter_empty_conv split: if_splits)
  ultimately show ?thesis using event_backfill_complete [OF st(5)] u2 k3 f3 f4 f5 by (simp del: not_None_eq)
qed

section \<open>Instances\<close>

theorem readiness_correct_witness:
  "fst (ready_handler \<lparr>hc_db = Some None, hc_nodes = Some two_node_registry, hc_queue = Some (3, 1000)\<rparr>) = 200"
  using readiness_correct [OF two_node_inv, of None 3 1000]
  by (simp add: Let_def two_node_registry_def healthy_entry_def)

text \<open>A node of the default timeout whose request is sent one minute after the reservation.\<close>

definition slow_start :: admitted where
  "slow_start = \<lparr>am_body = [], am_meta = \<lparr>rm_model = ''m'', rm_stream = None, rm_max_tokens = None, rm_max_completion = None, rm_stream_options = None\<rparr>,
     am_node = \<lparr>nd_id = 1, nd_name = [], nd_url = Some ''http://n'', nd_auth = [], nd_timeout = 0\<rparr>,
     am_bill = \<lparr>bi_account = Some 1, bi_managed = False\<rparr>, am_enabled = True, am_pricing = None, am_hold = 1\<rparr>"

theorem sweep_spares_live_requests_witness:
  "set (holds (sweeper_ticks [(id, no_faults, \<lambda>_. no_faults, 3 * minute), (id, no_faults, \<lambda>_. no_faults, 6 * minute)] one_hold_db)) \<noteq> {}"
proof -
  obtain h where h: "h \<in> set (holds one_hold_db)" "ch_created h = 100" "ch_id h = 1" by (simp add: one_hold_db_def)
  let ?ticks = "[(id, no_faults, \<lambda>_. no_faults, 3 * minute), (id, no_faults, \<lambda>_. no_faults, 6 * minute)]"
  let ?req = "\<lparr>ur_url = ''u'', ur_body = [], ur_headers = [(''Content-Type'', ''application/json'')], ur_timeout = 5 * minute\<rparr>"
  have r: "new_upstream_request (\<lambda>b p. Some ''u'') (am_node slow_start) [] = Some ?req"
    by (simp add: new_upstream_request_def slow_start_def upstream_timeout_def default_upstream_timeout_def)
  have "h \<in> set (holds (sweeper_ticks ?ticks one_hold_db))"
    using sweep_spares_live_requests [where am = slow_start and ticks = ?ticks, OF one_hold_inv(1) h(1) _ r, of "minute"] h
    by (simp add: slow_start_def stale_threshold_def minute_def second_def spares_def)
  then show ?thesis by auto
qed

definition mixed_queue :: gateway where
  "mixed_queue = \<lparr>gw_db = key_db, gw_reg = new_registry, gw_queue = [
     usage_row demo_auth \<lparr>bi_account = None, bi_managed = False\<rparr> ((no_usage ''m'')\<lparr>ud_prompt := 3000000000\<rparr>) 5 ''completed'' 0 None,
     usage_row demo_auth \<lparr>bi_account = None, bi_managed = False\<rparr> (no_usage ''m'') 5 ''error'' 0 None]\<rparr>"

text \<open>An entry too large for its column, then a good one: the good one is logged.\<close>

theorem drain_loses_nothing_witness:
  "gw_queue (drain_usage (\<lambda>_. no_faults) 7 0 mixed_queue) = [] \<and>
   map (\<lambda>(t, e). (t, ue_status e)) (usage_logs (gw_db (drain_usage (\<lambda>_. no_faults) 7 0 mixed_queue))) = [(7, ''error'')]"
proof -
  have "map (\<lambda>(t, e). (t, ue_status e)) (usage_logs (gw_db mixed_queue) @ map (\<lambda>(i, e). (7, usage_stored e))
      (filter (\<lambda>(i, e). \<not> no_faults 0 \<and> storable (gw_db mixed_queue) e) (enumerate 0 (gw_queue mixed_queue)))) = [(7, ''error'')]"
    by code_simp
  then show ?thesis unfolding drain_loses_nothing [of "\<lambda>_. no_faults" 7 mixed_queue] by simp
qed

theorem startup_meters_everything_witness:
  "map ak_account (api_keys (snd (startup_db (\<lambda>a b. True) (\<lambda>_. no_faults) (\<lambda>_. no_faults) (\<lambda>d. d) 100 7 legacy_db))) = [Some 2, Some 1] \<and>
   find_admin_service (snd (startup_db (\<lambda>a b. True) (\<lambda>_. no_faults) (\<lambda>_. no_faults) (\<lambda>d. d) 100 7 legacy_db)) \<noteq> None"
proof -
  let ?r = "startup_db (\<lambda>a b. True) (\<lambda>_. no_faults) (\<lambda>_. no_faults) (\<lambda>d. d) 100 7 legacy_db"
  have f: "(\<lambda>r. (fst r, map ak_account (api_keys (snd r)))) ?r = (Inr True, [Some 2, Some 1])" by code_simp
  then have r: "?r = (Inr True, snd ?r)" by (simp add: prod_eq_iff)
  have "accounts_wf legacy_db" by (simp add: legacy_db_def accounts_wf_def empty_db_def)
  then have "find_admin_service (snd ?r) \<noteq> None" using startup_meters_everything [OF r] by blast
  moreover have "map ak_account (api_keys (snd ?r)) = [Some 2, Some 1]" using f by simp
  ultimately show ?thesis by blast
qed

theorem long_request_is_free_witness:
  "fst (settle_tokens (\<lambda>_. no_faults) (700 * second) 1 \<lparr>bi_account = Some 1, bi_managed = False\<rparr> ((no_usage ''m'')\<lparr>ud_completion := 4000, ud_total := 4000\<rparr>) 9
     (Some \<lparr>pr_id = 1, pr_model = ''m'', pr_prompt_rate = 1, pr_completion_rate = 1, pr_typical = 9, pr_active = True\<rparr>)
     (sweeper_tick no_faults (\<lambda>_. no_faults) (650 * second) one_hold_db)) = 0"
proof -
  obtain h where h: "h \<in> set (holds one_hold_db)" "ch_status h = Pending" "ch_created h = 100" "ch_id h = 1" by (simp add: one_hold_db_def)
  have "ch_created h + stale_threshold < 650 * second" by (simp add: h(3) stale_threshold_def minute_def second_def)
  from long_request_is_free [OF one_hold_inv(1) h(1,2) this] show ?thesis by (simp add: h(4))
qed

end
