(* ===== verification/Pipeline.thy ===== *)
theory Pipeline
  imports Operations
begin

text \<open>
  The client API as cmd/proxy/main.go composes it: CORS around bearer authentication, billing
  resolution, rate limits, the credit gate and the proxy. The layers share the gateway (database,
  registry, usage queue) and the limiters. \<open>F i j\<close> is the fault plan of the j-th store call of
  layer i; the recording of a cap hit, started by a layer and run on its own, is applied at the end.
\<close>

section \<open>The chain\<close>

record client_conf =
  cc_hash :: "string \<Rightarrow> string"
  cc_limits :: limits
  cc_monthly_grant :: rat
  cc_recorder :: "recorder option"
  cc_origins :: string
  cc_json :: json_lib
  cc_join :: "string \<Rightarrow> string \<Rightarrow> string option"
  cc_collate :: "string \<Rightarrow> string \<Rightarrow> bool"
  cc_list_all :: bool
  cc_max_body :: int
  cc_queue_cap :: nat

record client_request =
  hq_verb :: string
  hq_path :: string
  hq_auth :: string
  hq_identity :: identity_headers
  hq_body :: string
  hq_broken :: bool
  hq_flusher :: bool

record client_state =
  sv_gateway :: gateway
  sv_gate :: gate_state

text \<open>What others do while the request is in flight.\<close>

record client_others =
  co_billing :: "nat \<Rightarrow> db \<Rightarrow> db"
  co_proxy :: "nat \<Rightarrow> gateway \<Rightarrow> gateway"
  co_gate :: "gate_state \<Rightarrow> gate_state"
  co_recorder :: "db \<Rightarrow> db"

definition nobody :: client_others where
  "nobody = \<lparr>co_billing = (\<lambda>_ s. s), co_proxy = (\<lambda>_. id), co_gate = id, co_recorder = id\<rparr>"

datatype client_answer = Chat client_reply | Models "(string \<times> string) list"

type_synonym layer_faults = "nat \<Rightarrow> nat \<Rightarrow> faults"

definition proxy_conf_of :: "client_conf \<Rightarrow> gotime \<Rightarrow> proxy_conf" where
  "proxy_conf_of c now = \<lparr>px_max_body = cc_max_body c, px_queue_cap = cc_queue_cap c, px_start = now\<rparr>"

text \<open>The proxy handler: the answer, the account whose cap hit is recorded, the gateway.\<close>

definition proxy_handler ::
  "client_conf \<Rightarrow> (nat \<Rightarrow> faults) \<Rightarrow> (nat \<Rightarrow> gateway \<Rightarrow> gateway) \<Rightarrow> (upstream_request \<Rightarrow> upstream_reply) \<Rightarrow> gotime \<Rightarrow> gotime \<Rightarrow>
     client_request \<Rightarrow> auth_key \<Rightarrow> resolution option \<Rightarrow> gateway \<Rightarrow> (client_answer \<times> int option) \<times> gateway" where
  "proxy_handler c f env up now later r key res g = (case serve_http (hq_verb r) (hq_path r) of
       ChatCompletions \<Rightarrow> (case handle_chat_completions (cc_json c) (cc_join c) up f env (proxy_conf_of c now) later (Some key) res
             (max_bytes (cc_max_body c) (hq_body r) (hq_broken r)) (hq_flusher r) g of
           ((reply, hit), g') \<Rightarrow> ((Chat reply, hit), g'))
     | ModelList \<Rightarrow> (((case handle_models (cc_collate c) (f 0) (cc_list_all c) (gw_reg g) (gw_db g) of
           Inl e \<Rightarrow> Chat (Failure e) | Inr ms \<Rightarrow> Models ms), None), g)
     | RouteNotFound \<Rightarrow> ((Chat (Failure not_found), None), g))"

definition record_hit :: "client_conf \<Rightarrow> (nat \<Rightarrow> faults) \<Rightarrow> (db \<Rightarrow> db) \<Rightarrow> gotime \<Rightarrow> int option \<Rightarrow> gateway \<Rightarrow> gateway" where
  "record_hit c f env now hit g = (case hit of None \<Rightarrow> g | Some a \<Rightarrow>
     g\<lparr>gw_db := snd (record_cap_hit f env now (cc_recorder c) a (gw_db g))\<rparr>)"

definition client_chain ::
  "client_conf \<Rightarrow> layer_faults \<Rightarrow> client_others \<Rightarrow> (upstream_request \<Rightarrow> upstream_reply) \<Rightarrow> gotime \<Rightarrow> gotime \<Rightarrow>
     client_request \<Rightarrow> client_state \<Rightarrow> client_answer \<times> client_state" where
  "client_chain c F o' up now later r st =
     (case authenticate_key (cc_hash c) (F 0 0) (hq_auth r) (gw_db (sv_gateway st)) of
        Inl e \<Rightarrow> (Chat (Failure e), st)
      | Inr key \<Rightarrow>
     (case billing_middleware (F 1) (co_billing o') (cc_monthly_grant c) now (Some key) (hq_identity r) (gw_db (sv_gateway st)) of
        (Inl e, d) \<Rightarrow> (Chat (Failure e), st\<lparr>sv_gateway := (sv_gateway st)\<lparr>gw_db := d\<rparr>\<rparr>)
      | (Inr res, d) \<Rightarrow>
          let g = (sv_gateway st)\<lparr>gw_db := d\<rparr> in
     (case rate_gate_enter (cc_limits c) now (Some key) res (hq_verb r = ''GET'') (sv_gate st) of
        (Inl e, gate) \<Rightarrow> (Chat (Failure e), \<lparr>sv_gateway = g, sv_gate = gate\<rparr>)
      | (Inr slot, gate) \<Rightarrow>
          let leave = rate_gate_leave slot (co_gate o' gate);
              ((answer, hit), g') = (case credit_gate (F 2 0) (Some key) res d of
                  (Inl e, hit) \<Rightarrow> ((Chat (Failure e), hit), g)
                | (Inr _, _) \<Rightarrow> proxy_handler c (F 3) (co_proxy o') up now later r key res g)
          in (answer, \<lparr>sv_gateway = record_hit c (F 4) (co_recorder o') now hit g', sv_gate = leave\<rparr>))))"

definition client_api ::
  "client_conf \<Rightarrow> layer_faults \<Rightarrow> client_others \<Rightarrow> (upstream_request \<Rightarrow> upstream_reply) \<Rightarrow> gotime \<Rightarrow> gotime \<Rightarrow>
     client_request \<Rightarrow> client_state \<Rightarrow> ((string \<times> string) list \<times> client_answer option) \<times> client_state" where
  "client_api c F o' up now later r = cors (cc_origins c) (hq_verb r) (client_chain c F o' up now later r)"

section \<open>How a request passes the layers\<close>

lemma client_chain_cases [consumes 1, case_names unauthenticated unbilled limited refused served]:
  assumes "client_chain c F o' up now later r st = (ans, st')"
  obtains e where "authenticate_key (cc_hash c) (F 0 0) (hq_auth r) (gw_db (sv_gateway st)) = Inl e" "ans = Chat (Failure e)" "st' = st"
  | key e d where "authenticate_key (cc_hash c) (F 0 0) (hq_auth r) (gw_db (sv_gateway st)) = Inr key"
      "billing_middleware (F 1) (co_billing o') (cc_monthly_grant c) now (Some key) (hq_identity r) (gw_db (sv_gateway st)) = (Inl e, d)"
      "ans = Chat (Failure e)" "st' = st\<lparr>sv_gateway := (sv_gateway st)\<lparr>gw_db := d\<rparr>\<rparr>"
  | key res d e gate where "authenticate_key (cc_hash c) (F 0 0) (hq_auth r) (gw_db (sv_gateway st)) = Inr key"
      "billing_middleware (F 1) (co_billing o') (cc_monthly_grant c) now (Some key) (hq_identity r) (gw_db (sv_gateway st)) = (Inr res, d)"
      "rate_gate_enter (cc_limits c) now (Some key) res (hq_verb r = ''GET'') (sv_gate st) = (Inl e, gate)"
      "ans = Chat (Failure e)" "st' = \<lparr>sv_gateway = (sv_gateway st)\<lparr>gw_db := d\<rparr>, sv_gate = gate\<rparr>"
  | key res d slot gate e hit where "authenticate_key (cc_hash c) (F 0 0) (hq_auth r) (gw_db (sv_gateway st)) = Inr key"
      "billing_middleware (F 1) (co_billing o') (cc_monthly_grant c) now (Some key) (hq_identity r) (gw_db (sv_gateway st)) = (Inr res, d)"
      "rate_gate_enter (cc_limits c) now (Some key) res (hq_verb r = ''GET'') (sv_gate st) = (Inr slot, gate)"
      "credit_gate (F 2 0) (Some key) res d = (Inl e, hit)" "ans = Chat (Failure e)"
      "st' = \<lparr>sv_gateway = record_hit c (F 4) (co_recorder o') now hit ((sv_gateway st)\<lparr>gw_db := d\<rparr>), sv_gate = rate_gate_leave slot (co_gate o' gate)\<rparr>"
  | key res d slot gate hit hit' g' where "authenticate_key (cc_hash c) (F 0 0) (hq_auth r) (gw_db (sv_gateway st)) = Inr key"
      "billing_middleware (F 1) (co_billing o') (cc_monthly_grant c) now (Some key) (hq_identity r) (gw_db (sv_gateway st)) = (Inr res, d)"
      "rate_gate_enter (cc_limits c) now (Some key) res (hq_verb r = ''GET'') (sv_gate st) = (Inr slot, gate)"
      "credit_gate (F 2 0) (Some key) res d = (Inr (), hit')"
      "proxy_handler c (F 3) (co_proxy o') up now later r key res ((sv_gateway st)\<lparr>gw_db := d\<rparr>) = ((ans, hit), g')"
      "st' = \<lparr>sv_gateway = record_hit c (F 4) (co_recorder o') now hit g', sv_gate = rate_gate_leave slot (co_gate o' gate)\<rparr>"
proof (cases "authenticate_key (cc_hash c) (F 0 0) (hq_auth r) (gw_db (sv_gateway st))")
  case (Inl e)
  show thesis by (rule that(1) [OF Inl]) (use assms Inl in \<open>simp_all add: client_chain_def\<close>)
next
  case k: (Inr key)
  obtain b d where b: "billing_middleware (F 1) (co_billing o') (cc_monthly_grant c) now (Some key) (hq_identity r) (gw_db (sv_gateway st)) = (b, d)"
    by (metis prod.exhaust)
  show thesis
  proof (cases b)
    case (Inl e)
    show thesis by (rule that(2) [OF k b [unfolded Inl]]) (use assms k b Inl in \<open>simp_all add: client_chain_def\<close>)
  next
    case res: (Inr res)
    obtain q gate where q: "rate_gate_enter (cc_limits c) now (Some key) res (hq_verb r = ''GET'') (sv_gate st) = (q, gate)" by (metis prod.exhaust)
    show thesis
    proof (cases q)
      case (Inl e)
      show thesis by (rule that(3) [OF k b [unfolded res] q [unfolded Inl]]) (use assms k b res q Inl in \<open>simp_all add: client_chain_def\<close>)
    next
      case slot: (Inr slot)
      obtain v hit where v: "credit_gate (F 2 0) (Some key) res d = (v, hit)" by (metis prod.exhaust)
      obtain a2 hit2 g2 where p: "proxy_handler c (F 3) (co_proxy o') up now later r key res ((sv_gateway st)\<lparr>gw_db := d\<rparr>) = ((a2, hit2), g2)"
        by (metis prod.exhaust)
      show thesis
      proof (cases v)
        case (Inl e)
        show thesis by (rule that(4) [OF k b [unfolded res] q [unfolded slot] v [unfolded Inl]]) (use assms k b res q slot v Inl in \<open>simp_all add: client_chain_def\<close>)
      next
        case (Inr u)
        show thesis by (rule that(5) [where hit' = hit, OF k b [unfolded res] q [unfolded slot]]) (use assms k b res q slot v p Inr in \<open>auto simp: client_chain_def\<close>)
      qed
    qed
  qed
qed

section \<open>Slots\<close>

lemma enter_leave:
  assumes "rate_gate_enter l now key res is_get g = (Inr slot, g')" "conc_ok (gt_conc g)" "caps_positive l"
  shows "gt_conc (rate_gate_leave slot g') = gt_conc g"
proof (cases slot)
  case None
  then show ?thesis using rate_gate_enter_conc [OF assms(1)] by (simp add: rate_gate_leave_def)
next
  case (Some a)
  have "\<exists>m. try_acquire (gt_conc g) a (max_concurrent l m) = (True, gt_conc g')"
    using rate_gate_enter_conc [OF assms(1)] Some by (auto intro: exI)
  then obtain m where "try_acquire (gt_conc g) a (max_concurrent l m) = (True, gt_conc g')" ..
  then have "release_slot (gt_conc g') a = gt_conc g" by (rule acquire_release [OF assms(2) max_concurrent_pos [OF assms(3)]])
  then show ?thesis using Some by (simp add: rate_gate_leave_def)
qed

lemma enter_refused: "rate_gate_enter l now key res is_get g = (Inl e, g') \<Longrightarrow> gt_conc g' = gt_conc g"
  using rate_gate_enter_conc [of l now key res is_get g "Inl e" g'] by simp

text \<open>
  C11: A request gives back the slot it took, however it ends: refused by any layer, unknown
  path, upstream failure, stream cut off or completed, with whatever database failures. When the
  other requests leave the concurrency counters as they found them, so does this one.
\<close>
theorem client_request_returns_slot:
  assumes "client_api c F o' up now later r st = (res, st')" "conc_ok (gt_conc (sv_gate st))" "caps_positive (cc_limits c)"
    and "\<And>g. gt_conc (co_gate o' g) = gt_conc g"
  shows "gt_conc (sv_gate st') = gt_conc (sv_gate st)"
proof (cases "hq_verb r = ''OPTIONS''")
  case True
  then show ?thesis using assms(1) by (simp add: client_api_def cors_def)
next
  case False
  then obtain ans where ch: "client_chain c F o' up now later r st = (ans, st')"
    using assms(1) by (auto simp: client_api_def cors_def split: prod.splits)
  have leave: "gt_conc (rate_gate_leave slot (co_gate o' g)) = gt_conc (rate_gate_leave slot g)" for slot g
    using assms(4) [of g] by (simp add: rate_gate_leave_def split: option.split)
  from ch show ?thesis
  proof (cases rule: client_chain_cases)
    case (limited key res d e gate)
    then show ?thesis using enter_refused by simp
  next
    case (refused key res d slot gate e hit)
    then show ?thesis using enter_leave [OF refused(3) assms(2,3)] leave by simp
  next
    case (served key res d slot gate hit hit' g')
    then show ?thesis using enter_leave [OF served(3) assms(2,3)] leave by simp
  qed simp_all
qed

section \<open>Money\<close>

lemma file_request_money: "same_money s (snd (file_credit_request f now a s))"
  by (auto simp: file_credit_request_def sql_def stmt_def same_money_def)

lemma record_hit_money: "same_money (gw_db g) (gw_db (record_hit c f id now hit g))"
proof (cases "hit = None \<or> cc_recorder c = None")
  case True
  then show ?thesis by (auto simp: record_hit_def record_cap_hit_def same_money_def split: option.split)
next
  case False
  then obtain a rc where h: "hit = Some a" "cc_recorder c = Some rc" by auto
  obtain q s1 where q: "file_credit_request (f 0) now a (gw_db g) = (q, s1)" by (metis prod.exhaust)
  have "gw_db (record_hit c f id now hit g) = s1"
    using h q by (auto simp: record_hit_def record_cap_hit_def split: sum.split prod.split)
  then show ?thesis using file_request_money [of "gw_db g" "f 0" now a] q by simp
qed

text \<open>The database once the billing account of a request is resolved.\<close>

definition after_billing :: "client_conf \<Rightarrow> layer_faults \<Rightarrow> gotime \<Rightarrow> client_request \<Rightarrow> db \<Rightarrow> db" where
  "after_billing c F now r s = (case authenticate_key (cc_hash c) (F 0 0) (hq_auth r) s of Inl e \<Rightarrow> s
     | Inr key \<Rightarrow> snd (billing_middleware (F 1) (\<lambda>_ s. s) (cc_monthly_grant c) now (Some key) (hq_identity r) s))"

definition money_kept :: "db \<Rightarrow> db \<Rightarrow> bool" where
  "money_kept s s' \<longleftrightarrow> balances s' = balances s \<and> transactions s' = transactions s \<and> pending_set s' = pending_set s"

lemma money_kept_same: "same_money s s' \<Longrightarrow> money_kept s s'"
  by (simp add: same_money_def money_kept_def pending_set_def)

lemma money_kept_trans: "money_kept s t \<Longrightarrow> money_kept t u \<Longrightarrow> money_kept s u"
  by (simp add: money_kept_def)

lemma proxy_handler_money:
  assumes "proxy_handler c f (\<lambda>_. id) up now later r key res g = ((ans, hit), g')" "ledger_inv (gw_db g)" "costs_ok (gw_db g)"
    "f 5 = no_faults" "\<forall>hs bs. ans \<noteq> Chat (client_reply.Response 200 hs bs)"
  shows "money_kept (gw_db g) (gw_db g')"
proof (cases "serve_http (hq_verb r) (hq_path r)")
  case ChatCompletions
  obtain reply h g2 where h: "handle_chat_completions (cc_json c) (cc_join c) up f (\<lambda>_. id) (proxy_conf_of c now) later (Some key) res
      (max_bytes (cc_max_body c) (hq_body r) (hq_broken r)) (hq_flusher r) g = ((reply, h), g2)" by (metis prod.exhaust)
  then have e: "ans = Chat reply" "g' = g2" using assms(1) ChatCompletions by (simp_all add: proxy_handler_def)
  then have "\<forall>hs bs. reply \<noteq> client_reply.Response 200 hs bs" using assms(5) by blast
  from unanswered_keeps_money [OF h assms(2-4) this] show ?thesis by (simp add: money_kept_def e)
qed (use assms(1) in \<open>auto simp: proxy_handler_def money_kept_def\<close>)


section \<open>Example\<close>

definition demo_client_conf :: client_conf where
  "demo_client_conf = \<lparr>cc_hash = id, cc_limits = demo_limits, cc_monthly_grant = 5, cc_recorder = None, cc_origins = ''*'', cc_json = demo_json,
     cc_join = demo_join, cc_collate = (\<lambda>x y. True), cc_list_all = False, cc_max_body = 1000, cc_queue_cap = 10\<rparr>"

definition demo_client_request :: client_request where
  "demo_client_request = \<lparr>hq_verb = ''POST'', hq_path = ''/api/v1/chat/completions'', hq_auth = ''Bearer h1'',
     hq_identity = \<lparr>ih_user_id = [], ih_email = [], ih_name = []\<rparr>, hq_body = ''req'', hq_broken = True, hq_flusher = True\<rparr>"

definition demo_client_state :: client_state where
  "demo_client_state = \<lparr>sv_gateway = demo_gateway\<lparr>gw_db := (gw_db demo_gateway)\<lparr>api_keys := [au_key paying_key]\<rparr>\<rparr>,
     sv_gate = \<lparr>gt_keys = Map.empty, gt_accounts = Map.empty, gt_conc = [7 \<mapsto> 1]\<rparr>\<rparr>"

definition demo_exchange :: "((string \<times> string) list \<times> client_answer option) \<times> client_state" where
  "demo_exchange = client_api demo_client_conf (\<lambda>_ _. no_faults) nobody (\<lambda>_. Unreachable False) 1000 1000 demo_client_request demo_client_state"

definition demo_resolution :: resolution where
  "demo_resolution = \<lparr>br_account = 1, br_managed = False, br_rate = None\<rparr>"

lemma demo_layers:
  "authenticate_key id no_faults ''Bearer h1'' (gw_db (sv_gateway demo_client_state)) = Inr paying_key"
  "fst (rate_gate_enter demo_limits 1000 (Some paying_key) (Some demo_resolution) False (sv_gate demo_client_state)) = Inr (Some 1)"
  "credit_gate no_faults (Some paying_key) (Some demo_resolution) (gw_db (sv_gateway demo_client_state)) = (Inr (), None)"
  by code_simp+

lemma demo_billing:
  "billing_middleware f env x now (Some paying_key) (hq_identity demo_client_request) s = (Inr (Some demo_resolution), s)"
  by (simp add: billing_middleware_def paying_key_def demo_key_def demo_resolution_def)

lemma demo_proxied:
  "fst (proxy_handler demo_client_conf (\<lambda>_. no_faults) (\<lambda>_. id) (\<lambda>_. Unreachable False) 1000 1000 demo_client_request paying_key
     (Some demo_resolution) (sv_gateway demo_client_state)) = (Chat (Failure (api_err 400 ''invalid_request'' ''invalid_request_error'')), None)"
  by code_simp

lemma demo_exchange_answer:
  "demo_exchange = ((cors_headers ''*'', Some (Chat (Failure (api_err 400 ''invalid_request'' ''invalid_request_error'')))), snd demo_exchange)"
proof -
  have c: "cc_hash demo_client_conf = id" "cc_limits demo_client_conf = demo_limits" "cc_origins demo_client_conf = ''*''"
    "hq_auth demo_client_request = ''Bearer h1''" "hq_verb demo_client_request = ''POST''" "co_billing nobody = (\<lambda>_ s. s)" "co_proxy nobody = (\<lambda>_. id)"
    by (simp_all add: demo_client_conf_def demo_client_request_def nobody_def)
  have g: "(sv_gateway demo_client_state)\<lparr>gw_db := gw_db (sv_gateway demo_client_state)\<rparr> = sv_gateway demo_client_state" by simp
  obtain gate where r: "rate_gate_enter demo_limits 1000 (Some paying_key) (Some demo_resolution) False (sv_gate demo_client_state) = (Inr (Some 1), gate)"
    using demo_layers(2) by (metis prod.collapse)
  obtain g' where p: "proxy_handler demo_client_conf (\<lambda>_. no_faults) (\<lambda>_. id) (\<lambda>_. Unreachable False) 1000 1000 demo_client_request paying_key
      (Some demo_resolution) (sv_gateway demo_client_state) = ((Chat (Failure (api_err 400 ''invalid_request'' ''invalid_request_error'')), None), g')"
    using demo_proxied by (metis prod.collapse)
  have "fst demo_exchange = (cors_headers ''*'', Some (Chat (Failure (api_err 400 ''invalid_request'' ''invalid_request_error''))))"
    unfolding demo_exchange_def client_api_def cors_def client_chain_def c
    by (simp add: demo_layers(1,3) demo_billing r g p)
  then show ?thesis by (metis prod.collapse)
qed

theorem client_request_returns_slot_witness:
  "gt_conc (sv_gate (snd demo_exchange)) = [7 \<mapsto> 1]"
proof -
  have "conc_ok (gt_conc (sv_gate demo_client_state))" "caps_positive (cc_limits demo_client_conf)"
    by (auto simp: conc_ok_def caps_positive_def demo_client_state_def demo_client_conf_def demo_limits_def)
  from client_request_returns_slot [OF demo_exchange_answer [unfolded demo_exchange_def] this]
  show ?thesis by (simp add: nobody_def demo_exchange_def) (simp add: demo_client_state_def)
qed

lemma demo_client_billing:
  "after_billing demo_client_conf (\<lambda>_ _. no_faults) 1000 demo_client_request (gw_db (sv_gateway demo_client_state)) = gw_db (sv_gateway demo_client_state)"
proof -
  have "cc_hash demo_client_conf = id" "hq_auth demo_client_request = ''Bearer h1''" by (simp_all add: demo_client_conf_def demo_client_request_def)
  then show ?thesis using demo_layers(1) demo_billing by (simp add: after_billing_def)
qed


end
