(* ===== verification/Books.thy ===== *)
theory Books
  imports Pipeline
begin

text \<open>
  The books of the platform, and every operation of the program that writes them. The books are
  the ledger, its audit trail, the accounts, the registration tokens with their counters, the
  prices and the usage averages; each operation keeps their invariant and the set of pending holds,
  or changes that set as it should. Theory Platform runs these operations side by side.
\<close>

section \<open>What the steps keep\<close>

text \<open>The statistics stay averages of positive counts, and no rate is negative.\<close>

definition costs_inv :: "db \<Rightarrow> bool" where
  "costs_inv s \<longleftrightarrow> costs_ok s \<and> (\<forall>k st. stats s k = Some st \<longrightarrow> 0 \<le> st_count st)"

lemma costs_inv_same: "costs_inv s \<Longrightarrow> pricing s' = pricing s \<Longrightarrow> stats s' = stats s \<Longrightarrow> costs_inv s'"
  by (simp add: costs_inv_def costs_ok_def)

lemma costs_inv_price:
  assumes "costs_inv s" "stats s' = stats s" "\<forall>r \<in> set (pricing s'). r \<in> set (pricing s) \<or> rates_ok (scan_pricing r)"
  shows "costs_inv s'"
  using assms by (fastforce simp: costs_inv_def costs_ok_def)

lemma costs_inv_stats:
  assumes "costs_inv s" "pricing s' = pricing s" "stats s' = (stats s)(k \<mapsto> st)" "0 \<le> st_avg st" "0 \<le> st_count st"
  shows "costs_inv s'"
  using assms by (auto simp: costs_inv_def costs_ok_def)

lemma update_stats_costs: "costs_inv s \<Longrightarrow> 0 \<le> c \<Longrightarrow> costs_inv (snd (update_account_usage_stats f a m c s))"
proof (cases "f 0 \<or> \<not> int32_ok c")
  case True
  then show "costs_inv s \<Longrightarrow> ?thesis" by (auto simp: update_account_usage_stats_def sql_def stmt_def)
next
  case False
  assume c: "costs_inv s" "0 \<le> c"
  show ?thesis
  proof (cases "stats s (a, m)")
    case None
    then have "snd (update_account_usage_stats f a m c s) = s\<lparr>stats := (stats s)((a, m) \<mapsto> \<lparr>st_avg = c, st_count = 1\<rparr>)\<rparr>"
      using False by (simp add: update_account_usage_stats_def sql_def stmt_def)
    then show ?thesis using c by (auto intro: costs_inv_stats)
  next
    case (Some st)
    then have st: "0 \<le> st_avg st" "0 \<le> st_count st" using c(1) by (auto simp: costs_inv_def costs_ok_def)
    let ?t = "st_avg st * st_count st + c"
    have t: "0 \<le> go_div ?t (st_count st + 1)" using st c(2) by (simp add: go_div_nonneg pos_imp_zdiv_nonneg_iff)
    have "snd (update_account_usage_stats f a m c s) = s \<or>
        snd (update_account_usage_stats f a m c s) =
          s\<lparr>stats := (stats s)((a, m) \<mapsto> \<lparr>st_avg = go_div ?t (st_count st + 1), st_count = st_count st + 1\<rparr>)\<rparr>"
      using False Some by (simp add: update_account_usage_stats_def sql_def stmt_def Let_def)
    then show ?thesis using c(1) st t by (auto intro: costs_inv_stats)
  qed
qed

text \<open>
  The tokens with their counters stay sound when no token changes and every new registration event
  is of an account that was made without one.
\<close>

definition token_frame :: "db \<Rightarrow> db \<Rightarrow> bool" where
  "token_frame s s' \<longleftrightarrow> tokens s' = tokens s \<and> next_token s' = next_token s \<and>
     (\<exists>es. reg_events s' = reg_events s @ es \<and> (\<forall>e \<in> set es. re_token e = None))"

lemma token_frame_same:
  "tokens s' = tokens s \<Longrightarrow> next_token s' = next_token s \<Longrightarrow> reg_events s' = reg_events s \<Longrightarrow> token_frame s s'"
  by (simp add: token_frame_def)

lemma token_frame_event:
  "tokens s' = tokens s \<Longrightarrow> next_token s' = next_token s \<Longrightarrow> reg_events s' = reg_events s @ [e] \<Longrightarrow> re_token e = None \<Longrightarrow> token_frame s s'"
  by (simp add: token_frame_def)

lemma tokens_inv_frame:
  assumes "tokens_inv s" "token_frame s s'" shows "tokens_inv s'"
proof -
  obtain es where es: "reg_events s' = reg_events s @ es" "\<forall>e \<in> set es. re_token e = None"
    and t: "tokens s' = tokens s" "next_token s' = next_token s" using assms(2) by (auto simp: token_frame_def)
  have "filter (\<lambda>e. re_token e = Some i) es = []" for i using es(2) by (simp add: filter_empty_conv)
  then have r: "registrations i s' = registrations i s" for i by (simp add: registrations_def es(1))
  have "e \<in> set (reg_events s) \<or> re_token e = None" if "e \<in> set (reg_events s')" for e using that es by auto
  then show ?thesis using assms(1) unfolding tokens_inv_def t r by fastforce
qed

text \<open>What the ledger operations leave alone.\<close>

definition wallet_frame :: "db \<Rightarrow> db \<Rightarrow> bool" where
  "wallet_frame s s' \<longleftrightarrow> dom (balances s') = dom (balances s) \<and> accounts s' = accounts s \<and> next_account s' = next_account s \<and>
     pricing s' = pricing s \<and> stats s' = stats s \<and> tokens s' = tokens s \<and> next_token s' = next_token s \<and> reg_events s' = reg_events s"

lemma wallet_frame_refl [simp]: "wallet_frame s s"
  by (simp add: wallet_frame_def)

lemma wallet_frame_trans: "wallet_frame s t \<Longrightarrow> wallet_frame t u \<Longrightarrow> wallet_frame s u"
  by (simp add: wallet_frame_def)

lemma wallet_frame_row:
  assumes "balances s a = Some cb" "balances s' = (balances s)(a \<mapsto> cb')" "accounts s' = accounts s" "next_account s' = next_account s"
    "pricing s' = pricing s" "stats s' = stats s" "tokens s' = tokens s" "next_token s' = next_token s" "reg_events s' = reg_events s"
  shows "wallet_frame s s'"
  using assms by (auto simp: wallet_frame_def)

lemma wallet_platform:
  assumes "platform_inv s" "wallet_frame s s'" "ledger_inv s'" "trail_inv s'" shows "platform_inv s'"
  using assms by (auto simp: platform_inv_def wallet_frame_def accounts_wf_def)

lemma wallet_costs: "costs_inv s \<Longrightarrow> wallet_frame s s' \<Longrightarrow> costs_inv s'"
  by (rule costs_inv_same) (simp_all add: wallet_frame_def)

lemma wallet_tokens: "tokens_inv s \<Longrightarrow> wallet_frame s s' \<Longrightarrow> tokens_inv s'"
  by (erule tokens_inv_frame, rule token_frame_same) (simp_all add: wallet_frame_def)

lemma row_writes [simp]:
  "next_account (set_balance a cb s) = next_account s" "pricing (set_balance a cb s) = pricing s" "stats (set_balance a cb s) = stats s"
  "next_account (add_transaction t s) = next_account s" "pricing (add_transaction t s) = pricing s" "stats (add_transaction t s) = stats s"
  by (simp_all add: set_balance_def add_transaction_def)

lemma wallet_transact:
  assumes "\<And>x s'. m s = (Inr x, s') \<Longrightarrow> wallet_frame s s'" "\<And>e s'. m s = (Inl e, s') \<Longrightarrow> s' = s"
  shows "wallet_frame s (snd (m s))"
  using assms by (cases "m s"; cases "fst (m s)") auto

lemma ledger_wallet:
  "wallet_frame s (snd (add_credits f b x s))" "wallet_frame s (snd (reserve_credits f now b x s))"
  "wallet_frame s (snd (settle_hold f now h x s))" "wallet_frame s (snd (release_hold f now h s))"
proof -
  have close: "balances s1 = balances s \<and> accounts s1 = accounts s \<and> next_account s1 = next_account s \<and> pricing s1 = pricing s \<and> stats s1 = stats s \<and>
      tokens s1 = tokens s \<and> next_token s1 = next_token s \<and> reg_events s1 = reg_events s"
    if "close_hold h st now s = (Inr (Some x), s1)" for st x s1 using close_hold_Some(4) [OF that] by simp
  show "wallet_frame s (snd (add_credits f b x s))"
    by (rule wallet_transact [where m = "add_credits f b x"], erule add_credits_Inr, erule wallet_frame_row)
       (auto simp: add_credits_def dest: transact_Inl)
  show "wallet_frame s (snd (reserve_credits f now b x s))"
    by (rule wallet_transact [where m = "reserve_credits f now b x"], erule reserve_credits_Inr, erule wallet_frame_row)
       (auto dest: ledger_atomic_reserve)
  show "wallet_frame s (snd (settle_hold f now h x s))"
  proof (rule wallet_transact [where m = "settle_hold f now h x"])
    fix r s' assume "settle_hold f now h x s = (Inr r, s')"
    then show "wallet_frame s s'"
      by (cases rule: settle_hold_Inr) (auto dest!: close intro: wallet_frame_row)
  qed (rule ledger_atomic_settle)
  show "wallet_frame s (snd (release_hold f now h s))"
  proof (rule wallet_transact [where m = "release_hold f now h"])
    fix r s' assume "release_hold f now h s = (Inr r, s')"
    then show "wallet_frame s s'"
      by (cases rule: release_hold_Inr) (auto simp: wallet_frame_def dest!: close)
  qed (rule ledger_atomic_release)
qed

text \<open>Reserving and releasing move no balance.\<close>

lemma trail_reserved_only:
  assumes "trail_inv s" "balances s a = Some cb" "balances s' = (balances s)(a \<mapsto> cb\<lparr>cb_reserved := r\<rparr>)" "transactions s' = transactions s"
  shows "trail_inv s'"
  using assms by (auto intro!: trail_inv_same [of s s'] split: if_splits)

lemma reserve_trail:
  assumes "trail_inv s" shows "trail_inv (snd (reserve_credits f now a x s))"
proof (cases "reserve_credits f now a x s")
  case (Pair r s')
  show ?thesis
  proof (cases r)
    case (Inr hid)
    then have "reserve_credits f now a x s = (Inr hid, s')" using Pair by simp
    then have "trail_inv s'" by (rule reserve_credits_Inr) (erule trail_reserved_only [OF assms], auto)
    then show ?thesis using Pair by simp
  qed (use assms Pair in \<open>auto dest: ledger_atomic_reserve\<close>)
qed

lemma release_trail:
  assumes "trail_inv s" shows "trail_inv (snd (release_hold f now h s))"
proof (cases "release_hold f now h s")
  case (Pair r s')
  show ?thesis
  proof (cases r)
    case (Inr u)
    then have "release_hold f now h s = (Inr u, s')" using Pair by simp
    then have "trail_inv s'"
    proof (cases rule: release_hold_Inr)
      case (2 x s1)
      then show ?thesis using assms close_hold_Some(4) [OF 2(1)] by (simp add: trail_inv_def)
    next
      case (3 x s1 cb)
      then show ?thesis using close_hold_Some(4) [OF 3(1)] by (auto intro: trail_reserved_only [OF assms 3(2)])
    qed (use assms in simp)
    then show ?thesis using Pair by simp
  qed (use assms Pair in \<open>auto dest: ledger_atomic_release\<close>)
qed

lemma settle_hold_pending_set:
  assumes "settle_hold f now hid x s = (Inr u, s')" shows "pending_set s' = {h \<in> pending_set s. ch_id h \<noteq> hid}"
  using assms
proof (cases rule: settle_hold_Inr)
  case 1
  then show ?thesis by (auto simp: pending_set_def)
next
  case (2 h s1 cb)
  then show ?thesis using pending_set_close [OF 2(2)] by (simp add: pending_set_def)
qed

section \<open>The books\<close>

definition books_ok :: "db \<Rightarrow> bool" where
  "books_ok s \<longleftrightarrow> platform_inv s \<and> costs_inv s \<and> tokens_inv s"

lemma books_okD: "books_ok s \<Longrightarrow> ledger_inv s" "books_ok s \<Longrightarrow> trail_inv s" "books_ok s \<Longrightarrow> costs_ok s" "books_ok s \<Longrightarrow> accounts_wf s"
  "books_ok s \<Longrightarrow> platform_inv s" "books_ok s \<Longrightarrow> costs_inv s" "books_ok s \<Longrightarrow> tokens_inv s"
  by (simp_all add: books_ok_def platform_inv_def costs_inv_def)

lemma books_wallet: "books_ok s \<Longrightarrow> wallet_frame s s' \<Longrightarrow> ledger_inv s' \<Longrightarrow> trail_inv s' \<Longrightarrow> books_ok s'"
  using wallet_platform wallet_costs wallet_tokens unfolding books_ok_def by blast

lemma books_frame:
  assumes "books_ok s" "platform_inv s'" "pricing s' = pricing s" "stats s' = stats s" "token_frame s s'"
  shows "books_ok s'"
  using assms(1,2) costs_inv_same [OF _ assms(3,4)] tokens_inv_frame [OF _ assms(5)] unfolding books_ok_def by blast

lemma books_same:
  assumes "books_ok s" "same_money s s'" "map ac_id (accounts s') = map ac_id (accounts s)" "next_account s' = next_account s"
    "pricing s' = pricing s" "stats s' = stats s" "token_frame s s'"
  shows "books_ok s'"
  using assms platform_same costs_inv_same tokens_inv_frame by (auto simp: books_ok_def)

lemma ledger_books:
  assumes "books_ok s"
  shows "books_ok (snd (add_credits f a x s))" "0 \<le> x \<Longrightarrow> books_ok (snd (reserve_credits f now a x s))"
    "books_ok (snd (settle_hold f now hid x s))" "books_ok (snd (release_hold f now hid s))"
  using books_wallet [OF assms ledger_wallet(1) add_credits_inv add_credits_trail]
    books_wallet [OF assms ledger_wallet(2) reserve_credits_inv reserve_trail]
    books_wallet [OF assms ledger_wallet(3) settle_hold_inv settle_hold_trail]
    books_wallet [OF assms ledger_wallet(4) release_hold_inv release_trail] books_okD(1,2) [OF assms] by simp_all

lemma release_all_books: "books_ok s \<Longrightarrow> books_ok (snd (release_all fs now ids n s))"
proof (induction ids arbitrary: n s)
  case (Cons i ids)
  have "books_ok (snd (release_hold (fs n) now i s))" by (rule ledger_books(4) [OF Cons.prems])
  then show ?case using Cons.IH by (auto split: prod.splits sum.splits)
qed simp

lemma sweeper_books: "books_ok s \<Longrightarrow> books_ok (sweeper_tick f fs now s)"
  by (simp add: sweeper_tick_def sweep_stale_holds_def release_all_books)

lemma cleanup_books: "books_ok s \<Longrightarrow> books_ok (cleanup_tick f now s)"
proof -
  assume b: "books_ok s"
  let ?s = "cleanup_tick f now s"
  have "balances ?s = balances s" "transactions ?s = transactions s" "wallet_frame s ?s"
    by (auto simp: cleanup_tick_def cleanup_settled_holds_def sql_def stmt_def Let_def wallet_frame_def)
  moreover have "ledger_inv ?s" using cleanup_settled_holds_inv [OF books_okD(1) [OF b]] by (simp add: cleanup_tick_def)
  ultimately show ?thesis using books_okD(2) [OF b] by (auto intro: books_wallet [OF b] simp: trail_inv_def)
qed

text \<open>The end of an exchange.\<close>

lemma update_stats_books: "books_ok s \<Longrightarrow> 0 \<le> c \<Longrightarrow> books_ok (snd (update_account_usage_stats f a m c s))"
proof -
  assume b: "books_ok s" and c: "0 \<le> c"
  let ?s = "snd (update_account_usage_stats f a m c s)"
  have "same_money s ?s" using update_stats_ledger [of f a m c s] by (simp add: same_money_def same_ledger_def)
  moreover have "accounts ?s = accounts s" "next_account ?s = next_account s"
    "tokens ?s = tokens s" "next_token ?s = next_token s" "reg_events ?s = reg_events s"
    by (auto simp: update_account_usage_stats_def sql_def stmt_def Let_def split: option.splits)
  ultimately show ?thesis using b c update_stats_costs platform_same tokens_inv_frame token_frame_same
    by (auto simp: books_ok_def)
qed

lemma settle_as_books: "books_ok s \<Longrightarrow> books_ok (settle_as f now am k s)"
proof (cases k)
  case (ChargeIt ud n)
  assume b: "books_ok s"
  obtain pt ct where bt: "billed_tokens ud n = (pt, ct)" by (metis prod.exhaust)
  have s: "books_ok (snd (settle_hold (f 5) now (am_hold am) (estimate_cost (am_pricing am) pt ct) s))" by (rule ledger_books(3) [OF b])
  then show ?thesis using update_stats_books [OF s, of ct]
    by (auto simp: ChargeIt settle_as_def settle_tokens_def bt Let_def split: prod.splits option.splits)
qed (simp_all add: settle_as_def ledger_books(4))

lemma settle_as_pending: "pending_set (settle_as f now am k s) \<subseteq> pending_set s"
proof (cases k)
  case ReleaseIt
  show ?thesis
  proof (cases "release_hold (f 5) now (am_hold am) s")
    case (Pair r s')
    then show ?thesis using ReleaseIt release_hold_pending_set [of "f 5" now "am_hold am" s _ s'] ledger_atomic_release [of "f 5" now "am_hold am" s _ s']
      by (cases r) (auto simp: settle_as_def)
  qed
next
  case (ChargeIt ud n)
  obtain c s' where c: "settle_tokens f now (am_hold am) (am_bill am) ud n (am_pricing am) s = (c, s')" by (metis prod.exhaust)
  obtain r s1 where r: "settle_hold (f 5) now (am_hold am) (estimate_cost (am_pricing am) (fst (billed_tokens ud n)) (snd (billed_tokens ud n))) s = (r, s1)"
    "same_ledger s' s1" using settle_tokens_ledger [OF c] by metis
  have "pending_set s1 \<subseteq> pending_set s" using settle_hold_pending_set r(1) ledger_atomic_settle by (cases r) blast+
  then show ?thesis using c ChargeIt same_ledger_pending [OF r(2)] by (simp add: settle_as_def)
qed (simp add: settle_as_def)

lemma forward_books:
  assumes "forward jl join up f c now key am flusher g = (r, g')" "books_ok (gw_db g)"
  shows "books_ok (gw_db g')" "pending_set (gw_db g') \<subseteq> pending_set (gw_db g)"
    "am_enabled am \<Longrightarrow> hold_open (am_hold am) (gw_db g') \<Longrightarrow>
       closing_error f now am (exchange_end jl join up (px_max_body c) am flusher) (gw_db g)"
proof -
  obtain k where k: "gw_db g' = settle_as f now am k (gw_db g)" "(k = NoHold) = (\<not> am_enabled am)"
    "k = exchange_end jl join up (px_max_body c) am flusher"
    using forward_settles [OF assms(1)] by metis
  show "books_ok (gw_db g')" "pending_set (gw_db g') \<subseteq> pending_set (gw_db g)"
    using settle_as_books [OF assms(2)] settle_as_pending k(1) by auto
  show "am_enabled am \<Longrightarrow> hold_open (am_hold am) (gw_db g') \<Longrightarrow>
       closing_error f now am (exchange_end jl join up (px_max_body c) am flusher) (gw_db g)"
    using settle_as_open [of k am f now "gw_db g"] k by auto
qed

lemma admit_books:
  assumes "chat_admit jl f (\<lambda>_. id) now key res b g = ((Inr am, hit), g')" and b: "books_ok (gw_db g)"
  shows "books_ok (gw_db g')"
    "\<forall>h \<in> pending_set (gw_db g'). h \<in> pending_set (gw_db g) \<or> am_enabled am \<and> ch_id h = am_hold am \<and> ch_created h = now"
proof -
  note ad = chat_admit_Inr [OF assms(1), simplified]
  have "books_ok (gw_db g') \<and> (\<forall>h \<in> pending_set (gw_db g'). h \<in> pending_set (gw_db g) \<or> am_enabled am \<and> ch_id h = am_hold am \<and> ch_created h = now)"
  proof (cases "am_enabled am")
    case True
    then obtain a q where rs: "reserve_credits (f 4) now a (estimated_cost f a am (gw_db g)) (gw_db g) = (Inr (am_hold am), gw_db g')"
      and q: "am_pricing am = Some q" using ad(4,5) by auto
    have nn: "0 \<le> estimated_cost f a am (gw_db g)"
      by (rule estimated_cost_nonneg [OF books_okD(3) [OF b] q ad(7) [OF books_okD(3) [OF b] q]])
    obtain h where "ch_id h = am_hold am" "ch_created h = now" "pending_set (gw_db g') = insert h (pending_set (gw_db g))"
      by (rule reserve_effect [OF books_okD(1) [OF b] nn rs]) blast
    moreover have "books_ok (gw_db g')" using ledger_books(2) [OF b nn, of "f 4" now a] rs by simp
    ultimately show ?thesis using True by auto
  next
    case False
    then show ?thesis using ad(6) b by simp
  qed
  then show "books_ok (gw_db g')"
    "\<forall>h \<in> pending_set (gw_db g'). h \<in> pending_set (gw_db g) \<or> am_enabled am \<and> ch_id h = am_hold am \<and> ch_created h = now" by blast+
qed

section \<open>Operations on accounts, tokens and prices\<close>

text \<open>
  Who else writes the books: the admin handlers for grants and prices; the transactions of a
  request with a forwarded identity (its first sight, and the monthly allowance); sign-ups,
  registrations of service accounts and the bootstrap of the administrator; the registration
  tokens; the filing of a credit request; and a process that starts up (the admin service
  account, also made when a key is minted, and the backfills, one transaction each). CreateAccount and
  InitCreditBalance of the store, which no handler calls, are here too.
\<close>

datatype account_op = OpGrant string "rat body" | OpAllowance int rat gotime | OpSignUp string string string
  | OpPrice "pricing_request body" | OpUnprice string | OpFile int
  | OpToken token_op | OpFirstSight federated_identity | OpSeen federated_identity
  | OpBootstrap string string string | OpAdminService rat
  | OpBackfillUser user | OpBackfillKeys int | OpBackfillBalances | OpBackfillEvents
  | OpNewAccount string string | OpInitBalance int

fun run_account_op :: "faults \<Rightarrow> gotime \<Rightarrow> account_op \<Rightarrow> db \<Rightarrow> db" where
  "run_account_op f now (OpGrant p b) s = snd (grant_credits (\<lambda>_. f) p b s)"
| "run_account_op f now (OpAllowance a x month) s = snd (allowance_tx f a x month s)"
| "run_account_op f now (OpSignUp email pw name) s = snd (register_user f now email pw name s)"
| "run_account_op f now (OpPrice b) s = snd (admin_upsert_pricing (\<lambda>_. f) b s)"
| "run_account_op f now (OpUnprice p) s = snd (admin_delete_pricing (\<lambda>_. f) p s)"
| "run_account_op f now (OpFile a) s = snd (file_credit_request f now a s)"
| "run_account_op f now (OpToken t) s = run_token_op (f, now, t) s"
| "run_account_op f now (OpFirstSight i) s = snd (provision_federated_account f now (\<lambda>s. s) i s)"
| "run_account_op f now (OpSeen i) s = snd (lookup_federated_account f i s)"
| "run_account_op f now (OpBootstrap email pw name) s = snd (create_admin_bootstrap f now email pw name s)"
| "run_account_op f now (OpAdminService grant) s = snd (ensure_admin_service_account f now (\<lambda>s. s) grant s)"
| "run_account_op f now (OpBackfillUser u) s = snd (backfill_user f now u s)"
| "run_account_op f now (OpBackfillKeys a) s = snd (backfill_admin_key_accounts f a s)"
| "run_account_op f now OpBackfillBalances s = snd (backfill_credit_balances f s)"
| "run_account_op f now OpBackfillEvents s = snd (backfill_registration_events f s)"
| "run_account_op f now (OpNewAccount name ty) s = snd (create_account f now name ty s)"
| "run_account_op f now (OpInitBalance a) s = snd (init_credit_balance f a s)"

text \<open>The configuration refuses a negative grant for the admin service account.\<close>

definition op_allowed :: "account_op \<Rightarrow> bool" where
  "op_allowed a = (case a of OpAdminService grant \<Rightarrow> 0 \<le> grant | _ \<Rightarrow> True)"

lemma grant_handler_db: "\<exists>a x. snd (grant_credits fs p b s) \<in> {s, snd (add_credits (fs 0) a x s)}"
proof -
  consider (e) "snd (grant_credits fs p b s) = s"
    | a x where "path_id p = Inr a" "decode_json b = Inr x" "x \<noteq> 0"
    by (cases "path_id p"; cases "decode_json b"; cases "decode_json b = Inr 0") (auto simp: grant_credits_def prog_simps)
  then show ?thesis
  proof cases
    case (2 a x)
    obtain r s' where "add_credits (fs 0) a x s = (r, s')" by (metis prod.exhaust)
    then show ?thesis using 2
      by (intro exI [of _ a] exI [of _ x], cases r) (auto simp: grant_credits_def prog_simps split: sum.splits option.splits)
  qed auto
qed

lemma allowance_books: "books_ok s \<Longrightarrow> books_ok (snd (allowance_tx f a x month s))"
proof -
  assume b: "books_ok s"
  have "costs_inv (snd (allowance_tx f a x month s)) \<and> tokens_inv (snd (allowance_tx f a x month s))"
  proof (cases rule: allowance_tx_cases [of f a x month s])
    case (granted cb)
    then show ?thesis using b costs_inv_same [of s] tokens_inv_frame [OF _ token_frame_same, of s] by (simp add: books_ok_def)
  qed (use b in \<open>simp add: books_ok_def\<close>)
  then show ?thesis using b allowance_tx_platform by (simp add: books_ok_def)
qed

lemma registered_books:
  assumes b: "books_ok s"
  shows "books_ok (registered s now email pw name role source) \<and>
    pending_set (registered s now email pw name role source) = pending_set s"
proof -
  let ?s = "registered s now email pw name role source"
  have f: "pricing ?s = pricing s" "stats ?s = stats s" "holds ?s = holds s" "tokens ?s = tokens s" "next_token ?s = next_token s"
    "reg_events ?s = reg_events s @ [\<lparr>re_kind = ''user'', re_account = Some (next_account s), re_user = Some (next_user s), re_token = None, re_source = source\<rparr>]"
    by (simp_all add: registered_def add_reg_event_def)
  have "token_frame s ?s" by (rule token_frame_event [OF f(4-6)]) simp
  then show ?thesis using books_frame [OF b registered_inv [OF books_okD(5) [OF b]] f(1,2)] f(3) by (simp add: pending_set_def)
qed

lemma sign_up_books:
  assumes b: "books_ok s"
  shows "books_ok (snd (register_user f now email pw name s)) \<and> pending_set (snd (register_user f now email pw name s)) = pending_set s"
proof -
  obtain r s' where r: "register_user f now email pw name s = (r, s')" by (metis prod.exhaust)
  show ?thesis
  proof (cases r)
    case (Inl e)
    then show ?thesis using r b by (auto simp: register_user_def dest: transact_Inl)
  next
    case (Inr x)
    have "s' = registered s now email pw name ''user'' ''public_signup''"
      using register_user_Inr [OF books_okD(4) [OF b], of f now email pw name x s'] r Inr by simp
    then show ?thesis using registered_books [OF b] r by simp
  qed
qed

lemma bootstrap_books:
  assumes b: "books_ok s"
  shows "books_ok (snd (create_admin_bootstrap f now email pw name s)) \<and> pending_set (snd (create_admin_bootstrap f now email pw name s)) = pending_set s"
proof -
  obtain r s' where r: "create_admin_bootstrap f now email pw name s = (r, s')" by (metis prod.exhaust)
  show ?thesis
  proof (cases r)
    case (Inl e)
    then show ?thesis using r b by (auto simp: create_admin_bootstrap_def dest: transact_Inl)
  next
    case (Inr x)
    have "s' = registered s now email pw name ''admin'' ''admin_bootstrap''"
      using create_admin_bootstrap_Inr [OF books_okD(4) [OF b], of f now email pw name x s'] r Inr by simp
    then show ?thesis using registered_books [OF b] r by simp
  qed
qed

lemma token_op_books:
  assumes b: "books_ok s"
  shows "books_ok (run_token_op (f, now, t) s) \<and> pending_set (run_token_op (f, now, t) s) = pending_set s"
proof -
  let ?s = "run_token_op (f, now, t) s"
  have "grants_ok ?s" using b by (intro run_token_op_inv) (simp add: grants_ok_def books_ok_def)
  moreover have "pricing ?s = pricing s \<and> stats ?s = stats s \<and> holds ?s = holds s"
  proof (cases t)
    case (Register hash name kh kp rl)
    show ?thesis unfolding Register run_token_op.simps
      by (cases rule: register_service_account_cases [OF books_okD(4) [OF b] books_okD(7) [OF b], of f now hash name kh kp rl])
        (simp_all add: service_registered_def Let_def add_reg_event_def)
  next
    case (NewToken hash g m e)
    then show ?thesis by (auto simp: create_registration_token_def prog_simps)
  next
    case (RevokeToken i)
    then show ?thesis by (auto simp: revoke_registration_token_def prog_simps)
  qed
  ultimately show ?thesis using b costs_inv_same [of s ?s] by (simp add: books_ok_def grants_ok_def pending_set_def)
qed

text \<open>The first sight of a forwarded identity: a new account with an empty balance.\<close>

lemma fresh_identity_books:
  assumes b: "books_ok s" shows "books_ok (fresh_identity s i now) \<and> pending_set (fresh_identity s i now) = pending_set s"
proof -
  let ?s = "fresh_identity s i now"
  have f: "pricing ?s = pricing s" "stats ?s = stats s" "holds ?s = holds s" "tokens ?s = tokens s" "next_token ?s = next_token s"
    "reg_events ?s = reg_events s @ [\<lparr>re_kind = ''user'', re_account = Some (next_account s), re_user = None, re_token = None, re_source = ''trusted_header''\<rparr>]"
    by (simp_all add: fresh_identity_def add_reg_event_def)
  have "token_frame s ?s" by (rule token_frame_event [OF f(4-6)]) simp
  moreover have "platform_inv ?s"
    by (rule platform_new [OF books_okD(5) [OF b], where cb = zero_balance and ac = "(fresh_account s (account_name i) ''end_user'' now)\<lparr>ac_managed := True\<rparr>"])
      (simp_all add: fresh_identity_def zero_balance_def fresh_account_id)
  ultimately show ?thesis using books_frame [OF b _ f(1,2)] f(3) by (simp add: pending_set_def)
qed

lemma lookup_books:
  assumes b: "books_ok s" shows "books_ok (snd (lookup_federated_account f i s)) \<and> pending_set (snd (lookup_federated_account f i s)) = pending_set s"
proof -
  let ?s = "snd (lookup_federated_account f i s)"
  have "same_money s ?s" "accounts ?s = accounts s" "next_account ?s = next_account s" "pricing ?s = pricing s" "stats ?s = stats s"
    "tokens ?s = tokens s" "next_token ?s = next_token s" "reg_events ?s = reg_events s"
    by (auto simp: lookup_federated_account_def sql_def stmt_def same_money_def split: option.splits)
  then show ?thesis using books_same [OF b] token_frame_same by (auto simp: pending_set_def same_money_def)
qed

lemma first_sight_books:
  assumes b: "books_ok s"
  shows "books_ok (snd (provision_federated_account f now (\<lambda>s. s) i s)) \<and> pending_set (snd (provision_federated_account f now (\<lambda>s. s) i s)) = pending_set s"
proof (cases "provision_tx f now i s")
  case (Pair r s')
  show ?thesis
  proof (cases r)
    case (Inl e)
    then show ?thesis using b Pair by (simp add: provision_federated_account_def)
  next
    case (Inr x)
    note p = provision_tx_Inr [OF books_okD(4) [OF b] Pair [unfolded Inr]]
    show ?thesis
    proof (cases x)
      case (Some acc)
      then show ?thesis using p Pair Inr fresh_identity_books [OF b] by (simp add: provision_federated_account_def)
    next
      case None
      have "snd (provision_federated_account f now (\<lambda>s. s) i s) \<in> {s, snd (lookup_federated_account (\<lambda>k. f (k + 7)) i s)}"
        using Pair Inr None by (auto simp: provision_federated_account_def bindp_def failp_def retp_def split: prod.split sum.split)
      then show ?thesis using b lookup_books [OF b] by auto
    qed
  qed
qed

lemma admin_service_books:
  assumes b: "books_ok s" and g: "0 \<le> grant"
  shows "books_ok (snd (ensure_admin_service_account f now (\<lambda>s. s) grant s)) \<and>
    pending_set (snd (ensure_admin_service_account f now (\<lambda>s. s) grant s)) = pending_set s"
proof -
  obtain r s' where r: "ensure_admin_service_account f now (\<lambda>s. s) grant s = (r, s')" by (metis prod.exhaust)
  have "s' = s \<or> (dec_ok (dec6 grant) \<and> s' = admin_service_created s now grant)"
  proof (cases r)
    case (Inl e)
    then show ?thesis using ensure_admin_error r by metis
  next
    case (Inr i)
    then show ?thesis using ensure_admin_Inr [OF r [unfolded Inr] books_okD(4) [OF b]] by auto
  qed
  moreover have "books_ok (admin_service_created s now grant) \<and> pending_set (admin_service_created s now grant) = pending_set s"
    if d: "dec_ok (dec6 grant)"
  proof -
    let ?s = "admin_service_created s now grant"
    have f: "pricing ?s = pricing s" "stats ?s = stats s" "holds ?s = holds s" "tokens ?s = tokens s" "next_token ?s = next_token s"
      "reg_events ?s = reg_events s @ [\<lparr>re_kind = ''service'', re_account = Some (next_account s), re_user = None, re_token = None, re_source = ''admin_service''\<rparr>]"
      by (simp_all add: admin_service_created_def add_reg_event_def Let_def)
    have "token_frame s ?s" by (rule token_frame_event [OF f(4-6)]) simp
    then show ?thesis using books_frame [OF b admin_service_created_platform [OF books_okD(5) [OF b] d g] f(1,2)] f(3)
      by (simp add: pending_set_def)
  qed
  ultimately show ?thesis using b r by auto
qed

text \<open>The backfills: accounts without a balance row, balance rows, and what touches no money.\<close>

lemma new_accounts_books:
  assumes b: "books_ok s" and m: "same_money s s'" "accounts_wf s'" and f: "pricing s' = pricing s" "stats s' = stats s" "token_frame s s'"
  shows "books_ok s' \<and> pending_set s' = pending_set s"
proof -
  have "ledger_inv s'" "trail_inv s'"
    using books_okD(1,2) [OF b] same_money_ledger [OF m(1)] same_money_trail [OF m(1)] by simp_all
  then show ?thesis using b m costs_inv_same [OF _ f(1,2)] tokens_inv_frame [OF _ f(3)]
    by (simp add: books_ok_def platform_inv_def pending_set_def same_money_def)
qed

lemma backfill_user_books:
  assumes b: "books_ok s" shows "books_ok (snd (backfill_user f now u s)) \<and> pending_set (snd (backfill_user f now u s)) = pending_set s"
proof -
  obtain r s' where r: "backfill_user f now u s = (r, s')" by (metis prod.exhaust)
  show ?thesis
  proof (cases r)
    case (Inl e)
    then show ?thesis using r b by (auto simp: backfill_user_def dest: transact_Inl)
  next
    case (Inr x)
    have r': "backfill_user f now u s = (Inr x, s')" using r Inr by simp
    have "same_money s s'" "pricing s' = pricing s" "stats s' = stats s" "tokens s' = tokens s" "next_token s' = next_token s" "reg_events s' = reg_events s"
      using r' by (auto simp: backfill_user_def ledger_run new_account_run same_money_def)
    then have "books_ok s' \<and> pending_set s' = pending_set s"
      using backfill_user_wf [OF r' books_okD(4) [OF b]] by (intro new_accounts_books [OF b] token_frame_same)
    then show ?thesis using r by simp
  qed
qed

lemma create_account_books:
  assumes b: "books_ok s" shows "books_ok (snd (create_account f now name ty s)) \<and> pending_set (snd (create_account f now name ty s)) = pending_set s"
proof (rule new_accounts_books [OF b])
  let ?s = "snd (create_account f now name ty s)"
  show "accounts_wf ?s" using books_okD(4) [OF b]
    by (fastforce simp: create_account_def sql_def stmt_def new_account_def accounts_wf_def)
  show "same_money s ?s" "pricing ?s = pricing s" "stats ?s = stats s" "token_frame s ?s"
    by (auto simp: create_account_def sql_def stmt_def new_account_def same_money_def intro: token_frame_same)
qed

lemma zero_row_books:
  assumes b: "books_ok s" and a: "balances s a = None" "a \<in> ac_id ` set (accounts s)"
  shows "books_ok (set_balance a zero_balance s)"
proof -
  let ?s = "set_balance a zero_balance s"
  note inv = books_okD [OF b]
  have r: "balances ?s = (balances s)(a \<mapsto> zero_balance)" "holds ?s = holds s" "next_hold ?s = next_hold s" "transactions ?s = transactions s"
    "accounts ?s = accounts s" "next_account ?s = next_account s" "pricing ?s = pricing s" "stats ?s = stats s"
    by (simp_all add: set_balance_def)
  have "ledger_inv ?s" by (rule ledger_inv_new_row [OF inv(1) a(1)]) (simp_all add: r zero_balance_def)
  moreover have "trail_inv ?s"
  proof -
    have "a \<notin> ct_account ` set (transactions s)" using inv(2) a(1) by (auto simp: trail_inv_def)
    then have "last_after a (transactions s) = 0" by (rule last_after_none)
    then show ?thesis using inv(2) by (simp add: trail_inv_def r zero_balance_def)
  qed
  moreover have "accounts_wf ?s" using inv(4) a(2) by (simp add: accounts_wf_def r)
  ultimately have "platform_inv ?s" by (simp add: platform_inv_def)
  moreover have "tokens_inv ?s" by (rule tokens_inv_frame [OF inv(7) token_frame_same]) simp_all
  ultimately show ?thesis using costs_inv_same [OF inv(6) r(7,8)] by (simp add: books_ok_def)
qed

lemma init_balance_books:
  assumes b: "books_ok s" shows "books_ok (snd (init_credit_balance f a s)) \<and> pending_set (snd (init_credit_balance f a s)) = pending_set s"
  using b zero_row_books [OF b, of a]
  by (auto simp: init_credit_balance_def sql_def stmt_def row_of_None pending_set_def set_balance_def)

lemma backfill_balances_books:
  assumes "books_ok s" shows "books_ok (snd (backfill_credit_balances f s)) \<and> pending_set (snd (backfill_credit_balances f s)) = pending_set s"
proof -
  let ?g = "\<lambda>a s. if balances s a = None then set_balance a zero_balance s else s"
  have "set as \<subseteq> ac_id ` set (accounts s) \<Longrightarrow> books_ok s \<Longrightarrow> books_ok (fold ?g as s) \<and> pending_set (fold ?g as s) = pending_set s" for as s
  proof (induction as arbitrary: s)
    case (Cons a as)
    have "accounts (?g a s) = accounts s" "pending_set (?g a s) = pending_set s" by (simp_all add: set_balance_def pending_set_def)
    moreover have "books_ok (?g a s)" using Cons.prems zero_row_books [of s a] by simp
    ultimately show ?case using Cons.IH [of "?g a s"] Cons.prems(1) by simp
  qed simp
  from this [of "map ac_id (accounts s)" s] assms show ?thesis
    by (simp add: backfill_credit_balances_def sql_def stmt_def modp_def)
qed

lemma backfill_keys_books:
  assumes b: "books_ok s" shows "books_ok (snd (backfill_admin_key_accounts f a s)) \<and> pending_set (snd (backfill_admin_key_accounts f a s)) = pending_set s"
proof -
  obtain r s' where r: "backfill_admin_key_accounts f a s = (r, s')" by (metis prod.exhaust)
  show ?thesis
  proof (cases r)
    case (Inl e)
    then show ?thesis using r b by (auto simp: backfill_admin_key_accounts_def dest: transact_Inl)
  next
    case (Inr n)
    have "same_money s s' \<and> accounts s' = accounts s \<and> next_account s' = next_account s \<and> pricing s' = pricing s \<and> stats s' = stats s \<and>
      tokens s' = tokens s \<and> next_token s' = next_token s \<and> reg_events s' = reg_events s"
      using r Inr by (auto simp: backfill_admin_key_accounts_def ledger_run Let_def same_money_def split: if_splits)
    then show ?thesis using r books_same [OF b, of s'] token_frame_same [of s' s] by (simp add: pending_set_def same_money_def)
  qed
qed

lemma backfill_events_books:
  assumes b: "books_ok s" shows "books_ok (snd (backfill_registration_events f s)) \<and> pending_set (snd (backfill_registration_events f s)) = pending_set s"
proof -
  let ?s = "snd (backfill_registration_events f s)"
  have "same_money s ?s" "accounts ?s = accounts s" "next_account ?s = next_account s" "pricing ?s = pricing s" "stats ?s = stats s" "token_frame s ?s"
    by (auto simp: backfill_registration_events_def prog_simps sql_def stmt_def same_money_def token_frame_def)
  then show ?thesis using books_same [OF b] by (auto simp: pending_set_def same_money_def)
qed

lemma f_of_micros_nonneg: "0 \<le> m \<Longrightarrow> 0 \<le> f_of_micros m"
  using rnd64_mono [of 0 "micros_val m"] by (simp add: f_of_micros_def micros_val_def)

lemma priced_row_rates: "0 \<le> pr \<Longrightarrow> 0 \<le> cr \<Longrightarrow> rates_ok (scan_pricing (priced_row i m pr cr ty))"
  using dec6_mono [of 0 pr] dec6_mono [of 0 cr]
  by (simp add: rates_ok_def scan_pricing_def priced_row_def rate_of_def f_of_micros_nonneg dec6_0)

lemma upsert_pricing_frame:
  "same_money s (snd (upsert_pricing f m pr cr ty s))" "accounts (snd (upsert_pricing f m pr cr ty s)) = accounts s"
  "next_account (snd (upsert_pricing f m pr cr ty s)) = next_account s" "stats (snd (upsert_pricing f m pr cr ty s)) = stats s"
  "token_frame s (snd (upsert_pricing f m pr cr ty s))"
  by (auto intro!: token_frame_same simp: same_money_def upsert_pricing_def sql_def stmt_def prog_simps dec_col_def)

lemma price_books: "books_ok s \<Longrightarrow> 0 \<le> pr \<Longrightarrow> 0 \<le> cr \<Longrightarrow> books_ok (snd (upsert_pricing f m pr cr ty s))"
proof -
  assume b: "books_ok s" and r: "0 \<le> pr" "0 \<le> cr"
  let ?s = "snd (upsert_pricing f m pr cr ty s)"
  have "\<forall>x \<in> set (pricing ?s). x \<in> set (pricing s) \<or> rates_ok (scan_pricing x)"
  proof (cases "upsert_pricing f m pr cr ty s")
    case (Pair q s')
    show ?thesis
    proof (cases q)
      case (Inl e)
      then have "pricing s' = pricing s" using Pair by (auto simp: upsert_pricing_def sql_def stmt_def prog_simps dec_col_def split: if_splits)
      then show ?thesis using Pair by simp
    next
      case (Inr u)
      then show ?thesis using upsert_pricing_Inr [of f m pr cr ty s u s'] Pair priced_row_rates [OF r]
        by (auto simp: set_upd_where split: option.splits if_splits)
    qed
  qed
  then have "costs_inv ?s" by (rule costs_inv_price [OF _ upsert_pricing_frame(4), rotated]) (use b in \<open>simp add: books_ok_def\<close>)
  moreover have "platform_inv ?s" using b platform_same [OF _ upsert_pricing_frame(1)] upsert_pricing_frame(2,3) by (simp add: books_ok_def)
  moreover have "tokens_inv ?s" by (rule tokens_inv_frame [OF books_okD(7) [OF b] upsert_pricing_frame(5)])
  ultimately show ?thesis by (simp add: books_ok_def)
qed

lemma price_handler_books: "books_ok s \<Longrightarrow> books_ok (snd (admin_upsert_pricing fs b s))"
proof -
  assume k: "books_ok s"
  show ?thesis
  proof (cases "\<exists>req. decode_json b = Inr req \<and> pq_model req \<noteq> [] \<and> \<not> (pq_prompt req \<le> 0 \<or> pq_completion req \<le> 0)")
    case False
    then have "snd (admin_upsert_pricing fs b s) = s"
      by (cases "decode_json b") (auto simp: admin_upsert_pricing_def prog_simps split: if_split)
    then show ?thesis using k by simp
  next
    case True
    then obtain req where 2: "decode_json b = Inr req" "pq_model req \<noteq> []" "\<not> (pq_prompt req \<le> 0 \<or> pq_completion req \<le> 0)" by blast
    have "snd (admin_upsert_pricing fs b s) = snd (upsert_pricing (fs 0) (pq_model req) (pq_prompt req) (pq_completion req)
        (if pq_typical req \<le> 0 then 500 else pq_typical req) s)"
      using 2 by (auto simp: admin_upsert_pricing_def prog_simps split: prod.splits sum.splits)
    then show ?thesis using price_books [OF k] 2(3) by simp
  qed
qed

lemma unprice_books: "books_ok s \<Longrightarrow> books_ok (snd (admin_delete_pricing fs p s))"
proof -
  assume k: "books_ok s"
  let ?s = "snd (admin_delete_pricing fs p s)"
  note d = admin_delete_pricing_def delete_pricing_def sql_def stmt_def prog_simps
  have "\<forall>x \<in> set (pricing ?s). x \<in> set (pricing s) \<or> rates_ok (scan_pricing x)"
  proof
    fix x assume "x \<in> set (pricing ?s)"
    then have "x \<in> set (pricing s) \<or> (\<exists>r \<in> set (pricing s). x = r\<lparr>cp_active := False\<rparr>)"
      by (auto simp: d set_upd_where split: sum.splits if_splits)
    moreover have "rates_ok (scan_pricing (r\<lparr>cp_active := False\<rparr>)) = rates_ok (scan_pricing r)" for r
      by (simp add: rates_ok_def scan_pricing_def)
    ultimately show "x \<in> set (pricing s) \<or> rates_ok (scan_pricing x)" using books_okD(3) [OF k] by (auto simp: costs_ok_def)
  qed
  moreover have "same_money s ?s" "accounts ?s = accounts s" "next_account ?s = next_account s" "stats ?s = stats s" "token_frame s ?s"
    by (auto simp: d same_money_def intro!: token_frame_same split: sum.splits)
  ultimately show ?thesis using k platform_same [of s ?s] costs_inv_price [of s ?s] tokens_inv_frame [of s ?s] by (simp add: books_ok_def)
qed

lemma add_credits_holds: "holds (snd (add_credits f a x s)) = holds s"
proof (cases "add_credits f a x s")
  case (Pair r s')
  show ?thesis
  proof (cases r)
    case (Inl e)
    then show ?thesis using Pair by (auto simp: add_credits_def dest: transact_Inl)
  next
    case (Inr u)
    then have "add_credits f a x s = (Inr u, s')" using Pair by simp
    then show ?thesis by (rule add_credits_Inr) (simp add: Pair)
  qed
qed

lemma file_request_books:
  assumes b: "books_ok s" shows "books_ok (snd (file_credit_request f now a s)) \<and> pending_set (snd (file_credit_request f now a s)) = pending_set s"
proof -
  let ?s = "snd (file_credit_request f now a s)"
  have "same_money s ?s" "accounts ?s = accounts s" "next_account ?s = next_account s" "pricing ?s = pricing s" "stats ?s = stats s" "token_frame s ?s"
    by (auto simp: file_credit_request_def sql_def stmt_def same_money_def intro!: token_frame_same)
  then show ?thesis using books_same [OF b] by (auto simp: pending_set_def same_money_def)
qed

lemma account_op_books:
  assumes "books_ok s" "op_allowed a"
  shows "books_ok (run_account_op f now a s) \<and> pending_set (run_account_op f now a s) = pending_set s"
proof (cases a)
  case (OpGrant p b)
  then show ?thesis using grant_handler_db [of "\<lambda>_. f" p b s] ledger_books(1) [OF assms(1)] assms(1) add_credits_holds
    by (auto simp: pending_set_def)
next
  case (OpAllowance ac x month)
  have "holds (snd (allowance_tx f ac x month s)) = holds s" by (cases rule: allowance_tx_cases [of f ac x month s]) simp_all
  then show ?thesis using OpAllowance allowance_books [OF assms(1)] by (simp add: pending_set_def)
next
  case (OpPrice b)
  have "holds (snd (admin_upsert_pricing (\<lambda>_. f) b s)) = holds s"
    by (auto simp: admin_upsert_pricing_def upsert_pricing_def sql_def stmt_def prog_simps dec_col_def split: sum.splits prod.splits if_splits)
  then show ?thesis using OpPrice price_handler_books [OF assms(1)] by (simp add: pending_set_def)
next
  case (OpUnprice p)
  have "holds (snd (admin_delete_pricing (\<lambda>_. f) p s)) = holds s"
    by (auto simp: admin_delete_pricing_def delete_pricing_def sql_def stmt_def prog_simps split: sum.splits)
  then show ?thesis using OpUnprice unprice_books [OF assms(1)] by (simp add: pending_set_def)
next
  case (OpAdminService grant)
  then show ?thesis using admin_service_books [OF assms(1)] assms(2) by (simp add: op_allowed_def)
qed (simp_all add: assms(1) sign_up_books bootstrap_books token_op_books first_sight_books lookup_books backfill_user_books
    backfill_keys_books backfill_balances_books backfill_events_books create_account_books init_balance_books file_request_books
    del: run_token_op.simps)

text \<open>Whatever else the program commits: users, keys, sessions, nodes, credit requests, usage rows, account settings.\<close>

definition off_books :: "db \<Rightarrow> db \<Rightarrow> bool" where
  "off_books s s' \<longleftrightarrow> same_money s s' \<and> map ac_id (accounts s') = map ac_id (accounts s) \<and> next_account s' = next_account s \<and>
     pricing s' = pricing s \<and> stats s' = stats s \<and> token_frame s s'"

lemma off_books: "books_ok s \<Longrightarrow> off_books s s' \<Longrightarrow> books_ok s' \<and> pending_set s' = pending_set s"
  using books_same [of s s'] by (simp add: off_books_def pending_set_def same_money_def)

end
