(* ===== verification/Platform.thy ===== *)
theory Platform
  imports Books
begin

text \<open>
  The platform as a state machine: many chat requests in flight at once, interleaved with the
  sweeper, the clean-up, the usage writer, every operation of theory Books, commits that leave the
  books alone, crashes and restarts of the process, and changes of the routing. The state is the
  gateway, the requests between their admission and their answer, and the clock. \<open>pf_lost\<close> is
  bookkeeping: the holds whose request was cut off by a crash, and those whose closing transaction
  returned an error. A request that ends in any other way enters nothing there.
\<close>

section \<open>The machine\<close>

record platform =
  pf_gateway :: gateway
  pf_live :: "admitted list"
  pf_lost :: "int list"
  pf_now :: gotime

abbreviation pf_db :: "platform \<Rightarrow> db" where
  "pf_db p \<equiv> gw_db (pf_gateway p)"

definition on_platform :: "(db \<Rightarrow> db) \<Rightarrow> platform \<Rightarrow> platform" where
  "on_platform f p = p\<lparr>pf_gateway := (pf_gateway p)\<lparr>gw_db := f (pf_db p)\<rparr>\<rparr>"

text \<open>What an exchange with an upstream depends on, and the end of one request in flight.\<close>

record exchange =
  ex_up :: "upstream_request \<Rightarrow> upstream_reply"
  ex_faults :: "nat \<Rightarrow> faults"
  ex_conf :: proxy_conf
  ex_key :: "auth_key option"
  ex_flusher :: bool

definition closing_failed :: "json_lib \<Rightarrow> (string \<Rightarrow> string \<Rightarrow> string option) \<Rightarrow> exchange \<Rightarrow> admitted \<Rightarrow> platform \<Rightarrow> bool" where
  "closing_failed jl join x am p =
     closing_error (ex_faults x) (pf_now p) am (exchange_end jl join (ex_up x) (px_max_body (ex_conf x)) am (ex_flusher x)) (pf_db p)"

definition finish :: "json_lib \<Rightarrow> (string \<Rightarrow> string \<Rightarrow> string option) \<Rightarrow> exchange \<Rightarrow> admitted \<Rightarrow> platform \<Rightarrow> platform" where
  "finish jl join x am p =
     (let g = snd (forward jl join (ex_up x) (ex_faults x) (ex_conf x) (pf_now p) (ex_key x) am (ex_flusher x) (pf_gateway p)) in
     p\<lparr>pf_gateway := g, pf_live := remove1 am (pf_live p),
       pf_lost := (if am_enabled am \<and> closing_failed jl join x am p then am_hold am # pf_lost p else pf_lost p)\<rparr>)"

inductive platform_step :: "json_lib \<Rightarrow> (string \<Rightarrow> string \<Rightarrow> string option) \<Rightarrow> platform \<Rightarrow> platform \<Rightarrow> bool" for jl join where
  admit: "chat_admit jl f (\<lambda>_. id) (pf_now p) key res b (pf_gateway p) = ((Inr am, hit), g) \<Longrightarrow>
     platform_step jl join p (p\<lparr>pf_gateway := g, pf_live := am # pf_live p\<rparr>)"
| refuse: "chat_admit jl f (\<lambda>_. id) (pf_now p) key res b (pf_gateway p) = ((Inl e, hit), g) \<Longrightarrow>
     platform_step jl join p (p\<lparr>pf_gateway := g\<rparr>)"
| finish: "am \<in> set (pf_live p) \<Longrightarrow> platform_step jl join p (finish jl join x am p)"
| sweep: "platform_step jl join p (on_platform (sweeper_tick f fs (pf_now p)) p)"
| cleanup: "platform_step jl join p (on_platform (cleanup_tick f (pf_now p)) p)"
| account: "op_allowed a \<Longrightarrow> platform_step jl join p (on_platform (run_account_op f (pf_now p) a) p)"
| elsewhere: "off_books (pf_db p) s' \<Longrightarrow> platform_step jl join p (on_platform (\<lambda>_. s') p)"
| store_usage: "platform_step jl join p (p\<lparr>pf_gateway := write_next f (pf_now p) (pf_gateway p)\<rparr>)"
| route: "platform_step jl join p (p\<lparr>pf_gateway := (pf_gateway p)\<lparr>gw_reg := r\<rparr>\<rparr>)"
| crash: "platform_step jl join p (p\<lparr>pf_gateway := (pf_gateway p)\<lparr>gw_queue := []\<rparr>, pf_live := [],
     pf_lost := map am_hold (pf_live p) @ pf_lost p\<rparr>)"
| tick: "pf_now p \<le> t \<Longrightarrow> platform_step jl join p (p\<lparr>pf_now := t\<rparr>)"

inductive_cases platform_stepE: "platform_step jl join p q"

inductive platform_run :: "json_lib \<Rightarrow> (string \<Rightarrow> string \<Rightarrow> string option) \<Rightarrow> platform \<Rightarrow> bool" for jl join where
  boot: "books_ok s \<Longrightarrow> \<forall>h \<in> pending_set s. ch_created h \<le> t \<Longrightarrow>
     platform_run jl join \<lparr>pf_gateway = \<lparr>gw_db = s, gw_reg = r, gw_queue = []\<rparr>, pf_live = [],
       pf_lost = map ch_id (filter (\<lambda>h. ch_status h = Pending) (holds s)), pf_now = t\<rparr>"
| step: "platform_run jl join p \<Longrightarrow> platform_step jl join p q \<Longrightarrow> platform_run jl join q"

text \<open>Every pending hold is accounted for: its request is in flight, or it is lost.\<close>

definition platform_ok :: "platform \<Rightarrow> bool" where
  "platform_ok p \<longleftrightarrow> books_ok (pf_db p) \<and> (\<forall>h \<in> pending_set (pf_db p). ch_created h \<le> pf_now p \<and>
     (ch_id h \<in> set (pf_lost p) \<or> (\<exists>am \<in> set (pf_live p). am_enabled am \<and> am_hold am = ch_id h)))"

lemma platform_okD:
  assumes "platform_ok p" "h \<in> pending_set (pf_db p)"
  shows "ch_created h \<le> pf_now p" "ch_id h \<in> set (pf_lost p) \<or> (\<exists>am \<in> set (pf_live p). am_enabled am \<and> am_hold am = ch_id h)"
  using assms by (simp_all add: platform_ok_def)

lemma platform_okI:
  assumes "platform_ok p" "books_ok (pf_db q)" "pending_set (pf_db q) \<subseteq> pending_set (pf_db p)"
    "pf_now p \<le> pf_now q" "set (pf_lost p) \<subseteq> set (pf_lost q)" "set (pf_live p) \<subseteq> set (pf_live q)"
  shows "platform_ok q"
  using assms unfolding platform_ok_def by (meson order_trans subsetD)

lemma on_platform_simps [simp]:
  "pf_db (on_platform f p) = f (pf_db p)" "pf_now (on_platform f p) = pf_now p"
  "pf_lost (on_platform f p) = pf_lost p" "pf_live (on_platform f p) = pf_live p"
  by (simp_all add: on_platform_def)

lemma sweeper_pending: "pending_set (sweeper_tick f fs now s) \<subseteq> pending_set s"
proof -
  have "pending_set (snd (release_all fs now ids n s)) \<subseteq> pending_set s" for ids n
  proof (induction ids arbitrary: n s)
    case (Cons i ids)
    obtain r s' where r: "release_hold (fs n) now i s = (r, s')" by (metis prod.exhaust)
    have "pending_set s' \<subseteq> pending_set s" using release_hold_pending_set r ledger_atomic_release by (cases r) blast+
    then show ?case using Cons.IH [of _ s'] r by (auto split: sum.splits)
  qed simp
  then show ?thesis by (simp add: sweeper_tick_def sweep_stale_holds_def)
qed

lemma finish_ok:
  assumes p: "platform_ok p" shows "platform_ok (finish jl join x am p)"
proof -
  obtain r g where f: "forward jl join (ex_up x) (ex_faults x) (ex_conf x) (pf_now p) (ex_key x) am (ex_flusher x) (pf_gateway p) = (r, g)"
    by (metis prod.exhaust)
  let ?q = "finish jl join x am p"
  have q: "pf_gateway ?q = g" "pf_now ?q = pf_now p" "pf_live ?q = remove1 am (pf_live p)"
    "pf_lost ?q = (if am_enabled am \<and> closing_failed jl join x am p then am_hold am # pf_lost p else pf_lost p)"
    by (simp_all add: finish_def f Let_def)
  note b = forward_books [OF f]
  have lost: "am_hold am \<in> set (pf_lost ?q)" if "am_enabled am" "hold_open (am_hold am) (gw_db g)"
    using b(3) that p q(4) by (simp add: closing_failed_def platform_ok_def)
  have "ch_created h \<le> pf_now p \<and> (ch_id h \<in> set (pf_lost ?q) \<or> (\<exists>am' \<in> set (pf_live ?q). am_enabled am' \<and> am_hold am' = ch_id h))"
    if h: "h \<in> pending_set (gw_db g)" for h
  proof -
    have "h \<in> pending_set (pf_db p)" using b(2) h p by (auto simp: platform_ok_def)
    then have c: "ch_created h \<le> pf_now p" "ch_id h \<in> set (pf_lost p) \<or> (\<exists>am' \<in> set (pf_live p). am_enabled am' \<and> am_hold am' = ch_id h)"
      using p by (auto simp: platform_ok_def)
    have "hold_open (ch_id h) (gw_db g)" using h by (auto simp: hold_open_def pending_set_def)
    then show ?thesis using c lost in_set_remove1 by (metis q(3,4) set_subset_Cons subsetD)
  qed
  then show ?thesis using b(1) p q by (simp add: platform_ok_def)
qed

lemma write_next_books:
  assumes "books_ok (gw_db g)"
  shows "books_ok (gw_db (write_next f now g)) \<and> pending_set (gw_db (write_next f now g)) = pending_set (gw_db g)"
proof (cases "gw_queue g")
  case (Cons e q)
  let ?s = "snd (log_usage f now e (gw_db g))"
  have "same_money (gw_db g) ?s" "accounts ?s = accounts (gw_db g)" "next_account ?s = next_account (gw_db g)"
    "pricing ?s = pricing (gw_db g)" "stats ?s = stats (gw_db g)" "token_frame (gw_db g) ?s"
    by (auto simp: log_usage_def sql_def stmt_def prog_simps same_money_def dec_col_def intro!: token_frame_same)
  then show ?thesis using Cons books_same [OF assms] by (auto simp: write_next_def pending_set_def same_money_def)
qed (use assms in \<open>simp add: write_next_def\<close>)

lemma step_ok:
  assumes "platform_step jl join p q" and p: "platform_ok p" shows "platform_ok q"
  using assms(1)
proof cases
  case (admit f key res b am hit g)
  note a = admit_books [OF admit(2)]
  have "books_ok (pf_db p)" using p by (simp add: platform_ok_def)
  then show ?thesis using a p admit(1) by (fastforce simp: platform_ok_def)
next
  case (refuse f key res b e hit g)
  then have "gw_db g = pf_db p" using refused_db [OF refuse(2)] by auto
  then show ?thesis using p refuse(1) by (simp add: platform_ok_def)
next
  case (finish am x)
  then show ?thesis using finish_ok [OF p] by simp
next
  case (sweep f fs)
  then show ?thesis using sweeper_books sweeper_pending p by (intro platform_okI [OF p]) (auto simp: platform_ok_def)
next
  case (cleanup f)
  have "pending_set (cleanup_tick f (pf_now p) s) \<subseteq> pending_set s" for s
    by (auto simp: cleanup_tick_def cleanup_settled_holds_def sql_def stmt_def Let_def pending_set_def)
  then show ?thesis using cleanup cleanup_books p by (intro platform_okI [OF p]) (auto simp: platform_ok_def)
next
  case (account a f)
  then show ?thesis using account_op_books p by (intro platform_okI [OF p]) (auto simp: platform_ok_def)
next
  case (elsewhere s')
  then show ?thesis using off_books [of "pf_db p" s'] p by (intro platform_okI [OF p]) (auto simp: platform_ok_def)
next
  case (store_usage f)
  then show ?thesis using write_next_books [of "pf_gateway p"] p by (intro platform_okI [OF p]) (auto simp: platform_ok_def)
next
  case (route r)
  then show ?thesis using p by (simp add: platform_ok_def)
next
  case crash
  have "ch_id h \<in> am_hold ` set (pf_live p) \<union> set (pf_lost p)" if "h \<in> pending_set (pf_db p)" for h
    using platform_okD(2) [OF p that] by force
  then show ?thesis using crash p by (simp add: platform_ok_def)
next
  case (tick t)
  then show ?thesis using p by (intro platform_okI [OF p]) (auto simp: platform_ok_def)
qed

lemma run_ok: "platform_run jl join p \<Longrightarrow> platform_ok p"
proof (induction rule: platform_run.induct)
  case (boot s t r)
  then show ?case by (simp add: platform_ok_def) (simp add: pending_set_def)
next
  case (step p q)
  then show ?case by (simp add: step_ok)
qed

text \<open>
  C3: Whatever the order of events, the books balance. The machine interleaves admissions, answers,
  sweeps, clean-ups, the usage writer, every operation that writes a balance or an account (grants,
  allowances, sign-ups, registrations with a token, first sights of forwarded identities, the
  bootstrap of the administrator, the admin service account and the backfills of a starting
  process), commits that leave the books alone, failures of any statement, and crashes. In every
  state it can reach, each account's reserved amount is the sum of its pending holds, its balance
  is the one its last audit row recorded and is zero where there is none, and every pending hold
  belongs to a request in flight, or to one whose closing transaction returned an error, or to
  one that a crash cut off.
\<close>
theorem books_balance:
  assumes "platform_run jl join p"
  shows "(\<forall>a cb. balances (pf_db p) a = Some cb \<longrightarrow>
      cb_reserved cb = pending_sum a (holds (pf_db p)) \<and> cb_balance cb = last_after a (transactions (pf_db p))) \<and>
    (\<forall>h \<in> pending_set (pf_db p). ch_created h \<le> pf_now p \<and>
      (ch_id h \<in> set (pf_lost p) \<or> (\<exists>am \<in> set (pf_live p). am_enabled am \<and> am_hold am = ch_id h)))"
proof -
  have ok: "platform_ok p" by (rule run_ok [OF assms])
  then have "ledger_inv (pf_db p)" "trail_inv (pf_db p)" using books_okD by (auto simp: platform_ok_def)
  then show ?thesis using ok unfolding platform_ok_def ledger_inv_def trail_inv_def by blast
qed

section \<open>The platform comes to rest\<close>

fun finish_all :: "json_lib \<Rightarrow> (string \<Rightarrow> string \<Rightarrow> string option) \<Rightarrow> exchange list \<Rightarrow> platform \<Rightarrow> platform" where
  "finish_all jl join [] p = p"
| "finish_all jl join (x # xs) p = (case pf_live p of [] \<Rightarrow> p | am # _ \<Rightarrow> finish_all jl join xs (finish jl join x am p))"

lemma finish_live [simp]: "pf_live (finish jl join x am p) = remove1 am (pf_live p)" "pf_now (finish jl join x am p) = pf_now p"
  by (simp_all add: finish_def Let_def)

lemma finish_all_run:
  assumes "platform_run jl join p" "length xs = length (pf_live p)"
  shows "platform_run jl join (finish_all jl join xs p) \<and> pf_live (finish_all jl join xs p) = [] \<and>
    pf_now (finish_all jl join xs p) = pf_now p \<and>
    set (pf_lost (finish_all jl join xs p)) \<subseteq> set (pf_lost p) \<union> am_hold ` set (pf_live p)"
  using assms
proof (induction xs arbitrary: p)
  case (Cons x xs)
  then obtain am rest where l: "pf_live p = am # rest" by (cases "pf_live p") auto
  let ?q = "finish jl join x am p"
  have q: "platform_run jl join ?q" "pf_live ?q = rest"
    using step [OF Cons.prems(1) platform_step.finish] l by auto
  have lost: "set (pf_lost ?q) \<subseteq> insert (am_hold am) (set (pf_lost p))" by (auto simp: finish_def Let_def)
  have "length xs = length (pf_live ?q)" using Cons.prems(2) l q(2) by simp
  note ih = Cons.IH [OF q(1) this]
  have fa: "finish_all jl join (x # xs) p = finish_all jl join xs ?q" using l by simp
  have "set (pf_lost ?q) \<union> am_hold ` set (pf_live ?q) \<subseteq> set (pf_lost p) \<union> am_hold ` set (pf_live p)" using lost l q(2) by auto
  then show ?case unfolding fa using ih by (simp del: Un_subset_iff) (blast intro: subset_trans)
qed simp

lemma drained: "gw_queue (drain_usage fs now k g) = []"
  by (simp add: drain_usage_rows)

lemma no_pending_no_reserve:
  assumes "ledger_inv s" "pending_set s = {}" "balances s a = Some cb" shows "cb_reserved cb = 0"
proof -
  have "pending_sum a hs = 0" if "\<forall>h \<in> set hs. ch_status h \<noteq> Pending" for hs
    using that by (induction hs) (auto simp: pending_amount_def)
  then show ?thesis using assms by (auto simp: ledger_inv_def pending_set_def)
qed

text \<open>
  C4: The platform always comes to rest. From every reachable state, however the requests in
  flight end (any upstream, any database failures), once they have ended nothing is in flight,
  and if every closing transaction went through no credit is reserved for any account. Holds
  that could not be closed, or that a crash left behind, delay this no longer than the first
  undisturbed sweep after the threshold; and draining the queue at shutdown leaves no usage entry
  behind.
\<close>
theorem platform_comes_to_rest:
  assumes "platform_run jl join p" "length xs = length (pf_live p)" "pf_now p + stale_threshold < t"
    and "q = finish_all jl join xs p" "d = sweeper_tick no_faults (\<lambda>_. no_faults) t (pf_db q)"
  shows "pf_live q = [] \<and> set (pf_lost q) \<subseteq> set (pf_lost p) \<union> am_hold ` set (pf_live p) \<and>
    (pf_lost q = [] \<longrightarrow> (\<forall>a cb. balances (pf_db q) a = Some cb \<longrightarrow> cb_reserved cb = 0)) \<and>
    pending_set d = {} \<and> (\<forall>a cb. balances d a = Some cb \<longrightarrow> cb_reserved cb = 0) \<and>
    gw_queue (drain_usage fs t k (pf_gateway q)) = []"
proof -
  have q: "platform_run jl join q" "pf_live q = []" "pf_now q = pf_now p" "set (pf_lost q) \<subseteq> set (pf_lost p) \<union> am_hold ` set (pf_live p)"
    using finish_all_run [OF assms(1,2)] assms(4) by simp_all
  have ok: "platform_ok q" by (rule run_ok [OF q(1)])
  then have inv: "books_ok (pf_db q)" by (simp add: platform_ok_def)
  have "pending_set (pf_db q) = {}" if "pf_lost q = []" using platform_okD(2) [OF ok] that q(2) by fastforce
  then have now: "pf_lost q = [] \<longrightarrow> (\<forall>a cb. balances (pf_db q) a = Some cb \<longrightarrow> cb_reserved cb = 0)"
    using no_pending_no_reserve books_okD(1) [OF inv] by blast
  have "pending_set d = {h \<in> pending_set (pf_db q). t - stale_threshold \<le> ch_created h}"
    using sweep_pending [OF books_okD(1) [OF inv]] by (simp add: assms(5) sweeper_tick_def)
  moreover have "ch_created h < t - stale_threshold" if "h \<in> pending_set (pf_db q)" for h
    using platform_okD(1) [OF ok that] q(3) assms(3) by simp
  ultimately have d: "pending_set d = {}" by fastforce
  have "ledger_inv d" using books_okD(1) [OF sweeper_books [OF inv]] by (simp add: assms(5))
  then show ?thesis using q(2,4) now d no_pending_no_reserve drained by blast
qed

section \<open>Example\<close>

definition demo_boot :: platform where
  "demo_boot = \<lparr>pf_gateway = demo_gateway, pf_live = [], pf_lost = [1], pf_now = 1000\<rparr>"

definition demo_busy :: platform where
  "demo_busy = demo_boot\<lparr>pf_gateway := demo_after, pf_live := [demo_admitted]\<rparr>"

definition demo_end :: exchange where
  "demo_end = \<lparr>ex_up = (\<lambda>_. Unreachable True), ex_faults = (\<lambda>_ _. True), ex_conf = demo_conf, ex_key = Some paying_key, ex_flusher = True\<rparr>"

lemma demo_books: "books_ok (gw_db demo_gateway)"
proof -
  have m: "same_money one_hold_db (gw_db demo_gateway)" by (simp add: same_money_def demo_gateway_def)
  have i: "platform_inv one_hold_db" by (simp add: platform_inv_def accounts_wf_def) (simp add: one_hold_db_def)
  have "platform_inv (gw_db demo_gateway)" by (rule platform_same [OF i m]) (simp_all add: demo_gateway_def)
  moreover have "stats (gw_db demo_gateway) k = None" for k by (simp add: demo_gateway_def one_hold_db_def empty_db_def)
  moreover have "tokens_inv (gw_db demo_gateway)" by (simp add: tokens_inv_def demo_gateway_def one_hold_db_def empty_db_def)
  ultimately show ?thesis using demo_gateway_ok(2) by (simp add: books_ok_def costs_inv_def)
qed

lemma demo_busy_run: "platform_run demo_json demo_join demo_busy"
proof -
  have h: "holds (gw_db demo_gateway) = [\<lparr>ch_id = 1, ch_account = 1, ch_amount = 2500000, ch_status = Pending, ch_created = 100, ch_settled = None\<rparr>]"
    by (simp add: demo_gateway_def one_hold_db_def)
  have b: "demo_boot = \<lparr>pf_gateway = \<lparr>gw_db = gw_db demo_gateway, gw_reg = gw_reg demo_gateway, gw_queue = []\<rparr>, pf_live = [],
      pf_lost = map ch_id (filter (\<lambda>h. ch_status h = Pending) (holds (gw_db demo_gateway))), pf_now = 1000\<rparr>"
    by (simp add: demo_boot_def h) (simp add: demo_gateway_def)
  have r: "platform_run demo_json demo_join demo_boot"
    unfolding b by (rule boot [OF demo_books]) (simp add: pending_set_def h)
  have "chat_admit demo_json (\<lambda>_. no_faults) (\<lambda>_. id) (pf_now demo_boot) (Some paying_key) None (Body ''req'') (pf_gateway demo_boot)
      = ((Inr demo_admitted, None), demo_after)"
    using demo_admission_ok by (simp add: demo_boot_def demo_after_def demo_admission_def prod_eq_iff)
  from platform_step.admit [OF this] have "platform_step demo_json demo_join demo_boot demo_busy" by (simp add: demo_busy_def demo_boot_def)
  then show ?thesis by (rule step [OF r])
qed

theorem books_balance_witness:
  "pending_sum 1 (holds (pf_db demo_busy)) = 2530003"
proof -
  have "balances (pf_db demo_busy) 1 = Some demo_balance" using demo_after_ok by (simp add: demo_busy_def demo_boot_def)
  then have "cb_reserved demo_balance = pending_sum 1 (holds (pf_db demo_busy))" using books_balance [OF demo_busy_run] by simp
  then show ?thesis by (simp add: demo_balance_def)
qed

theorem platform_comes_to_rest_witness:
  "pending_set (sweeper_tick no_faults (\<lambda>_. no_faults) (1001 + stale_threshold) (pf_db (finish_all demo_json demo_join [demo_end] demo_busy))) = {}"
proof -
  have "length [demo_end] = length (pf_live demo_busy)" "pf_now demo_busy + stale_threshold < 1001 + stale_threshold"
    by (simp_all add: demo_busy_def demo_boot_def)
  from platform_comes_to_rest [OF demo_busy_run this refl refl] show ?thesis by simp
qed

end
