(* ===== verification/Observability.thy ===== *)
theory Observability
  imports Operations
begin

text \<open>
  What the process tells about itself: the metrics (internal/metrics), the log level and the
  request id of a log line (internal/logging), the error envelope (internal/apierror). The
  Prometheus client is not part of the repository, so a metric operation is modelled as the
  calls it makes on the client, in order; a nil Metrics makes none. The writer of net/http is
  modelled by the calls it receives, with the number of bytes each write accepted.
\<close>

section \<open>Metrics\<close>

datatype metric_call = Inc string "string list" | Dec string "string list" | Add string "string list" rat
  | Set string "string list" rat | Delete string "string list" | Observe string "string list" rat

text \<open>A sink is None for the nil pointer, else the calls so far.\<close>

type_synonym metrics = "metric_call list option"

definition emit :: "metric_call list \<Rightarrow> metrics \<Rightarrow> metrics" where
  "emit cs m = map_option (\<lambda>xs. xs @ cs) m"

definition record_tokens :: "string \<Rightarrow> string \<Rightarrow> int \<Rightarrow> int \<Rightarrow> metrics \<Rightarrow> metrics" where
  "record_tokens model node prompt completion = emit
     ((if 0 < prompt then [Add ''aiproxy_tokens_total'' [model, ''prompt'', node] (f_of_int prompt)] else []) @
      (if 0 < completion then [Add ''aiproxy_tokens_total'' [model, ''completion'', node] (f_of_int completion)] else []))"

definition record_credit_gate_reject :: "metrics \<Rightarrow> metrics" where
  "record_credit_gate_reject = emit [Inc ''aiproxy_credit_gate_rejects_total'' []]"

definition record_stream_start :: "metrics \<Rightarrow> metrics" where
  "record_stream_start = emit [Inc ''aiproxy_streams_inflight'' []]"

definition record_stream_end :: "metrics \<Rightarrow> metrics" where
  "record_stream_end = emit [Dec ''aiproxy_streams_inflight'' []]"

definition record_account_rate_limit_reject :: "string \<Rightarrow> string \<Rightarrow> metrics \<Rightarrow> metrics" where
  "record_account_rate_limit_reject kind cls = emit [Inc ''aiproxy_account_ratelimit_rejects_total'' [kind, cls]]"

definition record_rate_limit_reject :: "metrics \<Rightarrow> metrics" where
  "record_rate_limit_reject = emit [Inc ''aiproxy_ratelimit_rejects_total'' []]"

definition record_usage_drop :: "metrics \<Rightarrow> metrics" where
  "record_usage_drop = emit [Inc ''aiproxy_usage_drops_total'' []]"

definition set_node_up :: "string \<Rightarrow> bool \<Rightarrow> metrics \<Rightarrow> metrics" where
  "set_node_up node up = emit [Set ''aiproxy_node_up'' [node] (if up then 1 else 0)]"

definition delete_node_up :: "string \<Rightarrow> metrics \<Rightarrow> metrics" where
  "delete_node_up node = emit [Delete ''aiproxy_node_up'' [node]]"

definition set_ollama_up :: "bool \<Rightarrow> metrics \<Rightarrow> metrics" where
  "set_ollama_up up = emit [Set ''aiproxy_ollama_up'' [] (if up then 1 else 0)]"

definition record_sweeper_run :: "string \<Rightarrow> store_error + int \<Rightarrow> metrics \<Rightarrow> metrics" where
  "record_sweeper_run oper res = emit (case res of
       Inl e \<Rightarrow> [Inc ''aiproxy_credit_sweeper_runs_total'' [oper, ''error'']]
     | Inr n \<Rightarrow> Inc ''aiproxy_credit_sweeper_runs_total'' [oper, ''success''] #
         (if 0 < n then [Add ''aiproxy_credit_sweeper_swept_total'' [oper] (f_of_int n)] else []))"

definition record_registration :: "string \<Rightarrow> metrics \<Rightarrow> metrics" where
  "record_registration source = emit [Inc ''aiproxy_registrations_total'' [source]]"

definition record_admin_auth_failure :: "string \<Rightarrow> metrics \<Rightarrow> metrics" where
  "record_admin_auth_failure reason = emit [Inc ''aiproxy_admin_auth_failures_total'' [reason]]"

section \<open>The connection pool\<close>

record pool_stat =
  pt_total :: int
  pt_acquired :: int
  pt_idle :: int
  pt_max :: int
  pt_constructing :: int
  pt_acquire_count :: int
  pt_acquire_duration :: duration
  pt_new_conns :: int
  pt_lifetime_destroys :: int
  pt_idle_destroys :: int
  pt_empty_acquires :: int
  pt_canceled_acquires :: int
  pt_empty_acquire_wait :: duration

datatype sample = Gauge string rat | Counter string rat

definition collect_pool :: "pool_stat option \<Rightarrow> sample list" where
  "collect_pool p = (case p of None \<Rightarrow> [] | Some s \<Rightarrow> [
     Gauge ''aiproxy_db_pool_total_connections'' (f_of_int (pt_total s)),
     Gauge ''aiproxy_db_pool_acquired_connections'' (f_of_int (pt_acquired s)),
     Gauge ''aiproxy_db_pool_idle_connections'' (f_of_int (pt_idle s)),
     Gauge ''aiproxy_db_pool_max_connections'' (f_of_int (pt_max s)),
     Gauge ''aiproxy_db_pool_constructing_connections'' (f_of_int (pt_constructing s)),
     Counter ''aiproxy_db_pool_acquire_count_total'' (f_of_int (pt_acquire_count s)),
     Counter ''aiproxy_db_pool_acquire_duration_seconds_total'' (duration_seconds (pt_acquire_duration s)),
     Counter ''aiproxy_db_pool_new_connections_total'' (f_of_int (pt_new_conns s)),
     Counter ''aiproxy_db_pool_lifetime_destroys_total'' (f_of_int (pt_lifetime_destroys s)),
     Counter ''aiproxy_db_pool_idle_destroys_total'' (f_of_int (pt_idle_destroys s)),
     Counter ''aiproxy_db_pool_empty_acquires_total'' (f_of_int (pt_empty_acquires s)),
     Counter ''aiproxy_db_pool_canceled_acquires_total'' (f_of_int (pt_canceled_acquires s)),
     Counter ''aiproxy_db_pool_empty_acquire_wait_seconds_total'' (duration_seconds (pt_empty_acquire_wait s))])"

section \<open>Instrumented handlers\<close>

text \<open>What a handler does to its writer; a write comes with the number of bytes accepted.\<close>

datatype writer_call = WriteHeader int | Write string nat | Flush

record status_writer =
  sw_status :: int
  sw_bytes :: int
  sw_wrote_header :: bool
  sw_inner :: "writer_call list"

definition new_status_writer :: status_writer where
  "new_status_writer = \<lparr>sw_status = 200, sw_bytes = 0, sw_wrote_header = False, sw_inner = []\<rparr>"

text \<open>Flush reaches the inner writer only when that can flush.\<close>

fun status_write :: "bool \<Rightarrow> writer_call \<Rightarrow> status_writer \<Rightarrow> status_writer" where
  "status_write flusher (WriteHeader code) w =
     (let w1 = (if sw_wrote_header w then w else w\<lparr>sw_status := code, sw_wrote_header := True\<rparr>) in w1\<lparr>sw_inner := sw_inner w1 @ [WriteHeader code]\<rparr>)"
| "status_write flusher (Write b n) w = w\<lparr>sw_wrote_header := True, sw_inner := sw_inner w @ [Write b n], sw_bytes := sw_bytes w + int n\<rparr>"
| "status_write flusher Flush w = (if flusher then w\<lparr>sw_inner := sw_inner w @ [Flush]\<rparr> else w)"

definition run_writer :: "bool \<Rightarrow> writer_call list \<Rightarrow> status_writer" where
  "run_writer flusher cs = fold (status_write flusher) cs new_status_writer"

text \<open>
  InstrumentHandler around a handler that makes the writer calls \<open>cs\<close> and takes d; it is
  only installed when there are metrics.
\<close>

definition instrument_handler ::
  "(int \<Rightarrow> string) \<Rightarrow> string \<Rightarrow> int \<Rightarrow> duration \<Rightarrow> bool \<Rightarrow> writer_call list \<Rightarrow> metric_call list \<Rightarrow> writer_call list \<times> metric_call list" where
  "instrument_handler itoa verb content_length d flusher cs xs = (let w = run_writer flusher cs; status = itoa (sw_status w) in
     (sw_inner w, xs @ [Observe ''aiproxy_request_duration_seconds'' [verb, status] (duration_seconds d),
         Inc ''aiproxy_requests_total'' [verb, status]] @
        (if 0 \<le> content_length then [Observe ''aiproxy_http_request_body_bytes'' [verb] (f_of_int content_length)] else []) @
        [Observe ''aiproxy_http_response_body_bytes'' [verb, status] (f_of_int (sw_bytes w))]))"

text \<open>
  The status the client sees: net/http sends the first final status written, or 200 with
  the first byte of the body (a flush sends the header, too) or at the end; a later WriteHeader
  is superfluous. The gateway writes no informational status.
\<close>

fun status_sent :: "writer_call list \<Rightarrow> int" where
  "status_sent [] = 200"
| "status_sent (WriteHeader code # cs) = code"
| "status_sent (Write b n # cs) = 200"
| "status_sent (Flush # cs) = 200"

definition bytes_sent :: "writer_call list \<Rightarrow> int" where
  "bytes_sent cs = sum_list (map (\<lambda>c. case c of Write b n \<Rightarrow> int n | _ \<Rightarrow> 0) cs)"

lemma status_write_final:
  "sw_wrote_header w \<Longrightarrow> sw_status (fold (status_write flusher) cs w) = sw_status w"
proof (induction cs arbitrary: w)
  case (Cons c cs)
  then show ?case by (cases c) (simp_all add: Let_def)
qed simp

lemma status_write_bytes: "sw_bytes (fold (status_write flusher) cs w) = sw_bytes w + bytes_sent cs"
proof (induction cs arbitrary: w)
  case (Cons c cs)
  then show ?case by (cases c) (simp_all add: Let_def bytes_sent_def)
qed (simp add: bytes_sent_def)

lemma status_write_inner: "sw_inner (fold (status_write flusher) cs w) = sw_inner w @ filter (\<lambda>c. flusher \<or> c \<noteq> Flush) cs"
proof (induction cs arbitrary: w)
  case (Cons c cs)
  then show ?case by (cases c) (simp_all add: Let_def)
qed simp

lemma status_recorded:
  assumes "cs = [] \<or> hd cs \<noteq> Flush" shows "sw_status (run_writer flusher cs) = status_sent cs"
proof (cases cs)
  case (Cons c rest)
  then show ?thesis using assms status_write_final by (cases c) (simp_all add: run_writer_def new_status_writer_def Let_def)
qed (simp add: run_writer_def new_status_writer_def)

text \<open>
  Instrumentation is transparent and exact. The client's connection receives the handler's
  calls, in order (a flush is dropped exactly when the connection cannot flush); each request is
  counted once, under the status the client sees, as long as the handler does not flush
  before it writes; and the response size is the number of bytes accepted.
\<close>
theorem instrument_exact:
  assumes "instrument_handler itoa verb n d flusher cs xs = (inner, ys)" "cs = [] \<or> hd cs \<noteq> Flush"
  shows "inner = filter (\<lambda>c. flusher \<or> c \<noteq> Flush) cs \<and>
    filter (\<lambda>c. \<exists>l. c = Inc ''aiproxy_requests_total'' l) (drop (length xs) ys) = [Inc ''aiproxy_requests_total'' [verb, itoa (status_sent cs)]] \<and>
    last ys = Observe ''aiproxy_http_response_body_bytes'' [verb, itoa (status_sent cs)] (f_of_int (bytes_sent cs))"
  using assms(1) status_recorded [OF assms(2), of flusher]
  by (auto simp: instrument_handler_def emit_def Let_def run_writer_def status_write_bytes status_write_inner new_status_writer_def)

theorem instrument_exact_witness:
  "\<exists>ys. instrument_handler (\<lambda>_. ''200'') ''POST'' 3 0 True [Write ''ab'' 2, Flush, WriteHeader 500] [] = ([Write ''ab'' 2, Flush, WriteHeader 500], ys) \<and>
     last ys = Observe ''aiproxy_http_response_body_bytes'' [''POST'', ''200''] (f_of_int 2)"
proof -
  let ?cs = "[Write ''ab'' 2, Flush, WriteHeader 500]"
  obtain inner ys where i: "instrument_handler (\<lambda>_. ''200'') ''POST'' 3 0 True ?cs [] = (inner, ys)"
    by (simp add: instrument_handler_def emit_def Let_def)
  from instrument_exact [OF this] have "inner = ?cs" "last ys = Observe ''aiproxy_http_response_body_bytes'' [''POST'', ''200''] (f_of_int 2)"
    by (simp_all add: bytes_sent_def)
  then show ?thesis using i by blast
qed

section \<open>What the layers report\<close>

text \<open>The rate-limit middleware (internal/ratelimit/middleware.go): at the entry and at the end of a request.\<close>

definition class_label :: "bool \<Rightarrow> string" where
  "class_label managed = (if managed then ''enduser'' else ''service'')"

definition metered_enter ::
  "limits \<Rightarrow> gotime \<Rightarrow> auth_key option \<Rightarrow> resolution option \<Rightarrow> bool \<Rightarrow> gate_state \<Rightarrow> metrics \<Rightarrow> ((api_error + int option) \<times> gate_state) \<times> metrics" where
  "metered_enter l now key res is_get g m = (let r = rate_gate_enter l now key res is_get g in (r,
     (case (key, res) of (None, _) \<Rightarrow> m
      | (Some k, Some rs) \<Rightarrow>
          (case limiter_allow (gt_accounts g) now (br_account rs) (effective_limit (br_rate rs) (br_managed rs) l) of
             ((False, _), _) \<Rightarrow> record_account_rate_limit_reject ''rate'' (class_label (br_managed rs)) m
           | ((True, _), _) \<Rightarrow>
               (case limiter_allow (gt_keys g) now (ak_id (au_key k)) (ak_rate_limit (au_key k)) of
                  ((False, _), _) \<Rightarrow> record_rate_limit_reject m
                | ((True, _), _) \<Rightarrow> if is_get then m else
                    (case fst r of Inl e \<Rightarrow> record_account_rate_limit_reject ''concurrency'' (class_label (br_managed rs)) m
                     | Inr _ \<Rightarrow> record_stream_start m)))
      | (Some k, None) \<Rightarrow>
          (case limiter_allow (gt_keys g) now (ak_id (au_key k)) (ak_rate_limit (au_key k)) of
             ((False, _), _) \<Rightarrow> record_rate_limit_reject m | ((True, _), _) \<Rightarrow> m))))"

definition metered_leave :: "int option \<Rightarrow> gate_state \<Rightarrow> metrics \<Rightarrow> gate_state \<times> metrics" where
  "metered_leave slot g m = (rate_gate_leave slot g, case slot of None \<Rightarrow> m | Some a \<Rightarrow> record_stream_end m)"

text \<open>A tick of the sweeper with its report, and the publication of a probe's outcome.\<close>

definition reported_sweep :: "faults \<Rightarrow> (nat \<Rightarrow> faults) \<Rightarrow> gotime \<Rightarrow> db \<times> metrics \<Rightarrow> db \<times> metrics" where
  "reported_sweep f fs now x = (case x of (s, m) \<Rightarrow> (case sweep_stale_holds f fs now stale_threshold s of
     ((n, None), s') \<Rightarrow> (s', record_sweeper_run ''stale_holds'' (Inr (int n)) m)
   | ((n, Some e), s') \<Rightarrow> (s', record_sweeper_run ''stale_holds'' (Inl e) m)))"

text \<open>The credit gate (internal/credits/middleware.go) counts its refusals, a failed lookup apart.\<close>

definition metered_credit_gate ::
  "faults \<Rightarrow> auth_key option \<Rightarrow> resolution option \<Rightarrow> db \<Rightarrow> metrics \<Rightarrow> ((api_error + unit) \<times> int option) \<times> metrics" where
  "metered_credit_gate f key res s m = (let r = credit_gate f key res s in
     (r, case fst r of Inl e \<Rightarrow> if ae_status e = 500 then m else record_credit_gate_reject m | Inr _ \<Rightarrow> m))"

text \<open>The admin middleware (internal/admin/admin.go): the reason is the code of the reply but for a missing credential.\<close>

definition metered_admin_auth ::
  "(string \<Rightarrow> string) \<Rightarrow> string \<Rightarrow> (nat \<Rightarrow> faults) \<Rightarrow> gotime \<Rightarrow> string \<Rightarrow> string \<Rightarrow> (admin_gate \<times> db) \<times> metrics \<Rightarrow>
     (api_error + session option) \<times> (admin_gate \<times> db) \<times> metrics" where
  "metered_admin_auth hash admin_key fs now key_header auth_header x = (case x of ((g, s), m) \<Rightarrow>
     (case admin_auth hash admin_key fs now key_header auth_header g s of (r, g', s') \<Rightarrow>
       (r, (g', s'), case r of Inr _ \<Rightarrow> m
          | Inl e \<Rightarrow> if ae_status e = 500 then m else if ae_status e = 429 then record_rate_limit_reject m
              else record_admin_auth_failure (if ae_code e = ''missing_admin_key'' then ''missing_credentials'' else ae_code e) m)))"

section \<open>The gauge of requests in flight\<close>

definition gauge :: "string \<Rightarrow> metric_call list \<Rightarrow> int" where
  "gauge name cs = sum_list (map (\<lambda>c. if c = Inc name [] then 1 else if c = Dec name [] then -1 else 0) cs)"

lemma gauge_append [simp]: "gauge name (xs @ ys) = gauge name xs + gauge name ys"
  by (simp add: gauge_def)

text \<open>Requests entering, refused and leaving, with what the middleware has reported.\<close>

inductive metered_run :: "limits \<Rightarrow> gate_state \<Rightarrow> metric_call list \<Rightarrow> int list \<Rightarrow> bool" for l where
  metered_start: "gt_conc g = Map.empty \<Longrightarrow> metered_run l g [] []"
| metered_admit: "metered_run l g cs held \<Longrightarrow> metered_enter l now key res is_get g (Some cs) = ((Inr slot, g'), Some cs') \<Longrightarrow>
     metered_run l g' cs' (case slot of None \<Rightarrow> held | Some a \<Rightarrow> a # held)"
| metered_refuse: "metered_run l g cs held \<Longrightarrow> metered_enter l now key res is_get g (Some cs) = ((Inl e, g'), Some cs') \<Longrightarrow>
     metered_run l g' cs' held"
| metered_end: "metered_run l g cs (xs @ a # ys) \<Longrightarrow> metered_leave (Some a) g (Some cs) = (g', Some cs') \<Longrightarrow>
     metered_run l g' cs' (xs @ ys)"

lemma metered_enter_gauge:
  assumes "metered_enter l now key res is_get g (Some cs) = ((r, g'), Some cs')"
  shows "rate_gate_enter l now key res is_get g = (r, g') \<and>
    gauge ''aiproxy_streams_inflight'' cs' = gauge ''aiproxy_streams_inflight'' cs + (case r of Inr (Some a) \<Rightarrow> 1 | _ \<Rightarrow> 0)"
proof (cases key)
  case None
  then show ?thesis using assms by (auto simp: metered_enter_def rate_gate_enter_def)
next
  case (Some k)
  obtain key_ok kr keys1 where k: "limiter_allow (gt_keys g) now (ak_id (au_key k)) (ak_rate_limit (au_key k)) = ((key_ok, kr), keys1)"
    by (metis prod.exhaust)
  note defs = metered_enter_def rate_gate_enter_def Some Let_def gauge_def emit_def record_rate_limit_reject_def
    record_account_rate_limit_reject_def record_stream_start_def
  show ?thesis
  proof (cases res)
    case None
    then show ?thesis using assms k by (cases key_ok) (auto simp: defs)
  next
    case (Some rs)
    obtain acc_ok ar accs where a: "limiter_allow (gt_accounts g) now (br_account rs) (effective_limit (br_rate rs) (br_managed rs) l) = ((acc_ok, ar), accs)"
      by (metis prod.exhaust)
    obtain ok c where t: "try_acquire (gt_conc g) (br_account rs) (max_concurrent l (br_managed rs)) = (ok, c)" by (metis prod.exhaust)
    show ?thesis using assms Some k a t by (cases acc_ok; cases key_ok; cases is_get; cases ok) (auto simp: defs)
  qed
qed

text \<open>
  C31: The gauge aiproxy_streams_inflight is exact: in every run of requests entering, being refused
  and leaving in any order, its value is the number of requests holding a concurrency slot,
  and the counters of the accounts are those requests account by account.
\<close>
theorem inflight_gauge_exact:
  assumes "metered_run l g cs held" "caps_positive l"
  shows "gauge ''aiproxy_streams_inflight'' cs = int (length held) \<and> in_use (gt_conc g) a = int (count_list held a)"
proof -
  have "gate_run l g held \<and> gauge ''aiproxy_streams_inflight'' cs = int (length held)"
    using assms(1)
  proof (induction rule: metered_run.induct)
    case (metered_start g)
    then show ?case by (simp add: gate_start gauge_def)
  next
    case (metered_admit g cs held now key res is_get slot g' cs')
    note e = metered_enter_gauge [OF metered_admit.hyps(2)]
    then show ?case using metered_admit.IH gate_enter [of l g held] by (cases slot) fastforce+
  next
    case (metered_refuse g cs held now key res is_get e g' cs')
    note e = metered_enter_gauge [OF metered_refuse.hyps(2)]
    then show ?case using metered_refuse.IH gate_refuse [of l g held] by auto
  next
    case (metered_end g cs xs a ys g' cs')
    then have "g' = rate_gate_leave (Some a) g" "gauge ''aiproxy_streams_inflight'' cs' = gauge ''aiproxy_streams_inflight'' cs - 1"
      by (auto simp: metered_leave_def record_stream_end_def emit_def gauge_def)
    then show ?case using metered_end.IH gate_leave [of l g xs a ys] by simp
  qed
  then show ?thesis using gate_run_counts assms(2) by blast
qed

theorem inflight_gauge_exact_witness:
  "\<exists>g cs. metered_run demo_limits g cs [7] \<and> gauge ''aiproxy_streams_inflight'' cs = 1"
proof -
  define r :: resolution where "r = \<lparr>br_account = 7, br_managed = False, br_rate = None\<rparr>"
  define g0 :: gate_state where "g0 = \<lparr>gt_keys = Map.empty, gt_accounts = Map.empty, gt_conc = Map.empty\<rparr>"
  define x where "x = metered_enter demo_limits 0 (Some demo_auth) (Some r) False g0 (Some [])"
  have "fst (fst x) = Inr (Some 7)" "snd x = Some [Inc ''aiproxy_streams_inflight'' []]"
    unfolding x_def r_def g0_def by code_simp+
  then have e: "x = ((Inr (Some 7), snd (fst x)), Some [Inc ''aiproxy_streams_inflight'' []])" by (metis prod.collapse)
  have "metered_run demo_limits g0 [] []" by (rule metered_start) (simp add: g0_def)
  from metered_admit [OF this e [unfolded x_def]]
  have run: "metered_run demo_limits (snd (fst x)) [Inc ''aiproxy_streams_inflight'' []] [7]" by (simp add: x_def)
  have "caps_positive demo_limits" by (simp add: caps_positive_def demo_limits_def)
  from inflight_gauge_exact [OF run this] run show ?thesis by auto
qed

section \<open>The gauge of the nodes\<close>

text \<open>What the poller reports (internal/poller/poller.go), beside what it does.\<close>

definition any_healthy :: "poller \<Rightarrow> bool" where
  "any_healthy p = list_ex (\<lambda>s. case pl_state p (sp_id s) of None \<Rightarrow> False | Some st \<Rightarrow> rn_health st = HealthHealthy) (pl_specs p)"

text \<open>The code visits the map of states, whose keys are among the loaded nodes: the same nodes.\<close>

lemma any_healthy_states:
  assumes "dom (pl_state p) \<subseteq> sp_id ` set (pl_specs p)"
  shows "any_healthy p \<longleftrightarrow> (\<exists>st \<in> ran (pl_state p). rn_health st = HealthHealthy)"
  using assms unfolding any_healthy_def list_ex_iff ran_def by (fastforce split: option.splits)

definition reported_reconcile_spec :: "node_spec \<Rightarrow> poller \<times> metrics \<Rightarrow> poller \<times> metrics" where
  "reported_reconcile_spec s x = (case x of (p, m) \<Rightarrow> (reconcile_spec s p,
     case pl_state p (sp_id s) of None \<Rightarrow> m
     | Some st \<Rightarrow> if rn_name st \<noteq> sp_name s then delete_node_up (rn_name st) m else m))"

text \<open>The states of vanished nodes are visited in the order of the map, a parameter.\<close>

definition reported_reconcile :: "int list \<Rightarrow> node_spec list \<Rightarrow> poller \<times> metrics \<Rightarrow> poller \<times> metrics" where
  "reported_reconcile order specs x = (case fold reported_reconcile_spec specs x of (p1, m1) \<Rightarrow>
     let p2 = p1\<lparr>pl_state := (\<lambda>i. if i \<in> sp_id ` set specs then pl_state p1 i else None), pl_specs := specs\<rparr>;
         gone = List.map_filter (\<lambda>i. if i \<in> sp_id ` set specs then None else map_option rn_name (pl_state p1 i)) order
     in (p2, set_ollama_up (any_healthy p2) (fold delete_node_up gone m1)))"

definition reported_probe :: "gotime \<Rightarrow> bool \<Rightarrow> node_spec \<Rightarrow> probe_outcome \<Rightarrow> poller \<times> metrics \<Rightarrow> poller \<times> metrics" where
  "reported_probe now sweep s out x = (case x of (p, m) \<Rightarrow> (case pl_state p (sp_id s) of None \<Rightarrow> (p, m)
     | Some st \<Rightarrow> let p1 = apply_probe now sweep s out p;
           up = (rn_health (next_runtime now sweep out st) = HealthHealthy)
         in (p1, set_ollama_up (any_healthy p1) (set_node_up (sp_name s) up m))))"

text \<open>The series of a gauge vector.\<close>

fun series_step :: "string \<Rightarrow> metric_call \<Rightarrow> (string list \<rightharpoonup> rat) \<Rightarrow> (string list \<rightharpoonup> rat)" where
  "series_step name (Set n ls v) f = (if n = name then f(ls \<mapsto> v) else f)"
| "series_step name (Delete n ls) f = (if n = name then f(ls := None) else f)"
| "series_step name _ f = f"

definition node_series :: "metric_call list \<Rightarrow> (string list \<rightharpoonup> rat)" where
  "node_series cs = fold (series_step ''aiproxy_node_up'') cs Map.empty"

lemma node_series_append: "node_series (xs @ ys) = fold (series_step ''aiproxy_node_up'') ys (node_series xs)"
  by (simp add: node_series_def)

lemma dom_deletes:
  "dom (fold (series_step ''aiproxy_node_up'') (map (\<lambda>v. Delete ''aiproxy_node_up'' [v]) vs) f) = dom f - (\<lambda>v. [v]) ` set vs"
  by (induction vs arbitrary: f) auto

definition stale_name :: "poller \<Rightarrow> node_spec \<Rightarrow> string option" where
  "stale_name p s = (case pl_state p (sp_id s) of None \<Rightarrow> None
     | Some st \<Rightarrow> if rn_name st \<noteq> sp_name s then Some (rn_name st) else None)"

lemma reported_reconcile_spec_stale:
  "reported_reconcile_spec s (p, Some cs) = (reconcile_spec s p,
     Some (cs @ (case stale_name p s of None \<Rightarrow> [] | Some v \<Rightarrow> [Delete ''aiproxy_node_up'' [v]])))"
  by (simp add: reported_reconcile_spec_def stale_name_def delete_node_up_def emit_def split: option.splits)

lemma reconcile_spec_named: "map_option rn_name (pl_state (reconcile_spec s p) (sp_id s)) = Some (sp_name s)"
  by (auto simp: reconcile_spec_def fresh_runtime_def Let_def split: option.splits)

lemma fold_reconcile_named:
  "distinct (map sp_id specs) \<Longrightarrow> s \<in> set specs \<Longrightarrow>
     map_option rn_name (pl_state (fold reconcile_spec specs p) (sp_id s)) = Some (sp_name s)"
  using reconcile_spec_named [of s] by (induction specs arbitrary: p) (auto simp: fold_reconcile_other)

lemma stale_name_reconciled: "sp_id t \<noteq> sp_id s \<Longrightarrow> stale_name (reconcile_spec s p) t = stale_name p t"
  by (simp add: stale_name_def reconcile_spec_other)

lemma fold_reported_reconcile:
  "distinct (map sp_id specs) \<Longrightarrow> fold reported_reconcile_spec specs (p, Some cs) =
     (fold reconcile_spec specs p, Some (cs @ map (\<lambda>v. Delete ''aiproxy_node_up'' [v]) (List.map_filter (stale_name p) specs)))"
proof (induction specs arbitrary: p cs)
  case (Cons s specs)
  have "List.map_filter (stale_name (reconcile_spec s p)) specs = List.map_filter (stale_name p) specs"
    using Cons.prems(1) by (induction specs) (auto simp: map_filter_simps stale_name_reconciled split: option.splits)
  then show ?case using Cons by (simp add: reported_reconcile_spec_stale map_filter_simps split: option.splits)
qed (simp add: map_filter_simps)

text \<open>
  No series outlives its node: in a run of reloads and probes in which a probe is applied
  while the node it probed still has its name, the series of aiproxy_node_up are those of
  nodes the poller currently knows.
\<close>

inductive gauge_run :: "poller \<Rightarrow> metric_call list \<Rightarrow> bool" where
  gauge_start: "pl_state p = Map.empty \<Longrightarrow> pl_specs p = [] \<Longrightarrow> gauge_run p []"
| gauge_registry: "gauge_run p cs \<Longrightarrow> gauge_run (p\<lparr>pl_reg := r\<rparr>) cs"
| gauge_reload: "gauge_run p cs \<Longrightarrow> distinct (map sp_id specs) \<Longrightarrow> dom (pl_state p) \<subseteq> set order \<Longrightarrow>
     reported_reconcile order specs (p, Some cs) = (p', Some cs') \<Longrightarrow> gauge_run p' cs'"
| gauge_probe: "gauge_run p cs \<Longrightarrow> s \<in> set (pl_specs p) \<Longrightarrow>
     reported_probe now sweep s out (p, Some cs) = (p', Some cs') \<Longrightarrow> gauge_run p' cs'"

definition gauge_ok :: "poller \<Rightarrow> metric_call list \<Rightarrow> bool" where
  "gauge_ok p cs \<longleftrightarrow> dom (node_series cs) \<subseteq> (\<lambda>s. [sp_name s]) ` set (pl_specs p) \<and>
     dom (pl_state p) \<subseteq> sp_id ` set (pl_specs p) \<and>
     (\<forall>s \<in> set (pl_specs p). map_option rn_name (pl_state p (sp_id s)) = Some (sp_name s))"

lemma gauge_okD: "gauge_ok p cs \<Longrightarrow> s \<in> set (pl_specs p) \<Longrightarrow> \<exists>st. pl_state p (sp_id s) = Some st \<and> rn_name st = sp_name s"
  unfolding gauge_ok_def by (blast dest: map_option_eq_Some [THEN iffD1] bspec)

lemma gauge_okI:
  assumes "dom (node_series cs) \<subseteq> (\<lambda>s. [sp_name s]) ` set (pl_specs p)" "dom (pl_state p) \<subseteq> sp_id ` set (pl_specs p)"
    "\<And>s. s \<in> set (pl_specs p) \<Longrightarrow> map_option rn_name (pl_state p (sp_id s)) = Some (sp_name s)"
  shows "gauge_ok p cs"
  using assms unfolding gauge_ok_def by blast

lemma fold_delete_node_up:
  "fold delete_node_up vs (Some cs) = Some (cs @ map (\<lambda>v. Delete ''aiproxy_node_up'' [v]) vs)"
  by (induction vs arbitrary: cs) (simp_all add: delete_node_up_def emit_def)

lemma map_filter_set: "set (List.map_filter f xs) = {y. \<exists>x \<in> set xs. f x = Some y}"
  by (induction xs) (auto simp: map_filter_simps split: option.splits)

lemma gauge_ok_reload:
  assumes ok: "gauge_ok p cs" and d: "distinct (map sp_id specs)" and ord: "dom (pl_state p) \<subseteq> set order"
    and r: "reported_reconcile order specs (p, Some cs) = (p', Some cs')"
  shows "gauge_ok p' cs'"
proof -
  let ?p1 = "fold reconcile_spec specs p"
  define gone where "gone = List.map_filter (\<lambda>i. if i \<in> sp_id ` set specs then None else map_option rn_name (pl_state ?p1 i)) order"
  define stale where "stale = List.map_filter (stale_name p) specs"
  have p': "pl_state p' = (\<lambda>i. if i \<in> sp_id ` set specs then pl_state ?p1 i else None)" "pl_specs p' = specs"
    using r by (auto simp: reported_reconcile_def fold_reported_reconcile [OF d] Let_def)
  obtain v where "cs' = cs @ map (\<lambda>v. Delete ''aiproxy_node_up'' [v]) (stale @ gone) @ [Set ''aiproxy_ollama_up'' [] v]"
    using r by (auto simp: reported_reconcile_def fold_reported_reconcile [OF d] Let_def fold_delete_node_up set_ollama_up_def emit_def
      gone_def stale_def)
  then have "node_series cs' = fold (series_step ''aiproxy_node_up'') (map (\<lambda>v. Delete ''aiproxy_node_up'' [v]) (stale @ gone)) (node_series cs)"
    by (simp add: node_series_append)
  then have dd: "dom (node_series cs') = dom (node_series cs) - (\<lambda>v. [v]) ` (set stale \<union> set gone)"
    using dom_deletes [of "stale @ gone"] by (simp only: set_append)
  have nm: "\<exists>t \<in> set specs. sp_name t = v" if v: "[v] \<in> dom (node_series cs)" "v \<notin> set stale" "v \<notin> set gone" for v
  proof -
    obtain s where s: "s \<in> set (pl_specs p)" "sp_name s = v" using ok v(1) by (auto simp: gauge_ok_def)
    then obtain st where st: "pl_state p (sp_id s) = Some st" "rn_name st = v" using gauge_okD [OF ok] by blast
    show ?thesis
    proof (cases "sp_id s \<in> sp_id ` set specs")
      case True
      then obtain t where t: "t \<in> set specs" "sp_id t = sp_id s" by auto
      have "stale_name p t \<noteq> Some v" using v(2) t(1) by (auto simp: stale_def map_filter_set)
      then have "sp_name t = v" using t(2) st by (auto simp: stale_name_def split: if_splits)
      then show ?thesis using t(1) by blast
    next
      case False
      then have "pl_state ?p1 (sp_id s) = Some st" using st(1) by (simp add: fold_reconcile_other)
      then have "v \<in> set gone" using False st ord by (auto simp: gone_def map_filter_set intro!: bexI [of _ "sp_id s"])
      then show ?thesis using v(3) by blast
    qed
  qed
  have sub: "dom (node_series cs) \<subseteq> (\<lambda>s. [sp_name s]) ` set (pl_specs p)" using ok by (simp add: gauge_ok_def)
  have "x \<in> (\<lambda>s. [sp_name s]) ` set specs" if x: "x \<in> dom (node_series cs')" for x
  proof -
    have "x \<in> (\<lambda>s. [sp_name s]) ` set (pl_specs p)" by (rule subsetD [OF sub]) (rule DiffD1 [OF x [unfolded dd]])
    then obtain v where v: "x = [v]" by blast
    then have "[v] \<in> dom (node_series cs)" "v \<notin> set stale" "v \<notin> set gone" using x dd by auto
    then show ?thesis using nm v by blast
  qed
  then have "dom (node_series cs') \<subseteq> (\<lambda>s. [sp_name s]) ` set (pl_specs p')" using p'(2) by blast
  moreover have "dom (pl_state p') \<subseteq> sp_id ` set (pl_specs p')" unfolding p' by (auto split: if_splits)
  moreover have "map_option rn_name (pl_state p' (sp_id s)) = Some (sp_name s)" if "s \<in> set (pl_specs p')" for s
    using that fold_reconcile_named [OF d, of s] by (simp add: p')
  ultimately show ?thesis by (rule gauge_okI)
qed

lemma gauge_ok_probe:
  assumes ok: "gauge_ok p cs" and s: "s \<in> set (pl_specs p)"
    and r: "reported_probe now sweep s out (p, Some cs) = (p', Some cs')"
  shows "gauge_ok p' cs'"
proof -
  obtain st where st: "pl_state p (sp_id s) = Some st" "rn_name st = sp_name s" using gauge_okD [OF ok s] by blast
  have p': "pl_state p' = (pl_state p)(sp_id s \<mapsto> next_runtime now sweep out st)" "pl_specs p' = pl_specs p"
    using r st by (auto simp: reported_probe_def apply_probe_def Let_def)
  have "dom (node_series cs') = insert [sp_name s] (dom (node_series cs))"
    using r st by (auto simp: reported_probe_def Let_def set_node_up_def set_ollama_up_def emit_def node_series_append)
  moreover have "dom (node_series cs) \<subseteq> (\<lambda>s. [sp_name s]) ` set (pl_specs p)" "dom (pl_state p) \<subseteq> sp_id ` set (pl_specs p)"
    using ok unfolding gauge_ok_def by blast+
  ultimately have d: "dom (node_series cs') \<subseteq> (\<lambda>s. [sp_name s]) ` set (pl_specs p')" "dom (pl_state p') \<subseteq> sp_id ` set (pl_specs p')"
    using s by (simp_all add: p')
  have "rn_name (next_runtime now sweep out st) = sp_name s"
    using st(2) by (simp add: next_runtime_def Let_def split: sum.splits)
  moreover have "sp_name t = sp_name s" if "t \<in> set (pl_specs p)" "sp_id t = sp_id s" for t
    using gauge_okD [OF ok that(1)] that(2) st by simp
  ultimately have "map_option rn_name (pl_state p' (sp_id t)) = Some (sp_name t)" if "t \<in> set (pl_specs p')" for t
    using gauge_okD [OF ok, of t] that by (auto simp: p')
  with d show ?thesis by (rule gauge_okI)
qed

theorem node_gauge_current:
  assumes "gauge_run p cs"
  shows "dom (node_series cs) \<subseteq> (\<lambda>s. [sp_name s]) ` set (pl_specs p)"
proof -
  have "gauge_ok p cs" using assms
  proof (induction rule: gauge_run.induct)
    case (gauge_start p)
    then show ?case by (simp add: gauge_ok_def node_series_def)
  next
    case (gauge_registry p cs r)
    then show ?case by (simp add: gauge_ok_def)
  qed (blast intro: gauge_ok_reload gauge_ok_probe)+
  then show ?thesis by (simp add: gauge_ok_def)
qed

definition gauge_spec :: node_spec where
  "gauge_spec = \<lparr>sp_id = 1, sp_name = ''a'', sp_url = ''u'', sp_backend = ''ollama'', sp_auth = [], sp_static = None, sp_health_path = []\<rparr>"

theorem node_gauge_current_witness:
  "\<exists>p cs. gauge_run p cs \<and> map sp_name (pl_specs p) = [''a''] \<and> dom (node_series cs) = {[''a'']}"
proof -
  let ?p0 = "new_poller" and ?ok = "Inr [''m'']" and ?cs = "[Set ''aiproxy_ollama_up'' [] 0, Set ''aiproxy_node_up'' [''a''] 1, Set ''aiproxy_ollama_up'' [] 1]"
  define p1 where "p1 = fst (reported_reconcile [] [gauge_spec] (?p0, Some []))"
  define p2 where "p2 = fst (reported_probe 0 False gauge_spec ?ok (p1, Some []))"
  note defs = reported_reconcile_def reported_reconcile_spec_def reconcile_spec_def new_poller_def Let_def map_filter_simps
    set_ollama_up_def emit_def any_healthy_def gauge_spec_def fresh_runtime_def
  have r1: "reported_reconcile [] [gauge_spec] (?p0, Some []) = (p1, Some [Set ''aiproxy_ollama_up'' [] 0])"
    unfolding p1_def by (simp add: defs)
  have s1: "pl_specs p1 = [gauge_spec]" "pl_state p1 1 = Some (fresh_runtime gauge_spec)" unfolding p1_def by (simp_all add: defs)
  have r2: "reported_probe 0 False gauge_spec ?ok (p1, Some [Set ''aiproxy_ollama_up'' [] 0]) =
      (p2, Some [Set ''aiproxy_ollama_up'' [] 0, Set ''aiproxy_node_up'' [''a''] 1, Set ''aiproxy_ollama_up'' [] 1])"
    unfolding p2_def using s1 by (simp add: reported_probe_def apply_probe_def next_runtime_def set_node_up_def defs)
  have s2: "pl_specs p2 = [gauge_spec]" unfolding p2_def using s1 by (simp add: reported_probe_def apply_probe_def gauge_spec_def Let_def)
  have "gauge_run ?p0 []" by (rule gauge_start) (simp_all add: new_poller_def)
  from gauge_reload [OF this _ _ r1] have "gauge_run p1 [Set ''aiproxy_ollama_up'' [] 0]" by (simp add: new_poller_def)
  from gauge_probe [OF this _ r2]
  have run: "gauge_run p2 ?cs" by (simp add: s1)
  from node_gauge_current [OF this] have "dom (node_series ?cs) \<subseteq> {[''a'']}"
    by (simp add: s2 gauge_spec_def)
  moreover have "[''a''] \<in> dom (node_series ?cs)"
    by (simp add: node_series_def)
  ultimately have "dom (node_series ?cs) = {[''a'']}" by blast
  moreover have "map sp_name (pl_specs p2) = [''a'']" by (simp add: s2 gauge_spec_def)
  ultimately show ?thesis using run by (intro exI [of _ p2] exI [of _ ?cs] conjI)
qed

text \<open>
  A probe that comes back after its node was renamed writes the gauge under the name it set
  out with, which no reload removes again: the poller forgets the old name with the rename.
\<close>

lemma stale_probe_revives_series:
  assumes "reported_probe now sweep s out (p, Some cs) = (p', Some cs')" "pl_state p (sp_id s) = Some st"
  shows "[sp_name s] \<in> dom (node_series cs') \<and> map_option rn_name (pl_state p' (sp_id s)) = Some (rn_name st)"
proof -
  have "rn_name (next_runtime now sweep out st) = rn_name st" by (simp add: next_runtime_def Let_def split: sum.splits)
  then show ?thesis using assms
    by (auto simp: reported_probe_def apply_probe_def Let_def set_node_up_def set_ollama_up_def emit_def node_series_append)
qed

section \<open>Logging\<close>

datatype log_level = LevelDebug | LevelInfo | LevelWarn | LevelError

text \<open>
  strings.ToLower as far as it matters here: beside the capital letters of ASCII only the dotted
  capital i (in UTF-8 the bytes 196 176) has an image among the letters of the levels.
\<close>

fun level_lower :: "string \<Rightarrow> string" where
  "level_lower (c # d # cs) = (if of_char c = (196 :: nat) \<and> of_char d = (176 :: nat) then CHR ''i'' # level_lower cs
     else lower_char c # level_lower (d # cs))"
| "level_lower cs = to_lower cs"

definition setup_logging :: "string \<Rightarrow> log_level option" where
  "setup_logging level = (let l = level_lower level in
     if l = ''debug'' then Some LevelDebug else if l = ''info'' then Some LevelInfo
     else if l = ''warn'' then Some LevelWarn else if l = ''error'' then Some LevelError else None)"

text \<open>The attributes of a record, given the request id of its context, empty for none.\<close>

definition handle_record :: "string \<Rightarrow> (string \<times> string) list \<Rightarrow> (string \<times> string) list" where
  "handle_record rid attrs = (if rid \<noteq> [] then attrs @ [(''request_id'', rid)] else attrs)"

section \<open>The error envelope\<close>

text \<open>A JSON document; the members of an object in the order the encoder writes a map, by key.\<close>

datatype json = JString string | JObject "(string \<times> json) list"

record error_reply =
  rp_status :: nat
  rp_content_type :: string
  rp_retry_after :: "int option"
  rp_body :: json

definition write_error :: "string \<Rightarrow> api_error \<Rightarrow> string \<Rightarrow> error_reply" where
  "write_error rid e message = \<lparr>rp_status = ae_status e, rp_content_type = ''application/json'', rp_retry_after = ae_retry e,
     rp_body = JObject ((''error'', JObject [(''code'', JString (ae_code e)), (''message'', JString message), (''type'', JString (ae_type e))]) #
       (if rid \<noteq> [] then [(''request_id'', JString rid)] else []))\<rparr>"

fun json_field :: "string \<Rightarrow> json \<Rightarrow> json option" where
  "json_field k (JObject fs) = map_of fs k"
| "json_field k (JString s) = None"

text \<open>
  A client can tell the error from its reply: status, code and type are those of the error, and
  the reply carries the id under which the log lines of the request are found.
\<close>
theorem error_reply_traceable:
  assumes "length rnd = 16" "\<forall>b \<in> set rnd. b < 256"
    and "r = write_error (request_id header rnd) e message"
  shows "rp_status r = ae_status e \<and>
    (case json_field ''error'' (rp_body r) of None \<Rightarrow> False
     | Some d \<Rightarrow> json_field ''code'' d = Some (JString (ae_code e)) \<and> json_field ''type'' d = Some (JString (ae_type e))) \<and>
    (\<exists>i. valid_request_id i \<and> json_field ''request_id'' (rp_body r) = Some (JString i) \<and>
       (''request_id'', i) \<in> set (handle_record (request_id header rnd) attrs))"
proof -
  have v: "valid_request_id (request_id header rnd)" using request_id_safe [OF assms(1,2)] by blast
  then have "request_id header rnd \<noteq> []" by (auto simp: valid_request_id_def)
  then show ?thesis using v by (simp add: assms(3) write_error_def handle_record_def)
qed

theorem error_reply_traceable_witness:
  "\<exists>i. json_field ''request_id'' (rp_body (write_error (request_id ''abc'' (replicate 16 171)) not_found ''none'')) = Some (JString i) \<and>
     (''request_id'', i) \<in> set (handle_record (request_id ''abc'' (replicate 16 171)) [])"
  using error_reply_traceable [of "replicate 16 171" _ "''abc''" not_found "''none''"] by auto

lemma levels_accepted:
  "map setup_logging [''debug'', ''INFO'', ''Warn'', ''error'', ''trace'', []] =
     [Some LevelDebug, Some LevelInfo, Some LevelWarn, Some LevelError, None, None]"
  by code_simp

end
