(* ===== verification/Spec2Isabelle.thy ===== *)
theory Spec2Isabelle
  imports NodeRaces Books Platform Observability
begin

text \<open>
  Verification of local-ai-proxy, a gateway in front of LLM backends: it authenticates API keys,
  decides who pays, throttles, reserves credits, forwards chat completions to a healthy node,
  relays the answer and settles the charge. Around this path are a user API, an admin API, a
  health poller, a credit ledger in PostgreSQL and the background jobs of the process.

  \<^bold>\<open>How the parts interact.\<close> cmd/proxy/main.go reads the configuration (Config), migrates the schema,
  synchronises the declared nodes, runs the backfills and the first node sweep (Operations) and
  mounts the handlers (Edge). A client request passes CORS, key authentication, billing resolution,
  rate limits, the credit gate and the proxy (Pipeline). The proxy asks the registry for a node,
  holds the estimated cost, forwards, relays and settles the hold (Chat, ChatRelay, ChatFlow over
  Ledger and Registry) and queues a usage row, which the usage writer stores. The poller feeds the
  registry from the node table. Users and administrators change the same database through UserApi,
  AdminApi and AdminNodes. Books lists every operation that writes a balance, a transaction, an
  account, a token, a price or a statistic; Platform runs them, the requests in flight, the sweeper,
  the usage writer and crashes in any order, each store transaction being one step.

  \<^bold>\<open>Foundations.\<close>
  \<^item> Prelude: Go's integer width, API errors, the program combinators (\<open>bindp\<close>, \<open>sql\<close>, \<open>transact\<close>:
    a transaction that fails leaves the state it found).
  \<^item> Float64: float64 arithmetic, a value being the rational it denotes and every operation rounded
    by \<open>rnd64\<close>; the locale \<open>rounding\<close> states what the proofs use of it.
  \<^item> GoTime, GoStrings: time.Time, durations, the calendar; the string functions.
  \<^item> Schema: the tables as the record \<open>db\<close>, DECIMAL(15,6) columns as integers of millionths.
  \<^item> TokenBucket, SharedBucket: the locales \<open>token_bucket\<close> and \<open>shared_bucket\<close>, whose burst bounds
    the limiters of RateLimit, AuthLimit, AdminSafety and Bootstrap obtain by interpretation; the
    locale \<open>budget\<close> bounds a key over its whole history: what passes in any window of a limiter in
    use, after any idle time, is at most the capacity plus what the rate refills.

  \<^bold>\<open>Money.\<close>
  \<^item> Ledger (internal/store/credits.go): reserve, settle, release, grant, sweep, clean-up; the
    invariant that reserved credit is the sum of the pending holds, the audit trail, the exact
    effect of each operation, and that a failed one changes nothing.
  \<^item> Accounts, Federated, CreditRequests, Pricing: registration, service accounts and their tokens,
    start-up backfills; end-user accounts with the monthly allowance, for any interleaving of
    first sights; cap-hit requests and their delivery; prices, usage statistics, cost estimates.

  \<^bold>\<open>Serving.\<close>
  \<^item> Users (internal/store/store.go, internal/user/middleware.go, internal/auth): users, sessions, keys,
    the last-admin guard.
  \<^item> RateLimit, AuthLimit (internal/ratelimit, internal/authlimit, admin/session_limiter.go): the limiters,
    concurrency slots, the bcrypt semaphore.
  \<^item> Gate (internal/billing, ratelimit/middleware.go, credits/middleware.go): who pays, what is refused
    and which bucket it is charged to.
  \<^item> Registry, Nodes, Poller (internal/registry, store/nodes.go, internal/nodesource, internal/poller):
    routing snapshots and round robin, the node table with its validation, declared nodes, probes
    with hysteresis; the locale \<open>node_registry\<close> is the contract between poller and registry.
  \<^item> Chat, ChatRelay, ChatFlow (internal/proxy/proxy.go): admission, forwarding, the stream relay
    against a specification on lines, settlement; what a request costs, and that its hold stays open
    only when the transaction that must close it (\<open>exchange_end\<close>: a release or the charge of the
    counted tokens) returns an error (\<open>closing_error\<close>).
  \<^item> Pipeline (main.go, the client chain): the slot every request returns, and that only
    answered requests cost anything.
  \<^item> ApiBase, Analytics, UserApi (apierror/decode.go, admin/list_filters.go, store/analytics.go,
    admin/usage_analytics.go, user/handler.go): decoding, pagination, the usage reports, the user API.
  \<^item> AdminApi, AdminSafety, AdminNodes (internal/admin): authentication of administrators, every handler,
    what a refused request leaves behind (one exception: a grant whose balance read fails has been
    committed, and the handler panics), node administration up to the routing.
  \<^item> NodeRaces: the deletion of a node beside the poller goroutine and other requests. A reload is a
    read of the table and a later publication, without a lock across the two; a deleted node is
    unroutable at the reply unless some other reload read the table before the deletion and
    publishes after the refresh, and \<open>stale_reload_undoes_deletion\<close> shows that such a reload undoes it.
  \<^item> Config, Bootstrap, Edge, Operations (internal/config, bootstrap, requestid, middleware, health, credits,
    main.go): configuration, the first administrator, request ids and routing tables, health,
    migration, start-up, usage writer, tickers.
  \<^item> Observability (internal/metrics, internal/logging, apierror.go): what the layers report, the
    instrumented handler, the gauges of requests and nodes, the error envelope and its request id.
  \<^item> Books: the operations that write the books and the invariant they keep.
  \<^item> Platform: a step relation over the gateway with any number of requests in flight, all of Books,
    commits that leave the books alone, crashes and restarts; the books balance in every reachable
    state, and every reachable state comes to rest.

  \<^bold>\<open>Conventions.\<close> A struct is a record, an enum a datatype, a handler a function from the state to a
  reply and a state, an error the \<open>Inl\<close> of a sum. \<open>faults\<close> say which statement of a store call
  fails; \<open>env\<close> functions are what other processes commit between two calls of one request. One
  clock reading per request, unless the code depends on two. Go's int is an integer with its
  wrap-around written out (\<open>wrap64\<close>) where a sum can leave 64 bits; SQL INTEGER overflow is an error.

  \<^bold>\<open>Parameters.\<close> Code outside the repository is an argument: bcrypt and SHA-256, random bytes, the JSON
  decoder, URL parsing and joining, net.ParseIP, time.Parse, ParseFloat, the collation and the AVG of
  the database, the HTTP exchange with a node. What is assumed of it (a hash generated from a
  password compares equal; printing parts of a URL and parsing them again) is a named hypothesis, and the
  witness of each such property instantiates it with a concrete function.

  \<^bold>\<open>Bounds and termination.\<close> No model uses fuel. Loops are structural recursions over rows, bytes or
  events; the others have a measure: environment expansion, the relay loop (bytes left), the
  migration (attempts left), the drain (queue length). Float64 holds for magnitudes below
  \<open>2 powi 1024\<close> and without fused multiply-add; ToLower and TrimSpace are ASCII.

  \<^bold>\<open>Abstractions.\<close> Store calls are atomic and serialise in commit order; transaction rows appear in
  insertion order; rolled-back sequences do not advance. Parallel probes are applied one after the
  other. A cap hit, recorded by a goroutine, is applied at the end of its request. A request path is
  the list of its unescaped segments, so the cleaning and redirects of ServeMux are not seen. Read
  errors come after the bytes read; write errors to the client are ignored, as in the code. The
  created_at columns of users, sessions and events, and prose messages, are left out; an end user's
  missing email is the empty string. Platform takes an admission and the end of an exchange as one step
  each. Instants are nanoseconds, where a TIMESTAMPTZ column keeps microseconds (an expiry can be one
  microsecond early). \<open>dec_col\<close> rounds the exact value of a float64 to the column, where the driver
  sends its shortest decimal, so a half-way tie can differ by one millionth. The rows of the final
  drain carry one instant. INTEGER columns refuse what they cannot hold where a handler can send it
  (\<open>fits_integer\<close>, \<open>int32_ok\<close>); the rate limit of a new key and a node's timeout are not checked
  against 32 bits. The upstream deadline starts when the request to the node is built
  (\<open>new_upstream_request\<close>), some time after its hold was stamped: what the sweeper spares is stated
  with that delay. Amounts in requests are rationals, since JSON has no NaN.

  \<^bold>\<open>Not modelled.\<close> The Prometheus client and the rendering of log records and JSON replies by the
  standard library (Observability has the calls, the attributes and the document), which lines are
  logged, the version fields of the health and configuration replies, latencies of the
  health checks, opening and closing the connection pool, signals, time-outs of the HTTP server, and
  the ticker goroutine of the poller (its cycle is modelled). The SQL of the schema is read as the
  types and constraints of Schema. Panics are modelled where the code can reach one (a failed balance read
  after a grant, slicing in the pagination); a panic elsewhere is not, such as that of a node without
  a base URL in newUpstreamRequest, which the poller never registers.
\<close>

end
